(* ===== verification/Prelude.thy ===== *)
theory Prelude
  imports Main "HOL-Library.Word" "HOL-Library.Char_ord" "HOL-Library.List_Lexorder"
begin

text \<open>
  What every component of the server library shares: the fixed-width integers of
  \<^verbatim>\<open>common/common_type.h\<close>, pointers, the ways a C++ operation can go wrong, the byte
  images of integers, and ordered maps (\<^verbatim>\<open>std::map\<close>), with the simplification rules
  and fact collections that the component theories use.
\<close>

unbundle bit_operations_syntax

named_theorems invs \<open>preservation facts of component invariants\<close>
named_theorems codec \<open>round-trip facts of byte encodings\<close>

section \<open>Machine integers and pointers\<close>

type_synonym u8 = "8 word"
type_synonym u16 = "16 word"
type_synonym u32 = "32 word"
type_synonym u64 = "64 word"

text \<open>Objects are named by addresses; address 0 is the null pointer.\<close>

type_synonym ptr = nat

abbreviation (input) NULL :: ptr where
  "NULL \<equiv> 0"

section \<open>Faults\<close>

text \<open>
  An operation of the source that raises an exception, fails an assertion or has undefined
  behaviour in C++ returns a fault instead of a value.
\<close>

datatype fault =
    Assert_Failed
  | Buff_Exception string
  | Out_Of_Range
  | Bad_Iterator
  | Use_After_Free
  | Null_Deref
  | Uninitialised
  | Runtime_Error string

type_synonym 'a result = "fault + 'a"

fun bind_result :: "'a result \<Rightarrow> ('a \<Rightarrow> 'b result) \<Rightarrow> 'b result" where
  "bind_result (Inl e) f = Inl e"
| "bind_result (Inr x) f = f x"

lemma bind_result_Inr_iff [simp]:
  "bind_result r f = Inr y \<longleftrightarrow> (\<exists>x. r = Inr x \<and> f x = Inr y)"
  by (cases r) auto

lemma bind_result_assoc:
  "bind_result (bind_result r f) g = bind_result r (\<lambda>x. bind_result (f x) g)"
  by (cases r) auto

section \<open>Little-endian images of integers\<close>

text \<open>
  The code stores integers by casting a buffer position to an integer pointer or by
  \<^verbatim>\<open>memcpy\<close>; on the x86 targets of the build the image is little-endian.
\<close>

definition le_bytes :: "nat \<Rightarrow> 'a::len word \<Rightarrow> u8 list" where
  "le_bytes n w = map (\<lambda>i. ucast (drop_bit (8 * i) w)) [0..<n]"

fun le_nat :: "u8 list \<Rightarrow> nat" where
  "le_nat [] = 0"
| "le_nat (b # bs) = unat b + 256 * le_nat bs"

definition le_word :: "u8 list \<Rightarrow> 'a::len word" where
  "le_word bs = word_of_nat (le_nat bs)"

lemma length_le_bytes [simp]: "length (le_bytes n w) = n"
  by (simp add: le_bytes_def)

lemma le_bytes_Suc:
  "le_bytes (Suc n) w = ucast w # le_bytes n (drop_bit 8 w)"
  by (simp add: le_bytes_def upt_conv_Cons map_Suc_upt [symmetric] del: upt_Suc)
     (simp add: ac_simps)

lemma le_nat_le_bytes: "le_nat (le_bytes n w) = unat w mod 256 ^ n"
proof (induction n arbitrary: w)
  case 0
  then show ?case by (simp add: le_bytes_def)
next
  case (Suc n)
  have low: "unat (ucast w :: u8) = unat w mod 256"
    by (simp add: unsigned_ucast_eq take_bit_eq_mod)
  have high: "unat (drop_bit 8 w) = unat w div 256"
    unfolding unat_drop_bit_eq by (simp add: drop_bit_eq_div)
  show ?case
    by (simp add: le_bytes_Suc Suc.IH low high mod_mult2_eq)
qed

lemma le_word_le_bytes [simp, codec]:
  fixes w :: "'a::len word"
  assumes "LENGTH('a) \<le> 8 * n"
  shows "le_word (le_bytes n w) = w"
proof -
  have "unat w < 2 ^ LENGTH('a)" by simp
  also have "(2 :: nat) ^ LENGTH('a) \<le> 2 ^ (8 * n)"
    using assms by (intro power_increasing) auto
  also have "(2 :: nat) ^ (8 * n) = 256 ^ n"
    by (simp add: power_mult)
  finally have "unat w mod 256 ^ n = unat w"
    by simp
  then show ?thesis
    by (simp add: le_word_def le_nat_le_bytes)
qed

lemma le_nat_bound: "le_nat bs < 256 ^ length bs"
proof (induction bs)
  case Nil
  then show ?case by simp
next
  case (Cons b bs)
  have "unat b < 256"
    using unsigned_less [of b, where ?'a = nat] by simp
  moreover have "le_nat bs + 1 \<le> 256 ^ length bs"
    using Cons.IH by simp
  then have "256 * (le_nat bs + 1) \<le> 256 * 256 ^ length bs"
    by (rule mult_le_mono2)
  ultimately show ?case by simp
qed

section \<open>Ordered maps\<close>

text \<open>
  \<^verbatim>\<open>std::map\<close> keeps its entries in ascending key order and the code iterates over
  it in that order, so a map is the list of its entries. \<open>om_ok\<close> is its representation
  invariant; \<open>map_of\<close> is the partial function it stands for.
\<close>

type_synonym ('k, 'v) omap = "('k \<times> 'v) list"

definition om_ok :: "('k::linorder, 'v) omap \<Rightarrow> bool" where
  "om_ok m \<longleftrightarrow> sorted (map fst m) \<and> distinct (map fst m)"

text \<open>\<^verbatim>\<open>m.find(k)\<close>.\<close>

abbreviation om_find :: "('k::linorder, 'v) omap \<Rightarrow> 'k \<Rightarrow> 'v option" where
  "om_find m k \<equiv> map_of m k"

text \<open>\<^verbatim>\<open>m[k] = v\<close>.\<close>

fun om_set :: "'k::linorder \<Rightarrow> 'v \<Rightarrow> ('k, 'v) omap \<Rightarrow> ('k, 'v) omap" where
  "om_set k v [] = [(k, v)]"
| "om_set k v (e # m) =
     (if k = fst e then (k, v) # m
      else if k < fst e then (k, v) # e # m
      else e # om_set k v m)"

text \<open>\<^verbatim>\<open>m.insert(value_type(k, v))\<close>: an existing entry stays.\<close>

definition om_insert :: "'k::linorder \<Rightarrow> 'v \<Rightarrow> ('k, 'v) omap \<Rightarrow> ('k, 'v) omap" where
  "om_insert k v m = (case om_find m k of None \<Rightarrow> om_set k v m | Some _ \<Rightarrow> m)"

text \<open>\<^verbatim>\<open>m.erase(k)\<close>.\<close>

definition om_erase :: "'k::linorder \<Rightarrow> ('k, 'v) omap \<Rightarrow> ('k, 'v) omap" where
  "om_erase k m = filter (\<lambda>e. fst e \<noteq> k) m"

lemma om_find_set [simp]: "om_find (om_set k v m) = (om_find m)(k \<mapsto> v)"
  by (induction m) auto

lemma om_set_set [simp]: "om_set k v (om_set k w m) = om_set k v m"
  by (induction m) auto

lemma om_find_erase [simp]: "om_find (om_erase k m) = (om_find m)(k := None)"
  by (induction m) (auto simp: om_erase_def fun_eq_iff)

lemma om_find_insert:
  "om_find (om_insert k v m) = (if k \<in> dom (om_find m) then om_find m else (om_find m)(k \<mapsto> v))"
  by (auto simp: om_insert_def split: option.splits)

lemma set_fst_om_set [simp]: "fst ` set (om_set k v m) = insert k (fst ` set m)"
  by (induction m) auto

lemma om_ok_Nil [simp]: "om_ok []"
  by (simp add: om_ok_def)

lemma om_ok_Cons [simp]:
  "om_ok (e # m) \<longleftrightarrow> (\<forall>x \<in> fst ` set m. fst e < x) \<and> om_ok m"
  by (auto simp: om_ok_def order_less_le)

lemma om_ok_set [invs, simp]: "om_ok m \<Longrightarrow> om_ok (om_set k v m)"
  by (induction m) auto

lemma om_ok_filter [invs, simp]: "om_ok m \<Longrightarrow> om_ok (filter P m)"
  by (induction m) auto

lemma om_ok_erase [invs, simp]: "om_ok m \<Longrightarrow> om_ok (om_erase k m)"
  by (simp add: om_erase_def)

lemma om_ok_insert [invs, simp]: "om_ok m \<Longrightarrow> om_ok (om_insert k v m)"
  by (simp add: om_insert_def split: option.splits)

lemma om_ok_distinct: "om_ok m \<Longrightarrow> distinct (map fst m)"
  by (simp add: om_ok_def)

lemma om_find_filter_value:
  "om_ok m \<Longrightarrow> om_find (filter (\<lambda>e. P (snd e)) m) k =
     (case om_find m k of Some v \<Rightarrow> if P v then Some v else None | None \<Rightarrow> None)"
proof (induction m)
  case Nil
  then show ?case by simp
next
  case (Cons e m)
  have "k = fst e \<Longrightarrow> om_find (filter (\<lambda>e. P (snd e)) m) k = None"
    using Cons.prems by (auto simp: map_of_eq_None_iff)
  with Cons show ?case
    by (cases e) auto
qed

lemma om_mem_iff: "om_ok m \<Longrightarrow> (k, v) \<in> set m \<longleftrightarrow> om_find m k = Some v"
  by (simp add: om_ok_distinct)

lemma length_om_set:
  "om_ok m \<Longrightarrow>
   length (om_set k v m) = (if k \<in> dom (om_find m) then length m else Suc (length m))"
proof (induction m)
  case Nil
  then show ?case by simp
next
  case (Cons e m)
  have "k < fst e \<Longrightarrow> k \<notin> dom (om_find m)"
    using Cons.prems by (auto simp: dom_map_of_conv_image_fst)
  with Cons show ?case
    by (cases e) auto
qed

section \<open>Lists\<close>

lemma list_update_take_drop:
  "i < length xs \<Longrightarrow> xs[i := x] = take i xs @ x # drop (Suc i) xs"
  by (rule upd_conv_take_nth_drop)

lemma sum_list_filter_split:
  fixes f :: "'a \<Rightarrow> nat"
  shows "sum_list (map f xs) = sum_list (map f (filter P xs)) + sum_list (map f (filter (\<lambda>x. \<not> P x) xs))"
  by (induction xs) auto

end
