(* ===== verification/Containers.thy ===== *)
theory Containers
  imports Prelude
begin

text \<open>
  The two container templates of \<^verbatim>\<open>common/common_template.h\<close>: \<open>obj_ptr_map\<close> (values
  are pointers, a missing key reads as the null pointer) and \<open>obj_map\<close> (values are copied
  through a reference parameter). Both wrap a \<^verbatim>\<open>std::map\<close>. The interface both offer to
  the session managers is the locale \<open>keyed_store\<close>.
\<close>

section \<open>obj_ptr_map\<close>

type_synonym 'k ptr_map = "('k, ptr) omap"

definition ptr_map_getData :: "'k::linorder ptr_map \<Rightarrow> 'k \<Rightarrow> ptr" where
  "ptr_map_getData m k = (case om_find m k of Some p \<Rightarrow> p | None \<Rightarrow> NULL)"

definition ptr_map_getSize :: "'k::linorder ptr_map \<Rightarrow> nat" where
  "ptr_map_getSize m = length m"

definition ptr_map_addData :: "'k::linorder \<Rightarrow> ptr \<Rightarrow> 'k ptr_map \<Rightarrow> bool \<times> 'k ptr_map" where
  "ptr_map_addData k p m =
     (case om_find m k of None \<Rightarrow> (True, om_set k p m) | Some _ \<Rightarrow> (False, m))"

definition ptr_map_eraseData :: "'k::linorder \<Rightarrow> 'k ptr_map \<Rightarrow> ptr \<times> 'k ptr_map" where
  "ptr_map_eraseData k m =
     (case om_find m k of Some p \<Rightarrow> (p, om_erase k m) | None \<Rightarrow> (NULL, m))"

section \<open>obj_map\<close>

text \<open>
  \<open>getData(id, T& data)\<close> leaves the caller's variable as it was when the key is missing: the
  model takes the variable's old value and returns the new one.
\<close>

definition obj_map_getData :: "('k::linorder, 'v) omap \<Rightarrow> 'k \<Rightarrow> 'v \<Rightarrow> bool \<times> 'v" where
  "obj_map_getData m k old = (case om_find m k of Some v \<Rightarrow> (True, v) | None \<Rightarrow> (False, old))"

definition obj_map_hasData :: "('k::linorder, 'v) omap \<Rightarrow> 'k \<Rightarrow> bool" where
  "obj_map_hasData m k = (om_find m k \<noteq> None)"

definition obj_map_addData ::
    "'k::linorder \<Rightarrow> 'v \<Rightarrow> ('k, 'v) omap \<Rightarrow> bool \<times> ('k, 'v) omap" where
  "obj_map_addData k v m =
     (case om_find m k of None \<Rightarrow> (True, om_set k v m) | Some _ \<Rightarrow> (False, m))"

definition obj_map_getSize :: "('k::linorder, 'v) omap \<Rightarrow> nat" where
  "obj_map_getSize m = length m"

definition obj_map_takeData ::
    "'k::linorder \<Rightarrow> 'v \<Rightarrow> ('k, 'v) omap \<Rightarrow> bool \<times> 'v \<times> ('k, 'v) omap" where
  "obj_map_takeData k old m =
     (case om_find m k of Some v \<Rightarrow> (True, v, om_erase k m) | None \<Rightarrow> (False, old, m))"

definition obj_map_eraseData :: "'k::linorder \<Rightarrow> ('k, 'v) omap \<Rightarrow> bool \<times> ('k, 'v) omap" where
  "obj_map_eraseData k m =
     (case om_find m k of Some _ \<Rightarrow> (True, om_erase k m) | None \<Rightarrow> (False, m))"

text \<open>\<open>getKey\<close>: the loop walks the entries in key order and stops at the first hit.\<close>

fun obj_map_getKey :: "('k::linorder, 'v) omap \<Rightarrow> 'k \<Rightarrow> 'v \<Rightarrow> bool \<times> 'k" where
  "obj_map_getKey [] old t = (False, old)"
| "obj_map_getKey (e # m) old t =
     (if snd e = t then (True, fst e) else obj_map_getKey m old t)"

text \<open>
  \<open>eraseValue\<close> has two bodies. Under \<open>WIN32\<close> the iterator is replaced by the one
  \<open>erase\<close> returns. In the other build the erased iterator itself is incremented, which
  is undefined behaviour: that body returns a fault as soon as an entry has been erased.
\<close>

fun obj_map_eraseValue :: "'v \<Rightarrow> ('k::linorder, 'v) omap \<Rightarrow> ('k, 'v) omap" where
  "obj_map_eraseValue v [] = []"
| "obj_map_eraseValue v (e # m) =
     (if snd e = v then obj_map_eraseValue v m else e # obj_map_eraseValue v m)"

fun obj_map_eraseValue_posix ::
    "'v \<Rightarrow> ('k::linorder, 'v) omap \<Rightarrow> (('k, 'v) omap) result" where
  "obj_map_eraseValue_posix v [] = Inr []"
| "obj_map_eraseValue_posix v (e # m) =
     (if snd e = v then Inl Bad_Iterator
      else bind_result (obj_map_eraseValue_posix v m) (\<lambda>m'. Inr (e # m')))"

lemma obj_map_eraseValue_filter: "obj_map_eraseValue v m = filter (\<lambda>e. snd e \<noteq> v) m"
  by (induction m) auto

lemma om_ok_eraseValue [invs, simp]: "om_ok m \<Longrightarrow> om_ok (obj_map_eraseValue v m)"
  by (simp add: obj_map_eraseValue_filter)

lemma om_find_eraseValue:
  "om_ok m \<Longrightarrow> om_find (obj_map_eraseValue v m) k =
     (if om_find m k = Some v then None else om_find m k)"
  using om_find_filter_value [of m "\<lambda>x. x \<noteq> v" k]
  by (auto simp: obj_map_eraseValue_filter split: option.splits)

lemma eraseValue_posix_cases:
  "obj_map_eraseValue_posix v m =
     (if v \<in> snd ` set m then Inl Bad_Iterator else Inr (obj_map_eraseValue v m))"
  by (induction m) auto

lemma getKey_found_mem:
  "obj_map_getKey m old t = (True, k) \<Longrightarrow> (k, t) \<in> set m"
  by (induction m) (auto split: if_splits)

lemma getKey_least:
  "om_ok m \<Longrightarrow> obj_map_getKey m old t = (True, k) \<Longrightarrow> (k', t) \<in> set m \<Longrightarrow> k \<le> k'"
proof (induction m)
  case Nil
  then show ?case by simp
next
  case (Cons e m)
  show ?case
  proof (cases "snd e = t")
    case True
    with Cons.prems have "k = fst e" and "\<forall>x \<in> fst ` set m. fst e < x" by auto
    with Cons.prems(3) show ?thesis by (auto intro: less_imp_le)
  next
    case False
    with Cons show ?thesis by auto
  qed
qed

lemma getKey_not_found:
  "obj_map_getKey m old t = (False, k) \<longleftrightarrow> t \<notin> snd ` set m \<and> k = old"
  by (induction m) auto

section \<open>The interface of the two templates\<close>

text \<open>
  What the session managers rely on: an insertion never overwrites, a deletion removes one
  key and nothing else, and both keep the representation invariant.
\<close>

locale keyed_store =
  fixes lookup :: "'m \<Rightarrow> 'k \<Rightarrow> 'v option"
    and add :: "'k \<Rightarrow> 'v \<Rightarrow> 'm \<Rightarrow> bool \<times> 'm"
    and remove :: "'k \<Rightarrow> 'm \<Rightarrow> 'm"
    and size_of :: "'m \<Rightarrow> nat"
    and ok :: "'m \<Rightarrow> bool"
  assumes add_result: "fst (add k v m) \<longleftrightarrow> lookup m k = None"
    and lookup_add: "lookup (snd (add k v m)) k' =
          (if k' = k \<and> lookup m k = None then Some v else lookup m k')"
    and lookup_remove: "lookup (remove k m) k' = (if k' = k then None else lookup m k')"
    and add_ok: "ok m \<Longrightarrow> ok (snd (add k v m))"
    and remove_ok: "ok m \<Longrightarrow> ok (remove k m)"
    and size_add: "ok m \<Longrightarrow> size_of (snd (add k v m)) =
          (if lookup m k = None then Suc (size_of m) else size_of m)"
begin

lemma add_keeps_existing:
  "lookup m k = Some w \<Longrightarrow> lookup (snd (add k v m)) = lookup m"
  by (auto simp: lookup_add)

lemma add_twice: "lookup (snd (add k w (snd (add k v m)))) = lookup (snd (add k v m))"
  by (rule ext) (simp add: lookup_add)

lemma remove_then_add_replaces: "lookup (snd (add k v (remove k m))) k = Some v"
  by (simp add: lookup_add lookup_remove)

lemma remove_fresh_add:
  "lookup m k = None \<Longrightarrow> lookup (remove k (snd (add k v m))) = lookup m"
  by (auto simp: lookup_add lookup_remove)

lemma add_bounds_size:
  "ok m \<Longrightarrow> size_of m \<le> size_of (snd (add k v m)) \<and> size_of (snd (add k v m)) \<le> Suc (size_of m)"
  by (simp add: size_add)

end

interpretation ptr_store: keyed_store
  "om_find :: 'k::linorder ptr_map \<Rightarrow> 'k \<Rightarrow> ptr option"
  ptr_map_addData "\<lambda>k m. snd (ptr_map_eraseData k m)" ptr_map_getSize om_ok
  by unfold_locales
    (auto simp: ptr_map_addData_def ptr_map_eraseData_def ptr_map_getSize_def length_om_set
      split: option.splits)

interpretation val_store: keyed_store
  "om_find :: ('k::linorder, 'v) omap \<Rightarrow> 'k \<Rightarrow> 'v option"
  obj_map_addData "\<lambda>k m. snd (obj_map_eraseData k m)" obj_map_getSize om_ok
  by unfold_locales
    (auto simp: obj_map_addData_def obj_map_eraseData_def obj_map_getSize_def length_om_set
      split: option.splits)

lemma ptr_map_getData_find: "ptr_map_getData m k \<noteq> NULL \<Longrightarrow> om_find m k = Some (ptr_map_getData m k)"
  by (simp add: ptr_map_getData_def split: option.splits)

lemma ptr_map_getData_add:
  "ptr_map_getData (snd (ptr_map_addData k p m)) k' =
     (if k' = k \<and> k \<notin> dom (om_find m) then p else ptr_map_getData m k')"
  by (auto simp: ptr_map_getData_def ptr_map_addData_def split: option.splits)

lemma ptr_map_getData_erase:
  "ptr_map_getData (snd (ptr_map_eraseData k m)) k' =
     (if k' = k then NULL else ptr_map_getData m k')"
  by (auto simp: ptr_map_getData_def ptr_map_eraseData_def split: option.splits)

lemma om_ok_ptr_map [invs, simp]:
  "om_ok m \<Longrightarrow> om_ok (snd (ptr_map_addData k p m))"
  "om_ok m \<Longrightarrow> om_ok (snd (ptr_map_eraseData k m))"
  by (rule ptr_store.add_ok ptr_store.remove_ok, assumption)+

lemma om_ok_obj_map [invs, simp]:
  "om_ok m \<Longrightarrow> om_ok (snd (obj_map_addData k v m))"
  "om_ok m \<Longrightarrow> om_ok (snd (obj_map_eraseData k m))"
  "om_ok m \<Longrightarrow> om_ok (snd (snd (obj_map_takeData k old m)))"
  by (simp_all add: obj_map_addData_def obj_map_eraseData_def obj_map_takeData_def
      split: option.splits)

section \<open>Properties\<close>

text \<open>\<open>obj_map::eraseValue\<close> (WIN32 body) removes exactly the entries holding the
  value, keeps every other binding, and afterwards \<open>getKey\<close> finds no key for it.\<close>

theorem eraseValue_exact:
  assumes "om_ok m"
  shows "om_ok (obj_map_eraseValue v m)
    \<and> om_find (obj_map_eraseValue v m) k = (if om_find m k = Some v then None else om_find m k)
    \<and> obj_map_getKey (obj_map_eraseValue v m) old v = (False, old)"
proof -
  have "v \<notin> snd ` set (obj_map_eraseValue v m)"
    by (auto simp: obj_map_eraseValue_filter)
  then show ?thesis
    using assms by (simp add: om_find_eraseValue getKey_not_found)
qed

theorem eraseValue_exact_witness:
  "om_find (obj_map_eraseValue (7 :: u32) [(1 :: u64, 7), (2, 8), (3, 7)]) 2 = Some 8"
proof -
  have "om_ok [(1 :: u64, 7 :: u32), (2, 8), (3, 7)]" by simp
  from eraseValue_exact [OF this, of 7 2 0] show ?thesis by simp
qed

end
