(* ===== verification/Call_Back.thy ===== *)
theory Call_Back
  imports Prelude
begin

text \<open>
  The double-buffered queue that \<^verbatim>\<open>call_back_mgr\<close> (\<^verbatim>\<open>common/call_back.cpp\<close>), the receive
  queues of \<^verbatim>\<open>tcp_server\<close> and \<^verbatim>\<open>tcp_client\<close> and \<^verbatim>\<open>task_thread\<close> all contain: producers
  append to the current queue under a mutex, the single consumer flips the current index
  under the same mutex and then drains the other queue without holding it. The locale
  \<open>double_buffer\<close> is that contract; its lemmas hold for every interleaving of producers with
  the consumer. \<open>call_back_mgr\<close> is the first provider.
\<close>

section \<open>Two queues and a current index\<close>

record 'a two_queue =
  slots :: "'a list list"
  current :: nat

definition two_queue_empty :: "'a two_queue" where
  "two_queue_empty = \<lparr>slots = [[], []], current = 0\<rparr>"

text \<open>The C expression \<^verbatim>\<open>!i\<close> on the index.\<close>

definition flip :: "nat \<Rightarrow> nat" where
  "flip i = (if i = 0 then 1 else 0)"

definition enqueue :: "'a \<Rightarrow> 'a two_queue \<Rightarrow> 'a two_queue" where
  "enqueue x q = q\<lparr>slots := (slots q)[current q := slots q ! current q @ [x]]\<rparr>"

definition turn :: "'a two_queue \<Rightarrow> (nat \<times> 'a two_queue) option" where
  "turn q =
     (if slots q ! current q = [] then None
      else Some (current q, q\<lparr>current := flip (current q)\<rparr>))"

definition dequeue :: "nat \<Rightarrow> 'a two_queue \<Rightarrow> ('a \<times> 'a two_queue) option" where
  "dequeue i q =
     (case slots q ! i of [] \<Rightarrow> None | x # xs \<Rightarrow> Some (x, q\<lparr>slots := (slots q)[i := xs]\<rparr>))"

section \<open>Interleavings\<close>

text \<open>
  A configuration: the queue state, where the consumer is (\<open>None\<close>: between two polls,
  \<open>Some i\<close>: draining queue \<open>i\<close>), and the history of what has been pushed and handled.
\<close>

record ('s, 'a) config =
  store :: 's
  draining :: "nat option"
  pushed :: "'a list"
  handled :: "'a list"

inductive queue_step ::
    "('a \<Rightarrow> 's \<Rightarrow> 's) \<Rightarrow> ('s \<Rightarrow> (nat \<times> 's) option) \<Rightarrow> (nat \<Rightarrow> 's \<Rightarrow> ('a \<times> 's) option)
     \<Rightarrow> ('s, 'a) config \<Rightarrow> ('s, 'a) config \<Rightarrow> bool"
  for push begin_drain pop where
  push: "queue_step push begin_drain pop c
           (c\<lparr>store := push x (store c), pushed := pushed c @ [x]\<rparr>)"
| begin_drain: "draining c = None \<Longrightarrow> begin_drain (store c) = Some (i, s) \<Longrightarrow>
     queue_step push begin_drain pop c (c\<lparr>store := s, draining := Some i\<rparr>)"
| handle: "draining c = Some i \<Longrightarrow> pop i (store c) = Some (x, s) \<Longrightarrow>
     queue_step push begin_drain pop c (c\<lparr>store := s, handled := handled c @ [x]\<rparr>)"
| end_drain: "draining c = Some i \<Longrightarrow> pop i (store c) = None \<Longrightarrow>
     queue_step push begin_drain pop c (c\<lparr>draining := None\<rparr>)"

inductive queue_reach ::
    "('a \<Rightarrow> 's \<Rightarrow> 's) \<Rightarrow> ('s \<Rightarrow> (nat \<times> 's) option) \<Rightarrow> (nat \<Rightarrow> 's \<Rightarrow> ('a \<times> 's) option)
     \<Rightarrow> 's \<Rightarrow> ('s, 'a) config \<Rightarrow> bool"
  for push begin_drain pop s0 where
  start: "queue_reach push begin_drain pop s0
            \<lparr>store = s0, draining = None, pushed = [], handled = []\<rparr>"
| step: "queue_reach push begin_drain pop s0 c \<Longrightarrow> queue_step push begin_drain pop c d \<Longrightarrow>
     queue_reach push begin_drain pop s0 d"

inductive_simps queue_step_iff: "queue_step push begin_drain pop c d"

text \<open>A whole drain of one queue by the consumer alone, as the body of \<open>poll\<close> runs it.\<close>

fun drain :: "(nat \<Rightarrow> 's \<Rightarrow> ('a \<times> 's) option) \<Rightarrow> nat \<Rightarrow> nat \<Rightarrow> 's \<Rightarrow> 'a list \<times> 's" where
  "drain pop i 0 s = ([], s)"
| "drain pop i (Suc fuel) s =
     (case pop i s of
        None \<Rightarrow> ([], s)
      | Some (x, s') \<Rightarrow> (let (xs, t) = drain pop i fuel s' in (x # xs, t)))"

section \<open>The contract\<close>

locale double_buffer =
  fixes queues :: "'s \<Rightarrow> 'a list list"
    and cur :: "'s \<Rightarrow> nat"
    and push :: "'a \<Rightarrow> 's \<Rightarrow> 's"
    and begin_drain :: "'s \<Rightarrow> (nat \<times> 's) option"
    and pop :: "nat \<Rightarrow> 's \<Rightarrow> ('a \<times> 's) option"
  assumes queues_push: "queues (push x s) = (queues s)[cur s := queues s ! cur s @ [x]]"
    and cur_push: "cur (push x s) = cur s"
    and begin_drain_iff: "begin_drain s = Some (i, t) \<Longrightarrow>
          i = cur s \<and> queues s ! cur s \<noteq> [] \<and> queues t = queues s \<and> cur t = flip (cur s)"
    and begin_drain_None: "begin_drain s = None \<longleftrightarrow> queues s ! cur s = []"
    and pop_iff: "i < length (queues s) \<Longrightarrow> pop i s = Some (x, t) \<Longrightarrow>
          queues s ! i = x # queues t ! i \<and> queues t = (queues s)[i := queues t ! i] \<and> cur t = cur s"
    and pop_None: "pop i s = None \<longleftrightarrow> queues s ! i = []"
begin

text \<open>
  Everything pushed is handled, or waits in the queue being drained, or waits in the current
  queue, in this order; between two polls the other queue is empty.
\<close>

definition fifo_inv :: "('s, 'a) config \<Rightarrow> bool" where
  "fifo_inv c \<longleftrightarrow>
     length (queues (store c)) = 2 \<and> cur (store c) < 2
     \<and> (\<forall>i. draining c = Some i \<longrightarrow> i = flip (cur (store c)))
     \<and> (draining c = None \<longrightarrow> queues (store c) ! flip (cur (store c)) = [])
     \<and> pushed c = handled c @ queues (store c) ! flip (cur (store c))
                     @ queues (store c) ! cur (store c)"

lemma fifo_inv_step:
  assumes "queue_step push begin_drain pop c d" and "fifo_inv c"
  shows "fifo_inv d"
  using assms
proof (cases rule: queue_step.cases)
  case (push x)
  then show ?thesis
    using assms(2) by (auto simp: fifo_inv_def queues_push cur_push flip_def nth_list_update)
next
  case (begin_drain i s)
  from begin_drain_iff [OF begin_drain(3)] begin_drain(1,2) assms(2) show ?thesis
    by (auto simp: fifo_inv_def flip_def less_2_cases_iff)
next
  case (handle i x s)
  from assms(2) handle(2) have i: "i = flip (cur (store c))" and len: "length (queues (store c)) = 2"
    by (auto simp: fifo_inv_def)
  then have "i < length (queues (store c))" by (simp add: flip_def)
  from pop_iff [OF this handle(3)]
  have eq: "queues (store c) ! i = x # queues s ! i" "cur s = cur (store c)"
      "queues s = (queues (store c))[i := queues s ! i]"
    by auto
  have other: "queues s ! cur (store c) = queues (store c) ! cur (store c)"
    by (subst eq(3)) (simp add: i flip_def)
  have len_s: "length (queues s) = 2"
    by (subst eq(3)) (simp add: len)
  show ?thesis
    using assms(2) handle eq(1,2) other len_s i by (auto simp: fifo_inv_def)
next
  case (end_drain i)
  then show ?thesis
    using assms(2) by (auto simp: fifo_inv_def pop_None)
qed

theorem fifo:
  assumes "queue_reach push begin_drain pop s0 c"
    and "queues s0 = [[], []]" and "cur s0 < 2"
  shows "pushed c = handled c @ queues (store c) ! flip (cur (store c))
                       @ queues (store c) ! cur (store c)"
proof -
  from assms have "fifo_inv c"
  proof (induction rule: queue_reach.induct)
    case start
    then show ?case
      by (auto simp: fifo_inv_def flip_def less_2_cases_iff)
  next
    case (step c d)
    then show ?case by (blast intro: fifo_inv_step)
  qed
  then show ?thesis by (simp add: fifo_inv_def)
qed

text \<open>A drain on its own handles the whole queue, in order, and leaves it empty.\<close>

lemma drain_all:
  "length (queues s ! i) \<le> fuel \<Longrightarrow> i < length (queues s) \<Longrightarrow>
   fst (drain pop i fuel s) = queues s ! i
   \<and> queues (snd (drain pop i fuel s)) = (queues s)[i := []]
   \<and> cur (snd (drain pop i fuel s)) = cur s"
proof (induction fuel arbitrary: s)
  case 0
  then have "queues s ! i = []" by simp
  then show ?case
    by (metis drain.simps(1) fst_conv snd_conv list_update_id)
next
  case (Suc fuel)
  show ?case
  proof (cases "pop i s")
    case None
    then have "queues s ! i = []" by (simp add: pop_None)
    then show ?thesis using None by (metis (no_types, lifting) drain.simps(2) fst_conv
        list_update_id option.simps(4) snd_conv)
  next
    case (Some r)
    then obtain x t where r: "pop i s = Some (x, t)" by (cases r) auto
    note p = pop_iff [OF Suc.prems(2) r]
    have i_t: "i < length (queues t)"
      using p Suc.prems(2) by (metis length_list_update)
    have "length (queues t ! i) \<le> fuel"
      using p Suc.prems(1) by simp
    from Suc.IH [OF this i_t] have IH:
      "fst (drain pop i fuel t) = queues t ! i"
      "queues (snd (drain pop i fuel t)) = (queues t)[i := []]"
      "cur (snd (drain pop i fuel t)) = cur t"
      by auto
    have "(queues t)[i := []] = (queues s)[i := []]"
      using p by (metis list_update_overwrite)
    with IH p r show ?thesis
      by (simp add: case_prod_beta Let_def)
  qed
qed

end

lemma two_queue_contract: "double_buffer slots current enqueue turn dequeue"
proof
  fix x :: 'a and q :: "'a two_queue"
  show "slots (enqueue x q) = (slots q)[current q := slots q ! current q @ [x]]"
    and "current (enqueue x q) = current q"
    by (simp_all add: enqueue_def)
next
  fix q r :: "'a two_queue" and i
  show "turn q = Some (i, r) \<Longrightarrow>
      i = current q \<and> slots q ! current q \<noteq> [] \<and> slots r = slots q \<and> current r = flip (current q)"
    and "turn q = None \<longleftrightarrow> slots q ! current q = []"
    by (auto simp: turn_def split: if_splits)
next
  fix x and q r :: "'a two_queue" and i
  assume i: "i < length (slots q)" and "dequeue i q = Some (x, r)"
  then obtain xs where "slots q ! i = x # xs" "r = q\<lparr>slots := (slots q)[i := xs]\<rparr>"
    by (auto simp: dequeue_def split: list.splits)
  with i show "slots q ! i = x # slots r ! i \<and> slots r = (slots q)[i := slots r ! i]
      \<and> current r = current q"
    by simp
next
  fix q :: "'a two_queue" and i
  show "dequeue i q = None \<longleftrightarrow> slots q ! i = []"
    by (auto simp: dequeue_def split: list.splits)
qed

section \<open>call_back_mgr\<close>

text \<open>
  \<^verbatim>\<open>std::queue<i_call*> m_listcb[2]\<close> and \<open>m_current_queue\<close>; the callbacks themselves are
  of a type parameter. The flag \<^verbatim>\<open>m_changeflag\<close> is never read.
\<close>

type_synonym 'a call_back_mgr = "'a two_queue"

definition cb_init :: "'a call_back_mgr" where
  "cb_init = two_queue_empty"

definition add_cb :: "'a \<Rightarrow> 'a call_back_mgr \<Rightarrow> 'a call_back_mgr" where
  "add_cb f m = enqueue f m"

definition poll_begin :: "'a call_back_mgr \<Rightarrow> (nat \<times> 'a call_back_mgr) option" where
  "poll_begin m = turn m"

definition poll_next :: "nat \<Rightarrow> 'a call_back_mgr \<Rightarrow> ('a \<times> 'a call_back_mgr) option" where
  "poll_next i m = dequeue i m"

text \<open>
  \<open>poll\<close> with no concurrent producer: the callbacks it runs, in order, and the state it leaves.
\<close>

definition poll :: "'a call_back_mgr \<Rightarrow> 'a list \<times> 'a call_back_mgr" where
  "poll m =
     (case poll_begin m of
        None \<Rightarrow> ([], m)
      | Some (i, m') \<Rightarrow> drain poll_next i (length (slots m' ! i)) m')"

text \<open>
  \<open>clear\<close> loops while a queue is \<^emph>\<open>empty\<close>: on an empty queue it reads the front of an empty
  \<^verbatim>\<open>std::queue\<close>, which is undefined; a non-empty queue is left as it is.
\<close>

definition clear_queue :: "'a list \<Rightarrow> ('a list) result" where
  "clear_queue q = (if q = [] then Inl Out_Of_Range else Inr q)"

definition cb_clear :: "'a call_back_mgr \<Rightarrow> ('a call_back_mgr) result" where
  "cb_clear m =
     bind_result (clear_queue (slots m ! 0)) (\<lambda>q0.
     bind_result (clear_queue (slots m ! 1)) (\<lambda>q1. Inr (m\<lparr>slots := [q0, q1]\<rparr>)))"

lemma cb_ops: "add_cb = enqueue" "poll_begin = turn" "poll_next = dequeue"
  by (simp_all add: fun_eq_iff add_cb_def poll_begin_def poll_next_def)

interpretation cb: double_buffer slots current add_cb poll_begin poll_next
  unfolding cb_ops by (rule two_queue_contract)

text \<open>C18: under any interleaving of threads adding callbacks with the polling thread, the
  callbacks run so far are exactly the first ones added, in the order they were added: none is
  lost, duplicated or reordered; the rest wait in the two queues.\<close>

theorem call_back_fifo:
  assumes "queue_reach add_cb poll_begin poll_next cb_init c"
  shows "pushed c = handled c @ slots (store c) ! flip (current (store c))
                       @ slots (store c) ! current (store c)"
  using assms by (rule cb.fifo) (simp_all add: cb_init_def two_queue_empty_def)

theorem call_back_fifo_witness:
  "pushed \<lparr>store = add_cb (3 :: nat) cb_init, draining = None, pushed = [3], handled = []\<rparr>
     = [] @ slots (add_cb 3 cb_init) ! 1 @ slots (add_cb 3 cb_init) ! 0"
proof -
  have "queue_step add_cb poll_begin poll_next
      \<lparr>store = cb_init, draining = None, pushed = [], handled = []\<rparr>
      \<lparr>store = add_cb (3 :: nat) cb_init, draining = None, pushed = [3], handled = []\<rparr>"
    using queue_step.push [of add_cb poll_begin poll_next
        "\<lparr>store = cb_init, draining = None, pushed = [], handled = []\<rparr>" 3] by simp
  from call_back_fifo [OF queue_reach.step [OF queue_reach.start this]] show ?thesis
    by (simp add: add_cb_def enqueue_def cb_init_def two_queue_empty_def flip_def)
qed

lemma poll_runs_current:
  assumes "length (slots m) = 2" and "current m < 2"
  shows "fst (poll m) = slots m ! current m \<and> slots (snd (poll m)) = (slots m)[current m := []]"
proof (cases "poll_begin m")
  case None
  then have "slots m ! current m = []" by (simp add: cb.begin_drain_None)
  with None list_update_id [of "slots m" "current m"] show ?thesis by (simp add: poll_def)
next
  case (Some r)
  then obtain i m' where r: "poll_begin m = Some (i, m')" by (cases r) auto
  have m': "i = current m" "slots m' = slots m"
    using cb.begin_drain_iff [OF r] by auto
  have "i < length (slots m')" using assms m' by simp
  from cb.drain_all [OF order_refl this] m' r show ?thesis
    by (simp add: poll_def)
qed

text \<open>The operation \<open>clear\<close> never discards a callback: on any two queues it either reads the front of
  an empty queue, or leaves both queues as they are.\<close>

theorem cb_clear_never_clears:
  "cb_clear \<lparr>slots = [q0, q1], current = c\<rparr> =
     (if q0 = [] \<or> q1 = [] then Inl Out_Of_Range else Inr \<lparr>slots = [q0, q1], current = c\<rparr>)"
  by (simp add: cb_clear_def clear_queue_def)

end
