(* ===== verification/Crypt.thy ===== *)
theory Crypt
  imports Crypt_Tables
begin

text \<open>
  The operations of \<^verbatim>\<open>common/crypt.cpp\<close>: the reversed dictionary, the stream cipher
  \<open>sslEncrypt\<close>/\<open>sslDecrypt\<close>, and the CRC with its eight-fold unrolled loop. The two facts that
  matter: decryption undoes encryption for every key and every value of \<^verbatim>\<open>rand()\<close>, and the
  table-driven CRC is the bit-serial CRC-32, which notices every corruption confined to four
  consecutive bytes.
\<close>

section \<open>Substitution tables\<close>

text \<open>
  A table that can be undone: decoding finds the position that the encoding reads. The cipher
  uses one for its rows; the client of the contract is the character-wise coding of a list with
  a table that may change with the position.
\<close>

locale subst_table =
  fixes enc :: "nat \<Rightarrow> 'a \<Rightarrow> 'b" and dec :: "nat \<Rightarrow> 'b \<Rightarrow> 'a" and ok :: "'a \<Rightarrow> bool"
  assumes dec_enc: "ok x \<Longrightarrow> dec i (enc i x) = x"
begin

lemma dec_enc_list:
  "list_all ok xs \<Longrightarrow>
   map (\<lambda>(i, y). dec (k + i) y)
       (enumerate 0 (map (\<lambda>(i, x). enc (k + i) x) (enumerate 0 xs))) = xs"
  by (rule nth_equalityI) (simp_all add: nth_enumerate_eq list_all_length dec_enc)

lemma dec_enc_map: "list_all ok xs \<Longrightarrow> map (dec i) (map (enc i) xs) = xs"
  by (induction xs) (simp_all add: dec_enc)

lemma enc_inj: "ok x \<Longrightarrow> ok y \<Longrightarrow> enc i x = enc i y \<Longrightarrow> x = y"
  by (metis dec_enc)

end

text \<open>
  The inner loop of \<open>sslInitDictionary\<close>: the first \<open>k\<close> with \<^verbatim>\<open>dictionary[i][k] == j\<close>, or the
  length when there is none (stored as an \<^verbatim>\<open>unsigned char\<close>).
\<close>

fun find_first :: "'a \<Rightarrow> 'a list \<Rightarrow> nat \<Rightarrow> nat" where
  "find_first j [] k = k"
| "find_first j (x # xs) k = (if x = j then k else find_first j xs (Suc k))"

definition reverse_row :: "u8 list \<Rightarrow> u8 list" where
  "reverse_row row = map (\<lambda>j. word_of_nat (find_first (word_of_nat j) row 0)) [0..<256]"

definition sslInitDictionary :: "u8 list list" where
  "sslInitDictionary = map reverse_row dictionary"

lemma find_first_nth:
  "distinct xs \<Longrightarrow> i < length xs \<Longrightarrow> find_first (xs ! i) xs k = k + i"
proof (induction xs arbitrary: i k)
  case Nil
  then show ?case by simp
next
  case (Cons x xs)
  show ?case
  proof (cases i)
    case 0
    then show ?thesis by simp
  next
    case (Suc j)
    with Cons.prems have "x \<noteq> xs ! j" by auto
    with Suc Cons show ?thesis by simp
  qed
qed

lemma unat_u8_less [simp]: "unat (b :: u8) < 256"
  using unsigned_less [of b, where ?'a = nat] by simp

lemma reverse_row_nth:
  assumes "distinct row" and "length row = 256"
  shows "reverse_row row ! unat (row ! unat (b :: u8)) = b"
proof -
  have "find_first (row ! unat b) row 0 = unat b"
    using find_first_nth [of row "unat b" 0] assms by simp
  then show ?thesis
    by (simp add: reverse_row_def)
qed

text \<open>The row that byte \<open>i\<close> of a message uses, and the byte it is replaced with.\<close>

definition enc_byte :: "u8 \<Rightarrow> nat \<Rightarrow> u8 \<Rightarrow> u8" where
  "enc_byte key i b = (dictionary ! (i mod 10)) ! unat b XOR key"

definition dec_byte :: "u8 \<Rightarrow> nat \<Rightarrow> u8 \<Rightarrow> u8" where
  "dec_byte key i b = (sslInitDictionary ! (i mod 10)) ! unat (b XOR key)"

lemma dec_enc_byte: "dec_byte key i (enc_byte key i b) = b"
proof -
  let ?row = "dictionary ! (i mod 10)"
  have row: "?row \<in> set dictionary"
    by (simp add: dictionary_rows(1))
  have "dec_byte key i (enc_byte key i b) = reverse_row ?row ! unat (?row ! unat b)"
    by (simp add: dec_byte_def enc_byte_def sslInitDictionary_def dictionary_rows(1) xor.assoc)
  then show ?thesis
    using dictionary_rows(2) [OF row] by (simp add: reverse_row_nth)
qed

interpretation cipher: subst_table "enc_byte key" "dec_byte key" "\<lambda>_. True" for key
  by standard (rule dec_enc_byte)

section \<open>The stream cipher\<close>

text \<open>
  \<open>r\<close> is the value \<^verbatim>\<open>rand()\<close> returns, \<open>out\<close> the caller's output buffer. The result is the
  returned length and the buffer afterwards; writing past the buffer is a fault.
\<close>

definition overlay :: "u8 list \<Rightarrow> u8 list \<Rightarrow> (u8 list) result" where
  "overlay xs out =
     (if length xs \<le> length out then Inr (xs @ drop (length xs) out) else Inl Out_Of_Range)"

definition sslEncrypt :: "u8 \<Rightarrow> nat \<Rightarrow> u8 list \<Rightarrow> u8 list \<Rightarrow> (nat \<times> u8 list) result" where
  "sslEncrypt key r in_data out_data =
     (if key = 0 then Inr (length in_data, out_data)
      else
        let key2 = r mod 256;
            body = map (\<lambda>(i, b). enc_byte key (key2 + i) b) (enumerate 0 in_data)
        in bind_result (overlay (body @ [word_of_nat key2]) out_data)
             (\<lambda>out. Inr (length in_data + 1, out)))"

definition sslDecrypt :: "u8 \<Rightarrow> u8 list \<Rightarrow> u8 list \<Rightarrow> (nat \<times> u8 list) result" where
  "sslDecrypt key in_data out_data =
     (if key = 0 then Inr (length in_data, out_data)
      else if in_data = [] then Inl Out_Of_Range
      else
        let key2 = unat (last in_data);
            body = map (\<lambda>(i, b). dec_byte key (key2 + i) b) (enumerate 0 in_data)
        in bind_result (overlay body out_data) (\<lambda>out. Inr (length in_data - 1, out)))"

lemma overlay_Inr: "overlay xs out = Inr ys \<Longrightarrow> take (length xs) ys = xs"
  by (auto simp: overlay_def split: if_splits)

text \<open>C10: decrypting what was encrypted gives the data back, for every non-zero key and every
  random number, whenever the output buffers are large enough for one extra byte.\<close>

theorem ssl_roundtrip:
  assumes "key \<noteq> 0" and "length data < length out1" and "length data < length out2"
  shows "\<exists>enc dec. sslEncrypt key r data out1 = Inr (length data + 1, enc)
           \<and> sslDecrypt key (take (length data + 1) enc) out2 = Inr (length data, dec)
           \<and> take (length data) dec = data"
proof -
  let ?k = "r mod 256"
  let ?body = "map (\<lambda>(i, b). enc_byte key (?k + i) b) (enumerate 0 data)"
  let ?msg = "?body @ [word_of_nat ?k]"
  let ?dec = "map (\<lambda>(i, b). dec_byte key (?k + i) b) (enumerate 0 ?msg)"
  have len: "length ?body = length data" by simp
  have k: "unat (word_of_nat ?k :: u8) = ?k"
    by (simp add: unat_of_nat)
  have enc: "sslEncrypt key r data out1 = Inr (length data + 1, ?msg @ drop (length ?msg) out1)"
    using assms by (simp add: sslEncrypt_def overlay_def Let_def)
  have dec: "sslDecrypt key ?msg out2 = Inr (length data, ?dec @ drop (length ?dec) out2)"
    using assms by (simp add: sslDecrypt_def overlay_def k)
  have "take (length data) ?dec
      = map (\<lambda>(i, b). dec_byte key (?k + i) b) (enumerate 0 ?body)"
    by (simp add: enumerate_append_eq take_map)
  also have "\<dots> = data"
    by (rule cipher.dec_enc_list) (simp add: list_all_iff)
  finally have data: "take (length data) ?dec = data" .
  have msg: "take (length data + 1) (?msg @ drop (length ?msg) out1) = ?msg"
    by simp
  have cut: "take (length data) (?dec @ drop (length ?dec) out2) = data"
    using data by simp
  show ?thesis
    by (rule exI, rule exI, rule conjI, rule enc, rule conjI, subst msg, rule dec, rule cut)
qed

theorem ssl_roundtrip_witness:
  "\<exists>enc dec. sslEncrypt 7 1000 [1, 2, 3] (replicate 4 0) = Inr (4, enc)
     \<and> sslDecrypt 7 (take 4 enc) (replicate 4 0) = Inr (3, dec) \<and> take 3 dec = [1, 2, 3]"
proof -
  have "length [1, 2, 3 :: u8] = 3" and "length (replicate 4 (0 :: u8)) = 4" by simp_all
  then show ?thesis
    using ssl_roundtrip [of 7 "[1, 2, 3]" "replicate 4 0" "replicate 4 0" 1000]
    by (simp only:) simp
qed

section \<open>CRC-32\<close>

text \<open>
  \<^verbatim>\<open>DO1\<close>: \<^verbatim>\<open>crc = crc_table[((int)crc ^ (*data++)) & 0xff] ^ (crc >> 8)\<close>, with \<^verbatim>\<open>crc\<close>
  an \<^verbatim>\<open>unsigned long\<close> of 64 bits and the data byte a \<^verbatim>\<open>char\<close>, sign-extended to
  \<^verbatim>\<open>int\<close>.
\<close>

definition do1 :: "u64 \<Rightarrow> u8 \<Rightarrow> u64" where
  "do1 crc b =
     crc_table ! unat (((ucast crc :: u32) XOR scast b) AND 0xff) XOR drop_bit 8 crc"

fun crc_tail :: "u64 \<Rightarrow> u8 list \<Rightarrow> u64" where
  "crc_tail crc [] = crc"
| "crc_tail crc (b # bs) = crc_tail (do1 crc b) bs"

fun crc_blocks :: "u64 \<Rightarrow> u8 list \<Rightarrow> u64" where
  "crc_blocks crc (a # b # c # d # e # f # g # h # bs) =
     crc_blocks (do1 (do1 (do1 (do1 (do1 (do1 (do1 (do1 crc a) b) c) d) e) f) g) h) bs"
| "crc_blocks crc bs = crc_tail crc bs"

text \<open>
  \<open>crc32\<close>: a null pointer gives 0; reading past the object is a fault. The \<^verbatim>\<open>unsigned long\<close>
  result is truncated to \<^verbatim>\<open>unsigned int\<close>.
\<close>

definition crc32 :: "u64 \<Rightarrow> u8 list option \<Rightarrow> u32 \<Rightarrow> u32 result" where
  "crc32 crc data len =
     (case data of
        None \<Rightarrow> Inr 0
      | Some bs \<Rightarrow>
          if length bs < unat len then Inl Out_Of_Range
          else Inr (ucast (crc_blocks (crc XOR 0xffffffff) (take (unat len) bs) XOR 0xffffffff)))"

definition sslCrc32 :: "u8 list option \<Rightarrow> u32 \<Rightarrow> u32 result" where
  "sslCrc32 data len = crc32 0 data len"

definition sslChecksum :: "u8 list option \<Rightarrow> u32 \<Rightarrow> u32 \<Rightarrow> bool result" where
  "sslChecksum data len key = bind_result (sslCrc32 data len) (\<lambda>c. Inr (key = c))"

text \<open>The reference: the register takes in a byte and shifts eight times.\<close>

fun crc_serial :: "u32 \<Rightarrow> u8 list \<Rightarrow> u32" where
  "crc_serial c [] = c"
| "crc_serial c (b # bs) = crc_serial (crc_byte (c XOR ucast b)) bs"

definition crc_spec :: "u8 list \<Rightarrow> u32" where
  "crc_spec bs = NOT (crc_serial 0xffffffff bs)"

lemma crc_bit_shift:
  assumes "\<not> bit x 31"
  shows "crc_bit (push_bit 1 x) = x"
proof -
  have "drop_bit 1 (push_bit 1 x) = x"
  proof (rule bit_word_eqI)
    fix n
    assume "n < LENGTH(32)"
    with assms show "bit (drop_bit 1 (push_bit 1 x)) n = bit x n"
      unfolding bit_drop_bit_eq bit_push_bit_iff comp_def by (cases "n = 31") auto
  qed
  moreover have "\<not> bit (push_bit 1 x) 0"
    unfolding bit_push_bit_iff by simp
  ultimately show ?thesis
    by (simp only: crc_bit_def if_False)
qed

lemma crc_byte_shift:
  assumes "\<And>n. 24 \<le> n \<Longrightarrow> \<not> bit x n"
  shows "crc_byte (push_bit 8 x) = x"
proof -
  have "crc_bit (push_bit (Suc k) x) = push_bit k x" if "k \<le> 7" for k
    using crc_bit_shift [of "push_bit k x"] assms [of "31 - k"] that
    by (simp add: bit_simps)
  from this [of 0] this [of 1] this [of 2] this [of 3] this [of 4] this [of 5] this [of 6]
    this [of 7]
  show ?thesis
    by (simp add: crc_byte_def numeral_eq_Suc del: push_bit_Suc)
qed

lemma crc_byte_split:
  "crc_byte c = crc_byte (ucast (ucast c :: u8)) XOR drop_bit 8 c"
proof -
  have "c = ucast (ucast c :: u8) XOR push_bit 8 (drop_bit 8 c)"
    by (rule bit_eqI) (auto simp: bit_simps)
  then have "crc_byte c
      = crc_byte (ucast (ucast c :: u8)) XOR crc_byte (push_bit 8 (drop_bit 8 c))"
    by (metis crc_byte_linear)
  also have "crc_byte (push_bit 8 (drop_bit 8 c)) = drop_bit 8 c"
    by (rule crc_byte_shift) (auto simp: bit_simps dest: bit_imp_le_length)
  finally show ?thesis .
qed

lemma unat_widen: "unat (ucast (b :: u8) :: u32) = unat b"
  using unat_u8_less [of b] by (simp add: unsigned_ucast_eq take_bit_eq_mod del: unat_u8_less)

lemma ucast_narrow: "ucast (ucast (c :: u32) :: u64) = c"
  by (rule bit_word_eqI) (auto simp: bit_simps)

lemma drop_bit_widen: "drop_bit 8 (ucast (c :: u32) :: u64) = ucast (drop_bit 8 c)"
  by (rule bit_word_eqI) (auto simp: bit_simps dest: bit_imp_le_length)

lemma do1_serial: "do1 (ucast c) b = ucast (crc_byte (c XOR ucast b))"
proof -
  have mask: "(0xff :: u32) = mask 8"
    by (simp add: mask_eq_exp_minus_1)
  have idx: "unat ((c XOR scast b) AND 0xff) = unat (ucast c XOR b :: u8)"
  proof -
    have "(c XOR scast b) AND 0xff = ucast (ucast c XOR b :: u8)"
    proof (rule bit_word_eqI)
      fix n
      assume "n < LENGTH(32)"
      show "bit ((c XOR scast b) AND 0xff) n = bit (ucast (ucast c XOR b :: u8) :: u32) n"
      proof (cases "n < 8")
        case True
        then have "min 7 n = n" by simp
        with True show ?thesis by (simp add: mask bit_simps)
      next
        case False
        then have "\<not> bit b n" by (auto dest: bit_imp_le_length)
        with False show ?thesis by (simp add: mask bit_simps)
      qed
    qed
    then show ?thesis by (simp only: unat_widen)
  qed
  have low: "ucast (c XOR ucast b) = (ucast c XOR b :: u8)"
    by (rule bit_eqI) (auto simp: bit_simps)
  have high: "drop_bit 8 (c XOR ucast b) = drop_bit 8 c"
    by (rule bit_eqI) (auto simp: bit_simps dest: bit_imp_le_length)
  have "do1 (ucast c) b = crc_table ! unat (ucast c XOR b :: u8) XOR drop_bit 8 (ucast c)"
    by (simp only: do1_def ucast_narrow idx)
  also have "\<dots> = ucast (crc_byte (ucast (ucast c XOR b :: u8))) XOR ucast (drop_bit 8 c)"
    by (simp only: crc_table_nth drop_bit_widen)
  also have "\<dots> = ucast (crc_byte (ucast (ucast c XOR b :: u8)) XOR drop_bit 8 c)"
    by (simp add: unsigned_xor_eq)
  also have "crc_byte (ucast (ucast c XOR b :: u8)) XOR drop_bit 8 c = crc_byte (c XOR ucast b)"
    by (subst (2) crc_byte_split) (simp only: low high)
  finally show ?thesis .
qed

lemma crc_tail_serial: "crc_tail (ucast c) bs = ucast (crc_serial c bs)"
  by (induction bs arbitrary: c) (simp_all add: do1_serial)

lemma crc_blocks_tail: "crc_blocks crc bs = crc_tail crc bs"
  by (induction crc bs rule: crc_blocks.induct) simp_all

text \<open>C13: for every input the unrolled table-driven loop computes the bit-serial CRC-32 of the
  bytes; a length beyond the object is the only fault.\<close>

theorem sslCrc32_is_crc32:
  "sslCrc32 (Some bs) len =
     (if length bs < unat len then Inl Out_Of_Range else Inr (crc_spec (take (unat len) bs)))"
proof -
  have ones: "(0xffffffff :: u64) = ucast (0xffffffff :: u32)" "(0xffffffff :: u32) = NOT 0"
    by simp_all
  have "ucast (crc_blocks 0xffffffff xs XOR 0xffffffff) = crc_spec xs" for xs
    unfolding crc_blocks_tail crc_spec_def ones(1) crc_tail_serial unsigned_xor_eq [symmetric]
    by (simp only: ucast_narrow ones(2) bit.xor_compl_right xor.right_neutral)
  then show ?thesis
    by (simp add: sslCrc32_def crc32_def)
qed

text \<open>Bytes packed into one register, the first in the low position.\<close>

fun pack :: "u8 list \<Rightarrow> u32" where
  "pack [] = 0"
| "pack (b # bs) = ucast b XOR push_bit 8 (pack bs)"

lemma pack_bits: "8 * length bs \<le> n \<Longrightarrow> \<not> bit (pack bs) n"
  by (induction bs arbitrary: n) (auto simp: bit_simps dest: bit_imp_le_length)

lemma pack_inj:
  "length as = length bs \<Longrightarrow> length as \<le> 4 \<Longrightarrow> pack as = pack bs \<Longrightarrow> as = bs"
proof (induction as bs rule: list_induct2)
  case Nil
  then show ?case by simp
next
  case (Cons a as b bs)
  have low: "ucast (pack (x # xs)) = x" for x xs
    by (rule bit_word_eqI) (auto simp: bit_simps)
  have high: "drop_bit 8 (pack (x # xs)) = pack xs" if "length xs \<le> 3" for x xs
    using that pack_bits [of xs]
    by (intro bit_eqI) (auto simp: bit_simps dest: bit_imp_le_length)
  from Cons.prems have "a = b" and "pack as = pack bs"
    using low [of a as] low [of b bs] high [of as a] high [of bs b] Cons.hyps
    by (auto simp del: pack.simps)
  with Cons show ?case by simp
qed

lemma crc_serial_pack:
  "length bs \<le> 4 \<Longrightarrow> crc_serial c bs = (crc_byte ^^ length bs) (c XOR pack bs)"
proof (induction bs arbitrary: c)
  case Nil
  then show ?case by simp
next
  case (Cons b bs)
  have "crc_byte (push_bit 8 (pack bs)) = pack bs"
    using Cons.prems by (intro crc_byte_shift pack_bits) simp
  then have "crc_byte (c XOR pack (b # bs)) = crc_byte (c XOR ucast b) XOR pack bs"
    by (simp add: crc_byte_linear xor.assoc)
  with Cons show ?case
    by (simp add: funpow_swap1)
qed

lemma funpow_crc_inj: "(crc_byte ^^ n) a = (crc_byte ^^ n) b \<longleftrightarrow> a = b"
  by (induction n) (simp_all add: crc_byte_inj)

lemma crc_serial_inj: "crc_serial c bs = crc_serial d bs \<longleftrightarrow> c = d"
proof (induction bs arbitrary: c d)
  case (Cons b bs)
  have "c XOR ucast b = d XOR ucast b \<longleftrightarrow> c = d"
    by (simp add: xor_left_cancel xor.commute [of _ "ucast b"])
  with Cons show ?case by (simp add: crc_byte_inj)
qed simp

lemma crc_serial_append: "crc_serial c (xs @ ys) = crc_serial (crc_serial c xs) ys"
  by (induction xs arbitrary: c) simp_all

text \<open>C14: a checksum accepted for some data is rejected for the same data with any change of up to
  four consecutive bytes, wherever it happens.\<close>

theorem checksum_detects_burst:
  assumes "length good = length bad" and "length bad \<le> 4" and "good \<noteq> bad"
    and "unat len = length (pre @ good @ post)"
    and "sslChecksum (Some (pre @ good @ post)) len key = Inr True"
  shows "sslChecksum (Some (pre @ bad @ post)) len key = Inr False"
proof -
  have spec: "sslChecksum (Some (pre @ x @ post)) len key
      = Inr (key = crc_spec (pre @ x @ post))" if "length x = length good" for x
    using that assms(4) by (simp add: sslChecksum_def sslCrc32_is_crc32)
  have "pack good \<noteq> pack bad"
    using assms pack_inj by auto
  then have "c XOR pack good \<noteq> c XOR pack bad" for c
    by (simp add: xor_left_cancel)
  then have "crc_serial c good \<noteq> crc_serial c bad" for c
    using assms(1,2) by (simp add: crc_serial_pack funpow_crc_inj)
  then have "crc_spec (pre @ good @ post) \<noteq> crc_spec (pre @ bad @ post)"
    by (simp add: crc_spec_def crc_serial_append crc_serial_inj)
  then show ?thesis
    using assms(1,5) spec by simp
qed

theorem checksum_detects_burst_witness:
  "sslChecksum (Some [0x31, 0x33, 0x34, 0x36]) 4 0x9BE3E0A3 = Inr False"
proof -
  have key: "sslChecksum (Some [0x31, 0x32, 0x33, 0x34]) 4 0x9BE3E0A3 = Inr True"
    by code_simp
  show ?thesis
    using checksum_detects_burst [where good = "[0x32, 0x33, 0x34]" and bad = "[0x33, 0x34, 0x36]"
        and len = 4 and pre = "[0x31]" and post = "[]" and key = "0x9BE3E0A3"] key
    by simp
qed

end
