(* ===== verification/Message.thy ===== *)
theory Message
  imports Crypt
begin

text \<open>
  \<^verbatim>\<open>common/message_interface.{h,cpp}\<close>: the frame format of the servers. A frame is a 4-byte
  total length, a 2-byte mask, a 4-byte CRC of the payload and the payload. The compression
  library behind \<^verbatim>\<open>compress_strategy\<close> is a parameter, and so are the contents of freshly
  allocated memory, because \<open>makeMessage\<close> does not initialise the mask.
\<close>

section \<open>Constants and data\<close>

definition MESSAGE_HEAD_MASK_BEGIN :: nat where
  "MESSAGE_HEAD_MASK_BEGIN = 4"

definition MESSAGE_HEAD_BASIC_BEGIN :: nat where
  "MESSAGE_HEAD_BASIC_BEGIN = MESSAGE_HEAD_MASK_BEGIN + 2"

definition MESSAGE_HEAD_LEN :: nat where
  "MESSAGE_HEAD_LEN = 4 + 2 + 4"

definition MESSAGE_COMPRESS_LEN :: nat where
  "MESSAGE_COMPRESS_LEN = 512"

definition COMPRESS_MASK :: u16 where
  "COMPRESS_MASK = push_bit 15 1"

lemmas message_consts = MESSAGE_HEAD_MASK_BEGIN_def MESSAGE_HEAD_BASIC_BEGIN_def
  MESSAGE_HEAD_LEN_def MESSAGE_COMPRESS_LEN_def

text \<open>The length field of \<^verbatim>\<open>message_t\<close> is the length of its data.\<close>

record message_t =
  msg_data :: "u8 list"
  msg_from :: ptr

text \<open>
  \<^verbatim>\<open>compress_strategy\<close>: both functions get the capacity of the destination; \<open>None\<close> is the
  return value \<^verbatim>\<open>false\<close>.
\<close>

record compress_strategy =
  cs_compress :: "u32 \<Rightarrow> u8 list \<Rightarrow> u8 list option"
  cs_uncompress :: "u32 \<Rightarrow> u8 list \<Rightarrow> u8 list option"

section \<open>Access to raw buffers\<close>

definition peek :: "nat \<Rightarrow> nat \<Rightarrow> u8 list \<Rightarrow> (u8 list) result" where
  "peek p n xs = (if p + n \<le> length xs then Inr (take n (drop p xs)) else Inl Out_Of_Range)"

definition poke :: "nat \<Rightarrow> u8 list \<Rightarrow> u8 list \<Rightarrow> (u8 list) result" where
  "poke p ys xs =
     (if p + length ys \<le> length xs then Inr (take p xs @ ys @ drop (p + length ys) xs)
      else Inl Out_Of_Range)"

lemma peek_Inr [simp]: "p + n \<le> length xs \<Longrightarrow> peek p n xs = Inr (take n (drop p xs))"
  by (simp add: peek_def)

lemma poke_Inr [simp]:
  "p + length ys \<le> length xs \<Longrightarrow> poke p ys xs = Inr (take p xs @ ys @ drop (p + length ys) xs)"
  by (simp add: poke_def)

lemma poke_length: "poke p ys xs = Inr zs \<Longrightarrow> length zs = length xs"
  by (auto simp: poke_def split: if_splits)

section \<open>Operations\<close>

text \<open>\<open>junk i\<close> is byte \<open>i\<close> of the block that \<^verbatim>\<open>new char[len]\<close> returns.\<close>

definition createMessage :: "(nat \<Rightarrow> u8) \<Rightarrow> ptr \<Rightarrow> u32 \<Rightarrow> message_t" where
  "createMessage junk frm len = \<lparr>msg_data = map junk [0..<unat len], msg_from = frm\<rparr>"

text \<open>
  \<open>makeMessage\<close>: allocates \<^verbatim>\<open>len + MESSAGE_HEAD_LEN\<close> bytes (in 32 bits), copies the payload, and
  for payloads longer than one byte fills in CRC, mask bit and length. The mask bit is or-ed
  into whatever the allocation holds.
\<close>

definition makeMessage ::
    "(nat \<Rightarrow> u8) \<Rightarrow> ptr \<Rightarrow> u8 list \<Rightarrow> u32 \<Rightarrow> bool \<Rightarrow> message_t result" where
  "makeMessage junk frm data len compress =
     (let lenMax = len + word_of_nat MESSAGE_HEAD_LEN;
          p = createMessage junk frm lenMax
      in bind_result (peek 0 (unat len) data) (\<lambda>payload.
         bind_result (poke MESSAGE_HEAD_LEN payload (msg_data p)) (\<lambda>d.
         if len > 1 then
           bind_result (sslCrc32 (Some (drop MESSAGE_HEAD_LEN d)) len) (\<lambda>crc.
           bind_result (poke MESSAGE_HEAD_BASIC_BEGIN (le_bytes 4 crc) d) (\<lambda>d.
           bind_result (peek MESSAGE_HEAD_MASK_BEGIN 2 d) (\<lambda>mask.
           bind_result
             (if compress
              then poke MESSAGE_HEAD_MASK_BEGIN (le_bytes 2 (le_word mask OR COMPRESS_MASK)) d
              else Inr d) (\<lambda>d.
           bind_result (poke 0 (le_bytes 4 (4 + (lenMax - 4))) d) (\<lambda>d.
           Inr (p\<lparr>msg_data := d\<rparr>))))))
         else Inr (p\<lparr>msg_data := d\<rparr>))))"

definition compress ::
    "compress_strategy option \<Rightarrow> (nat \<Rightarrow> u8) \<Rightarrow> ptr \<Rightarrow> u8 list \<Rightarrow> u32 \<Rightarrow> u32 \<Rightarrow> message_t result"
where
  "compress iface junk frm data len cap =
     (case iface of
        Some cs \<Rightarrow>
          if unat len > MESSAGE_COMPRESS_LEN then
            bind_result (peek 0 (unat len) data) (\<lambda>src.
            case cs_compress cs cap src of
              Some z \<Rightarrow>
                if length z < unat len then makeMessage junk frm z (word_of_nat (length z)) True
                else makeMessage junk frm data len False
            | None \<Rightarrow> makeMessage junk frm data len False)
          else makeMessage junk frm data len False
      | None \<Rightarrow> makeMessage junk frm data len False)"

text \<open>
  \<open>uncompress\<close> reads the frame that starts at \<open>data\<close>; \<open>None\<close> is the null pointer. The code reads
  the 16-bit mask through a 32-bit pointer, and reads the checksum without checking it.
\<close>

definition uncompress ::
    "compress_strategy option \<Rightarrow> ptr \<Rightarrow> u8 list \<Rightarrow> u32 \<Rightarrow> (message_t option) result" where
  "uncompress iface frm data cap =
     bind_result (peek 0 4 data) (\<lambda>h.
     let datalen = le_word h :: u32 in
     if datalen \<le> word_of_nat MESSAGE_HEAD_MASK_BEGIN then Inr None
     else
       bind_result (peek MESSAGE_HEAD_MASK_BEGIN 4 data) (\<lambda>m.
       bind_result (peek MESSAGE_HEAD_BASIC_BEGIN 4 data) (\<lambda>checksum.
       bind_result
         (peek MESSAGE_HEAD_LEN (unat (datalen - word_of_nat MESSAGE_HEAD_LEN)) data) (\<lambda>body.
       let type = ucast (le_word m :: u32) :: u16 in
       case iface of
         Some cs \<Rightarrow>
           if type AND COMPRESS_MASK \<noteq> 0 then
             (case cs_uncompress cs cap body of
                Some out \<Rightarrow> Inr (Some \<lparr>msg_data = out, msg_from = frm\<rparr>)
              | None \<Rightarrow> Inr None)
           else Inr (Some \<lparr>msg_data = body, msg_from = frm\<rparr>)
       | None \<Rightarrow> Inr (Some \<lparr>msg_data = body, msg_from = frm\<rparr>)))))"

lemma ucast_of_nat_low: "ucast (word_of_nat n :: u32) = (word_of_nat n :: u16)"
  by (rule bit_word_eqI) (auto simp: bit_simps)

lemma le_bytes_list4: "\<exists>a b c d. le_bytes 4 w = [a, b, c, d]"
  by (simp add: le_bytes_def numeral_eq_Suc)

lemma le_bytes_list2: "\<exists>a b. le_bytes 2 w = [a, b]"
  by (simp add: le_bytes_def numeral_eq_Suc)

section \<open>The frame\<close>

text \<open>The bytes \<open>makeMessage\<close> builds for a payload of more than one byte.\<close>

definition frame :: "(nat \<Rightarrow> u8) \<Rightarrow> bool \<Rightarrow> u8 list \<Rightarrow> u8 list" where
  "frame junk compressed payload =
     le_bytes 4 (word_of_nat (length payload + 10) :: u32)
     @ (if compressed then le_bytes 2 (le_word [junk 4, junk 5] OR COMPRESS_MASK)
        else [junk 4, junk 5])
     @ le_bytes 4 (crc_spec payload) @ payload"

lemma length_frame [simp]: "length (frame junk z payload) = length payload + 10"
  by (simp add: frame_def)

lemma makeMessage_frame:
  assumes "1 < length payload" and "length payload + 10 < 2 ^ 32"
  shows "makeMessage junk frm (payload @ rest) (word_of_nat (length payload)) z
           = Inr \<lparr>msg_data = frame junk z payload, msg_from = frm\<rparr>"
proof -
  let ?n = "length payload"
  obtain L :: u32 where L: "L = word_of_nat (?n + 10)" by blast
  have n: "unat (word_of_nat ?n :: u32) = ?n" "unat L = ?n + 10"
    using assms(2) unfolding L by (simp_all only: unat_of_nat) simp_all
  have sum: "word_of_nat ?n + word_of_nat MESSAGE_HEAD_LEN = L"
    by (simp add: MESSAGE_HEAD_LEN_def L)
  have gt: "1 < (word_of_nat ?n :: u32)"
    using assms n(1) by (simp add: word_less_nat_alt)
  have ten: "map junk [0..<?n + 10]
      = [junk 0, junk 1, junk 2, junk 3, junk 4, junk 5, junk 6, junk 7, junk 8, junk 9]
        @ map junk [10..<?n + 10]"
  proof -
    have "[0..<10] = [0, 1, 2, 3, 4, 5, 6, 7, 8, 9]" by code_simp
    then show ?thesis
      using upt_add_eq_append [of 0 10 ?n] by (simp only: add.commute [of ?n]) simp
  qed
  obtain c0 c1 c2 c3 where crc: "le_bytes 4 (crc_spec payload) = [c0, c1, c2, c3]"
    by (metis le_bytes_list4)
  obtain l0 l1 l2 l3 where len: "le_bytes 4 L = [l0, l1, l2, l3]"
    by (metis le_bytes_list4)
  obtain m0 m1 where mask:
      "le_bytes 2 (le_word [junk 4, junk 5] OR COMPRESS_MASK :: u16) = [m0, m1]"
    by (metis le_bytes_list2)
  have four: "4 + (L - 4) = L" for L :: u32
    by simp
  show ?thesis
    unfolding makeMessage_def Let_def sum createMessage_def n ten four frame_def L [symmetric]
    using gt n(1)
    by (simp add: Let_def message_consts sslCrc32_is_crc32 peek_def poke_def crc len mask)
qed

definition mask_clear :: "(nat \<Rightarrow> u8) \<Rightarrow> bool" where
  "mask_clear junk \<longleftrightarrow> (le_word [junk 4, junk 5] :: u16) AND COMPRESS_MASK = 0"

lemma low_half: "ucast (le_word [a, b, c, d] :: u32) = (le_word [a, b] :: u16)"
proof -
  have "le_nat [a, b, c, d] = le_nat [a, b] + 65536 * le_nat [c, d]"
    by simp
  then have "(word_of_nat (le_nat [a, b, c, d]) :: u16)
      = word_of_nat (le_nat [a, b]) + 65536 * word_of_nat (le_nat [c, d])"
    by (simp only: of_nat_add of_nat_mult of_nat_numeral)
  moreover have "(65536 :: u16) = 0" by simp
  ultimately show ?thesis
    by (simp only: le_word_def ucast_of_nat_low mult_zero_left add_0_right)
qed

lemma uncompress_frame:
  assumes "length payload + 10 < 2 ^ 32"
  shows "uncompress iface frm (frame junk z payload @ rest) cap =
    (case iface of
       Some cs \<Rightarrow>
         if z \<or> \<not> mask_clear junk then
           (case cs_uncompress cs cap payload of
              Some out \<Rightarrow> Inr (Some \<lparr>msg_data = out, msg_from = frm\<rparr>)
            | None \<Rightarrow> Inr None)
         else Inr (Some \<lparr>msg_data = payload, msg_from = frm\<rparr>)
     | None \<Rightarrow> Inr (Some \<lparr>msg_data = payload, msg_from = frm\<rparr>))"
proof -
  obtain c0 c1 c2 c3 where crc: "le_bytes 4 (crc_spec payload) = [c0, c1, c2, c3]"
    by (metis le_bytes_list4)
  obtain m0 m1 where mask: "(if z then le_bytes 2 (le_word [junk 4, junk 5] OR COMPRESS_MASK)
      else [junk 4, junk 5]) = [m0, m1]"
      and m: "(le_word [m0, m1] :: u16) AND COMPRESS_MASK = 0 \<longleftrightarrow> \<not> z \<and> mask_clear junk"
  proof (cases z)
    case True
    let ?w = "le_word [junk 4, junk 5] OR COMPRESS_MASK :: u16"
    obtain m0 m1 where w: "le_bytes 2 ?w = [m0, m1]"
      by (metis le_bytes_list2)
    have "le_word [m0, m1] = ?w"
      by (simp flip: w)
    moreover have "?w AND COMPRESS_MASK \<noteq> 0"
      by (simp add: COMPRESS_MASK_def bit.conj_disj_distrib2)
    ultimately show thesis
      using True w that [of m0 m1] by simp
  next
    case False
    then show thesis
      using that [of "junk 4" "junk 5"] by (simp add: mask_clear_def)
  qed
  obtain L :: u32 where L: "L = word_of_nat (length payload + 10)" by blast
  have frame: "frame junk z payload @ rest
      = le_bytes 4 L @ [m0, m1, c0, c1, c2, c3] @ payload @ rest"
    by (simp add: frame_def crc mask L)
  have len: "unat L = length payload + 10"
    using assms unfolding L by (simp only: unat_of_nat) simp
  have gt: "\<not> L \<le> word_of_nat MESSAGE_HEAD_MASK_BEGIN"
    by (simp add: word_le_nat_alt len message_consts)
  have ten: "word_of_nat MESSAGE_HEAD_LEN \<le> L"
    by (simp add: word_le_nat_alt len message_consts)
  have body: "unat (L - word_of_nat MESSAGE_HEAD_LEN) = length payload"
    using unat_sub [OF ten] len by (simp add: message_consts)
  then have body10: "unat (L - 10) = length payload"
    by (simp add: message_consts)
  show ?thesis
    unfolding uncompress_def frame body
    using gt by (simp add: low_half m body10 message_consts Let_def split: option.split)
qed

section \<open>Properties\<close>

lemma makeMessage_frame':
  assumes "1 < length payload" and "length payload + 10 < 2 ^ 32"
  shows "makeMessage junk frm payload (word_of_nat (length payload)) z
           = Inr \<lparr>msg_data = frame junk z payload, msg_from = frm\<rparr>"
  using makeMessage_frame [OF assms, of junk frm "[]" z] by simp

text \<open>C4: what one side frames with \<open>compress\<close> the other side gets back with \<open>uncompress\<close>, whatever
  follows it in the receive buffer, for payloads of at least two bytes; with a compression library
  this needs that its own round trip holds and that the uninitialised mask happens to be clear.\<close>

theorem message_roundtrip:
  assumes "1 < length payload" and "length payload + 10 < 2 ^ 32"
    and "\<And>cs src z. iface = Some cs \<Longrightarrow> cs_compress cs cap src = Some z \<Longrightarrow>
           1 < length z \<and> cs_uncompress cs cap z = Some src"
    and "iface \<noteq> None \<Longrightarrow> mask_clear junk"
  shows "\<exists>m. compress iface junk frm payload (word_of_nat (length payload)) cap = Inr m
           \<and> uncompress iface to (msg_data m @ rest) cap
               = Inr (Some \<lparr>msg_data = payload, msg_from = to\<rparr>)"
proof -
  let ?len = "word_of_nat (length payload) :: u32"
  have len: "unat ?len = length payload"
    using assms(2) by (simp add: unat_of_nat)
  note plain = makeMessage_frame' [OF assms(1,2), of junk frm False]
  show ?thesis
  proof (cases iface)
    case None
    then show ?thesis
      using plain uncompress_frame [OF assms(2), of iface to junk False rest cap]
      by (simp add: compress_def)
  next
    case (Some cs)
    with assms(4) have clear: "mask_clear junk" by simp
    show ?thesis
    proof (cases "\<exists>z. MESSAGE_COMPRESS_LEN < length payload
        \<and> cs_compress cs cap payload = Some z \<and> length z < length payload")
      case True
      then obtain z where z: "MESSAGE_COMPRESS_LEN < length payload"
          "cs_compress cs cap payload = Some z" "length z < length payload" by blast
      with Some assms(2) assms(3) [of cs payload z]
      have "1 < length z" "length z + 10 < 2 ^ 32" "cs_uncompress cs cap z = Some payload"
        by auto
      with Some z len show ?thesis
        using makeMessage_frame' [of z junk frm True]
          uncompress_frame [of z iface to junk True rest cap]
        by (simp add: compress_def)
    next
      case False
      then have "compress iface junk frm payload ?len cap
          = Inr \<lparr>msg_data = frame junk False payload, msg_from = frm\<rparr>"
        using Some plain len by (auto simp: compress_def split: option.splits)
      with Some clear show ?thesis
        using uncompress_frame [OF assms(2), of iface to junk False rest cap] by simp
    qed
  qed
qed

theorem message_roundtrip_witness:
  "\<exists>m. compress (Some \<lparr>cs_compress = \<lambda>n xs. if 600 \<le> length xs then Some (rev xs) else None,
                       cs_uncompress = \<lambda>n xs. Some (rev xs)\<rparr>)
         (\<lambda>_. 0) 0 (replicate 600 1) (word_of_nat (length (replicate 600 (1 :: u8)))) 65000 = Inr m
     \<and> uncompress (Some \<lparr>cs_compress = \<lambda>n xs. if 600 \<le> length xs then Some (rev xs) else None,
                         cs_uncompress = \<lambda>n xs. Some (rev xs)\<rparr>)
         7 (msg_data m @ [9]) 65000 = Inr (Some \<lparr>msg_data = replicate 600 1, msg_from = 7\<rparr>)"
proof (rule message_roundtrip)
  show "mask_clear (\<lambda>_. 0)"
    by (simp add: mask_clear_def le_word_def)
qed (auto split: if_splits)

text \<open>When the allocation happens to leave the compression bit set in the uninitialised mask and
  a compression library is installed, a short message that was sent uncompressed is handed to the
  decompressor by the receiver.\<close>

theorem uninitialised_mask_decompresses:
  assumes "1 < length payload" and "length payload \<le> MESSAGE_COMPRESS_LEN" and "\<not> mask_clear junk"
  shows "\<exists>m. compress (Some cs) junk frm payload (word_of_nat (length payload)) cap = Inr m
           \<and> uncompress (Some cs) to (msg_data m) cap =
               (case cs_uncompress cs cap payload of
                  Some out \<Rightarrow> Inr (Some \<lparr>msg_data = out, msg_from = to\<rparr>)
                | None \<Rightarrow> Inr None)"
proof -
  have small: "length payload + 10 < 2 ^ 32"
    using assms(2) by (simp add: MESSAGE_COMPRESS_LEN_def)
  have len: "unat (word_of_nat (length payload) :: u32) = length payload"
    using small by (simp add: unat_of_nat)
  from assms small len show ?thesis
    using makeMessage_frame' [OF assms(1) small, of junk frm False]
      uncompress_frame [OF small, of "Some cs" to junk False "[]" cap]
    by (simp add: compress_def)
qed

theorem uninitialised_mask_decompresses_witness:
  "\<exists>m. compress (Some \<lparr>cs_compress = \<lambda>n xs. None, cs_uncompress = \<lambda>n xs. None\<rparr>)
          (\<lambda>_. 255) 0 [1, 2, 3] 3 65000 = Inr m
     \<and> uncompress (Some \<lparr>cs_compress = \<lambda>n xs. None, cs_uncompress = \<lambda>n xs. None\<rparr>)
          7 (msg_data m) 65000 = Inr None"
proof -
  have "\<not> mask_clear (\<lambda>_. 255)"
    by (simp add: mask_clear_def le_word_def COMPRESS_MASK_def)
  then show ?thesis
    using uninitialised_mask_decompresses [of "[1, 2, 3]" "\<lambda>_. 255"
        "\<lparr>cs_compress = \<lambda>n xs. None, cs_uncompress = \<lambda>n xs. None\<rparr>" 0 65000 7]
    by (simp add: MESSAGE_COMPRESS_LEN_def)
qed

end
