(* ===== verification/Tcp_Session.thy ===== *)
theory Tcp_Session
  imports Message
begin

text \<open>
  \<^verbatim>\<open>common/tcpsession.{h,cpp}\<close>: one connection. The receive side reassembles frames from
  whatever chunks the socket delivers, in a fixed buffer of twice the largest frame; the send
  side queues frames, packs as many as fit into one write, and keeps at most one write
  outstanding. Calls into the network library and into the owning server are recorded, in
  order, in the session's \<open>effects\<close>.
\<close>

section \<open>State\<close>

definition MAX_MESSAGE_LEN :: nat where
  "MAX_MESSAGE_LEN = 65000"

definition QUEUE_MESSAGE_LIMIT_SIZE :: nat where
  "QUEUE_MESSAGE_LIMIT_SIZE = MAX_MESSAGE_LEN * 30"

datatype ban_reason_t =
    BAN_REASON_WRONG_CHECK_SUM
  | BAN_REASON_TOO_MANY_AUTH_FAIL
  | BAN_REASON_UNCOMPRESS_FAIL
  | BAN_REASON_HACK_PACKET
  | BAN_REASON_TOO_MANY_PACKET
  | BAN_REASON_TOO_MANY_IDLE_CONNECTION
  | BAN_REASON_SHIFTING_GEAR

datatype effect =
    Push_Message message_t
  | Add_Ban_Ip u32 u32 ban_reason_t
  | Post_Handle_Close
  | Post_Write
  | Async_Read
  | Async_Write "u8 list"
  | Socket_Shutdown
  | Add_Cb_On_Accept
  | Add_Cb_On_Close
  | Add_Session
  | Free_Session
  | Del_Session
  | Push_Task "u8 list" nat
  | Write_Close_Log

text \<open>
  \<open>m_is_client\<close> is the dynamic type of the object: \<^verbatim>\<open>tcp_client\<close> has no \<^verbatim>\<open>m_father\<close> and overrides the two virtual
  functions \<open>push_message\<close> and \<open>_get_cb_mgr\<close> with a queue and a callback manager of its own.
\<close>

text \<open>
  What the session reads of its owning \<^verbatim>\<open>tcp_server\<close>, and of the process.
\<close>

record father =
  limit_mode :: bool
  ttti_mode :: bool
  task_thread_count :: nat

record tcp_session =
  m_isvalid :: bool
  m_isconnected :: bool
  m_father :: "father option"
  m_iscompress :: bool
  m_thread_index :: nat
  m_recv_buffer :: "u8 list"
  m_recive_buffer_pos :: nat
  m_remote_ip_str :: string
  m_remote_ip_ui :: u32
  m_queue_send_msg :: "message_t list"
  m_is_sending_data :: bool
  m_not_sent_size :: int
  m_is_client :: bool
  effects :: "effect list"

definition emit :: "effect list \<Rightarrow> tcp_session \<Rightarrow> tcp_session" where
  "emit es s = s\<lparr>effects := effects s @ es\<rparr>"

text \<open>The constructor, with zeroed buffers; \<^verbatim>\<open>m_isconnected\<close> and \<^verbatim>\<open>m_father\<close> are left
  uninitialised by it and set by \<open>reset\<close>, which \<open>free_session\<close> calls before first use.\<close>

definition new_session :: "tcp_session" where
  "new_session =
     \<lparr>m_isvalid = False, m_isconnected = False, m_father = None, m_iscompress = False,
      m_thread_index = 0, m_recv_buffer = replicate (MAX_MESSAGE_LEN * 2) 0,
      m_recive_buffer_pos = 0, m_remote_ip_str = '''', m_remote_ip_ui = 0,
      m_queue_send_msg = [], m_is_sending_data = False, m_not_sent_size = 0, m_is_client = False,
      effects = []\<rparr>"

section \<open>Opening, closing, reuse\<close>

definition begin_read_message :: "tcp_session \<Rightarrow> tcp_session" where
  "begin_read_message s = emit [Async_Read] (s\<lparr>m_recive_buffer_pos := 0\<rparr>)"

text \<open>
  \<open>handle_accept\<close>: \<open>index\<close> is the value of \<open>generate_thread_index\<close>, the addresses are those the
  socket reports.
\<close>

definition handle_accept ::
    "father \<Rightarrow> nat \<Rightarrow> string \<Rightarrow> u32 \<Rightarrow> tcp_session \<Rightarrow> tcp_session" where
  "handle_accept p index ip_str ip_ui s =
     (let s = s\<lparr>m_isvalid := True, m_recive_buffer_pos := 0, m_isconnected := True,
                m_father := Some p\<rparr>;
          s = begin_read_message s;
          s = s\<lparr>m_thread_index := index,
                m_remote_ip_str := (if m_remote_ip_str s \<noteq> '''' then m_remote_ip_str s else ip_str),
                m_remote_ip_ui := (if m_remote_ip_ui s \<noteq> 0 then m_remote_ip_ui s else ip_ui)\<rparr>
      in emit [Add_Cb_On_Accept, Add_Session] s)"

definition close_session :: "tcp_session \<Rightarrow> tcp_session" where
  "close_session s = emit [Post_Handle_Close] s"

definition close_and_ban :: "tcp_session \<Rightarrow> tcp_session" where
  "close_and_ban s =
     (let s = (if m_father s \<noteq> None
               then emit [Add_Ban_Ip (m_remote_ip_ui s) 5 BAN_REASON_HACK_PACKET] s else s)
      in emit [Write_Close_Log] (close_session s))"

definition handle_close :: "tcp_session \<Rightarrow> tcp_session" where
  "handle_close s = (emit [Socket_Shutdown] s)\<lparr>m_isconnected := False, m_thread_index := 0\<rparr>"

definition clear_send_msg :: "tcp_session \<Rightarrow> tcp_session" where
  "clear_send_msg s = s\<lparr>m_queue_send_msg := []\<rparr>"

definition on_close_io :: "tcp_session \<Rightarrow> tcp_session" where
  "on_close_io s =
     (let s = emit [Socket_Shutdown] (clear_send_msg s);
          s = s\<lparr>m_isconnected := False\<rparr>
      in if m_father s \<noteq> None \<or> m_is_client s then emit [Add_Cb_On_Close] s else s)"

definition on_close :: "tcp_session \<Rightarrow> tcp_session" where
  "on_close s = (if m_father s \<noteq> None then emit [Free_Session, Del_Session] s else s)"

definition reset_session :: "tcp_session \<Rightarrow> tcp_session" where
  "reset_session s =
     clear_send_msg
       (s\<lparr>m_recive_buffer_pos := 0, m_isconnected := False, m_father := None, m_isvalid := False,
          m_thread_index := 0, m_is_sending_data := False, m_remote_ip_str := '''',
          m_remote_ip_ui := 0, m_not_sent_size := 0\<rparr>)"

section \<open>Receiving\<close>

definition push_message :: "message_t \<Rightarrow> tcp_session \<Rightarrow> tcp_session" where
  "push_message msg s = (if m_father s \<noteq> None \<or> m_is_client s then emit [Push_Message msg] s else s)"

text \<open>
  \<open>_uncompress_message\<close>: the parser sees the rest of the receive buffer from the frame on.
\<close>

definition uncompress_message ::
    "compress_strategy option \<Rightarrow> nat \<Rightarrow> tcp_session \<Rightarrow> (bool \<times> tcp_session) result" where
  "uncompress_message iface now_pos s =
     bind_result (uncompress iface 0 (drop now_pos (m_recv_buffer s)) (word_of_nat MAX_MESSAGE_LEN))
       (\<lambda>r. case r of
          None \<Rightarrow>
            (let s = (if m_father s \<noteq> None
                      then emit [Add_Ban_Ip (m_remote_ip_ui s) 120 BAN_REASON_WRONG_CHECK_SUM] s
                      else s)
             in Inr (False, close_session s))
        | Some msg \<Rightarrow> Inr (True, push_message msg s))"

text \<open>
  The loop of \<open>handle_read_some\<close>. The code checks the length field of the first frame before the
  loop and of every later frame at the end of the body; both are the check at the head of an
  iteration here. The result says how the loop was left.
\<close>

datatype read_outcome = Need_More nat | Banned | Failed

definition frame_length :: "u8 list \<Rightarrow> nat" where
  "frame_length xs = unat (le_word (take 4 xs) :: u32)"

function read_loop ::
    "compress_strategy option \<Rightarrow> nat \<Rightarrow> nat \<Rightarrow> tcp_session \<Rightarrow> (read_outcome \<times> tcp_session) result"
where
  "read_loop iface pos now_pos s =
     (if pos - now_pos < MESSAGE_HEAD_LEN then Inr (Need_More now_pos, s)
      else
        let len = frame_length (drop now_pos (m_recv_buffer s)) in
        if len < MESSAGE_HEAD_LEN \<or> len > MAX_MESSAGE_LEN then Inr (Banned, close_and_ban s)
        else if pos - now_pos \<ge> len then
          (case uncompress_message iface now_pos s of
             Inl e \<Rightarrow> Inl e
           | Inr (ok, s') \<Rightarrow>
               if ok then read_loop iface pos (now_pos + len) s' else Inr (Failed, s'))
        else Inr (Need_More now_pos, s))"
  by pat_completeness auto
termination
  by (relation "measure (\<lambda>(iface, pos, now_pos, s). pos - now_pos)")
     (auto simp: MESSAGE_HEAD_LEN_def)

declare read_loop.simps [simp del]

text \<open>The end of \<open>handle_read_some\<close>: \<open>pos\<close> is \<^verbatim>\<open>m_recive_buffer_pos\<close>. Unless the session is
  being closed, the unread bytes move to the front and another read starts.\<close>

definition finish_read :: "nat \<Rightarrow> read_outcome \<times> tcp_session \<Rightarrow> tcp_session result" where
  "finish_read pos r =
     (let (outcome, s) = r in
      case outcome of
        Banned \<Rightarrow> Inr s
      | Failed \<Rightarrow> Inr (on_close_io s)
      | Need_More now_pos \<Rightarrow>
          bind_result
            (if now_pos > 0 \<and> pos > now_pos
             then bind_result (peek now_pos (pos - now_pos) (m_recv_buffer s))
                    (\<lambda>rest. poke 0 rest (m_recv_buffer s))
             else Inr (m_recv_buffer s)) (\<lambda>buf.
          Inr (emit [Async_Read]
            (s\<lparr>m_recv_buffer := buf, m_recive_buffer_pos := pos - now_pos\<rparr>))))"

text \<open>
  \<open>handle_read_some\<close>: \<open>None\<close> for the chunk is an error code. Copying past the end of the receive
  buffer is a fault.
\<close>

definition handle_read_some ::
    "compress_strategy option \<Rightarrow> u8 list option \<Rightarrow> tcp_session \<Rightarrow> tcp_session result" where
  "handle_read_some iface chunk s =
     (if \<not> m_isvalid s then Inr s
      else case chunk of
        None \<Rightarrow> Inr (on_close_io s)
      | Some bytes \<Rightarrow>
          bind_result (poke (m_recive_buffer_pos s) bytes (m_recv_buffer s)) (\<lambda>buf.
          let pos = m_recive_buffer_pos s + length bytes;
              s = s\<lparr>m_recv_buffer := buf, m_recive_buffer_pos := pos\<rparr>
          in bind_result (read_loop iface pos 0 s) (finish_read pos)))"

section \<open>What a byte stream means\<close>

text \<open>
  The specification of the receive side, on a stream and without buffers or chunks: the messages
  of the complete frames, and how the stream ends.
\<close>

datatype stream_end = More "u8 list" | Bad_Length | Bad_Frame

definition open_frame :: "compress_strategy option \<Rightarrow> u8 list \<Rightarrow> message_t option" where
  "open_frame iface xs =
     (case uncompress iface 0 xs (word_of_nat MAX_MESSAGE_LEN) of Inr m \<Rightarrow> m | Inl _ \<Rightarrow> None)"

function parse ::
    "compress_strategy option \<Rightarrow> u8 list \<Rightarrow> message_t list \<times> stream_end" where
  "parse iface xs =
     (if length xs < MESSAGE_HEAD_LEN then ([], More xs)
      else
        let len = frame_length xs in
        if len < MESSAGE_HEAD_LEN \<or> len > MAX_MESSAGE_LEN then ([], Bad_Length)
        else if len \<le> length xs then
          (case open_frame iface (take len xs) of
             None \<Rightarrow> ([], Bad_Frame)
           | Some m \<Rightarrow> (let (ms, e) = parse iface (drop len xs) in (m # ms, e)))
        else ([], More xs))"
  by pat_completeness auto
termination
  by (relation "measure (\<lambda>(iface, xs). length xs)") (auto simp: MESSAGE_HEAD_LEN_def)

declare parse.simps [simp del]

fun delivered :: "effect list \<Rightarrow> message_t list" where
  "delivered [] = []"
| "delivered (Push_Message m # es) = m # delivered es"
| "delivered (e # es) = delivered es"

lemma delivered_append [simp]: "delivered (xs @ ys) = delivered xs @ delivered ys"
  by (induction xs rule: delivered.induct) simp_all

definition live :: "tcp_session \<Rightarrow> u8 list" where
  "live s = take (m_recive_buffer_pos s) (m_recv_buffer s)"

definition good_length :: "nat \<Rightarrow> bool" where
  "good_length n \<longleftrightarrow> MESSAGE_HEAD_LEN \<le> n \<and> n \<le> MAX_MESSAGE_LEN"

lemma parse_short: "length xs < MESSAGE_HEAD_LEN \<Longrightarrow> parse iface xs = ([], More xs)"
  by (subst parse.simps) simp

lemma parse_bad:
  "MESSAGE_HEAD_LEN \<le> length xs \<Longrightarrow> \<not> good_length (frame_length xs) \<Longrightarrow>
   parse iface xs = ([], Bad_Length)"
  by (subst parse.simps) (auto simp: good_length_def Let_def)

lemma parse_wait:
  "MESSAGE_HEAD_LEN \<le> length xs \<Longrightarrow> good_length (frame_length xs) \<Longrightarrow>
   length xs < frame_length xs \<Longrightarrow> parse iface xs = ([], More xs)"
  by (subst parse.simps) (auto simp: good_length_def Let_def)

lemma parse_step:
  "MESSAGE_HEAD_LEN \<le> length xs \<Longrightarrow> good_length (frame_length xs) \<Longrightarrow>
   frame_length xs \<le> length xs \<Longrightarrow>
   parse iface xs =
     (case open_frame iface (take (frame_length xs) xs) of
        None \<Rightarrow> ([], Bad_Frame)
      | Some m \<Rightarrow> (m # fst (parse iface (drop (frame_length xs) xs)),
                   snd (parse iface (drop (frame_length xs) xs))))"
  by (subst parse.simps) (auto simp: good_length_def Let_def split: prod.split option.split)

lemma frame_length_append [simp]:
  "MESSAGE_HEAD_LEN \<le> length xs \<Longrightarrow> frame_length (xs @ ys) = frame_length xs"
  by (simp add: frame_length_def MESSAGE_HEAD_LEN_def)

lemma parse_induct [case_names short bad wait fail frame]:
  assumes "\<And>xs. length xs < MESSAGE_HEAD_LEN \<Longrightarrow> P xs"
    and "\<And>xs. MESSAGE_HEAD_LEN \<le> length xs \<Longrightarrow> \<not> good_length (frame_length xs) \<Longrightarrow> P xs"
    and "\<And>xs. MESSAGE_HEAD_LEN \<le> length xs \<Longrightarrow> good_length (frame_length xs) \<Longrightarrow>
           length xs < frame_length xs \<Longrightarrow> P xs"
    and "\<And>xs. MESSAGE_HEAD_LEN \<le> length xs \<Longrightarrow> good_length (frame_length xs) \<Longrightarrow>
           frame_length xs \<le> length xs \<Longrightarrow>
           open_frame iface (take (frame_length xs) xs) = None \<Longrightarrow> P xs"
    and "\<And>xs m. MESSAGE_HEAD_LEN \<le> length xs \<Longrightarrow> good_length (frame_length xs) \<Longrightarrow>
           frame_length xs \<le> length xs \<Longrightarrow>
           open_frame iface (take (frame_length xs) xs) = Some m \<Longrightarrow>
           P (drop (frame_length xs) xs) \<Longrightarrow> P xs"
  shows "P xs"
proof (induction "length xs" arbitrary: xs rule: less_induct)
  case less
  show ?case
  proof (cases "MESSAGE_HEAD_LEN \<le> length xs \<and> good_length (frame_length xs)
      \<and> frame_length xs \<le> length xs")
    case True
    then have "length (drop (frame_length xs) xs) < length xs"
      by (auto simp: good_length_def MESSAGE_HEAD_LEN_def)
    then have "P (drop (frame_length xs) xs)" by (rule less)
    with True show ?thesis
      using assms(4,5) by (cases "open_frame iface (take (frame_length xs) xs)") auto
  next
    case False
    then show ?thesis
      using assms(1-3) by (meson not_le)
  qed
qed

lemmas parse_rules = parse_short parse_bad parse_wait parse_step

lemma parse_More_bound: "snd (parse iface xs) = More r \<Longrightarrow> length r < MAX_MESSAGE_LEN"
proof (induction xs rule: parse_induct [where iface = iface])
  case (short xs)
  then show ?case by (simp add: parse_rules MESSAGE_HEAD_LEN_def MAX_MESSAGE_LEN_def)
next
  case (wait xs)
  then show ?case by (simp add: parse_rules good_length_def)
qed (simp_all add: parse_rules)

lemma parse_append:
  "parse iface (xs @ ys) =
     (case snd (parse iface xs) of
        More r \<Rightarrow> (fst (parse iface xs) @ fst (parse iface (r @ ys)), snd (parse iface (r @ ys)))
      | e \<Rightarrow> (fst (parse iface xs), e))"
proof (induction xs rule: parse_induct [where iface = iface])
  case (frame xs m)
  then have "parse iface (xs @ ys) =
      (m # fst (parse iface (drop (frame_length xs) xs @ ys)),
       snd (parse iface (drop (frame_length xs) xs @ ys)))"
    by (subst parse_step) auto
  with frame show ?case
    by (simp add: parse_step split: stream_end.split)
qed (simp_all add: parse_rules)

text \<open>The rest of the stream is its last part.\<close>

lemma parse_rest: "snd (parse iface xs) = More r \<Longrightarrow> \<exists>k \<le> length xs. r = drop k xs"
proof (induction xs rule: parse_induct [where iface = iface])
  case (frame xs m)
  then obtain k where "k \<le> length (drop (frame_length xs) xs)" "r = drop k (drop (frame_length xs) xs)"
    by (auto simp: parse_step)
  with frame(3) show ?case
    by (intro exI [of _ "k + frame_length xs"]) auto
qed (auto simp: parse_rules intro: exI [of _ 0])

lemma parse_idem: "snd (parse iface xs) = More r \<Longrightarrow> parse iface r = ([], More r)"
  by (induction xs rule: parse_induct [where iface = iface]) (auto simp: parse_rules)

section \<open>The buffer implements the stream\<close>

lemma peek_take: "p + n \<le> k \<Longrightarrow> k \<le> length xs \<Longrightarrow> peek p n (take k xs) = peek p n xs"
  by (simp add: peek_def drop_take)

text \<open>The parser of a frame does not look beyond the frame, and a frame with a good length is
  never a fault.\<close>

lemma uncompress_local:
  assumes "good_length (frame_length xs)" and "frame_length xs \<le> length xs"
  shows "uncompress iface 0 xs (word_of_nat MAX_MESSAGE_LEN)
           = Inr (open_frame iface (take (frame_length xs) xs))"
proof -
  let ?len = "frame_length xs"
  let ?L = "le_word (take 4 xs) :: u32"
  have ten: "10 \<le> ?len"
    using assms(1) by (simp add: good_length_def MESSAGE_HEAD_LEN_def)
  have L: "unat ?L = ?len" by (simp add: frame_length_def)
  have "word_of_nat MESSAGE_HEAD_LEN \<le> ?L"
    using ten L by (simp add: word_le_nat_alt MESSAGE_HEAD_LEN_def)
  from unat_sub [OF this] have body: "unat (?L - 10) = ?len - 10"
    using L by (simp add: MESSAGE_HEAD_LEN_def)
  have cut: "take 4 (drop 4 (take ?len xs)) = take 4 (drop 4 xs)"
      "drop 10 (take ?len xs) = take (?len - 10) (drop 10 xs)"
    using ten by (simp_all add: drop_take min_def)
  have eq: "uncompress iface 0 (take ?len xs) cap = uncompress iface 0 xs cap" for cap
    using ten assms(2) body
    by (simp add: uncompress_def peek_take message_consts Let_def cut)
  have "\<exists>m. uncompress iface 0 xs cap = Inr m" for cap
    using ten assms(2) body
    by (simp add: uncompress_def message_consts Let_def split: option.split) 
  then show ?thesis
    by (metis eq open_frame_def sum.simps(6))
qed

text \<open>The effect of a run of frames on the session.\<close>

definition deliver :: "message_t list \<Rightarrow> tcp_session \<Rightarrow> tcp_session" where
  "deliver ms s = fold push_message ms s"

definition uncompress_failed :: "tcp_session \<Rightarrow> tcp_session" where
  "uncompress_failed s =
     close_session (if m_father s \<noteq> None
       then emit [Add_Ban_Ip (m_remote_ip_ui s) 120 BAN_REASON_WRONG_CHECK_SUM] s else s)"

lemma push_message_fields [simp]:
  "m_recv_buffer (push_message m s) = m_recv_buffer s"
  "m_recive_buffer_pos (push_message m s) = m_recive_buffer_pos s"
  "m_father (push_message m s) = m_father s"
  "m_is_client (push_message m s) = m_is_client s"
  "m_isvalid (push_message m s) = m_isvalid s"
  "m_isconnected (push_message m s) = m_isconnected s"
  by (simp_all add: push_message_def emit_def)

lemma deliver_fields [simp]:
  "m_recv_buffer (deliver ms s) = m_recv_buffer s"
  "m_recive_buffer_pos (deliver ms s) = m_recive_buffer_pos s"
  "m_father (deliver ms s) = m_father s"
  "m_is_client (deliver ms s) = m_is_client s"
  "m_isvalid (deliver ms s) = m_isvalid s"
  "m_isconnected (deliver ms s) = m_isconnected s"
  by (induction ms arbitrary: s) (simp_all add: deliver_def)

lemma deliver_effects:
  "m_father s \<noteq> None \<or> m_is_client s \<Longrightarrow> effects (deliver ms s) = effects s @ map Push_Message ms"
  by (induction ms arbitrary: s) (simp_all add: deliver_def, simp add: push_message_def emit_def)

lemma delivered_push [simp]: "delivered (map Push_Message ms) = ms"
  by (induction ms) simp_all

lemma cut_eq: "now \<le> pos \<Longrightarrow> pos \<le> length buf \<Longrightarrow> drop now buf = drop now (take pos buf) @ drop pos buf"
  by (metis append_take_drop_id drop_append diff_is_0_eq drop0 length_take min.absorb2)

lemma frame_length_cut:
  assumes "xs = drop now (take pos buf)" and "now \<le> pos" and "pos \<le> length buf"
    and "MESSAGE_HEAD_LEN \<le> length xs"
  shows "frame_length (drop now buf) = frame_length xs"
  using cut_eq [of now pos buf] assms by simp

lemma read_loop_parse:
  assumes "pos \<le> length (m_recv_buffer s)" and "now \<le> pos"
    and "xs = drop now (take pos (m_recv_buffer s))"
  shows "read_loop iface pos now s =
    Inr (case snd (parse iface xs) of
           More r \<Rightarrow> (Need_More (pos - length r), deliver (fst (parse iface xs)) s)
         | Bad_Length \<Rightarrow> (Banned, close_and_ban (deliver (fst (parse iface xs)) s))
         | Bad_Frame \<Rightarrow> (Failed, uncompress_failed (deliver (fst (parse iface xs)) s)))"
  using assms
proof (induction xs arbitrary: now s rule: parse_induct [where iface = iface])
  case (short xs)
  then show ?case
    by (subst read_loop.simps) (simp add: parse_rules deliver_def)
next
  case (bad xs)
  have "frame_length (drop now (m_recv_buffer s)) = frame_length xs"
    using bad by (metis frame_length_cut)
  with bad show ?case
    by (subst read_loop.simps) (auto simp: parse_rules deliver_def good_length_def Let_def)
next
  case (wait xs)
  have "frame_length (drop now (m_recv_buffer s)) = frame_length xs"
    using wait by (metis frame_length_cut)
  with wait show ?case
    by (subst read_loop.simps) (auto simp: parse_rules deliver_def good_length_def Let_def)
next
  case (fail xs)
  have len: "frame_length (drop now (m_recv_buffer s)) = frame_length xs"
    using fail by (metis frame_length_cut)
  have "take (frame_length xs) (drop now (m_recv_buffer s)) = take (frame_length xs) xs"
    using fail cut_eq [of now pos "m_recv_buffer s"] by simp
  with fail len have "uncompress_message iface now s = Inr (False, uncompress_failed s)"
    using uncompress_local [of "drop now (m_recv_buffer s)" iface]
    by (simp add: uncompress_message_def uncompress_failed_def Let_def)
  with fail len show ?case
    by (subst read_loop.simps) (auto simp: parse_rules deliver_def good_length_def Let_def)
next
  case (frame xs m)
  have len: "frame_length (drop now (m_recv_buffer s)) = frame_length xs"
    using frame by (metis frame_length_cut)
  have "take (frame_length xs) (drop now (m_recv_buffer s)) = take (frame_length xs) xs"
    using frame cut_eq [of now pos "m_recv_buffer s"] by simp
  with frame len have un: "uncompress_message iface now s = Inr (True, push_message m s)"
    using uncompress_local [of "drop now (m_recv_buffer s)" iface]
    by (simp add: uncompress_message_def)
  obtain ys where ys: "ys = drop (frame_length xs) xs" by blast
  have "ys = drop (now + frame_length xs) (take pos (m_recv_buffer s))"
    using frame by (simp add: ys add.commute)
  then have IH: "read_loop iface pos (now + frame_length xs) (push_message m s) =
      Inr (case snd (parse iface ys) of
           More r \<Rightarrow> (Need_More (pos - length r), deliver (fst (parse iface ys)) (push_message m s))
         | Bad_Length \<Rightarrow> (Banned, close_and_ban (deliver (fst (parse iface ys)) (push_message m s)))
         | Bad_Frame \<Rightarrow>
             (Failed, uncompress_failed (deliver (fst (parse iface ys)) (push_message m s))))"
    using frame unfolding ys by (intro frame.IH) auto
  have "length xs = pos - now"
    using frame.prems by simp
  then have "read_loop iface pos now s
      = read_loop iface pos (now + frame_length xs) (push_message m s)"
    using frame.hyps len un
    by (subst read_loop.simps) (auto simp: good_length_def Let_def)
  moreover have "fst (parse iface xs) = m # fst (parse iface ys)"
      "snd (parse iface xs) = snd (parse iface ys)"
    using frame.hyps by (simp_all add: parse_step ys)
  moreover have "deliver (m # ms) s = deliver ms (push_message m s)" for ms
    by (simp add: deliver_def)
  ultimately show ?case
    by (simp only: IH)
qed

text \<open>One chunk: the live bytes and the chunk are parsed together.\<close>

lemma finish_need_more:
  "pos \<le> length (m_recv_buffer s) \<Longrightarrow>
   finish_read pos (Need_More k, s) = Inr (emit [Async_Read]
     (s\<lparr>m_recv_buffer := (if 0 < k \<and> k < pos
            then take (pos - k) (drop k (m_recv_buffer s)) @ drop (pos - k) (m_recv_buffer s)
            else m_recv_buffer s),
        m_recive_buffer_pos := pos - k\<rparr>))"
  by (simp add: finish_read_def)

lemma length_overwrite:
  "length r \<le> length b \<Longrightarrow> length (if P then r @ drop (length r) b else b) = length b"
  by simp

lemma handle_read_parse:
  assumes "m_isvalid s"
    and "m_recive_buffer_pos s + length bytes \<le> length (m_recv_buffer s)"
  shows "\<exists>t. handle_read_some iface (Some bytes) s = Inr t
    \<and> length (m_recv_buffer t) = length (m_recv_buffer s)
    \<and> m_isvalid t \<and> m_father t = m_father s \<and> m_is_client t = m_is_client s
    \<and> (m_father s \<noteq> None \<or> m_is_client s \<longrightarrow>
         delivered (effects t) = delivered (effects s) @ fst (parse iface (live s @ bytes)))
    \<and> (case snd (parse iface (live s @ bytes)) of
         More r \<Rightarrow> live t = r \<and> m_recive_buffer_pos t = length r
                   \<and> m_isconnected t = m_isconnected s \<and> last (effects t) = Async_Read
       | Bad_Length \<Rightarrow> last (effects t) \<noteq> Async_Read
       | Bad_Frame \<Rightarrow> last (effects t) \<noteq> Async_Read)"
proof -
  let ?p = "m_recive_buffer_pos s" and ?pos = "m_recive_buffer_pos s + length bytes"
  let ?buf = "take ?p (m_recv_buffer s) @ bytes @ drop ?pos (m_recv_buffer s)"
  let ?s = "s\<lparr>m_recv_buffer := ?buf, m_recive_buffer_pos := ?pos\<rparr>"
  let ?xs = "live s @ bytes"
  have buf: "length ?buf = length (m_recv_buffer s)" "take ?pos ?buf = ?xs" "length ?xs = ?pos"
    using assms(2) by (simp_all add: live_def)
  have loop: "read_loop iface ?pos 0 ?s =
      Inr (case snd (parse iface ?xs) of
           More r \<Rightarrow> (Need_More (?pos - length r), deliver (fst (parse iface ?xs)) ?s)
         | Bad_Length \<Rightarrow> (Banned, close_and_ban (deliver (fst (parse iface ?xs)) ?s))
         | Bad_Frame \<Rightarrow> (Failed, uncompress_failed (deliver (fst (parse iface ?xs)) ?s)))"
    using buf assms(2) by (intro read_loop_parse) simp_all
  have run: "handle_read_some iface (Some bytes) s = finish_read ?pos
      (case snd (parse iface ?xs) of
           More r \<Rightarrow> (Need_More (?pos - length r), deliver (fst (parse iface ?xs)) ?s)
         | Bad_Length \<Rightarrow> (Banned, close_and_ban (deliver (fst (parse iface ?xs)) ?s))
         | Bad_Frame \<Rightarrow> (Failed, uncompress_failed (deliver (fst (parse iface ?xs)) ?s)))"
    by (simp add: handle_read_some_def Let_def assms loop)
  obtain d where d: "d = deliver (fst (parse iface ?xs)) ?s" by blast
  have dd: "m_recv_buffer d = ?buf" "m_isvalid d" "m_father d = m_father s" "m_is_client d = m_is_client s"
      "m_isconnected d = m_isconnected s"
      "m_father s \<noteq> None \<or> m_is_client s \<Longrightarrow> delivered (effects d) = delivered (effects s) @ fst (parse iface ?xs)"
    using assms(1) by (simp_all add: d deliver_effects)
  show ?thesis
  proof (cases "snd (parse iface ?xs)")
    case (More r)
    obtain k where k: "k \<le> ?pos" "r = drop k ?xs"
      using parse_rest [OF More] buf(3) by auto
    then have len: "length r = ?pos - k" "?pos - length r = k"
      using buf(3) by simp_all
    let ?buf' = "if 0 < k \<and> k < ?pos then r @ drop (length r) ?buf else ?buf"
    have r: "take (?pos - k) (drop k ?buf) = r"
      using k buf by (metis drop_take)
    have live: "take (length r) ?buf' = r"
    proof -
      consider "0 < k \<and> k < ?pos" | "k = 0" | "k = ?pos" using k(1) by linarith
      then show ?thesis
      proof cases
        case 1
        then show ?thesis by (simp only: if_True simp_thms take_append take_all length_drop) simp
      next
        case 2
        with k(2) len(1) buf(2) show ?thesis by (simp only: if_False simp_thms drop0 diff_zero) simp
      next
        case 3
        with len(1) have "r = []" by simp
        then show ?thesis by simp
      qed
    qed
    have size: "length ?buf' = length (m_recv_buffer s)"
      by (rule trans [OF length_overwrite buf(1)]) (use len assms(2) buf(1) in linarith)
    have "?pos \<le> length (m_recv_buffer d)"
      unfolding dd buf(1) by (rule assms(2))
    from finish_need_more [OF this, of k]
    have fin: "finish_read ?pos (Need_More k, d) = Inr (emit [Async_Read]
        (d\<lparr>m_recv_buffer := ?buf', m_recive_buffer_pos := length r\<rparr>))"
      unfolding dd r unfolding len(1) [symmetric] .
    have "handle_read_some iface (Some bytes) s = finish_read ?pos (Need_More k, d)"
      unfolding run More d [symmetric] by (simp only: stream_end.case len(2))
    note fin [folded this]
    then show ?thesis
      using More live size dd by (simp add: emit_def live_def del: if_split)
  next
    case Bad_Length
    then show ?thesis
      unfolding run using dd buf(1) unfolding d [symmetric]
      by (simp add: finish_read_def close_and_ban_def close_session_def emit_def)
  next
    case Bad_Frame
    then show ?thesis
      unfolding run using dd buf(1) unfolding d [symmetric]
      by (simp add: finish_read_def uncompress_failed_def on_close_io_def clear_send_msg_def
          close_session_def emit_def Let_def)
  qed
qed

section \<open>Relations between a session before and after a read\<close>

text \<open>
  What holds of every single thing that \<open>handle_read_some\<close> can do to a session, and is reflexive and transitive, holds
  of the whole handler.
\<close>

definition read_closed :: "(tcp_session \<Rightarrow> tcp_session \<Rightarrow> bool) \<Rightarrow> bool" where
  "read_closed R \<longleftrightarrow> reflp R \<and> transp R
     \<and> (\<forall>x. R x (close_session x) \<and> R x (close_and_ban x) \<and> R x (on_close_io x) \<and> R x (uncompress_failed x)
          \<and> R x (emit [Async_Read] x))
     \<and> (\<forall>m x. R x (push_message m x)) \<and> (\<forall>x b n. R x (x\<lparr>m_recv_buffer := b, m_recive_buffer_pos := n\<rparr>))"

lemma read_closedD:
  assumes "read_closed R"
  shows "R x x" "R x y \<Longrightarrow> R y z \<Longrightarrow> R x z" "R x (close_session x)" "R x (close_and_ban x)" "R x (on_close_io x)"
    "R x (uncompress_failed x)" "R x (emit [Async_Read] x)" "R x (push_message m x)"
    "R x (x\<lparr>m_recv_buffer := b, m_recive_buffer_pos := n\<rparr>)"
  using assms unfolding read_closed_def by (auto dest: reflpD transpD)

lemma uncompress_message_closed:
  assumes "read_closed R" and "uncompress_message iface k x = Inr (ok, y)" shows "R x y"
proof -
  have "y = uncompress_failed x \<or> (\<exists>m. y = push_message m x)"
    using assms(2) by (auto simp: uncompress_message_def uncompress_failed_def Let_def split: option.splits if_splits)
  then show ?thesis using read_closedD(6,8) [OF assms(1)] by blast
qed

lemma read_loop_closed:
  assumes R: "read_closed R"
  shows "read_loop iface pos k x = Inr (r, y) \<Longrightarrow> R x y"
proof (induction iface pos k x arbitrary: r y rule: read_loop.induct)
  case (1 iface pos k x)
  let ?len = "frame_length (drop k (m_recv_buffer x))"
  note R = read_closedD [OF R]
  show ?case
  proof (cases "pos - k < MESSAGE_HEAD_LEN \<or> ?len < MESSAGE_HEAD_LEN \<or> ?len > MAX_MESSAGE_LEN \<or> pos - k < ?len")
    case True
    with 1(2) R(1,4) show ?thesis by (subst (asm) read_loop.simps) (auto simp: Let_def split: if_splits)
  next
    case False
    then have loop: "read_loop iface pos k x = (case uncompress_message iface k x of
        Inl e \<Rightarrow> Inl e | Inr (ok, x') \<Rightarrow> if ok then read_loop iface pos (k + ?len) x' else Inr (Failed, x'))"
      by (subst read_loop.simps) (simp add: Let_def not_le)
    then obtain ok x' where u: "uncompress_message iface k x = Inr (ok, x')"
      using 1(2) by (cases "uncompress_message iface k x") auto
    note t = uncompress_message_closed [OF assms u]
    show ?thesis
    proof (cases ok)
      case True
      with loop 1(2) u have "read_loop iface pos (k + ?len) x' = Inr (r, y)" by simp
      with 1(1) [OF _ refl _ _ u refl True] False have "R x' y" by simp
      with t show ?thesis by (rule R(2))
    next
      case False
      with loop 1(2) u t show ?thesis by simp
    qed
  qed
qed

lemma handle_read_closed:
  assumes "read_closed R" and "handle_read_some iface chunk x = Inr y"
  shows "R x y"
proof (cases "m_isvalid x \<and> chunk \<noteq> None")
  case True
  note R = read_closedD [OF assms(1)]
  obtain bytes where "chunk = Some bytes" using True by blast
  with assms True obtain b r z where z:
      "read_loop iface (m_recive_buffer_pos x + length bytes) 0
        (x\<lparr>m_recv_buffer := b, m_recive_buffer_pos := m_recive_buffer_pos x + length bytes\<rparr>) = Inr (r, z)"
      "finish_read (m_recive_buffer_pos x + length bytes) (r, z) = Inr y"
    by (auto simp: handle_read_some_def Let_def)
  have "R x z" using R(2) [OF R(9) read_loop_closed [OF assms(1) z(1)]] .
  moreover have "R z y"
  proof -
    have "y = z \<or> y = on_close_io z \<or> (\<exists>b n. y = emit [Async_Read] (z\<lparr>m_recv_buffer := b, m_recive_buffer_pos := n\<rparr>))"
      using z(2) by (auto simp: finish_read_def simp del: bind_result.simps split: read_outcome.splits)
    then show ?thesis using R(1,5) R(2) [OF R(9) R(7)] by blast
  qed
  ultimately show ?thesis by (rule R(2))
next
  case False
  with assms(2) have "y = x \<or> y = on_close_io x" by (auto simp: handle_read_some_def split: if_splits)
  then show ?thesis using read_closedD(1,5) [OF assms(1)] by blast
qed

section \<open>Streams in chunks\<close>

text \<open>
  The chunks of one connection, one after another: a chunk arrives only while a read is
  outstanding, that is, when the last handler ended by starting another read.
\<close>

fun feed :: "compress_strategy option \<Rightarrow> u8 list list \<Rightarrow> tcp_session \<Rightarrow> tcp_session result" where
  "feed iface [] s = Inr s"
| "feed iface (c # cs) s =
     bind_result (handle_read_some iface (Some c) s) (\<lambda>t.
       if last (effects t) = Async_Read then feed iface cs t else Inr t)"

definition receiving :: "tcp_session \<Rightarrow> bool" where
  "receiving s \<longleftrightarrow> m_isvalid s \<and> (m_father s \<noteq> None \<or> m_is_client s)
     \<and> length (m_recv_buffer s) = 2 * MAX_MESSAGE_LEN \<and> m_recive_buffer_pos s < MAX_MESSAGE_LEN"

lemma feed_parse:
  assumes "receiving s" and "\<forall>c \<in> set cs. length c \<le> MAX_MESSAGE_LEN"
  shows "\<exists>t. feed iface cs s = Inr t
     \<and> (parse iface (live s) = ([], More (live s)) \<longrightarrow>
        delivered (effects t) = delivered (effects s) @ fst (parse iface (live s @ concat cs))
        \<and> (\<forall>r. snd (parse iface (live s @ concat cs)) = More r \<longrightarrow> live t = r \<and> receiving t))"
  using assms
proof (induction cs arbitrary: s)
  case Nil
  then show ?case by auto
next
  case (Cons c cs)
  have fits: "m_recive_buffer_pos s + length c \<le> length (m_recv_buffer s)"
    using Cons.prems by (simp add: receiving_def)
  from Cons.prems(1) have valid: "m_isvalid s" "m_father s \<noteq> None \<or> m_is_client s" by (simp_all add: receiving_def)
  obtain t where t: "handle_read_some iface (Some c) s = Inr t"
    "length (m_recv_buffer t) = length (m_recv_buffer s)" "m_isvalid t" "m_father t = m_father s" "m_is_client t = m_is_client s"
    "delivered (effects t) = delivered (effects s) @ fst (parse iface (live s @ c))"
    "case snd (parse iface (live s @ c)) of
         More r \<Rightarrow> live t = r \<and> m_recive_buffer_pos t = length r
                   \<and> m_isconnected t = m_isconnected s \<and> last (effects t) = Async_Read
       | Bad_Length \<Rightarrow> last (effects t) \<noteq> Async_Read
       | Bad_Frame \<Rightarrow> last (effects t) \<noteq> Async_Read"
    using handle_read_parse [OF valid(1) fits, of iface] valid(2) by auto
  note split = parse_append [of iface "live s @ c" "concat cs", simplified]
  show ?case
  proof (cases "snd (parse iface (live s @ c))")
    case (More r)
    with t(7) have r: "live t = r" "m_recive_buffer_pos t = length r" "last (effects t) = Async_Read"
      by auto
    have "receiving t"
      using Cons.prems(1) t r parse_More_bound [OF More] by (simp add: receiving_def)
    moreover have "parse iface r = ([], More r)"
      by (rule parse_idem [OF More])
    ultimately obtain u where "feed iface cs t = Inr u"
      "delivered (effects u) = delivered (effects t) @ fst (parse iface (r @ concat cs))"
      "\<forall>q. snd (parse iface (r @ concat cs)) = More q \<longrightarrow> live u = q \<and> receiving u"
      using Cons.IH [of t] Cons.prems(2) r(1) by auto
    with t(1,6) r split More show ?thesis by auto
  qed (use t split in auto)
qed

lemma frame_length_frame:
  assumes "length p + 10 \<le> MAX_MESSAGE_LEN"
  shows "frame_length (frame junk z p @ rest) = length p + 10"
proof -
  have "frame_length (frame junk z p @ rest) = unat (word_of_nat (length p + 10) :: u32)"
    by (simp add: frame_length_def frame_def del: of_nat_add)
  then show ?thesis
    using assms by (simp only: unat_of_nat) (simp add: MAX_MESSAGE_LEN_def)
qed

lemma parse_frame:
  assumes "length p + 10 \<le> MAX_MESSAGE_LEN"
  shows "parse None (frame junk z p @ rest)
    = (\<lparr>msg_data = p, msg_from = 0\<rparr> # fst (parse None rest), snd (parse None rest))"
proof -
  have "open_frame None (frame junk z p) = Some \<lparr>msg_data = p, msg_from = 0\<rparr>"
    using uncompress_frame [of p None 0 junk z "[]"] assms
    by (simp add: open_frame_def MAX_MESSAGE_LEN_def)
  with assms show ?thesis
    by (subst parse_step)
       (simp_all add: frame_length_frame good_length_def MESSAGE_HEAD_LEN_def
          del: frame_length_append)
qed

lemma parse_frames:
  assumes "\<forall>(junk, p) \<in> set ps. length p + 10 \<le> MAX_MESSAGE_LEN"
  shows "parse None (concat (map (\<lambda>(junk, p). frame junk False p) ps))
    = (map (\<lambda>(junk, p). \<lparr>msg_data = p, msg_from = 0\<rparr>) ps, More [])"
  using assms by (induction ps) (auto simp: parse_frame parse_short MESSAGE_HEAD_LEN_def)

text \<open>C1: whatever the peer sends and however the network cuts it into chunks of at most one receive
  block, the fixed receive buffer never overflows, no read goes out of bounds, and the messages
  handed to the server are exactly those of the stream, up to its first malformed frame.\<close>

theorem stream_reassembly:
  assumes "receiving s" and "live s = []" and "list_all (\<lambda>c. length c \<le> MAX_MESSAGE_LEN) cs"
  shows "\<exists>t. feed iface cs s = Inr t
     \<and> delivered (effects t) = delivered (effects s) @ fst (parse iface (concat cs))"
  using feed_parse [OF assms(1), of cs iface] assms(2,3)
  by (auto simp: parse_short MESSAGE_HEAD_LEN_def list_all_iff)

definition accepted :: "tcp_session" where
  "accepted = handle_accept \<lparr>limit_mode = False, ttti_mode = False, task_thread_count = 1\<rparr>
                0 ''peer'' 1 new_session"

lemma accepted_receiving: "receiving accepted \<and> live accepted = []"
  by (simp add: accepted_def handle_accept_def begin_read_message_def new_session_def emit_def
      receiving_def live_def Let_def MAX_MESSAGE_LEN_def)

theorem stream_reassembly_witness:
  "\<exists>t. feed None [[1, 2], [3]] accepted = Inr t
     \<and> delivered (effects t) = delivered (effects accepted) @ fst (parse None [1, 2, 3])"
  using stream_reassembly [of accepted "[[1, 2], [3]]" None] accepted_receiving
  by (simp add: MAX_MESSAGE_LEN_def)

text \<open>payloads framed by a sender arrive complete and in order, for every way of cutting the
  stream into chunks.\<close>

theorem frames_arrive:
  assumes "receiving s" and "live s = []" and "list_all (\<lambda>c. length c \<le> MAX_MESSAGE_LEN) cs"
    and "list_all (\<lambda>(junk, p). length p + 10 \<le> MAX_MESSAGE_LEN) ps"
    and "concat cs = concat (map (\<lambda>(junk, p). frame junk False p) ps)"
  shows "\<exists>t. feed None cs s = Inr t \<and> live t = [] \<and> receiving t
     \<and> map msg_data (delivered (effects t)) = map msg_data (delivered (effects s)) @ map snd ps"
  using feed_parse [OF assms(1), of cs None] assms(2-4) parse_frames [of ps]
  by (auto simp: parse_short MESSAGE_HEAD_LEN_def list_all_iff assms(5) comp_def case_prod_unfold)

theorem frames_arrive_witness:
  "\<exists>t. feed None [take 5 (frame (\<lambda>_. 0) False [7, 8]), drop 5 (frame (\<lambda>_. 0) False [7, 8])] accepted
         = Inr t
     \<and> map msg_data (delivered (effects t)) = map msg_data (delivered (effects accepted)) @ [[7, 8]]"
proof -
  let ?cs = "[take 5 (frame (\<lambda>_. 0) False [7, 8]), drop 5 (frame (\<lambda>_. 0) False [7, 8])]"
  have "\<exists>t. feed None ?cs accepted = Inr t \<and> live t = [] \<and> receiving t
     \<and> map msg_data (delivered (effects t))
         = map msg_data (delivered (effects accepted)) @ map snd [(\<lambda>_ :: nat. 0 :: u8, [7, 8])]"
    by (rule frames_arrive) (use accepted_receiving in \<open>auto simp: MAX_MESSAGE_LEN_def\<close>)
  then show ?thesis
    unfolding list.map snd_conv by blast
qed

section \<open>Sending\<close>

definition send_queued :: "message_t \<Rightarrow> tcp_session \<Rightarrow> tcp_session" where
  "send_queued msg s =
     (if \<not> m_isconnected s then s
      else
        let s = s\<lparr>m_queue_send_msg := m_queue_send_msg s @ [msg],
                  m_not_sent_size := m_not_sent_size s + int (length (msg_data msg))\<rparr>
        in if (case m_father s of Some f \<Rightarrow> limit_mode f | None \<Rightarrow> False)
              \<and> m_not_sent_size s \<ge> int QUEUE_MESSAGE_LIMIT_SIZE
           then close_session s
           else emit [Post_Write] s)"

text \<open>
  \<open>send_message\<close>. \<open>junk\<close> is the contents of the allocation, as for \<open>makeMessage\<close>. A null data
  pointer is \<open>None\<close>. In transfer-id mode the thread is chosen by the second 32-bit word of the
  payload, which is read without a length check.
\<close>

definition send_message ::
    "compress_strategy option \<Rightarrow> (nat \<Rightarrow> u8) \<Rightarrow> u8 list option \<Rightarrow> u32 \<Rightarrow> tcp_session
     \<Rightarrow> tcp_session result" where
  "send_message iface junk data len s =
     (case data of
        None \<Rightarrow> Inr s
      | Some bytes \<Rightarrow>
          if \<not> m_isvalid s \<or> \<not> m_isconnected s \<or> len = 0 \<or> unat len > MAX_MESSAGE_LEN - 1
          then Inr s
          else case m_father s of
            Some f \<Rightarrow>
              if m_iscompress s then
                bind_result
                  (if ttti_mode f then
                     bind_result (peek 4 4 bytes) (\<lambda>w.
                     if task_thread_count f = 0 then Inl (Runtime_Error ''division by zero'')
                     else Inr (unat (le_word w :: u32) mod task_thread_count f))
                   else Inr (m_thread_index s)) (\<lambda>ti.
                bind_result (peek 0 (unat len) bytes) (\<lambda>d. Inr (emit [Push_Task d ti] s)))
              else
                bind_result (makeMessage junk 0 bytes len False) (\<lambda>m. Inr (send_queued m s))
          | None \<Rightarrow>
              bind_result (compress iface junk 0 bytes len (word_of_nat MAX_MESSAGE_LEN))
                (\<lambda>m. Inr (send_queued m s)))"

text \<open>\<open>compress_send_task\<close>: \<open>execute\<close> runs on a worker thread, \<open>end\<close> afterwards on the main thread;
  the result member is not initialised by the constructor.\<close>

definition task_execute ::
    "compress_strategy option \<Rightarrow> (nat \<Rightarrow> u8) \<Rightarrow> u8 list \<Rightarrow> tcp_session
     \<Rightarrow> (message_t option) result" where
  "task_execute iface junk data s =
     (if m_isvalid s
      then bind_result (compress iface junk 0 data (word_of_nat (length data))
                          (word_of_nat MAX_MESSAGE_LEN)) (\<lambda>m. Inr (Some m))
      else Inr None)"

definition task_end :: "message_t option \<Rightarrow> tcp_session \<Rightarrow> tcp_session result" where
  "task_end r s =
     (if m_isvalid s \<and> m_isconnected s then
        (case r of Some m \<Rightarrow> Inr (send_queued m s) | None \<Rightarrow> Inl Uninitialised)
      else Inr s)"

text \<open>The packing loop of \<open>_write_message\<close>: the bytes copied and what stays queued.\<close>

fun pack_batch :: "nat \<Rightarrow> message_t list \<Rightarrow> u8 list \<times> message_t list" where
  "pack_batch len [] = ([], [])"
| "pack_batch len (m # q) =
     (if len + length (msg_data m) \<le> MAX_MESSAGE_LEN
      then (let (bs, rest) = pack_batch (len + length (msg_data m)) q in (msg_data m @ bs, rest))
      else ([], m # q))"

definition write_message :: "nat \<Rightarrow> tcp_session \<Rightarrow> tcp_session" where
  "write_message sent_size s =
     (let s = s\<lparr>m_not_sent_size := m_not_sent_size s - int sent_size\<rparr> in
      if \<not> m_isconnected s then s
      else if m_is_sending_data s then s
      else if m_queue_send_msg s = [] then s
      else
        let (bytes, rest) = pack_batch 0 (m_queue_send_msg s)
        in (emit [Async_Write bytes] (s\<lparr>m_queue_send_msg := rest\<rparr>))\<lparr>m_is_sending_data := True\<rparr>)"

definition handle_write :: "bool \<Rightarrow> nat \<Rightarrow> tcp_session \<Rightarrow> tcp_session" where
  "handle_write error sent s =
     (if \<not> m_isvalid s then s
      else if error then on_close_io s
      else write_message sent (s\<lparr>m_is_sending_data := False\<rparr>))"

section \<open>The send side as a system\<close>

fun written :: "effect list \<Rightarrow> u8 list" where
  "written [] = []"
| "written (Async_Write bs # es) = bs @ written es"
| "written (e # es) = written es"

fun last_write :: "effect list \<Rightarrow> u8 list \<Rightarrow> u8 list" where
  "last_write [] w = w"
| "last_write (Async_Write bs # es) w = last_write es bs"
| "last_write (e # es) w = last_write es w"

lemma written_append [simp]: "written (xs @ ys) = written xs @ written ys"
  by (induction xs rule: written.induct) simp_all

lemma last_write_append [simp]: "last_write (xs @ ys) w = last_write ys (last_write xs w)"
  by (induction xs w rule: last_write.induct) simp_all

text \<open>
  What happens on a connection without errors, in any order: a message is queued (by the main
  thread), a posted write runs, or the outstanding write completes, which reports the number of
  bytes it was given.
\<close>

datatype send_op = Enqueue message_t | Run_Posted | Write_Done

definition outstanding :: "tcp_session \<Rightarrow> nat" where
  "outstanding s = (if m_is_sending_data s then length (last_write (effects s) []) else 0)"

fun send_exec :: "send_op \<Rightarrow> tcp_session \<Rightarrow> tcp_session" where
  "send_exec (Enqueue m) s = send_queued m s"
| "send_exec Run_Posted s = write_message 0 s"
| "send_exec Write_Done s =
     (if m_is_sending_data s then handle_write False (outstanding s) s else s)"

fun enqueued :: "send_op list \<Rightarrow> u8 list" where
  "enqueued [] = []"
| "enqueued (Enqueue m # ops) = msg_data m @ enqueued ops"
| "enqueued (op # ops) = enqueued ops"

definition queued_bytes :: "tcp_session \<Rightarrow> u8 list" where
  "queued_bytes s = concat (map msg_data (m_queue_send_msg s))"

lemma pack_batch_concat:
  "fst (pack_batch len q) @ concat (map msg_data (snd (pack_batch len q))) = concat (map msg_data q)"
  by (induction len q rule: pack_batch.induct) (auto simp: case_prod_unfold Let_def)

lemma pack_batch_bound:
  "len \<le> MAX_MESSAGE_LEN \<Longrightarrow> len + length (fst (pack_batch len q)) \<le> MAX_MESSAGE_LEN"
  by (induction len q rule: pack_batch.induct) (fastforce simp: case_prod_unfold Let_def)+

definition send_inv :: "u8 list \<Rightarrow> tcp_session \<Rightarrow> bool" where
  "send_inv sent s \<longleftrightarrow> m_isvalid s \<and> m_isconnected s
     \<and> written (effects s) @ queued_bytes s = sent
     \<and> m_not_sent_size s = int (outstanding s + length (queued_bytes s))"

lemma write_message_inv:
  assumes "m_isvalid s" and "m_isconnected s" and "written (effects s) @ queued_bytes s = sent"
    and "m_not_sent_size s = int (n + outstanding s + length (queued_bytes s))"
  shows "send_inv sent (write_message n s)"
proof -
  obtain bs rest where b: "pack_batch 0 (m_queue_send_msg s) = (bs, rest)"
    by (cases "pack_batch 0 (m_queue_send_msg s)")
  then have split: "bs @ concat (map msg_data rest) = queued_bytes s"
    using pack_batch_concat [of 0 "m_queue_send_msg s"] by (simp add: queued_bytes_def)
  then have "length (queued_bytes s) = length bs + length (concat (map msg_data rest))"
    by (metis length_append)
  with assms b split show ?thesis
    by (auto simp: write_message_def send_inv_def outstanding_def emit_def queued_bytes_def Let_def)
qed

lemma send_exec_inv:
  "send_inv sent s \<Longrightarrow> send_inv (sent @ enqueued [op]) (send_exec op s)"
proof (cases op)
  case (Enqueue m)
  assume "send_inv sent s"
  with Enqueue show ?thesis
    by (auto simp: send_inv_def send_queued_def close_session_def emit_def outstanding_def
        queued_bytes_def Let_def)
next
  case Run_Posted
  assume "send_inv sent s"
  with Run_Posted show ?thesis
    by (simp, intro write_message_inv) (auto simp: send_inv_def)
next
  case Write_Done
  assume inv: "send_inv sent s"
  show ?thesis
  proof (cases "m_is_sending_data s")
    case True
    have "send_inv sent (write_message (outstanding s) (s\<lparr>m_is_sending_data := False\<rparr>))"
      using inv True
      by (intro write_message_inv) (auto simp: send_inv_def queued_bytes_def outstanding_def)
    with inv True Write_Done show ?thesis
      by (simp add: handle_write_def send_inv_def)
  qed (use inv Write_Done in simp)
qed

lemma enqueued_append [simp]: "enqueued (xs @ ys) = enqueued xs @ enqueued ys"
  by (induction xs rule: enqueued.induct) simp_all

lemma fold_send_inv:
  "send_inv sent s \<Longrightarrow> send_inv (sent @ enqueued ops) (fold send_exec ops s)"
proof (induction ops arbitrary: s sent)
  case (Cons op ops)
  have "enqueued (op # ops) = enqueued [op] @ enqueued ops"
    using enqueued_append [of "[op]" ops] by simp
  with Cons.IH [OF send_exec_inv [OF Cons.prems, of op]] show ?case by simp
qed simp

text \<open>C5: on a connected session, under every interleaving of queueing, posted writes and write
  completions, the bytes given to the socket are the queued messages in order with nothing lost or
  repeated, and the counter that the flow limit looks at is the number of bytes not yet confirmed.\<close>

theorem send_fifo:
  assumes "m_isvalid s" and "m_isconnected s" and "m_queue_send_msg s = []"
    and "\<not> m_is_sending_data s" and "m_not_sent_size s = 0"
  shows "written (effects (fold send_exec ops s)) @ queued_bytes (fold send_exec ops s)
           = written (effects s) @ enqueued ops
       \<and> m_not_sent_size (fold send_exec ops s)
           = int (outstanding (fold send_exec ops s) + length (queued_bytes (fold send_exec ops s)))"
proof -
  have "send_inv (written (effects s)) s"
    using assms by (simp add: send_inv_def outstanding_def queued_bytes_def)
  from fold_send_inv [OF this, of ops] show ?thesis
    by (simp add: send_inv_def)
qed

theorem send_fifo_witness:
  "written (effects (fold send_exec
       [Enqueue \<lparr>msg_data = [1, 2], msg_from = 0\<rparr>, Run_Posted,
        Enqueue \<lparr>msg_data = [3], msg_from = 0\<rparr>, Write_Done] accepted))
   @ queued_bytes (fold send_exec
       [Enqueue \<lparr>msg_data = [1, 2], msg_from = 0\<rparr>, Run_Posted,
        Enqueue \<lparr>msg_data = [3], msg_from = 0\<rparr>, Write_Done] accepted) = [1, 2, 3]"
proof -
  let ?ops = "[Enqueue \<lparr>msg_data = [1, 2], msg_from = 0\<rparr>, Run_Posted,
        Enqueue \<lparr>msg_data = [3], msg_from = 0\<rparr>, Write_Done]"
  have start: "m_isvalid accepted" "m_isconnected accepted" "m_queue_send_msg accepted = []"
      "\<not> m_is_sending_data accepted" "m_not_sent_size accepted = 0" "written (effects accepted) = []"
    by (simp_all add: accepted_def handle_accept_def begin_read_message_def new_session_def emit_def
        Let_def)
  have "enqueued ?ops = [1, 2, 3]" by simp
  with send_fifo [OF start(1-5), of ?ops] show ?thesis
    unfolding start(6) append_Nil by metis
qed

lemma oversized_step:
  assumes "m_queue_send_msg s \<noteq> [] \<and> MAX_MESSAGE_LEN < length (msg_data (hd (m_queue_send_msg s)))"
  shows "written (effects (send_exec op s)) = written (effects s)
    \<and> m_queue_send_msg (send_exec op s) \<noteq> []
    \<and> hd (m_queue_send_msg (send_exec op s)) = hd (m_queue_send_msg s)"
proof -
  obtain m q where q: "m_queue_send_msg s = m # q" "MAX_MESSAGE_LEN < length (msg_data m)"
    using assms by (cases "m_queue_send_msg s") auto
  then show ?thesis
    by (cases op) (auto simp: send_queued_def write_message_def handle_write_def emit_def
        close_session_def Let_def)
qed

lemma oversized_fold:
  "m_queue_send_msg s \<noteq> [] \<and> MAX_MESSAGE_LEN < length (msg_data (hd (m_queue_send_msg s))) \<Longrightarrow>
   written (effects (fold send_exec ops s)) = written (effects s)"
proof (induction ops arbitrary: s)
  case (Cons op ops)
  from oversized_step [OF Cons.prems, of op] Cons show ?case by simp
qed simp

text \<open>C7: \<open>send_message\<close> accepts payloads of 64,991 to 64,999 bytes, whose frame is longer than the send
  buffer; such a frame at the head of the queue blocks the connection for good: from then on every
  write the session starts is empty, whatever is queued and however often writes complete.\<close>

theorem oversized_frame_blocks:
  assumes "m_isvalid s" and "m_isconnected s" and "m_father s = Some f" and "\<not> m_iscompress s"
    and "m_queue_send_msg s = []"
    and "64990 < length bytes" and "length bytes < MAX_MESSAGE_LEN"
  shows "\<exists>t. send_message iface junk (Some bytes) (word_of_nat (length bytes)) s = Inr t
           \<and> written (effects (fold send_exec ops t)) = written (effects s)"
proof -
  let ?m = "\<lparr>msg_data = frame junk False bytes, msg_from = 0\<rparr>"
  obtain L :: u32 where L: "L = word_of_nat (length bytes)" by blast
  have len: "unat L = length bytes"
    using assms(7) unfolding L by (simp add: unat_of_nat MAX_MESSAGE_LEN_def)
  then have pos: "L \<noteq> 0"
    using assms(6) by auto
  have mk: "makeMessage junk 0 bytes L False = Inr ?m"
    unfolding L by (rule makeMessage_frame') (use assms(6,7) in \<open>simp_all add: MAX_MESSAGE_LEN_def\<close>)
  have "\<not> MAX_MESSAGE_LEN - 1 < length bytes"
    using assms(7) by simp
  then have "send_message iface junk (Some bytes) L s = Inr (send_queued ?m s)"
    by (simp add: send_message_def assms(1-4) pos len mk)
  then have "send_message iface junk (Some bytes) (word_of_nat (length bytes)) s
      = Inr (send_queued ?m s)"
    unfolding L .
  moreover have "written (effects (send_queued ?m s)) = written (effects s)"
    and "m_queue_send_msg (send_queued ?m s) = [?m]"
    using assms by (auto simp: send_queued_def close_session_def emit_def Let_def)
  ultimately show ?thesis
    using oversized_fold [of "send_queued ?m s" ops] assms(6) by (simp add: MAX_MESSAGE_LEN_def)
qed

theorem oversized_frame_blocks_witness:
  "\<exists>t. send_message None (\<lambda>_. 0) (Some (replicate 64991 0)) 64991 accepted = Inr t
     \<and> written (effects (fold send_exec [Run_Posted, Write_Done, Run_Posted] t))
         = written (effects accepted)"
  using oversized_frame_blocks [of accepted _ "replicate 64991 0" None "\<lambda>_. 0"
      "[Run_Posted, Write_Done, Run_Posted]"]
  by (simp add: accepted_def handle_accept_def begin_read_message_def new_session_def emit_def
      Let_def MAX_MESSAGE_LEN_def del: fold.simps)

end
