(* ===== verification/Utilities.thy ===== *)
theory Utilities
  imports Encrypt_Tables Crypt
begin

text \<open>
  The text and time helpers of \<^verbatim>\<open>common/utilities.cpp\<close> that the servers use: decimal text,
  \<open>SplitStringA\<close>, \<open>isIntger\<close>, \<open>is_valid_string\<close>, the string cipher and the calendar predicates.
  The C library's \<^verbatim>\<open>localtime\<close> and \<^verbatim>\<open>mktime\<close> depend on the machine's time zone and are
  parameters.
\<close>

section \<open>Decimal text\<close>

definition digit_char :: "nat \<Rightarrow> char" where
  "digit_char d = char_of (48 + d)"

definition digit_val :: "char \<Rightarrow> nat" where
  "digit_val c = of_char c - 48"

definition is_digit :: "char \<Rightarrow> bool" where
  "is_digit c \<longleftrightarrow> 48 \<le> (of_char c :: nat) \<and> (of_char c :: nat) \<le> 57"

text \<open>What \<^verbatim>\<open>%u\<close>, \<^verbatim>\<open>%lu\<close>, \<^verbatim>\<open>%llu\<close> and \<^verbatim>\<open>%d\<close> print.\<close>

function show_nat :: "nat \<Rightarrow> string" where
  "show_nat n = (if n < 10 then [digit_char n] else show_nat (n div 10) @ [digit_char (n mod 10)])"
  by pat_completeness auto
termination by (relation "measure id") auto

declare show_nat.simps [simp del]

definition show_int :: "int \<Rightarrow> string" where
  "show_int i = (if i < 0 then ''-'' @ show_nat (nat (- i)) else show_nat (nat i))"

definition digits_val :: "string \<Rightarrow> nat" where
  "digits_val ds = foldl (\<lambda>n c. 10 * n + digit_val c) 0 ds"

definition is_space :: "char \<Rightarrow> bool" where
  "is_space c \<longleftrightarrow> c = CHR '' '' \<or> (9 \<le> (of_char c :: nat) \<and> (of_char c :: nat) \<le> 13)"

text \<open>
  The number at the start of a text as \<^verbatim>\<open>atoi\<close>, \<^verbatim>\<open>strtol\<close> and \<^verbatim>\<open>>>\<close> read it: white
  space, an optional sign, digits; \<open>None\<close> when there is no digit.
\<close>

definition read_int :: "string \<Rightarrow> int option" where
  "read_int s =
     (let s = dropWhile is_space s;
          neg = (case s of c # _ \<Rightarrow> c = CHR ''-'' | [] \<Rightarrow> False);
          s = (case s of c # r \<Rightarrow> if c = CHR ''-'' \<or> c = CHR ''+'' then r else s | [] \<Rightarrow> s);
          ds = takeWhile is_digit s
      in if ds = [] then None
         else Some (if neg then - int (digits_val ds) else int (digits_val ds)))"

text \<open>\<open>isIntger\<close>: reading an \<^verbatim>\<open>int\<close> from a stream fails on overflow; what follows the number is
  not looked at.\<close>

definition isIntger :: "string \<Rightarrow> bool" where
  "isIntger s = (case read_int s of
       None \<Rightarrow> False | Some i \<Rightarrow> - (2 ^ 31) \<le> i \<and> i < 2 ^ 31)"

text \<open>\<^verbatim>\<open>atoi\<close> and \<^verbatim>\<open>strtol(s, NULL, 10)\<close> on numbers in range.\<close>

definition atoi :: "string \<Rightarrow> int" where
  "atoi s = (case read_int s of None \<Rightarrow> 0 | Some i \<Rightarrow> i)"

lemma digit_char_val: "d < 10 \<Longrightarrow> is_digit (digit_char d) \<and> digit_val (digit_char d) = d"
  by (simp add: is_digit_def digit_val_def digit_char_def)

lemma show_nat_digits: "list_all is_digit (show_nat n) \<and> show_nat n \<noteq> []"
  by (induction n rule: show_nat.induct) (subst show_nat.simps, simp add: digit_char_val)+

lemma digits_val_snoc: "digits_val (ds @ [c]) = 10 * digits_val ds + digit_val c"
  by (simp add: digits_val_def)

lemma digits_val_show [simp, codec]: "digits_val (show_nat n) = n"
proof (induction n rule: show_nat.induct)
  case (1 n)
  show ?case
  proof (cases "n < 10")
    case True
    then show ?thesis
      by (subst show_nat.simps) (simp add: digits_val_def digit_char_val)
  next
    case False
    with 1 show ?thesis
      by (subst show_nat.simps) (simp add: digits_val_snoc digit_char_val)
  qed
qed

lemma takeWhile_digits:
  "list_all is_digit ds \<Longrightarrow> rest = [] \<or> \<not> is_digit (hd rest) \<Longrightarrow> takeWhile is_digit (ds @ rest) = ds"
  by (induction ds) (cases rest; auto)+

lemma digit_not_sign: "is_digit c \<Longrightarrow> \<not> is_space c \<and> c \<noteq> CHR ''-'' \<and> c \<noteq> CHR ''+''"
  by (auto simp: is_digit_def is_space_def)

lemma read_show_nat [codec]:
  assumes "rest = [] \<or> \<not> is_digit (hd rest)"
  shows "read_int (show_nat n @ rest) = Some (int n)"
proof -
  from show_nat_digits [of n] obtain d ds where d: "show_nat n = d # ds" "is_digit d"
    by (cases "show_nat n") auto
  have "takeWhile is_digit (show_nat n @ rest) = show_nat n"
    by (rule takeWhile_digits) (use show_nat_digits assms in auto)
  moreover have "digits_val (d # ds) = n"
    using digits_val_show [of n] d by simp
  ultimately show ?thesis
    using d digit_not_sign [OF d(2)] by (simp add: read_int_def Let_def)
qed

lemma read_show_int [codec]:
  assumes "rest = [] \<or> \<not> is_digit (hd rest)"
  shows "read_int (show_int i @ rest) = Some i"
proof (cases "i < 0")
  case False
  then show ?thesis
    using read_show_nat [OF assms, of "nat i"] by (simp add: show_int_def)
next
  case True
  from show_nat_digits [of "nat (- i)"] have "show_nat (nat (- i)) \<noteq> []" by simp
  moreover have "takeWhile is_digit (show_nat (nat (- i)) @ rest) = show_nat (nat (- i))"
    by (rule takeWhile_digits) (use show_nat_digits assms in auto)
  ultimately show ?thesis
    using True by (simp add: read_int_def show_int_def is_space_def Let_def)
qed

lemma show_int_chars:
  "c \<in> set (show_int i) \<Longrightarrow> is_digit c \<or> c = CHR ''-''"
  using show_nat_digits by (auto simp: show_int_def list_all_iff split: if_splits)

lemma show_int_nonempty [simp]: "show_int i \<noteq> []"
  using show_nat_digits by (simp add: show_int_def)

section \<open>C strings\<close>

text \<open>\<^verbatim>\<open>s.c_str()\<close> read up to the terminating null character, and \<^verbatim>\<open>sprintf\<close> into a
  buffer of \<open>n\<close> bytes, which has no bound check of its own.\<close>

definition c_str :: "string \<Rightarrow> string" where
  "c_str s = takeWhile (\<lambda>c. c \<noteq> CHR 0x00) s"

definition sprintf_to :: "nat \<Rightarrow> string \<Rightarrow> string result" where
  "sprintf_to n s = (if length s < n then Inr s else Inl (Buff_Exception ''sprintf''))"

lemma c_str_id: "CHR 0x00 \<notin> set s \<Longrightarrow> c_str s = s"
  by (auto simp: c_str_def takeWhile_eq_all_conv)

section \<open>SplitStringA\<close>

text \<open>\<^verbatim>\<open>strIn.find(delim, pos)\<close>: the first occurrence at or after \<open>pos\<close>; \<open>None\<close> is \<^verbatim>\<open>npos\<close>,
  which the code turns into -1.\<close>

fun find_from :: "nat \<Rightarrow> string \<Rightarrow> string \<Rightarrow> nat option" where
  "find_from k d [] = (if d = [] then Some k else None)"
| "find_from k d (c # cs) = (if take (length d) (c # cs) = d then Some k else find_from (Suc k) d cs)"

definition str_find :: "string \<Rightarrow> string \<Rightarrow> nat \<Rightarrow> nat option" where
  "str_find s d pos = (if pos > length s then None else find_from pos d (drop pos s))"

lemma find_from_bounds: "find_from k d s = Some p \<Longrightarrow> k \<le> p \<and> p \<le> k + length s"
  by (induction k d s rule: find_from.induct) (force split: if_splits)+

text \<open>The first loop: the positions of the delimiter, each search starting behind the last hit.\<close>

function find_all :: "string \<Rightarrow> string \<Rightarrow> nat \<Rightarrow> nat list" where
  "find_all s d pos =
     (case str_find s d (pos + length d) of
        None \<Rightarrow> [pos]
      | Some p \<Rightarrow> if d = [] then [pos] else pos # find_all s d p)"
  by pat_completeness auto
termination
proof (relation "measure (\<lambda>(s, d, pos). length s + 1 - pos)", goal_cases)
  case (2 s d pos p)
  then have "pos + length d \<le> p \<and> p \<le> length s"
    by (auto simp: str_find_def dest: find_from_bounds split: if_splits)
  moreover have "0 < length d" using 2 by simp
  ultimately have "pos < p \<and> p \<le> length s" by linarith
  then show ?case by auto
qed simp

declare find_all.simps [simp del]

text \<open>The second loop: the text before the first hit, between neighbouring hits, and behind the
  last one.\<close>

fun cut_pieces :: "string \<Rightarrow> nat \<Rightarrow> nat \<Rightarrow> nat list \<Rightarrow> string list" where
  "cut_pieces s dl prev [] = [if prev + dl < length s then drop (prev + dl) s else []]"
| "cut_pieces s dl prev (p # ps) =
     (if prev + dl < length s then take (p - prev - dl) (drop (prev + dl) s) else [])
     # cut_pieces s dl p ps"

definition SplitStringA :: "string \<Rightarrow> string \<Rightarrow> int \<times> string list" where
  "SplitStringA strIn strDelimiter =
     (if strDelimiter = [] \<or> strIn = [] then (0, [])
      else case str_find strIn strDelimiter 0 of
        None \<Rightarrow> (1, [strIn])
      | Some p \<Rightarrow>
          (let positions = find_all strIn strDelimiter p in
           (int (length positions),
            filter (\<lambda>s. s \<noteq> [])
              (take p strIn # cut_pieces strIn (length strDelimiter) p (tl positions)))))"

text \<open>For a one-character delimiter the function is the usual splitting, without empty pieces.\<close>

fun split_on :: "char \<Rightarrow> string \<Rightarrow> string list" where
  "split_on c [] = [[]]"
| "split_on c (x # xs) =
     (if x = c then [] # split_on c xs
      else (case split_on c xs of p # ps \<Rightarrow> (x # p) # ps | [] \<Rightarrow> [[x]]))"

lemma split_on_free: "c \<notin> set xs \<Longrightarrow> split_on c xs = [xs]"
  by (induction xs) auto

lemma split_on_append: "c \<notin> set ys \<Longrightarrow> split_on c (ys @ c # zs) = ys # split_on c zs"
  by (induction ys) auto

lemma find_from_char:
  "case find_from k [c] s of
     None \<Rightarrow> c \<notin> set s
   | Some p \<Rightarrow> \<exists>ys zs. s = ys @ c # zs \<and> c \<notin> set ys \<and> p = k + length ys"
proof (induction k "[c]" s rule: find_from.induct)
  case (2 k x xs)
  show ?case
  proof (cases "x = c")
    case True
    then show ?thesis by (auto intro: exI [of _ "[]"])
  next
    case False
    with 2 show ?thesis
      by (auto split: option.splits) (metis append_Cons length_Cons set_ConsD add_Suc_right)
  qed
qed simp

lemma cut_pieces_split:
  "p < length s \<Longrightarrow> s ! p = c \<Longrightarrow>
   cut_pieces s 1 p (tl (find_all s [c] p)) = split_on c (drop (Suc p) s)"
proof (induction s "[c]" p rule: find_all.induct)
  case (1 s p)
  have find: "str_find s [c] (Suc p) = find_from (Suc p) [c] (drop (Suc p) s)"
    using "1.prems" by (simp add: str_find_def)
  show ?case
  proof (cases "str_find s [c] (Suc p)")
    case None
    then have "c \<notin> set (drop (Suc p) s)"
      using find_from_char [where k = "Suc p" and c = c and s = "drop (Suc p) s"] find by simp
    with None show ?thesis
      by (subst find_all.simps) (auto simp: split_on_free)
  next
    case (Some q)
    then obtain ys zs where q: "drop (Suc p) s = ys @ c # zs" "c \<notin> set ys" "q = Suc p + length ys"
      using find_from_char [where k = "Suc p" and c = c and s = "drop (Suc p) s"] find by auto
    have len: "length s = Suc p + length ys + Suc (length zs)"
      using arg_cong [OF q(1), of length] "1.prems"(1) by simp
    have zs: "drop (Suc q) s = zs"
      using arg_cong [OF q(1), of "drop (Suc (length ys))"] q(3) by (simp add: ac_simps)
    have at: "q < length s" "s ! q = c"
      using len q(3) arg_cong [OF q(1), of "\<lambda>xs. xs ! length ys"] by simp_all
    have "\<exists>qs. find_all s [c] q = q # qs"
      by (simp add: find_all.simps [of s "[c]" q] split: option.split)
    then obtain qs where qs: "find_all s [c] q = q # qs" ..
    have "cut_pieces s 1 q (tl (find_all s [c] q)) = split_on c zs"
      using "1.hyps" [of q] Some at zs by simp
    with Some qs q len show ?thesis
      by (subst find_all.simps) (simp add: split_on_append)
  qed
qed

theorem SplitStringA_char:
  assumes "s \<noteq> []"
  shows "snd (SplitStringA s [c]) = filter (\<lambda>p. p \<noteq> []) (split_on c s)"
proof (cases "str_find s [c] 0")
  case None
  then have "c \<notin> set s"
    using find_from_char [where k = 0 and c = c and s = s] by (simp add: str_find_def)
  with None assms show ?thesis
    by (simp add: SplitStringA_def split_on_free)
next
  case (Some p)
  then obtain ys zs where p: "s = ys @ c # zs" "c \<notin> set ys" "p = length ys"
    using find_from_char [where k = 0 and c = c and s = s] by (auto simp: str_find_def)
  then have "cut_pieces s 1 p (tl (find_all s [c] p)) = split_on c zs"
    using cut_pieces_split [of p s c] by simp
  with Some assms p show ?thesis
    by (cases ys) (auto simp: SplitStringA_def Let_def split_on_append)
qed

fun join_with :: "char \<Rightarrow> string list \<Rightarrow> string" where
  "join_with c [] = []"
| "join_with c [p] = p"
| "join_with c (p # q # ps) = p @ c # join_with c (q # ps)"

lemma split_on_join:
  "ps \<noteq> [] \<Longrightarrow> list_all (\<lambda>p. c \<notin> set p) ps \<Longrightarrow> split_on c (join_with c ps) = ps"
  by (induction c ps rule: join_with.induct) (auto simp: split_on_free split_on_append)

lemma SplitStringA_join [codec]:
  assumes "ps \<noteq> []" and "list_all (\<lambda>p. c \<notin> set p \<and> p \<noteq> []) ps"
  shows "snd (SplitStringA (join_with c ps) [c]) = ps"
proof -
  have "join_with c ps \<noteq> []"
    using assms by (induction c ps rule: join_with.induct) auto
  moreover have "filter (\<lambda>p. p \<noteq> []) ps = ps"
    using assms(2) by (simp add: list_all_iff filter_id_conv)
  ultimately show ?thesis
    using assms by (simp add: SplitStringA_char split_on_join list_all_iff)
qed

section \<open>is_valid_string\<close>

text \<open>Bytes above 0x80 are taken as the first of a pair, whose second byte is not looked at.\<close>

fun is_valid_string :: "string \<Rightarrow> bool" where
  "is_valid_string [] = True"
| "is_valid_string (c # cs) =
     (let p = of_char c :: nat in
      if p > 0x80 then is_valid_string (drop 1 cs)
      else if (97 \<le> p \<and> p \<le> 122) \<or> (65 \<le> p \<and> p \<le> 90) \<or> (48 \<le> p \<and> p \<le> 57) then is_valid_string cs
      else False)"

section \<open>The string cipher\<close>

definition TABLE_COUNT :: nat where "TABLE_COUNT = 50"

definition TABLE_SIZE :: nat where "TABLE_SIZE = 26 * 2 + 10"

text \<open>Row \<open>i\<close> of the table as the constructor of \<open>encrypt_table\<close> copies it.\<close>

definition tables :: "nat \<Rightarrow> string" where
  "tables i = take TABLE_SIZE (drop (i * TABLE_SIZE) character_encrypt_table)"

definition generate_table_key :: "nat \<Rightarrow> nat" where
  "generate_table_key r = r mod TABLE_COUNT"

fun char_find :: "char \<Rightarrow> string \<Rightarrow> nat option" where
  "char_find a [] = None"
| "char_find a (c # cs) = (if c = a then Some 0 else map_option Suc (char_find a cs))"

definition encrypt_get :: "nat \<Rightarrow> char \<Rightarrow> char" where
  "encrypt_get t a =
     (case char_find a character_original_table of
        None \<Rightarrow> CHR 0x00 | Some k \<Rightarrow> tables t ! k)"

definition decrypt_get :: "nat \<Rightarrow> char \<Rightarrow> char" where
  "decrypt_get t a =
     (case char_find a (tables t) of
        None \<Rightarrow> CHR 0x00 | Some k \<Rightarrow> character_original_table ! k)"

text \<open>The loop: an unknown character clears the output and ends it.\<close>

fun cipher_loop :: "(char \<Rightarrow> char) \<Rightarrow> string \<Rightarrow> string \<Rightarrow> string" where
  "cipher_loop f [] acc = acc"
| "cipher_loop f (c # cs) acc = (if f c = CHR 0x00 then [] else cipher_loop f cs (acc @ [f c]))"

definition encrypt_string :: "string \<Rightarrow> string \<Rightarrow> nat \<Rightarrow> string" where
  "encrypt_string input out t =
     (if t \<ge> TABLE_COUNT then out else cipher_loop (encrypt_get t) input [])"

definition decrypt_string :: "string \<Rightarrow> string \<Rightarrow> nat \<Rightarrow> string" where
  "decrypt_string input out t =
     (if t \<ge> TABLE_COUNT then out else cipher_loop (decrypt_get t) input [])"

lemma tables_rows: "t < TABLE_COUNT \<Longrightarrow> tables t = encrypt_rows ! t"
proof -
  have *: "list_all (\<lambda>r. length r = n) rows \<Longrightarrow> t < length rows \<Longrightarrow>
      take n (drop (t * n) (concat rows)) = rows ! t" for n t and rows :: "string list"
  proof (induction rows arbitrary: t)
    case (Cons r rows)
    then show ?case by (cases t) simp_all
  qed simp
  assume "t < TABLE_COUNT"
  moreover have "list_all (\<lambda>r. length r = TABLE_SIZE) encrypt_rows"
    using rows_good by (auto simp: list_all_iff TABLE_SIZE_def dest: good_row_distinct)
  ultimately show ?thesis
    using * [of TABLE_SIZE encrypt_rows t]
    by (simp add: tables_def character_encrypt_table_def length_rows TABLE_COUNT_def)
qed

lemma char_find_nth: "distinct s \<Longrightarrow> k < length s \<Longrightarrow> char_find (s ! k) s = Some k"
proof (induction s arbitrary: k)
  case (Cons c cs)
  then show ?case by (cases k) (auto simp: nth_mem)
qed simp

lemma char_find_mem: "c \<in> set s \<Longrightarrow> \<exists>k < length s. char_find c s = Some k \<and> s ! k = c"
  by (induction s) (auto split: option.split)

lemma char_find_None: "c \<notin> set s \<Longrightarrow> char_find c s = None"
  by (induction s) auto

lemma original_no_null: "CHR 0x00 \<notin> set character_original_table"
  by (simp add: character_original_table_def)

lemma row_no_null: "t < TABLE_COUNT \<Longrightarrow> CHR 0x00 \<notin> set (tables t)"
proof -
  have "list_all (\<lambda>r. CHR 0x00 \<notin> set r) encrypt_rows"
    by (simp add: encrypt_rows_def)
  then show "t < TABLE_COUNT \<Longrightarrow> CHR 0x00 \<notin> set (tables t)"
    by (simp add: tables_rows list_all_length length_rows TABLE_COUNT_def)
qed

lemma decrypt_encrypt_get:
  assumes "t < TABLE_COUNT" and "c \<in> set character_original_table"
  shows "decrypt_get t (encrypt_get t c) = c" and "encrypt_get t c \<noteq> CHR 0x00"
proof -
  have row: "length (tables t) = 62" "distinct (tables t)"
    using rows_good assms(1) good_row_distinct [of "tables t"]
    by (auto simp: list_all_length tables_rows length_rows TABLE_COUNT_def)
  obtain k where k: "k < 62" "char_find c character_original_table = Some k"
      "character_original_table ! k = c"
    using char_find_mem [OF assms(2)] good_row_distinct [OF original_good] by auto
  then have enc: "encrypt_get t c = tables t ! k"
    by (simp add: encrypt_get_def)
  show "decrypt_get t (encrypt_get t c) = c"
    using char_find_nth [OF row(2), of k] row(1) k by (simp add: enc decrypt_get_def)
  show "encrypt_get t c \<noteq> CHR 0x00"
  proof -
    have "tables t ! k \<in> set (tables t)"
      using row(1) k(1) by simp
    with row_no_null [OF assms(1)] show ?thesis
      unfolding enc by metis
  qed
qed

text \<open>One table is one substitution; the position plays no role.\<close>

interpretation text_cipher: subst_table
    "\<lambda>_. encrypt_get (t mod TABLE_COUNT)" "\<lambda>_. decrypt_get (t mod TABLE_COUNT)"
    "\<lambda>c. c \<in> set character_original_table" for t
  by standard (simp add: decrypt_encrypt_get(1) TABLE_COUNT_def)

lemma cipher_loop_map:
  "list_all (\<lambda>c. f c \<noteq> CHR 0x00) cs \<Longrightarrow> cipher_loop f cs acc = acc @ map f cs"
  by (induction cs arbitrary: acc) simp_all

text \<open>C17: \<open>decrypt_string\<close> undoes \<open>encrypt_string\<close> with each of the fifty tables for every text of
  letters and digits, and the encrypted text again consists of non-zero characters of the same
  number.\<close>

theorem encrypt_string_roundtrip:
  assumes "t < TABLE_COUNT" and "list_all (\<lambda>c. c \<in> set character_original_table) s"
  shows "decrypt_string (encrypt_string s out t) out' t = s
    \<and> length (encrypt_string s out t) = length s"
proof -
  have t: "t mod TABLE_COUNT = t" using assms(1) by simp
  have enc: "encrypt_string s out t = map (encrypt_get t) s"
    using assms decrypt_encrypt_get(2)
    by (simp add: encrypt_string_def cipher_loop_map list_all_iff)
  have "list_all (\<lambda>c. decrypt_get t c \<noteq> CHR 0x00) (map (encrypt_get t) s)"
    using assms original_no_null
    by (auto simp: list_all_iff decrypt_encrypt_get(1))
  then have "decrypt_string (encrypt_string s out t) out' t
      = map (decrypt_get t) (map (encrypt_get t) s)"
    using assms(1) by (simp add: enc decrypt_string_def cipher_loop_map)
  also have "\<dots> = s"
    using text_cipher.dec_enc_map [OF assms(2), of t] by (simp add: t)
  finally show ?thesis by (simp add: enc)
qed

theorem encrypt_string_roundtrip_witness:
  "decrypt_string (encrypt_string ''Dream7'' [] 49) [] 49 = ''Dream7''"
  using encrypt_string_roundtrip [of 49 "''Dream7''" "[]" "[]"]
  by (simp add: TABLE_COUNT_def character_original_table_def)

section \<open>Calendar\<close>

text \<open>The fields of \<^verbatim>\<open>struct tm\<close>; \<open>lt\<close> is \<^verbatim>\<open>localtime\<close>.\<close>

record tm =
  tm_year :: int
  tm_mon :: int
  tm_mday :: int
  tm_hour :: int
  tm_min :: int
  tm_sec :: int
  tm_wday :: int
  tm_yday :: int

text \<open>A null time is never in the current month; time 0 always is.\<close>

definition is_in_current_mon :: "(u64 \<Rightarrow> tm) \<Rightarrow> u64 \<Rightarrow> u64 option \<Rightarrow> bool" where
  "is_in_current_mon lt now t =
     (case t of
        None \<Rightarrow> False
      | Some t \<Rightarrow> t = 0 \<or> (tm_year (lt t) = tm_year (lt now) \<and> tm_mon (lt t) = tm_mon (lt now)))"

definition is_in_today :: "(u64 \<Rightarrow> tm) \<Rightarrow> u64 \<Rightarrow> u64 option \<Rightarrow> bool" where
  "is_in_today lt now t =
     (case t of
        None \<Rightarrow> False
      | Some t \<Rightarrow>
          if t = 0 then False
          else tm_year (lt t) = tm_year (lt now) \<and> tm_yday (lt t) = tm_yday (lt now))"

definition convert_unix_time :: "(u64 \<Rightarrow> tm) \<Rightarrow> u32 \<Rightarrow> int \<times> int \<times> int \<times> int \<times> int \<times> int" where
  "convert_unix_time lt t =
     (let p = lt (ucast t)
      in (tm_year p + 1900, tm_mon p + 1, tm_mday p, tm_hour p, tm_min p, tm_sec p))"

text \<open>\<^verbatim>\<open>"%d-%d-%d %d:%d:%d"\<close>\<close>

definition show_time :: "int \<times> int \<times> int \<times> int \<times> int \<times> int \<Rightarrow> string" where
  "show_time p =
     (let (y, m, d, h, mi, s) = p in
      show_int y @ ''-'' @ show_int m @ ''-'' @ show_int d @ '' '' @
      show_int h @ '':'' @ show_int mi @ '':'' @ show_int s)"

definition build_unix_time_to_string :: "(u64 \<Rightarrow> tm) \<Rightarrow> u32 \<Rightarrow> string" where
  "build_unix_time_to_string lt t = show_time (convert_unix_time lt t)"

definition make_unix_time ::
    "(tm \<Rightarrow> u64) \<Rightarrow> int \<Rightarrow> int \<Rightarrow> int \<Rightarrow> int \<Rightarrow> int \<Rightarrow> int \<Rightarrow> u32" where
  "make_unix_time mktime year month day hour minute second =
     ucast (mktime \<lparr>tm_year = year - 1900, tm_mon = month - 1, tm_mday = day, tm_hour = hour,
                    tm_min = minute, tm_sec = second, tm_wday = 0, tm_yday = 0\<rparr>)"

definition same_month :: "(u64 \<Rightarrow> tm) \<Rightarrow> u32 \<Rightarrow> u32 \<Rightarrow> bool" where
  "same_month lt t1 t2 =
     (let p1 = lt (ucast t1); p2 = lt (ucast t2)
      in tm_year p1 = tm_year p2 \<and> tm_mon p1 = tm_mon p2)"

definition same_week :: "(u64 \<Rightarrow> tm) \<Rightarrow> u32 \<Rightarrow> u32 \<Rightarrow> bool" where
  "same_week lt t1 t2 =
     (let p1 = lt (ucast t1); p2 = lt (ucast t2)
      in tm_year p1 = tm_year p2 \<and> tm_mon p1 = tm_mon p2
         \<and> tm_wday p1 + (tm_mday p2 - tm_mday p1) < 7)"

definition is_dayofweek :: "(u64 \<Rightarrow> tm) \<Rightarrow> u32 \<Rightarrow> u8 \<Rightarrow> bool" where
  "is_dayofweek lt t dow = (tm_wday (lt (ucast t)) = uint dow)"

definition in_duration :: "(u64 \<Rightarrow> tm) \<Rightarrow> u32 \<Rightarrow> u8 \<Rightarrow> u8 \<Rightarrow> bool" where
  "in_duration lt t hstart hend =
     (let p = lt (ucast t) in uint hstart \<le> tm_hour p \<and> tm_hour p < uint hend)"

definition get_time :: "(u64 \<Rightarrow> tm) \<Rightarrow> u64 \<Rightarrow> u64 \<Rightarrow> string" where
  "get_time lt now cur_time =
     (let cur = lt (if cur_time = 0 then now else cur_time)
      in show_time (tm_year cur + 1900, tm_mon cur + 1, tm_mday cur + 1,
                    tm_hour cur, tm_min cur, tm_sec cur))"

section \<open>data_stream_verifier\<close>

record data_stream_verifier =
  send_index :: u32
  recv_index :: u32

definition verifier_reset :: data_stream_verifier where
  "verifier_reset = \<lparr>send_index = 0, recv_index = 0\<rparr>"

definition make_checksum :: "u8 list option \<Rightarrow> u32 \<Rightarrow> u32 result" where
  "make_checksum data len = sslCrc32 data len"

definition verify_data_stream :: "u8 list option \<Rightarrow> u32 \<Rightarrow> u32 \<Rightarrow> bool result" where
  "verify_data_stream data len checksum =
     bind_result (sslCrc32 data len) (\<lambda>c. Inr (checksum = c))"

end
