(* ===== verification/Game_Config.thy ===== *)
theory Game_Config
  imports Utilities
begin

text \<open>
  The data of the game server: the protocol messages of \<^verbatim>\<open>message/common.proto\<close> and
  \<^verbatim>\<open>message/msg_game_db.proto\<close> that carry a hero, and \<^verbatim>\<open>gameserver/GameConfig.{h,cpp}\<close>,
  the configuration read from the database at start. Rows of a query result are records of the
  columns the code reads.
\<close>

type_synonym i32 = "32 word"

section \<open>Messages\<close>

record suit_data =
  suit_id :: i32
  suit_name :: string
  equip_ids :: "u64 list"

record hero_data =
  hd_account :: u64
  hd_level :: u32
  hd_name :: string
  hd_action_point :: i32
  hd_diamand :: i32
  hd_gold :: i32
  hd_suits :: "suit_data list"

record equip_data =
  eq_id :: u64
  eq_equip_id :: i32
  eq_level :: i32
  eq_equipped :: bool
  eq_client_save_flag :: i32
  eq_count :: i32

record toy_base_data =
  toy_config_id :: i32
  toy_config_type :: i32
  toy_level :: i32

record toy_data =
  toy_cd_key :: string
  toy_time_stamp :: u64
  toy_base :: toy_base_data

text \<open>\<^verbatim>\<open>MsgHeroDataDB2GS\<close>\<close>

record hero_db =
  db_account :: u64
  db_data :: hero_data
  db_equips :: "equip_data list"
  db_toys :: "toy_data list"

datatype hero_error =
    no_error
  | server_error_no_suit_id
  | toy_cd_key_already_verify
  | toy_cd_key_have_been_in_used
  | equip_level_up_not_enough_gold
  | equip_level_up_not_enough_diamand
  | equip_level_up_not_found_equip
  | equip_level_up_not_found_config
  | equip_level_up_not_enough_equip

section \<open>Configuration\<close>

record hero_equip_config =
  ec_config_id :: i32
  ec_level :: i32
  ec_count :: i32

record hero_config =
  hc_gold :: i32
  hc_diamond :: i32
  hc_level :: i32
  hc_equips :: "hero_equip_config list"
  hc_suits_name :: "(int, string) omap"

record level_up_config =
  lu_count :: i32
  lu_diamand :: i32
  lu_gold :: i32

record game_config =
  gc_hero_config :: hero_config
  gc_level_up :: "(int, (int, level_up_config) omap) omap"
  gc_generate_id :: u64

text \<open>The keys of a \<^verbatim>\<open>std::map<int, _>\<close> are compared as signed integers.\<close>

definition generateEquipID :: "game_config \<Rightarrow> u64 \<times> game_config" where
  "generateEquipID g = (gc_generate_id g + 1, g\<lparr>gc_generate_id := gc_generate_id g + 1\<rparr>)"

definition set_generate_equip_id :: "u64 \<Rightarrow> game_config \<Rightarrow> game_config" where
  "set_generate_equip_id i g = g\<lparr>gc_generate_id := i\<rparr>"

definition getEquipLevelUpConfig :: "game_config \<Rightarrow> i32 \<Rightarrow> i32 \<Rightarrow> level_up_config option" where
  "getEquipLevelUpConfig g config_id config_level =
     (case om_find (gc_level_up g) (sint config_id) of
        None \<Rightarrow> None
      | Some m \<Rightarrow> om_find m (sint config_level))"

text \<open>The rows of the four tables that \<open>Load\<close> reads.\<close>

record hero_info_row =
  hi_gold :: i32
  hi_diamond :: i32
  hi_level :: i32

record suit_name_row =
  sn_id :: i32
  sn_name :: string

record level_row =
  lr_config_id :: i32
  lr_config_type :: i32
  lr_config_level :: i32
  lr_count :: i32
  lr_diamand :: i32
  lr_gold :: i32

definition load_level_row ::
    "level_row \<Rightarrow> (int, (int, level_up_config) omap) omap
     \<Rightarrow> (int, (int, level_up_config) omap) omap" where
  "load_level_row row m =
     (let config_id = sint (lr_config_id row);
          level = sint (lr_config_level row);
          m = (case om_find m config_id of None \<Rightarrow> om_set config_id [] m | Some _ \<Rightarrow> m);
          levels = the (om_find m config_id)
      in case om_find levels level of
           None \<Rightarrow> om_set config_id
                    (om_set level \<lparr>lu_count = lr_count row, lu_diamand = lr_diamand row,
                                   lu_gold = lr_gold row\<rparr> levels) m
         | Some _ \<Rightarrow> m)"

definition load_game_config ::
    "hero_info_row list \<Rightarrow> hero_equip_config list \<Rightarrow> suit_name_row list \<Rightarrow> level_row list
     \<Rightarrow> game_config \<Rightarrow> game_config" where
  "load_game_config infos equips suits levels g =
     (let h = gc_hero_config g;
          h = (case infos of
                 [] \<Rightarrow> h
               | r # _ \<Rightarrow> h\<lparr>hc_gold := hi_gold r, hc_diamond := hi_diamond r, hc_level := hi_level r\<rparr>);
          h = h\<lparr>hc_equips := hc_equips h @ equips\<rparr>;
          h = h\<lparr>hc_suits_name :=
                 fold (\<lambda>r. om_set (sint (sn_id r)) (sn_name r)) suits (hc_suits_name h)\<rparr>
      in g\<lparr>gc_hero_config := h, gc_level_up := fold load_level_row levels (gc_level_up g)\<rparr>)"

section \<open>Properties\<close>

lemma sint_eq_iff: "sint a = sint b \<longleftrightarrow> a = b"
  by (metis signed_word_eqI)

definition lookup_level ::
    "(int, (int, level_up_config) omap) omap \<Rightarrow> int \<Rightarrow> int \<Rightarrow> level_up_config option" where
  "lookup_level m i l = (case om_find m i of None \<Rightarrow> None | Some levels \<Rightarrow> om_find levels l)"

lemma lookup_load_row:
  "lookup_level (load_level_row r m) i l =
     (case lookup_level m i l of
        Some c \<Rightarrow> Some c
      | None \<Rightarrow>
          if i = sint (lr_config_id r) \<and> l = sint (lr_config_level r)
          then Some \<lparr>lu_count = lr_count r, lu_diamand = lr_diamand r, lu_gold = lr_gold r\<rparr>
          else None)"
  by (auto simp: lookup_level_def load_level_row_def Let_def split: option.splits)

lemma lookup_load_rows:
  "lookup_level (fold load_level_row rows m) i l =
     (case lookup_level m i l of
        Some c \<Rightarrow> Some c
      | None \<Rightarrow>
          map_option (\<lambda>r. \<lparr>lu_count = lr_count r, lu_diamand = lr_diamand r, lu_gold = lr_gold r\<rparr>)
            (find (\<lambda>r. sint (lr_config_id r) = i \<and> sint (lr_config_level r) = l) rows))"
  by (induction rows arbitrary: m) (auto simp: lookup_load_row split: option.splits)

text \<open>after loading, the upgrade costs of an item at a level are those of the first row for them
  that the database returned; other items and levels have none.\<close>

theorem load_level_up_costs:
  "getEquipLevelUpConfig (load_game_config infos equips suits levels (g\<lparr>gc_level_up := []\<rparr>)) c l =
     map_option (\<lambda>r. \<lparr>lu_count = lr_count r, lu_diamand = lr_diamand r, lu_gold = lr_gold r\<rparr>)
       (find (\<lambda>r. lr_config_id r = c \<and> lr_config_level r = l) levels)"
  using lookup_load_rows [of levels "[]" "sint c" "sint l"]
  by (simp add: sint_eq_iff getEquipLevelUpConfig_def load_game_config_def lookup_level_def Let_def)

end
