(* ===== verification/Dream_Hero.thy ===== *)
theory Dream_Hero
  imports Game_Config Containers
begin

text \<open>
  \<^verbatim>\<open>gameserver/DreamHero.{h,cpp}\<close>: one player's hero, with the equipment, toys and suits that
  the client requests change and that \<open>SaveHero\<close> writes back as SQL. What a handler sends is
  returned as a list of effects in sending order: messages go through the hero's session, which
  is a pointer to an object of another component.
\<close>

section \<open>Messages and state\<close>

text \<open>
  An equipment message carries the has-bit of its field \<^verbatim>\<open>equip\<close>, the items, and the has-bits
  of \<^verbatim>\<open>begin\<close> and \<^verbatim>\<open>end\<close>. Fields that the code does not set are \<open>None\<close>.
\<close>

record equip_init =
  ei_has_equip :: bool
  ei_equips :: "equip_data list"
  ei_begin :: bool
  ei_end :: bool

datatype s2c =
    HeroInit hero_data
  | EquipInit equip_init
  | ToyInit "toy_base_data list"
  | ModifySuitNameACK i32 string
  | ModifySuitErrorACK i32 hero_error
  | ModifySuitACK i32 hero_error
  | DelSuitACK i32 hero_error
  | VerifyToyCDKeyErrorACK string hero_error
  | VerifyToyCDKeyACK toy_data
  | EquipLevelUpACK "u64 option" i32 i32 i32 i32
  | EquipLevelUpErrorACK u64 hero_error

datatype g2db =
    VerifyToyGS2DB string "u64 option"
  | ReqHeroDataGS2DB u64
  | SaveDataGS2DB string
  | SaveAllHeroesGS2DB

datatype game_effect =
    To_Client ptr s2c
  | To_Db ptr g2db

record dream_hero =
  h_info :: hero_data
  h_equips :: "(u64, equip_data) omap"
  h_toys :: "(string, toy_data) omap"
  h_account :: u64
  h_session :: ptr
  h_online :: bool
  h_save_event :: bool

text \<open>The constructor; the session and account members it leaves unset are set by
  \<open>CreateHero\<close> before anything reads them.\<close>

definition new_hero :: dream_hero where
  "new_hero =
     \<lparr>h_info = \<lparr>hd_account = 0, hd_level = 1, hd_name = ''test'', hd_action_point = 0,
                hd_diamand = 0, hd_gold = 0, hd_suits = []\<rparr>,
      h_equips = [], h_toys = [], h_account = 0, h_session = NULL, h_online = False,
      h_save_event = False\<rparr>"

definition send_client :: "dream_hero \<Rightarrow> s2c \<Rightarrow> game_effect list" where
  "send_client h m = (if h_session h \<noteq> NULL then [To_Client (h_session h) m] else [])"

text \<open>A message to the database needs the transaction id of the session.\<close>

definition send_db :: "dream_hero \<Rightarrow> g2db \<Rightarrow> (game_effect list) result" where
  "send_db h m = (if h_session h = NULL then Inl Null_Deref else Inr [To_Db (h_session h) m])"

definition set_account :: "u64 \<Rightarrow> dream_hero \<Rightarrow> dream_hero" where
  "set_account a h = h\<lparr>h_account := a, h_info := (h_info h)\<lparr>hd_account := a\<rparr>\<rparr>"

definition set_session :: "ptr \<Rightarrow> dream_hero \<Rightarrow> dream_hero" where
  "set_session s h = h\<lparr>h_session := s\<rparr>"

definition set_level :: "u32 \<Rightarrow> dream_hero \<Rightarrow> dream_hero" where
  "set_level l h = h\<lparr>h_info := (h_info h)\<lparr>hd_level := l\<rparr>\<rparr>"

definition set_name :: "string \<Rightarrow> dream_hero \<Rightarrow> dream_hero" where
  "set_name n h = h\<lparr>h_info := (h_info h)\<lparr>hd_name := c_str n\<rparr>\<rparr>"

definition set_online :: "bool \<Rightarrow> dream_hero \<Rightarrow> dream_hero" where
  "set_online b h = h\<lparr>h_online := b\<rparr>"

definition set_info :: "hero_db \<Rightarrow> dream_hero \<Rightarrow> dream_hero" where
  "set_info m h =
     h\<lparr>h_info := db_data m,
       h_toys := fold (\<lambda>t. om_insert (toy_cd_key t) t) (db_toys m) (h_toys h),
       h_equips := fold (\<lambda>e. om_insert (eq_id e) e) (db_equips m) (h_equips h)\<rparr>"

section \<open>Suits\<close>

text \<open>\<open>ModifySuit\<close> replaces every suit with the id of the request, or appends the suit.\<close>

definition ModifySuit :: "suit_data \<Rightarrow> dream_hero \<Rightarrow> game_effect list \<times> dream_hero" where
  "ModifySuit d h =
     (let suits = hd_suits (h_info h);
          changed = map (\<lambda>s. if suit_id s = suit_id d then d else s) suits;
          suits' = (if \<exists>s \<in> set suits. suit_id s = suit_id d then changed else changed @ [d])
      in (send_client h (ModifySuitACK (suit_id d) no_error),
          h\<lparr>h_info := (h_info h)\<lparr>hd_suits := suits'\<rparr>\<rparr>))"

text \<open>
  The loop of \<open>DelSuit\<close>. Erasing through the iterator moves the following suit to its place, and
  the iterator is then incremented, so that suit is skipped; when the erased suit was the last
  one the iterator runs past the end.
\<close>

fun del_suit_loop ::
    "i32 \<Rightarrow> suit_data list \<Rightarrow> hero_error \<Rightarrow> (suit_data list \<times> hero_error) result" where
  "del_suit_loop i [] err = Inr ([], err)"
| "del_suit_loop i (s # ss) err =
     (if suit_id s = i then
        (case ss of
           [] \<Rightarrow> Inl Bad_Iterator
         | t # ts \<Rightarrow>
             bind_result (del_suit_loop i ts no_error) (\<lambda>(rest, e). Inr (t # rest, e)))
      else bind_result (del_suit_loop i ss err) (\<lambda>(rest, e). Inr (s # rest, e)))"

definition DelSuit :: "i32 \<Rightarrow> dream_hero \<Rightarrow> (game_effect list \<times> dream_hero) result" where
  "DelSuit i h =
     bind_result (del_suit_loop i (hd_suits (h_info h)) server_error_no_suit_id) (\<lambda>(suits, err).
       Inr (send_client h (DelSuitACK i err), h\<lparr>h_info := (h_info h)\<lparr>hd_suits := suits\<rparr>\<rparr>))"

text \<open>\<open>modify_suit\<close> renames the first suit with the id.\<close>

fun rename_first :: "i32 \<Rightarrow> string \<Rightarrow> suit_data list \<Rightarrow> bool \<times> suit_data list" where
  "rename_first i n [] = (False, [])"
| "rename_first i n (s # ss) =
     (if suit_id s = i then (True, s\<lparr>suit_name := n\<rparr> # ss)
      else (let (found, ss') = rename_first i n ss in (found, s # ss')))"

definition modify_suit :: "i32 \<Rightarrow> string \<Rightarrow> dream_hero \<Rightarrow> game_effect list \<times> dream_hero" where
  "modify_suit i name h =
     (let name = c_str name;
          (found, suits) = rename_first i name (hd_suits (h_info h))
      in (send_client h (if found then ModifySuitNameACK i name
                         else ModifySuitErrorACK i server_error_no_suit_id),
          h\<lparr>h_info := (h_info h)\<lparr>hd_suits := suits\<rparr>\<rparr>))"

section \<open>Toys\<close>

definition RemoveToyByCDKey :: "string \<Rightarrow> dream_hero \<Rightarrow> dream_hero" where
  "RemoveToyByCDKey k h = h\<lparr>h_toys := om_erase (c_str k) (h_toys h)\<rparr>"

text \<open>\<open>VerifyToyCDKey\<close> leaves the required field \<^verbatim>\<open>account\<close> of its request unset.\<close>

definition VerifyToyCDKey :: "string \<Rightarrow> dream_hero \<Rightarrow> (game_effect list) result" where
  "VerifyToyCDKey key h =
     (let k = c_str key in
      if om_find (h_toys h) k \<noteq> None
      then Inr (send_client h (VerifyToyCDKeyErrorACK k toy_cd_key_have_been_in_used))
      else send_db h (VerifyToyGS2DB k None))"

text \<open>The part of \<open>VerifyToy\<close> that concerns the hero itself.\<close>

definition take_toy :: "toy_data \<Rightarrow> dream_hero \<Rightarrow> game_effect list \<times> dream_hero" where
  "take_toy t h =
     (case om_find (h_toys h) (c_str (toy_cd_key t)) of
        Some _ \<Rightarrow> ([], h)
      | None \<Rightarrow> (send_client h (VerifyToyCDKeyACK t),
                 h\<lparr>h_toys := om_insert (toy_cd_key t) t (h_toys h)\<rparr>))"

definition VerifyToyError :: "hero_error \<Rightarrow> string \<Rightarrow> dream_hero \<Rightarrow> game_effect list" where
  "VerifyToyError err key h = send_client h (VerifyToyCDKeyErrorACK (c_str key) err)"

section \<open>Upgrading equipment\<close>

text \<open>
  The comparisons are signed. A missing upgrade configuration is no error: nothing is sent. The
  acknowledgement leaves its required field \<^verbatim>\<open>equip_id\<close> unset.
\<close>

definition EquipLevelUp :: "game_config \<Rightarrow> u64 \<Rightarrow> dream_hero \<Rightarrow> game_effect list \<times> dream_hero" where
  "EquipLevelUp cfg i h =
     (case om_find (h_equips h) i of
        None \<Rightarrow> (send_client h (EquipLevelUpErrorACK i equip_level_up_not_found_equip), h)
      | Some e \<Rightarrow>
          let level = eq_level e + 1 in
          (case getEquipLevelUpConfig cfg (eq_equip_id e) level of
             None \<Rightarrow> ([], h)
           | Some c \<Rightarrow>
               if sint (eq_count e) < sint (lu_count c)
               then (send_client h (EquipLevelUpErrorACK i equip_level_up_not_enough_equip), h)
               else if sint (hd_gold (h_info h)) < sint (lu_gold c)
               then (send_client h (EquipLevelUpErrorACK i equip_level_up_not_enough_gold), h)
               else if sint (hd_diamand (h_info h)) < sint (lu_diamand c)
               then (send_client h (EquipLevelUpErrorACK i equip_level_up_not_enough_diamand), h)
               else
                 let gold = hd_gold (h_info h) - lu_gold c;
                     diamand = hd_diamand (h_info h) - lu_diamand c;
                     count = eq_count e - lu_count c;
                     h' = h\<lparr>h_info := (h_info h)\<lparr>hd_gold := gold, hd_diamand := diamand\<rparr>,
                            h_equips := om_set i (e\<lparr>eq_count := count, eq_level := level\<rparr>) (h_equips h)\<rparr>
                 in (send_client h (EquipLevelUpACK None level gold count diamand), h')))"

section \<open>Login\<close>

definition StartSave :: "dream_hero \<Rightarrow> dream_hero" where
  "StartSave h = h\<lparr>h_save_event := True\<rparr>"

definition StopSave :: "dream_hero \<Rightarrow> dream_hero" where
  "StopSave h = h\<lparr>h_save_event := False\<rparr>"

text \<open>
  The loop of \<open>SendClientInit\<close>: \<open>n\<close> is \<^verbatim>\<open>current_count\<close>, which is never set back, \<open>k\<close> is
  \<^verbatim>\<open>current_equip_count\<close>, \<open>cnt\<close> the number of items. \<^verbatim>\<open>clear_equip\<close> empties the
  sub-message and clears its has-bit, and only the first iteration sets the has-bit again.
\<close>

fun equip_init_loop ::
    "equip_data list \<Rightarrow> nat \<Rightarrow> nat \<Rightarrow> nat \<Rightarrow> equip_init \<Rightarrow> equip_init list
     \<Rightarrow> equip_init list \<times> equip_init" where
  "equip_init_loop [] n k cnt m sent = (sent, m)"
| "equip_init_loop (e # es) n k cnt m sent =
     (let m = (if n = 0 then m\<lparr>ei_has_equip := True\<rparr> else m);
          m = m\<lparr>ei_equips := ei_equips m @ [e]\<rparr>;
          m = (if k = 1 then m\<lparr>ei_begin := True\<rparr> else m);
          m = (if k = cnt then m\<lparr>ei_end := True\<rparr> else m)
      in if n \<ge> 40
         then equip_init_loop es (n + 1) (k + 1) cnt
                \<lparr>ei_has_equip = False, ei_equips = [], ei_begin = False, ei_end = False\<rparr> (sent @ [m])
         else equip_init_loop es (n + 1) (k + 1) cnt m sent)"

definition equip_messages :: "equip_data list \<Rightarrow> equip_init list" where
  "equip_messages es =
     (let (sent, m) = equip_init_loop es 0 1 (length es)
            \<lparr>ei_has_equip = True, ei_equips = [], ei_begin = False, ei_end = False\<rparr> []
      in if ei_equips m \<noteq> [] then sent @ [m\<lparr>ei_has_equip := True\<rparr>] else sent)"

definition SendClientInit :: "dream_hero \<Rightarrow> game_effect list \<times> dream_hero" where
  "SendClientInit h =
     (let h = StartSave h
      in (concat (map (\<lambda>m. send_client h (EquipInit m)) (equip_messages (map snd (h_equips h))))
          @ send_client h (ToyInit (map (\<lambda>e. toy_base (snd e)) (h_toys h)))
          @ send_client h (HeroInit (h_info h)),
          h\<lparr>h_online := True\<rparr>))"

text \<open>\<open>LoadFromConfig\<close> gives a new hero the configured equipment under fresh ids.\<close>

fun load_equips ::
    "hero_equip_config list \<Rightarrow> game_config \<Rightarrow> (u64, equip_data) omap
     \<Rightarrow> (u64, equip_data) omap \<times> game_config" where
  "load_equips [] g m = (m, g)"
| "load_equips (c # cs) g m =
     (let (i, g) = generateEquipID g
      in load_equips cs g
           (om_set i \<lparr>eq_id = i, eq_equip_id = ec_config_id c, eq_level = ec_level c,
                      eq_equipped = True, eq_client_save_flag = 0, eq_count = ec_count c\<rparr> m))"

definition LoadFromConfig :: "game_config \<Rightarrow> dream_hero \<Rightarrow> dream_hero \<times> game_config" where
  "LoadFromConfig g h =
     (let c = gc_hero_config g;
          (equips, g') = load_equips (hc_equips c) g (h_equips h);
          suits = map (\<lambda>(i, n). \<lparr>suit_id = word_of_int i, suit_name = c_str n, equip_ids = []\<rparr>)
                    (hc_suits_name c)
      in (h\<lparr>h_info := (h_info h)\<lparr>hd_diamand := hc_diamond c, hd_level := hc_level c,
                                 hd_gold := hc_gold c, hd_suits := hd_suits (h_info h) @ suits\<rparr>,
            h_equips := equips\<rparr>, g'))"

section \<open>SaveHero\<close>

definition show_u64 :: "u64 \<Rightarrow> string" where
  "show_u64 w = show_nat (unat w)"

definition show_i32 :: "i32 \<Rightarrow> string" where
  "show_i32 w = show_int (sint w)"

text \<open>One suit as text; the id and the name go through a buffer of 256 bytes.\<close>

definition suit_text :: "suit_data \<Rightarrow> string result" where
  "suit_text s =
     bind_result (sprintf_to 256 (show_i32 (suit_id s) @ '','' @ c_str (suit_name s))) (\<lambda>p.
     Inr (p @ concat (map (\<lambda>e. '','' @ show_u64 e) (equip_ids s))))"

fun suits_text :: "suit_data list \<Rightarrow> string result" where
  "suits_text [] = Inr []"
| "suits_text [s] = suit_text s"
| "suits_text (s # t # ss) =
     bind_result (suit_text s) (\<lambda>p. bind_result (suits_text (t # ss)) (\<lambda>q. Inr (p @ '':'' @ q)))"

text \<open>A value in single quotes, as the formats write it: the value is not escaped.\<close>

definition quoted :: "string \<Rightarrow> string" where
  "quoted s = CHR 0x27 # s @ [CHR 0x27]"

definition character_sql :: "hero_data \<Rightarrow> string \<Rightarrow> string" where
  "character_sql d suits =
     ''replace into `character`(`account_id`, `level`, `name`,`action_point`, `diamand`, `gold`, `suits_name`) values(''
     @ show_u64 (hd_account d) @ '', '' @ show_int (sint (hd_level d)) @ '', ''
     @ quoted (c_str (hd_name d)) @ '', '' @ show_i32 (hd_action_point d) @ '', ''
     @ show_i32 (hd_diamand d) @ '', '' @ show_i32 (hd_gold d) @ '', '' @ quoted suits @ '')''"

definition equip_sql_head :: string where
  "equip_sql_head = ''replace into `character_equip`(`equip_id`, `account_id`, `equip_config_id`, `level`, `equipped`, `client_save_flag`,`equip_count`) values''"

definition equip_row :: "u64 \<Rightarrow> equip_data \<Rightarrow> string" where
  "equip_row account e =
     ''('' @ show_u64 (eq_id e) @ '', '' @ show_u64 account @ '', '' @ show_i32 (eq_equip_id e)
     @ '', '' @ show_i32 (eq_level e) @ '', '' @ (if eq_equipped e then ''1'' else ''0'') @ '', ''
     @ show_i32 (eq_client_save_flag e) @ '', '' @ show_i32 (eq_count e) @ '')''"

text \<open>
  The loop over the equipment: \<open>sql\<close> is the statement being built, \<open>n\<close> the rows in it, \<open>sent\<close> the
  statements already sent. The statement is not cleared when it is sent.
\<close>

fun equip_sql_loop :: "string list \<Rightarrow> string \<Rightarrow> nat \<Rightarrow> string list \<Rightarrow> string \<times> string list" where
  "equip_sql_loop [] sql n sent = (sql, sent)"
| "equip_sql_loop (row # rows) sql n sent =
     (let (sent, n) = (if n \<ge> 20 then (sent @ [sql], 0) else (sent, n));
          sql = (if n = 0 then sql @ equip_sql_head else sql @ '','')
      in equip_sql_loop rows (sql @ row) (n + 1) sent)"

definition equip_statements :: "string list \<Rightarrow> string list" where
  "equip_statements rows =
     (let (sql, sent) = equip_sql_loop rows [] 0 []
      in if sql = [] then sent else sent @ [sql])"

definition toy_sql_head :: string where
  "toy_sql_head = ''replace into `character_toy`(`toy_cd_key`, `account`, `toy_config_id`, `toy_config_type`, `toy_level`, `verify_time`) values''"

definition toy_row :: "(u64 \<Rightarrow> string) \<Rightarrow> u64 \<Rightarrow> toy_data \<Rightarrow> string result" where
  "toy_row time account t =
     sprintf_to 512
       (''('' @ quoted (c_str (toy_cd_key t)) @ '', '' @ quoted (show_u64 account)
        @ '', '' @ show_i32 (toy_config_id (toy_base t)) @ '', ''
        @ show_i32 (toy_config_type (toy_base t)) @ '', '' @ show_i32 (toy_level (toy_base t)) @ '', ''
        @ quoted (time (toy_time_stamp t)) @ '')'')"

text \<open>The loop over the toys clears the statement after sending it, and sends after 21 rows.\<close>

fun toy_sql_loop :: "string list \<Rightarrow> string \<Rightarrow> nat \<Rightarrow> string list \<Rightarrow> string \<times> string list" where
  "toy_sql_loop [] sql n sent = (sql, sent)"
| "toy_sql_loop (row # rows) sql n sent =
     (let (sql, n, sent) = (if n > 20 then ([], 0, sent @ [sql]) else (sql, n, sent));
          sql = (if n = 0 then sql @ toy_sql_head else sql @ '','')
      in toy_sql_loop rows (sql @ row) (n + 1) sent)"

definition toy_statements :: "string list \<Rightarrow> string list" where
  "toy_statements rows =
     (let (sql, sent) = toy_sql_loop rows [] 0 []
      in if sql = [] then sent else sent @ [sql])"

fun all_results :: "'a result list \<Rightarrow> ('a list) result" where
  "all_results [] = Inr []"
| "all_results (r # rs) = bind_result r (\<lambda>x. bind_result (all_results rs) (\<lambda>xs. Inr (x # xs)))"

text \<open>\<open>time\<close> is \<open>get_time\<close> with the calendar filled in.\<close>

definition SaveHero :: "(u64 \<Rightarrow> string) \<Rightarrow> dream_hero \<Rightarrow> (game_effect list) result" where
  "SaveHero time h =
     bind_result (suits_text (hd_suits (h_info h))) (\<lambda>suits.
     bind_result (sprintf_to 2048 (character_sql (h_info h) suits)) (\<lambda>sql.
     bind_result (send_db h (SaveDataGS2DB sql)) (\<lambda>out1.
     let out2 = map (\<lambda>s. To_Db (h_session h) (SaveDataGS2DB s))
                  (equip_statements (map (\<lambda>e. equip_row (hd_account (h_info h)) (snd e)) (h_equips h)))
     in bind_result (all_results (map (\<lambda>t. toy_row time (h_account h) (snd t)) (h_toys h))) (\<lambda>rows.
        Inr (out1 @ out2
             @ map (\<lambda>s. To_Db (h_session h) (SaveDataGS2DB s)) (toy_statements rows))))))"

text \<open>\<open>MapVersionFormat\<close>: the leading numbers of a dotted version.\<close>

definition MapVersionFormat :: "string \<Rightarrow> int list" where
  "MapVersionFormat v = map atoi (takeWhile isIntger (snd (SplitStringA v ''.'')))"

section \<open>Invariant\<close>

text \<open>
  A hero is well-formed when its maps are maps, every item and toy is stored under its own key,
  the suits have different ids, and the two copies of the account agree.
\<close>

definition hero_ok :: "dream_hero \<Rightarrow> bool" where
  "hero_ok h \<longleftrightarrow> om_ok (h_equips h) \<and> om_ok (h_toys h)
     \<and> list_all (\<lambda>e. fst e = eq_id (snd e)) (h_equips h)
     \<and> list_all (\<lambda>e. fst e = toy_cd_key (snd e)) (h_toys h)
     \<and> distinct (map suit_id (hd_suits (h_info h)))
     \<and> hd_account (h_info h) = h_account h"

lemma list_all_om_set:
  "list_all P m \<Longrightarrow> P (k, v) \<Longrightarrow> list_all P (om_set k v m)"
  by (induction m) auto

lemma list_all_om_insert:
  "list_all P m \<Longrightarrow> P (k, v) \<Longrightarrow> list_all P (om_insert k v m)"
  by (simp add: om_insert_def list_all_om_set split: option.splits)

lemma list_all_om_erase: "list_all P m \<Longrightarrow> list_all P (om_erase k m)"
  by (auto simp: om_erase_def list_all_iff)

lemmas hero_maps = list_all_om_set list_all_om_insert list_all_om_erase om_ok_set om_ok_insert
  om_ok_erase

lemma del_suit_absent: "i \<notin> suit_id ` set ss \<Longrightarrow> del_suit_loop i ss err = Inr (ss, err)"
  by (induction ss) auto

lemma del_suit_split:
  "i \<notin> suit_id ` set pre \<Longrightarrow> suit_id s = i \<Longrightarrow> i \<notin> suit_id ` set post \<Longrightarrow>
   del_suit_loop i (pre @ s # post) err =
     (if post = [] then Inl Bad_Iterator else Inr (pre @ post, no_error))"
proof (induction pre)
  case Nil
  then show ?case by (cases post) (auto simp: del_suit_absent)
qed auto

lemma distinct_suits_cases:
  assumes "distinct (map suit_id ss)"
  obtains "i \<notin> suit_id ` set ss"
    | pre s post where "ss = pre @ s # post" "suit_id s = i" "i \<notin> suit_id ` set pre"
        "i \<notin> suit_id ` set post"
proof (cases "i \<in> suit_id ` set ss")
  case True
  then obtain s where s: "s \<in> set ss" "suit_id s = i" by auto
  then obtain pre post where "ss = pre @ s # post" by (meson split_list)
  with s assms that(2) show thesis by auto
qed (rule that(1))

lemma del_suit_distinct:
  assumes "del_suit_loop i ss err = Inr (rest, e)" and "distinct (map suit_id ss)"
  shows "distinct (map suit_id rest)"
  using assms(2)
proof (cases rule: distinct_suits_cases [where i = i])
  case 1
  with assms show ?thesis by (simp add: del_suit_absent)
next
  case (2 pre s post)
  with assms show ?thesis by (auto simp: del_suit_split split: if_splits)
qed

lemma rename_first_ids: "map suit_id (snd (rename_first i n ss)) = map suit_id ss"
  by (induction i n ss rule: rename_first.induct) (auto simp: case_prod_unfold Let_def)

lemma load_equips_ok:
  "om_ok m \<Longrightarrow> list_all (\<lambda>e. fst e = eq_id (snd e)) m \<Longrightarrow>
   om_ok (fst (load_equips cs g m)) \<and> list_all (\<lambda>e. fst e = eq_id (snd e)) (fst (load_equips cs g m))"
proof (induction cs arbitrary: g m)
  case (Cons c cs)
  then show ?case
    by (auto simp: generateEquipID_def intro!: Cons.IH list_all_om_set)
qed simp

section \<open>Properties\<close>

lemma hero_ok_send: "hero_ok h \<Longrightarrow> hero_ok (snd (SendClientInit h))"
  by (simp add: SendClientInit_def hero_ok_def StartSave_def Let_def)

text \<open>C15: every request handler keeps a hero well-formed: equipment and toys stay maps keyed by the
  items' own ids, suit ids stay different, and the account copies agree.\<close>

theorem hero_handlers_invariant:
  assumes "hero_ok h"
  shows "hero_ok (snd (ModifySuit d h)) \<and> hero_ok (snd (modify_suit i n h))
    \<and> hero_ok (RemoveToyByCDKey k h) \<and> hero_ok (snd (take_toy t h))
    \<and> hero_ok (snd (EquipLevelUp cfg j h)) \<and> hero_ok (snd (SendClientInit h))
    \<and> hero_ok (snd (case DelSuit i h of Inr r \<Rightarrow> r | Inl e \<Rightarrow> ([], h)))"
proof (intro conjI)
  have suits: "distinct (map suit_id (hd_suits (h_info h)))"
    using assms by (simp add: hero_ok_def)
  have same: "map suit_id (map (\<lambda>s. if suit_id s = suit_id d then d else s) ss) = map suit_id ss"
    for ss by (induction ss) auto
  show "hero_ok (snd (ModifySuit d h))"
    using assms same [of "hd_suits (h_info h)"]
    by (auto simp: hero_ok_def ModifySuit_def Let_def simp del: map_map)
  show "hero_ok (snd (modify_suit i n h))"
    using assms rename_first_ids [of i "c_str n" "hd_suits (h_info h)"]
    by (simp add: hero_ok_def modify_suit_def case_prod_unfold Let_def)
  show "hero_ok (RemoveToyByCDKey k h)"
    using assms by (simp add: hero_ok_def RemoveToyByCDKey_def hero_maps)
  show "hero_ok (snd (take_toy t h))"
    using assms by (simp add: hero_ok_def take_toy_def hero_maps split: option.split)
  show "hero_ok (snd (EquipLevelUp cfg j h))"
  proof (cases "om_find (h_equips h) j")
    case (Some e)
    then have "eq_id e = j"
      using assms map_of_SomeD [OF Some] by (fastforce simp: hero_ok_def list_all_iff)
    with Some assms show ?thesis
      by (simp add: hero_ok_def EquipLevelUp_def hero_maps Let_def split: option.split)
  qed (use assms in \<open>simp add: EquipLevelUp_def\<close>)
  show "hero_ok (snd (SendClientInit h))"
    using assms by (rule hero_ok_send)
  show "hero_ok (snd (case DelSuit i h of Inr r \<Rightarrow> r | Inl e \<Rightarrow> ([], h)))"
  proof (cases "del_suit_loop i (hd_suits (h_info h)) server_error_no_suit_id")
    case (Inr r)
    then show ?thesis
      using assms suits del_suit_distinct [OF _ suits, of i server_error_no_suit_id "fst r" "snd r"]
      by (cases r) (simp add: DelSuit_def hero_ok_def)
  qed (use assms in \<open>simp add: DelSuit_def\<close>)
qed

definition sample_suit :: "i32 \<Rightarrow> suit_data" where
  "sample_suit i = \<lparr>suit_id = i, suit_name = ''s'', equip_ids = []\<rparr>"

definition sample_equip :: "u64 \<Rightarrow> equip_data" where
  "sample_equip i = \<lparr>eq_id = i, eq_equip_id = 7, eq_level = 1, eq_equipped = True,
     eq_client_save_flag = 0, eq_count = 5\<rparr>"

definition sample_hero :: dream_hero where
  "sample_hero = new_hero\<lparr>h_session := 1,
     h_info := (h_info new_hero)\<lparr>hd_gold := 100, hd_diamand := 10,
       hd_suits := [sample_suit 1, sample_suit 2]\<rparr>,
     h_equips := [(3, sample_equip 3)]\<rparr>"

theorem hero_handlers_invariant_witness:
  "hero_ok (snd (modify_suit 2 ''travel'' sample_hero))"
proof -
  have "hero_ok sample_hero"
    by (simp add: hero_ok_def sample_hero_def new_hero_def sample_suit_def sample_equip_def)
  from hero_handlers_invariant [OF this, of "sample_suit 1" 2 "''travel''" "[]"
      "\<lparr>toy_cd_key = [], toy_time_stamp = 0,
        toy_base = \<lparr>toy_config_id = 0, toy_config_type = 0, toy_level = 0\<rparr>\<rparr>"]
  show ?thesis by blast
qed

text \<open>C16: with enough items, gold and diamonds an upgrade raises the level of exactly the requested
  item by one and takes exactly the configured cost, so no stock becomes negative; with too little
  of any of them the hero is unchanged and the client gets the error for the first shortage in the
  order items, gold, diamonds.\<close>

theorem equip_level_up_spec:
  assumes "om_find (h_equips h) i = Some e"
    and "getEquipLevelUpConfig cfg (eq_equip_id e) (eq_level e + 1) = Some c"
    and "0 \<le> sint (lu_count c)" and "0 \<le> sint (lu_gold c)" and "0 \<le> sint (lu_diamand c)"
  shows "if sint (lu_count c) \<le> sint (eq_count e) \<and> sint (lu_gold c) \<le> sint (hd_gold (h_info h))
            \<and> sint (lu_diamand c) \<le> sint (hd_diamand (h_info h))
     then (let h' = snd (EquipLevelUp cfg i h) in
        sint (hd_gold (h_info h')) = sint (hd_gold (h_info h)) - sint (lu_gold c)
        \<and> sint (hd_diamand (h_info h')) = sint (hd_diamand (h_info h)) - sint (lu_diamand c)
        \<and> (\<exists>e'. om_find (h_equips h') = (om_find (h_equips h))(i \<mapsto> e')
              \<and> eq_level e' = eq_level e + 1 \<and> eq_equip_id e' = eq_equip_id e
              \<and> sint (eq_count e') = sint (eq_count e) - sint (lu_count c)))
     else EquipLevelUp cfg i h =
        (send_client h (EquipLevelUpErrorACK i
           (if sint (eq_count e) < sint (lu_count c) then equip_level_up_not_enough_equip
            else if sint (hd_gold (h_info h)) < sint (lu_gold c) then equip_level_up_not_enough_gold
            else equip_level_up_not_enough_diamand)), h)"
proof -
  have minus: "sint (a - b) = sint a - sint b" if "0 \<le> sint b" "sint b \<le> sint a" for a b :: i32
  proof -
    have "sint a < 2 ^ 31" "- (2 ^ 31) \<le> sint a"
      using sint_lt [of a] sint_ge [of a] by simp_all
    with that show ?thesis
      by (simp add: sint_word_diff signed_take_bit_int_eq_self)
  qed
  show ?thesis
    using assms by (auto simp: EquipLevelUp_def Let_def minus)
qed

theorem equip_level_up_spec_witness:
  "sint (hd_gold (h_info (snd (EquipLevelUp
     \<lparr>gc_hero_config = \<lparr>hc_gold = 0, hc_diamond = 0, hc_level = 0, hc_equips = [], hc_suits_name = []\<rparr>,
      gc_level_up = [(7, [(2, \<lparr>lu_count = 3, lu_diamand = 4, lu_gold = 60\<rparr>)])], gc_generate_id = 0\<rparr>
     3 sample_hero)))) = 40"
proof -
  let ?cfg = "\<lparr>gc_hero_config = \<lparr>hc_gold = 0, hc_diamond = 0, hc_level = 0, hc_equips = [], hc_suits_name = []\<rparr>,
      gc_level_up = [(7, [(2, \<lparr>lu_count = 3, lu_diamand = 4, lu_gold = 60\<rparr>)])], gc_generate_id = 0\<rparr>"
  have "om_find (h_equips sample_hero) 3 = Some (sample_equip 3)"
    and "getEquipLevelUpConfig ?cfg (eq_equip_id (sample_equip 3)) (eq_level (sample_equip 3) + 1)
         = Some \<lparr>lu_count = 3, lu_diamand = 4, lu_gold = 60\<rparr>"
    by (simp_all add: sample_hero_def new_hero_def sample_equip_def getEquipLevelUpConfig_def)
  from equip_level_up_spec [OF this] show ?thesis
    by (simp add: sample_hero_def new_hero_def sample_equip_def Let_def)
qed

text \<open>deleting a suit removes exactly that suit and reports success when another suit follows
  it, and runs the iterator past the end of the list when it is the last one; an unknown id changes
  nothing and is reported.\<close>

theorem DelSuit_spec:
  assumes "hd_suits (h_info h) = pre @ s # post"
    and "suit_id s \<notin> suit_id ` set (pre @ post)"
  shows "DelSuit (suit_id s) h =
      (if post = [] then Inl Bad_Iterator
       else Inr (send_client h (DelSuitACK (suit_id s) no_error),
                 h\<lparr>h_info := (h_info h)\<lparr>hd_suits := pre @ post\<rparr>\<rparr>))
    \<and> (i \<noteq> suit_id s \<and> i \<notin> suit_id ` set (pre @ post) \<longrightarrow>
        DelSuit i h = Inr (send_client h (DelSuitACK i server_error_no_suit_id), h))"
proof -
  have "i \<noteq> suit_id s \<and> i \<notin> suit_id ` set (pre @ post) \<Longrightarrow> i \<notin> suit_id ` set (hd_suits (h_info h))"
    using assms(1) by auto
  moreover have "del_suit_loop (suit_id s) (pre @ s # post) server_error_no_suit_id =
      (if post = [] then Inl Bad_Iterator else Inr (pre @ post, no_error))"
    by (rule del_suit_split) (use assms(2) in auto)
  ultimately show ?thesis
    using assms(1) by (auto simp: DelSuit_def del_suit_absent)
qed

theorem DelSuit_spec_witness:
  "DelSuit 2 sample_hero = Inl Bad_Iterator
   \<and> DelSuit 9 sample_hero = Inr ([To_Client 1 (DelSuitACK 9 server_error_no_suit_id)], sample_hero)"
  using DelSuit_spec [of sample_hero "[sample_suit 1]" "sample_suit 2" "[]" 9]
  by (simp add: sample_hero_def new_hero_def sample_suit_def send_client_def)

lemma equip_loop_start:
  assumes "length es \<le> 40 - n" and "n \<le> 40" and "n \<noteq> 0"
  shows "equip_init_loop (es @ rest) n (n + 1) cnt m sent =
    equip_init_loop rest (n + length es) (n + length es + 1) cnt
      (m\<lparr>ei_equips := ei_equips m @ es,
         ei_end := (ei_end m \<or> (n < cnt \<and> cnt \<le> n + length es))\<rparr>) sent"
  using assms
proof (induction es arbitrary: n m)
  case Nil
  have "(ei_end m \<or> (n < cnt \<and> cnt \<le> n + length ([] :: equip_data list))) = ei_end m" by auto
  then show ?case
    by (simp only: append_Nil append_Nil2 list.size add_0_right) simp
next
  case (Cons e es)
  have "n < 40" using Cons.prems by simp
  moreover have "n < cnt \<longleftrightarrow> cnt = Suc n \<or> Suc n < cnt" by auto
  ultimately show ?case
    using Cons.IH [of "n + 1" "m\<lparr>ei_equips := ei_equips m @ [e],
        ei_end := (ei_end m \<or> n + 1 = cnt)\<rparr>"] Cons.prems
    by (auto simp: Let_def)
qed

lemma equip_loop_late:
  assumes "40 < n"
  shows "equip_init_loop es n k cnt \<lparr>ei_has_equip = False, ei_equips = [], ei_begin = False, ei_end = False\<rparr> sent
     = (sent @ map (\<lambda>(j, e). \<lparr>ei_has_equip = False, ei_equips = [e], ei_begin = (j = 1), ei_end = (j = cnt)\<rparr>)
                 (enumerate k es),
        \<lparr>ei_has_equip = False, ei_equips = [], ei_begin = False, ei_end = False\<rparr>)"
  using assms by (induction es arbitrary: n k sent) (auto simp: Let_def)

lemma equip_loop_first:
  assumes "length (e # es) \<le> 40"
  shows "equip_init_loop ((e # es) @ rest) 0 1 cnt
      \<lparr>ei_has_equip = True, ei_equips = [], ei_begin = False, ei_end = False\<rparr> [] =
    equip_init_loop rest (length (e # es)) (length (e # es) + 1) cnt
      \<lparr>ei_has_equip = True, ei_equips = e # es, ei_begin = True,
       ei_end = (1 \<le> cnt \<and> cnt \<le> length (e # es))\<rparr> []"
  using assms equip_loop_start [of es 1 rest cnt
      "\<lparr>ei_has_equip = True, ei_equips = [e], ei_begin = True, ei_end = (cnt = 1)\<rparr>" "[]"]
  by (auto simp: Let_def le_less)

text \<open>at login up to 41 items reach the client in one complete message; of any larger number only
  the first 41 are in a message whose payload field is marked as present, and that message does not
  carry the end mark.\<close>

theorem equip_messages_spec:
  "equip_messages es =
     (if es = [] then []
      else if length es \<le> 41
      then [\<lparr>ei_has_equip = True, ei_equips = es, ei_begin = True, ei_end = True\<rparr>]
      else \<lparr>ei_has_equip = True, ei_equips = take 41 es, ei_begin = True, ei_end = False\<rparr>
           # map (\<lambda>(j, e). \<lparr>ei_has_equip = False, ei_equips = [e], ei_begin = False,
                           ei_end = (j = length es)\<rparr>) (enumerate 42 (drop 41 es)))"
proof -
  consider "es = []" | "es \<noteq> []" "length es \<le> 40" | "40 < length es" by linarith
  then show ?thesis
  proof cases
    case 1
    then show ?thesis by (simp add: equip_messages_def)
  next
    case 2
    then obtain e fs where "es = e # fs" by (cases es) auto
    with 2 equip_loop_first [of e fs "[]" "length es"] show ?thesis
      by (simp add: equip_messages_def)
  next
    case 3
    then obtain e fs where e: "take 40 es = e # fs" by (cases "take 40 es") auto
    then have len: "length (e # fs) = 40"
      using 3 by (metis length_take min.absorb2 less_imp_le)
    obtain x xs where x: "drop 40 es = x # xs"
      using 3 by (cases "drop 40 es") auto
    have es: "es = (e # fs) @ x # xs"
      using append_take_drop_id [of 40 es] unfolding e x by simp
    have cnt: "length es = 41 + length xs"
      using len unfolding es by simp
    have "take 41 es = (e # fs) @ [x]" "drop 41 es = xs"
      using len by (simp_all add: es)
    moreover have "equip_init_loop es 0 1 (length es)
        \<lparr>ei_has_equip = True, ei_equips = [], ei_begin = False, ei_end = False\<rparr> []
      = equip_init_loop xs 41 42 (length es)
          \<lparr>ei_has_equip = False, ei_equips = [], ei_begin = False, ei_end = False\<rparr>
          [\<lparr>ei_has_equip = True, ei_equips = (e # fs) @ [x], ei_begin = True, ei_end = (xs = [])\<rparr>]"
      using equip_loop_first [of e fs "x # xs" "length es"] len cnt
      by (subst es) (auto simp: Let_def)
    moreover have "map (\<lambda>(j, e). \<lparr>ei_has_equip = False, ei_equips = [e], ei_begin = (j = 1),
          ei_end = (j = length es)\<rparr>) (enumerate 42 xs)
        = map (\<lambda>(j, e). \<lparr>ei_has_equip = False, ei_equips = [e], ei_begin = False,
          ei_end = (j = length es)\<rparr>) (enumerate 42 xs)"
      by (auto simp: in_set_enumerate_eq)
    ultimately show ?thesis
      using 3 cnt by (auto simp: equip_messages_def equip_loop_late)
  qed
qed

section \<open>Saving\<close>

lemma join_with_snoc:
  "ps \<noteq> [] \<Longrightarrow> join_with c (ps @ [p]) = join_with c ps @ c # p"
  by (induction c ps rule: join_with.induct) auto

text \<open>One statement for some rows: the head and the rows, separated by commas.\<close>

definition statement :: "string \<Rightarrow> string list \<Rightarrow> string" where
  "statement head rows = head @ join_with (CHR '','') rows"

function chunks :: "nat \<Rightarrow> 'a list \<Rightarrow> 'a list list" where
  "chunks n xs = (if xs = [] \<or> n = 0 then [] else take n xs # chunks n (drop n xs))"
  by pat_completeness auto
termination by (relation "measure (\<lambda>(n, xs). length xs)") auto

declare chunks.simps [simp del]

lemma concat_chunks: "0 < n \<Longrightarrow> concat (chunks n xs) = xs"
  by (induction n xs rule: chunks.induct) (subst chunks.simps, simp)

text \<open>The toy loop with some rows \<open>acc\<close> in the current statement.\<close>

lemma toy_loop_fill:
  assumes "acc \<noteq> []" and "length acc + length rows \<le> 21"
  shows "toy_sql_loop (rows @ rest) (statement toy_sql_head acc) (length acc) sent
    = toy_sql_loop rest (statement toy_sql_head (acc @ rows)) (length (acc @ rows)) sent"
  using assms
proof (induction rows arbitrary: acc)
  case (Cons r rows)
  have "statement toy_sql_head acc @ '','' @ r = statement toy_sql_head (acc @ [r])"
    using Cons.prems(1) by (simp add: statement_def join_with_snoc)
  with Cons.IH [of "acc @ [r]"] Cons.prems show ?case
    by (simp add: Let_def)
qed simp

lemma toy_loop_chunks:
  assumes "rows \<noteq> []"
  shows "\<exists>last_rows. last_rows \<noteq> [] \<and>
    toy_sql_loop rows sql 21 sent = (statement toy_sql_head last_rows,
        sent @ sql # map (statement toy_sql_head) (butlast (chunks 21 rows)))
    \<and> last (chunks 21 rows) = last_rows"
  using assms
proof (induction "length rows" arbitrary: rows sql sent rule: less_induct)
  case less
  then obtain r rs where r: "take 21 rows = r # rs"
    by (cases rows) auto
  have rows: "rows = (r # rs) @ drop 21 rows"
    unfolding r [symmetric] by simp
  have step: "toy_sql_loop rows sql 21 sent
      = toy_sql_loop (rs @ drop 21 rows) (statement toy_sql_head [r]) 1 (sent @ [sql])"
    by (subst rows) (simp add: statement_def)
  have fill: "\<dots> = toy_sql_loop (drop 21 rows) (statement toy_sql_head (r # rs)) (length (r # rs)) (sent @ [sql])"
    using toy_loop_fill [of "[r]" rs "drop 21 rows" "sent @ [sql]"] arg_cong [OF r, of length] by simp
  show ?case
  proof (cases "drop 21 rows = []")
    case True
    have ch: "chunks 21 rows = [r # rs]"
      by (subst chunks.simps) (simp only: less.prems r True chunks.simps [of 21 "[]"], simp)
    have "toy_sql_loop rows sql 21 sent = (statement toy_sql_head (r # rs), sent @ [sql])"
      using step fill by (simp add: True)
    with ch show ?thesis
      by (intro exI [of _ "r # rs"]) simp
  next
    case False
    then have len: "length (r # rs) = 21"
      using arg_cong [OF r, of length] by simp
    have "length (drop 21 rows) < length rows"
      using less.prems by (cases rows) auto
    from less.hyps [OF this False, of "statement toy_sql_head (r # rs)" "sent @ [sql]"]
    show ?thesis
      using step fill r len less.prems False
      by (auto simp: chunks.simps [of 21 rows] chunks.simps [of 21 "drop 21 rows"])
  qed
qed

lemma toy_loop_sent:
  "toy_sql_loop rows sql n (a @ b) =
     (fst (toy_sql_loop rows sql n b), a @ snd (toy_sql_loop rows sql n b))"
proof (induction rows arbitrary: sql n b)
  case (Cons r rows)
  show ?case
    using Cons.IH [of "toy_sql_head @ r" 1 "b @ [sql]"]
      Cons.IH [of "sql @ (if n = 0 then toy_sql_head else '','') @ r" "n + 1" b]
    by (auto simp: Let_def)
qed simp

lemma statement_nonempty: "statement toy_sql_head rows \<noteq> []" "statement equip_sql_head rows \<noteq> []"
  by (simp_all add: statement_def toy_sql_head_def equip_sql_head_def)

text \<open>the toys are saved in statements of at most 21 rows each that together contain every toy
  exactly once and in order.\<close>

theorem toy_statements_batches:
  "toy_statements rows = map (statement toy_sql_head) (chunks 21 rows)
   \<and> concat (chunks 21 rows) = rows"
proof (cases "rows = []")
  case True
  then show ?thesis
    by (simp add: toy_statements_def chunks.simps)
next
  case False
  then obtain r rs where r: "rows = r # rs" by (cases rows) auto
  obtain l where l: "l \<noteq> []" "last (chunks 21 rows) = l"
    "toy_sql_loop rows [] 21 [] = (statement toy_sql_head l,
        [] # map (statement toy_sql_head) (butlast (chunks 21 rows)))"
    using toy_loop_chunks [OF False, of "[]" "[]"] by auto
  have "toy_sql_loop rows [] 21 [] = (fst (toy_sql_loop rows [] 0 []), [[]] @ snd (toy_sql_loop rows [] 0 []))"
    using toy_loop_sent [of rs "toy_sql_head @ r" 1 "[[]]" "[]"] by (simp add: r)
  with l(3) have "toy_sql_loop rows [] 0 []
      = (statement toy_sql_head l, map (statement toy_sql_head) (butlast (chunks 21 rows)))"
    by (metis append_Cons append_Nil list.inject prod.collapse prod.inject)
  moreover have "chunks 21 rows \<noteq> []"
    using False by (subst chunks.simps) simp
  then have "butlast (chunks 21 rows) @ [l] = chunks 21 rows"
    using l(2) append_butlast_last_id by blast
  ultimately show ?thesis
    using statement_nonempty
    by (simp add: toy_statements_def concat_chunks) (metis list.simps(8,9) map_append)
qed

lemma equip_loop_fill:
  assumes "acc \<noteq> []" and "length acc + length rows \<le> 20"
  shows "equip_sql_loop (rows @ rest) (p @ statement equip_sql_head acc) (length acc) sent
    = equip_sql_loop rest (p @ statement equip_sql_head (acc @ rows)) (length (acc @ rows)) sent"
  using assms
proof (induction rows arbitrary: acc)
  case (Cons r rows)
  have "statement equip_sql_head acc @ '','' @ r = statement equip_sql_head (acc @ [r])"
    using Cons.prems(1) by (simp add: statement_def join_with_snoc)
  with Cons.IH [of "acc @ [r]"] Cons.prems show ?case
    by (simp add: Let_def)
qed simp

lemma equip_loop_start20:
  assumes "rows \<noteq> []" and "length rows \<le> 20"
  shows "equip_sql_loop (rows @ rest) [] 0 []
    = equip_sql_loop rest (statement equip_sql_head rows) (length rows) []"
proof (cases rows)
  case (Cons r rs)
  then show ?thesis
    using assms equip_loop_fill [of "[r]" rs rest "[]" "[]"] by (simp add: statement_def)
qed (use assms in simp)

lemma equip_loop_sent:
  "\<exists>more tail. equip_sql_loop rows sql n sent = (sql @ tail, sent @ more)
     \<and> (\<forall>m \<in> set more. \<exists>t. m = sql @ t)"
proof (induction rows arbitrary: sql n sent)
  case (Cons r rows)
  let ?sep = "if 20 \<le> n \<or> n = 0 then equip_sql_head else '',''"
  let ?sent = "if 20 \<le> n then sent @ [sql] else sent"
  let ?n = "if 20 \<le> n then 1 else n + 1"
  have step: "equip_sql_loop (r # rows) sql n sent = equip_sql_loop rows (sql @ ?sep @ r) ?n ?sent"
    by (simp add: Let_def)
  obtain more tail where "equip_sql_loop rows (sql @ ?sep @ r) ?n ?sent
      = ((sql @ ?sep @ r) @ tail, ?sent @ more)" "\<forall>m \<in> set more. \<exists>t. m = (sql @ ?sep @ r) @ t"
    using Cons.IH by blast
  then show ?case
    unfolding step
    by (intro exI [of _ "(if 20 \<le> n then [sql] else []) @ more"] exI [of _ "?sep @ r @ tail"])
       (auto split: if_splits)
qed simp

text \<open>up to twenty items are saved in one correct statement; with more, the first statement is
  correct, but every later one begins with the complete text of the first, so it is not a
  well-formed statement and repeats its rows.\<close>

theorem equip_statements_repeat:
  "rows \<noteq> [] \<Longrightarrow>
   (if length rows \<le> 20 then equip_statements rows = [statement equip_sql_head rows]
    else \<exists>rest. equip_statements rows = statement equip_sql_head (take 20 rows) # rest
           \<and> rest \<noteq> []
           \<and> (\<forall>s \<in> set rest. \<exists>t. s = statement equip_sql_head (take 20 rows) @ equip_sql_head @ t))"
proof (cases "length rows \<le> 20")
  case True
  assume "rows \<noteq> []"
  with True equip_loop_start20 [of rows "[]"] statement_nonempty show ?thesis
    by (simp add: equip_statements_def)
next
  case False
  assume "rows \<noteq> []"
  let ?first = "statement equip_sql_head (take 20 rows)"
  from False obtain r rs where r: "drop 20 rows = r # rs"
    by (cases "drop 20 rows") auto
  have "equip_sql_loop rows [] 0 [] = equip_sql_loop (r # rs) ?first 20 []"
  proof -
    have "take 20 rows @ r # rs = rows"
      using append_take_drop_id [of 20 rows] r by simp
    moreover have "length (take 20 rows) = 20" "take 20 rows \<noteq> []"
      using False \<open>rows \<noteq> []\<close> by simp_all
    ultimately show ?thesis
      using equip_loop_start20 [of "take 20 rows" "r # rs"] by simp
  qed
  also have "\<dots> = equip_sql_loop rs (?first @ equip_sql_head @ r) 1 [?first]"
    by simp
  finally obtain more tail where "equip_sql_loop rows [] 0 []
      = ((?first @ equip_sql_head @ r) @ tail, [?first] @ more)"
      "\<forall>m \<in> set more. \<exists>t. m = (?first @ equip_sql_head @ r) @ t"
    using equip_loop_sent [of rs "?first @ equip_sql_head @ r" 1 "[?first]"] by auto
  with False statement_nonempty show ?thesis
    by (auto simp: equip_statements_def)
qed

theorem equip_statements_repeat_witness:
  "equip_statements [''(1)'', ''(2)''] = [equip_sql_head @ ''(1),(2)'']"
  using equip_statements_repeat [of "[''(1)'', ''(2)'']"] by (simp add: statement_def)

lemma suit_text_cases:
  "suit_text s = Inl e \<Longrightarrow> e = Buff_Exception ''sprintf''"
  by (auto simp: suit_text_def sprintf_to_def split: if_splits)

lemma suit_text_long:
  assumes "254 \<le> length (c_str (suit_name s))"
  shows "suit_text s = Inl (Buff_Exception ''sprintf'')"
proof -
  obtain c cs where "show_i32 (suit_id s) = c # cs"
    by (cases "show_i32 (suit_id s)") (simp_all add: show_i32_def)
  with assms show ?thesis
    by (simp add: suit_text_def sprintf_to_def)
qed

lemma suits_text_long:
  "s \<in> set ss \<Longrightarrow> 254 \<le> length (c_str (suit_name s)) \<Longrightarrow> suits_text ss = Inl (Buff_Exception ''sprintf'')"
proof (induction ss rule: suits_text.induct)
  case (3 t u ss)
  show ?case
  proof (cases "suit_text t")
    case (Inl e)
    then show ?thesis using suit_text_cases [OF Inl] by simp
  next
    case (Inr p)
    with 3 suit_text_long [of s] have "s \<in> set (u # ss)" by auto
    with 3 Inr show ?thesis by simp
  qed
qed (auto simp: suit_text_long)

lemma c_str_idem [simp]: "c_str (c_str s) = c_str s"
  by (simp add: c_str_def takeWhile_idem)

lemma rename_first_found:
  "i \<in> suit_id ` set ss \<Longrightarrow>
   fst (rename_first i n ss) \<and> (\<exists>s \<in> set (snd (rename_first i n ss)). suit_name s = n)"
  by (induction i n ss rule: rename_first.induct) (auto simp: case_prod_unfold Let_def)

text \<open>a client may give a suit a name of any length and gets a success reply, but saving a hero
  with a suit name of 254 or more characters overruns the 256-byte text buffer.\<close>

theorem long_suit_name_overruns:
  assumes "i \<in> suit_id ` set (hd_suits (h_info h))" and "254 \<le> length (c_str n)"
  shows "fst (modify_suit i n h) = send_client h (ModifySuitNameACK i (c_str n))
    \<and> SaveHero time (snd (modify_suit i n h)) = Inl (Buff_Exception ''sprintf'')"
proof -
  obtain s where s: "s \<in> set (snd (rename_first i (c_str n) (hd_suits (h_info h))))"
      "suit_name s = c_str n" "fst (rename_first i (c_str n) (hd_suits (h_info h)))"
    using rename_first_found [OF assms(1)] by blast
  with assms(2) suits_text_long [OF s(1)] show ?thesis
    by (simp add: modify_suit_def SaveHero_def case_prod_unfold Let_def)
qed

theorem long_suit_name_overruns_witness:
  "SaveHero (\<lambda>_. []) (snd (modify_suit 1 (replicate 254 (CHR ''x'')) sample_hero))
     = Inl (Buff_Exception ''sprintf'')"
proof -
  have "c_str (replicate 254 (CHR ''x'')) = replicate 254 (CHR ''x'')"
    by (rule c_str_id) (simp only: set_replicate_conv_if, simp)
  then have "254 \<le> length (c_str (replicate 254 (CHR ''x'')))" by (simp only: length_replicate)
  moreover have "1 \<in> suit_id ` set (hd_suits (h_info sample_hero))"
    by (simp add: sample_hero_def new_hero_def sample_suit_def)
  ultimately show ?thesis
    using long_suit_name_overruns [of 1 sample_hero "replicate 254 (CHR ''x'')" "\<lambda>_. []"] by blast
qed

lemma om_set_greatest: "\<forall>k \<in> fst ` set m. k < i \<Longrightarrow> om_set i v m = m @ [(i, v)]"
  by (induction m) auto

lemma load_equips_ids:
  assumes "unat (gc_generate_id g) + length cs < 2 ^ 64"
    and "\<forall>k \<in> fst ` set m. k \<le> gc_generate_id g"
  shows "map fst (fst (load_equips cs g m))
      = map fst m @ map (\<lambda>i. gc_generate_id g + 1 + word_of_nat i) [0..<length cs]
    \<and> map (eq_equip_id \<circ> snd) (fst (load_equips cs g m))
      = map (eq_equip_id \<circ> snd) m @ map ec_config_id cs
    \<and> gc_generate_id (snd (load_equips cs g m)) = gc_generate_id g + word_of_nat (length cs)"
  using assms
proof (induction cs arbitrary: g m)
  case (Cons c cs)
  let ?i = "gc_generate_id g + 1"
  let ?g = "g\<lparr>gc_generate_id := ?i\<rparr>"
  let ?e = "\<lparr>eq_id = ?i, eq_equip_id = ec_config_id c, eq_level = ec_level c,
                      eq_equipped = True, eq_client_save_flag = 0, eq_count = ec_count c\<rparr>"
  have i: "unat ?i = unat (gc_generate_id g) + 1"
    using Cons.prems(1) by (simp add: unat_word_ariths)
  then have new: "gc_generate_id g < ?i"
    by (simp add: word_less_nat_alt)
  have set: "om_set ?i ?e m = m @ [(?i, ?e)]"
    using Cons.prems(2) new by (intro om_set_greatest) (auto intro: le_less_trans)
  have "load_equips (c # cs) g m = load_equips cs ?g (m @ [(?i, ?e)])"
    by (simp add: generateEquipID_def set)
  moreover have "\<forall>k \<in> fst ` set (m @ [(?i, ?e)]). k \<le> gc_generate_id ?g"
    using Cons.prems(2) new by (auto intro: order_trans less_imp_le)
  moreover have "unat (gc_generate_id ?g) + length cs < 2 ^ 64"
    using Cons.prems(1) i by simp
  ultimately show ?case
    using Cons.IH [of ?g "m @ [(?i, ?e)]"]
    by (simp add: upt_conv_Cons map_Suc_upt [symmetric] ac_simps comp_def del: upt_Suc)
qed simp

text \<open>A hero created from the configuration gets one item per configured entry, in order, under
  consecutive ids that no earlier call has handed out.\<close>

theorem LoadFromConfig_fresh_ids:
  assumes "unat (gc_generate_id g) + length (hc_equips (gc_hero_config g)) < 2 ^ 64"
    and "LoadFromConfig g new_hero = (h, g')"
  shows "map fst (h_equips h)
        = map (\<lambda>i. gc_generate_id g + 1 + word_of_nat i) [0..<length (hc_equips (gc_hero_config g))]
    \<and> map (eq_equip_id \<circ> snd) (h_equips h) = map ec_config_id (hc_equips (gc_hero_config g))
    \<and> gc_generate_id g' = gc_generate_id g + word_of_nat (length (hc_equips (gc_hero_config g)))"
  using load_equips_ids [OF assms(1), of "[]"] assms(2)
  by (auto simp: LoadFromConfig_def new_hero_def Let_def case_prod_unfold)

theorem LoadFromConfig_fresh_ids_witness:
  "map fst (h_equips (fst (LoadFromConfig
     \<lparr>gc_hero_config = \<lparr>hc_gold = 0, hc_diamond = 0, hc_level = 0,
        hc_equips = [\<lparr>ec_config_id = 5, ec_level = 1, ec_count = 1\<rparr>,
                     \<lparr>ec_config_id = 6, ec_level = 1, ec_count = 1\<rparr>], hc_suits_name = []\<rparr>,
      gc_level_up = [], gc_generate_id = 40\<rparr> new_hero))) = [41, 42]"
  using LoadFromConfig_fresh_ids [where g = "\<lparr>gc_hero_config = \<lparr>hc_gold = 0, hc_diamond = 0, hc_level = 0,
        hc_equips = [\<lparr>ec_config_id = 5, ec_level = 1, ec_count = 1\<rparr>,
                     \<lparr>ec_config_id = 6, ec_level = 1, ec_count = 1\<rparr>], hc_suits_name = []\<rparr>,
      gc_level_up = [], gc_generate_id = 40\<rparr>", OF _ prod.collapse [symmetric]]
  by (simp add: upt_conv_Cons)

end
