(* ===== verification/Slot_Table.thy ===== *)
theory Slot_Table
  imports Prelude
begin

text \<open>
  The tables of 255 connection pointers that each server keeps for its peers
  (\<^verbatim>\<open>m_Gates[MAX_GATE_ID]\<close>, \<^verbatim>\<open>m_activeGames[MAX_GAME_ID]\<close>,
  \<^verbatim>\<open>m_Games[MAX_GATE_ID]\<close>), and the contract the four of them share as the locale
  \<open>peer_table\<close>. Slot 0 is never used.
\<close>

definition MAX_GATE_ID :: nat where
  "MAX_GATE_ID = 0xff"

definition valid_slot :: "u16 \<Rightarrow> bool" where
  "valid_slot n \<longleftrightarrow> 0 < unat n \<and> unat n < MAX_GATE_ID"

type_synonym slots = "ptr list"

definition no_slots :: slots where
  "no_slots = replicate MAX_GATE_ID NULL"

definition slot_get :: "slots \<Rightarrow> u16 \<Rightarrow> ptr" where
  "slot_get t n = (if valid_slot n then t ! unat n else NULL)"

definition slot_add :: "u16 \<Rightarrow> ptr \<Rightarrow> slots \<Rightarrow> slots" where
  "slot_add n p t = (if p \<noteq> NULL \<and> valid_slot n then t[unat n := p] else t)"

definition slot_remove :: "u16 \<Rightarrow> ptr \<Rightarrow> slots \<Rightarrow> slots" where
  "slot_remove n p t =
     (if p \<noteq> NULL \<and> valid_slot n \<and> t ! unat n = p then t[unat n := NULL] else t)"

definition slots_ok :: "slots \<Rightarrow> bool" where
  "slots_ok t \<longleftrightarrow> length t = MAX_GATE_ID"

lemma slots_ok_none [simp]: "slots_ok no_slots"
  by (simp add: slots_ok_def no_slots_def)

lemma slots_ok_add [simp, invs]: "slots_ok t \<Longrightarrow> slots_ok (slot_add n p t)"
  by (simp add: slots_ok_def slot_add_def)

lemma slots_ok_remove [simp, invs]: "slots_ok t \<Longrightarrow> slots_ok (slot_remove n p t)"
  by (simp add: slots_ok_def slot_remove_def)

lemma slot_get_none [simp]: "slot_get no_slots n = NULL"
  by (simp add: slot_get_def no_slots_def valid_slot_def)

lemma slot_get_add:
  "slots_ok t \<Longrightarrow> slot_get (slot_add n p t) m =
     (if n = m \<and> valid_slot n \<and> p \<noteq> NULL then p else slot_get t m)"
  by (auto simp: slots_ok_def slot_get_def slot_add_def valid_slot_def nth_list_update word_unat_eq_iff)

lemma slot_get_remove:
  "slots_ok t \<Longrightarrow> slot_get (slot_remove n p t) m =
     (if n = m \<and> slot_get t m = p then NULL else slot_get t m)"
  by (auto simp: slots_ok_def slot_get_def slot_remove_def valid_slot_def nth_list_update word_unat_eq_iff)

lemma slot_get_invalid: "\<not> valid_slot n \<Longrightarrow> slot_get t n = NULL"
  by (simp add: slot_get_def)

section \<open>The contract\<close>

text \<open>A server that keeps such a table registers a peer under the id it announces, looks it up by
  id, and takes it out when its connection closes.\<close>

locale peer_table =
  fixes ok :: "'s \<Rightarrow> bool"
    and look :: "'s \<Rightarrow> u16 \<Rightarrow> ptr"
    and register :: "u16 \<Rightarrow> ptr \<Rightarrow> 's \<Rightarrow> 's"
    and unregister :: "u16 \<Rightarrow> ptr \<Rightarrow> 's \<Rightarrow> 's"
  assumes ok_register: "ok s \<Longrightarrow> ok (register n p s)"
    and ok_unregister: "ok s \<Longrightarrow> ok (unregister n p s)"
    and look_register: "ok s \<Longrightarrow> look (register n p s) m =
          (if n = m \<and> valid_slot n \<and> p \<noteq> NULL then p else look s m)"
    and look_unregister: "ok s \<Longrightarrow> look (unregister n p s) m =
          (if n = m \<and> look s m = p then NULL else look s m)"
begin

text \<open>A peer that reconnects before its old connection is closed keeps its slot: closing the old
  connection does not remove the new one.\<close>

lemma late_close_keeps_new:
  assumes "ok s" and "valid_slot n" and "q \<noteq> NULL" and "p \<noteq> q"
  shows "look (unregister n p (register n q (register n p s))) n = q"
  using assms by (simp add: look_unregister look_register ok_register)

lemma register_unregister:
  assumes "ok s" and "valid_slot n" and "p \<noteq> NULL"
  shows "look (unregister n p (register n p s)) m = (if n = m then NULL else look s m)"
  using assms by (auto simp: look_unregister look_register ok_register)

lemma register_other:
  assumes "ok s" and "n \<noteq> m"
  shows "look (register n p s) m = look s m" and "look (unregister n p s) m = look s m"
  using assms by (simp_all add: look_register look_unregister)

end

interpretation slots: peer_table slots_ok slot_get slot_add slot_remove
  by unfold_locales (simp_all add: slot_get_add slot_get_remove)

end
