(* ===== verification/Game_Manager.thy ===== *)
theory Game_Manager
  imports Dream_Hero Slot_Table
begin

text \<open>
  The game server: \<^verbatim>\<open>gameserver/DreamHeroManager.cpp\<close> (all heroes in memory),
  \<^verbatim>\<open>gameserver/session.cpp\<close> (one logged-in player), \<^verbatim>\<open>gameserver/gate_manager.cpp\<close> and
  \<^verbatim>\<open>gameserver/gate_session.cpp\<close> (gates and the players behind them) and
  \<^verbatim>\<open>gameserver/db_client .cpp\<close> (answers of the database server). Heroes are never deleted and
  are named by their account; sessions are objects at addresses, created and released, and
  reading a released one is a fault.
\<close>

section \<open>State\<close>

record session =
  ss_tranid :: u32
  ss_account :: u64
  ss_gate :: u16
  ss_online :: bool
  ss_hero :: "u64 option"

record game_state =
  gs_heros :: "(u64, dream_hero) omap"
  gs_toy_account :: "(string, u64) omap"
  gs_save_ok :: bool
  gs_onlines :: "(u32, ptr) omap"
  gs_sessions :: "ptr \<Rightarrow> session option"
  gs_gates :: slots
  gs_gate_id :: "ptr \<Rightarrow> u16"
  gs_config :: game_config
  gs_stop :: bool

text \<open>What leaves the server: messages to a gate connection (with the transaction id as flag), to
  the database server, the answer to a registering gate and the closing of a connection.\<close>

datatype game_out =
    Gate_Msg ptr u32 s2c
  | Db_Msg u32 g2db
  | Gate_Registered ptr
  | Gate_Close ptr

type_synonym game_step = "(game_out list \<times> game_state) result"

definition new_game :: "game_config \<Rightarrow> game_state" where
  "new_game c = \<lparr>gs_heros = [], gs_toy_account = [], gs_save_ok = False, gs_onlines = [],
     gs_sessions = (\<lambda>_. None), gs_gates = no_slots, gs_gate_id = (\<lambda>_. 0), gs_config = c,
     gs_stop = False\<rparr>"

section \<open>Sending\<close>

text \<open>\<open>GateManager::sendMessage\<close>; an empty or invalid slot drops the message.\<close>

definition gate_send :: "game_state \<Rightarrow> s2c \<Rightarrow> u32 \<Rightarrow> u16 \<Rightarrow> game_out list" where
  "gate_send g m flag n =
     (let p = slot_get (gs_gates g) n in if p \<noteq> NULL then [Gate_Msg p flag m] else [])"

text \<open>\<open>sendMsgToAll\<close> walks over all slots, slot 0 included.\<close>

definition gate_send_all :: "game_state \<Rightarrow> s2c \<Rightarrow> u32 \<Rightarrow> game_out list" where
  "gate_send_all g m flag =
     concat (map (\<lambda>p. if p \<noteq> NULL then [Gate_Msg p flag m] else []) (gs_gates g))"

definition session_sendPBMessage :: "game_state \<Rightarrow> session \<Rightarrow> s2c \<Rightarrow> game_out list" where
  "session_sendPBMessage g s m =
     (if ss_online s then gate_send g m (ss_tranid s) (ss_gate s) else [])"

text \<open>An effect of a hero goes through the session the hero points to.\<close>

fun deliver_effect :: "game_state \<Rightarrow> game_effect \<Rightarrow> (game_out list) result" where
  "deliver_effect g (To_Client p m) =
     (case gs_sessions g p of
        None \<Rightarrow> Inl Use_After_Free
      | Some s \<Rightarrow> Inr (session_sendPBMessage g s m))"
| "deliver_effect g (To_Db p m) =
     (case gs_sessions g p of
        None \<Rightarrow> Inl Use_After_Free
      | Some s \<Rightarrow> Inr [Db_Msg (ss_tranid s) m])"

definition deliver_all :: "game_state \<Rightarrow> game_effect list \<Rightarrow> (game_out list) result" where
  "deliver_all g es = bind_result (all_results (map (deliver_effect g) es)) (\<lambda>outs. Inr (concat outs))"

section \<open>DreamHeroManager\<close>

definition GetHero :: "u64 \<Rightarrow> game_state \<Rightarrow> dream_hero option" where
  "GetHero a g = om_find (gs_heros g) a"

definition put_hero :: "u64 \<Rightarrow> dream_hero \<Rightarrow> game_state \<Rightarrow> game_state" where
  "put_hero a h g = g\<lparr>gs_heros := om_set a h (gs_heros g)\<rparr>"

definition CreateHero_db :: "hero_db \<Rightarrow> u64 \<Rightarrow> ptr \<Rightarrow> game_state \<Rightarrow> game_state" where
  "CreateHero_db m a p g =
     (let h = (case GetHero a g of Some h \<Rightarrow> h | None \<Rightarrow> set_account a (set_info m new_hero))
      in put_hero a (set_account a (set_session p h)) g)"

definition CreateHero_config :: "u64 \<Rightarrow> ptr \<Rightarrow> game_state \<Rightarrow> game_state" where
  "CreateHero_config a p g =
     (let (h, c) = (case GetHero a g of
                      Some h \<Rightarrow> (h, gs_config g)
                    | None \<Rightarrow> LoadFromConfig (gs_config g) new_hero)
      in put_hero a (set_account a (set_session p h)) (g\<lparr>gs_config := c\<rparr>))"

definition getToyHero :: "string \<Rightarrow> game_state \<Rightarrow> u64" where
  "getToyHero k g = (case om_find (gs_toy_account g) k of Some a \<Rightarrow> a | None \<Rightarrow> 0)"

definition modifyToyAccount :: "u64 \<Rightarrow> string \<Rightarrow> game_state \<Rightarrow> game_state" where
  "modifyToyAccount a k g = g\<lparr>gs_toy_account := om_set k a (gs_toy_account g)\<rparr>"

text \<open>The timer event of one hero, and saving all of them.\<close>

definition save_hero_event :: "(u64 \<Rightarrow> string) \<Rightarrow> dream_hero \<Rightarrow> game_state \<Rightarrow> (game_out list) result" where
  "save_hero_event time h g = bind_result (SaveHero time h) (deliver_all g)"

definition SaveDreamHeroes :: "(u64 \<Rightarrow> string) \<Rightarrow> game_state \<Rightarrow> (game_out list) result" where
  "SaveDreamHeroes time g =
     bind_result (all_results (map (\<lambda>(a, h). save_hero_event time h g) (gs_heros g)))
       (\<lambda>outs. Inr (concat outs @ [Db_Msg 0 SaveAllHeroesGS2DB]))"

text \<open>\<open>CollectInfo\<close>: the numbers of online and offline heroes that are logged.\<close>

definition CollectInfo :: "game_state \<Rightarrow> nat \<times> nat" where
  "CollectInfo g =
     (length (filter (\<lambda>(a, h). h_online h) (gs_heros g)),
      length (filter (\<lambda>(a, h). \<not> h_online h) (gs_heros g)))"

definition save_all_heroes_ok :: "game_state \<Rightarrow> game_state" where
  "save_all_heroes_ok g = g\<lparr>gs_save_ok := True\<rparr>"

section \<open>Session\<close>

text \<open>Running a hero's handler from session \<open>p\<close>; without a hero nothing happens.\<close>

definition hero_call ::
    "(dream_hero \<Rightarrow> (game_effect list \<times> dream_hero) result) \<Rightarrow> ptr \<Rightarrow> game_state \<Rightarrow> game_step" where
  "hero_call f p g =
     (case gs_sessions g p of
        None \<Rightarrow> Inl Use_After_Free
      | Some s \<Rightarrow>
          (case ss_hero s of
             None \<Rightarrow> Inr ([], g)
           | Some a \<Rightarrow>
               (case GetHero a g of
                  None \<Rightarrow> Inl Use_After_Free
                | Some h \<Rightarrow>
                    bind_result (f h) (\<lambda>(es, h').
                    let g' = put_hero a h' g
                    in bind_result (deliver_all g' es) (\<lambda>out. Inr (out, g'))))))"

text \<open>The requests of a client, by message type. \<open>registerPBCall\<close> registers no handler for the
  upgrade request, so it falls to \<open>prasePBDefault\<close>, which only logs.\<close>

datatype c2s =
    C2SModifySuitNameReq i32 string
  | C2SModifySuitReq suit_data
  | C2SDelSuitReq i32
  | C2SVerifyToyCDKeyReq string
  | S2CEquipLevelUpReq u64
  | OtherReq string

fun session_parsePBMessage :: "c2s \<Rightarrow> ptr \<Rightarrow> game_state \<Rightarrow> game_step" where
  "session_parsePBMessage (C2SModifySuitNameReq i n) p g = hero_call (\<lambda>h. Inr (modify_suit i n h)) p g"
| "session_parsePBMessage (C2SModifySuitReq d) p g = hero_call (\<lambda>h. Inr (ModifySuit d h)) p g"
| "session_parsePBMessage (C2SDelSuitReq i) p g = hero_call (DelSuit i) p g"
| "session_parsePBMessage (C2SVerifyToyCDKeyReq k) p g =
     hero_call (\<lambda>h. bind_result (VerifyToyCDKey k h) (\<lambda>es. Inr (es, h))) p g"
| "session_parsePBMessage (S2CEquipLevelUpReq i) p g = Inr ([], g)"
| "session_parsePBMessage (OtherReq n) p g = Inr ([], g)"

definition set_ss :: "ptr \<Rightarrow> session \<Rightarrow> game_state \<Rightarrow> game_state" where
  "set_ss p s g = g\<lparr>gs_sessions := (gs_sessions g)(p := Some s)\<rparr>"

text \<open>\<open>SendClientInit\<close> of the hero \<open>a\<close>, with the hero stored back.\<close>

definition send_init :: "u64 \<Rightarrow> game_state \<Rightarrow> game_step" where
  "send_init a g =
     (case GetHero a g of
        None \<Rightarrow> Inl Use_After_Free
      | Some h \<Rightarrow>
          let (es, h') = SendClientInit h; g' = put_hero a h' g
          in bind_result (deliver_all g' es) (\<lambda>out. Inr (out, g')))"

text \<open>The constructor; \<open>p\<close> is the address of the new object.\<close>

definition create_session :: "ptr \<Rightarrow> u32 \<Rightarrow> u64 \<Rightarrow> u16 \<Rightarrow> game_state \<Rightarrow> game_step" where
  "create_session p t a gate g =
     (let s = \<lparr>ss_tranid = t, ss_account = a, ss_gate = gate, ss_online = True, ss_hero = None\<rparr>
      in case GetHero a g of
           Some h \<Rightarrow>
             send_init a (put_hero a (set_session p h) (set_ss p (s\<lparr>ss_hero := Some a\<rparr>) g))
         | None \<Rightarrow> Inr ([Db_Msg t (ReqHeroDataGS2DB a)], set_ss p s g))"

definition setReconnet :: "ptr \<Rightarrow> game_state \<Rightarrow> (game_state) result" where
  "setReconnet p g =
     (case gs_sessions g p of
        None \<Rightarrow> Inl Use_After_Free
      | Some s \<Rightarrow>
          let g = set_ss p (s\<lparr>ss_online := True\<rparr>) g
          in (case ss_hero s of
                None \<Rightarrow> Inr g
              | Some a \<Rightarrow>
                  (case GetHero a g of
                     None \<Rightarrow> Inl Use_After_Free
                   | Some h \<Rightarrow> Inr (put_hero a (set_online True h) g))))"

text \<open>\<open>setWaitReconnet\<close> uses the hero without testing the pointer.\<close>

definition setWaitReconnet :: "ptr \<Rightarrow> game_state \<Rightarrow> (game_state) result" where
  "setWaitReconnet p g =
     (case gs_sessions g p of
        None \<Rightarrow> Inl Use_After_Free
      | Some s \<Rightarrow>
          let g = set_ss p (s\<lparr>ss_online := False\<rparr>) g
          in (case ss_hero s of
                None \<Rightarrow> Inl Null_Deref
              | Some a \<Rightarrow>
                  (case GetHero a g of
                     None \<Rightarrow> Inl Use_After_Free
                   | Some h \<Rightarrow> Inr (put_hero a (set_online False h) g))))"

definition parseDBQueryNeedCreateHero :: "ptr \<Rightarrow> game_state \<Rightarrow> game_step" where
  "parseDBQueryNeedCreateHero p g =
     (case gs_sessions g p of
        None \<Rightarrow> Inl Use_After_Free
      | Some s \<Rightarrow>
          let a = ss_account s
          in send_init a (set_ss p (s\<lparr>ss_hero := Some a\<rparr>) (CreateHero_config a p g)))"

definition praseDBQueryHeroInfo :: "hero_db \<Rightarrow> ptr \<Rightarrow> game_state \<Rightarrow> game_step" where
  "praseDBQueryHeroInfo m p g =
     (case gs_sessions g p of
        None \<Rightarrow> Inl Use_After_Free
      | Some s \<Rightarrow>
          let a = ss_account s
          in send_init a (set_ss p (s\<lparr>ss_hero := Some a\<rparr>) (CreateHero_db m a p g)))"

section \<open>GateManager\<close>

definition addGate :: "u16 \<Rightarrow> ptr \<Rightarrow> game_state \<Rightarrow> bool \<times> game_state" where
  "addGate n p g =
     (p \<noteq> NULL \<and> valid_slot n, g\<lparr>gs_gates := slot_add n p (gs_gates g)\<rparr>)"

definition getUser :: "u32 \<Rightarrow> game_state \<Rightarrow> ptr" where
  "getUser t g = ptr_map_getData (gs_onlines g) t"

text \<open>\<open>Memory::releaseObject\<close>: the object at \<open>p\<close> is gone.\<close>

definition release_session :: "ptr \<Rightarrow> game_state \<Rightarrow> game_state" where
  "release_session p g = g\<lparr>gs_sessions := (gs_sessions g)(p := None)\<rparr>"

text \<open>\<open>addUser\<close> returns the session, or null when the transaction id belongs to another player.
  \<open>fresh\<close> is the address the pool gives to a new session.\<close>

definition addUser ::
    "ptr \<Rightarrow> u32 \<Rightarrow> u64 \<Rightarrow> u16 \<Rightarrow> game_state \<Rightarrow> (ptr \<times> game_out list \<times> game_state) result" where
  "addUser fresh t a gate g =
     (let p = getUser t g
      in if p = NULL
         then bind_result (create_session fresh t a gate g) (\<lambda>(out, g).
              Inr (fresh, out, g\<lparr>gs_onlines := snd (ptr_map_addData t fresh (gs_onlines g))\<rparr>))
         else (case gs_sessions g p of
                 None \<Rightarrow> Inl Use_After_Free
               | Some s \<Rightarrow>
                   if ss_gate s = gate \<and> ss_account s = a
                   then bind_result (setReconnet p g) (\<lambda>g. Inr (p, [], g))
                   else Inr (NULL, [], g)))"

definition removeUser :: "u32 \<Rightarrow> game_state \<Rightarrow> game_state" where
  "removeUser t g =
     (let (p, m) = ptr_map_eraseData t (gs_onlines g); g = g\<lparr>gs_onlines := m\<rparr>
      in if p \<noteq> NULL then release_session p g else g)"

definition offlineUser :: "u32 \<Rightarrow> game_state \<Rightarrow> (game_state) result" where
  "offlineUser t g = (let p = getUser t g in if p \<noteq> NULL then setWaitReconnet p g else Inr g)"

text \<open>The loop of \<open>removeUserByGate\<close> over the online players.\<close>

fun remove_by_gate_loop ::
    "u16 \<Rightarrow> (u32, ptr) omap \<Rightarrow> game_state \<Rightarrow> ((u32, ptr) omap \<times> game_state) result" where
  "remove_by_gate_loop n [] g = Inr ([], g)"
| "remove_by_gate_loop n ((t, p) # m) g =
     (if p = NULL
      then bind_result (remove_by_gate_loop n m g) (\<lambda>(m', g). Inr ((t, p) # m', g))
      else (case gs_sessions g p of
              None \<Rightarrow> Inl Use_After_Free
            | Some s \<Rightarrow>
                if ss_gate s = n
                then remove_by_gate_loop n m (release_session p g)
                else bind_result (remove_by_gate_loop n m g) (\<lambda>(m', g). Inr ((t, p) # m', g))))"

definition removeUserByGate :: "u16 \<Rightarrow> game_state \<Rightarrow> (game_state) result" where
  "removeUserByGate n g =
     bind_result (remove_by_gate_loop n (gs_onlines g) g) (\<lambda>(m, g). Inr (g\<lparr>gs_onlines := m\<rparr>))"

definition removeAllUsers :: "game_state \<Rightarrow> game_state" where
  "removeAllUsers g =
     (fold (\<lambda>(t, p) g. if p \<noteq> NULL then release_session p g else g) (gs_onlines g) g)\<lparr>gs_onlines := []\<rparr>"

definition removeGate :: "ptr \<Rightarrow> game_state \<Rightarrow> (game_state) result" where
  "removeGate p g =
     (let n = gs_gate_id g p
      in if p \<noteq> NULL \<and> valid_slot n \<and> gs_gates g ! unat n = p
         then bind_result (removeUserByGate n g) (\<lambda>g. Inr (g\<lparr>gs_gates := slot_remove n p (gs_gates g)\<rparr>))
         else Inr g)"

text \<open>What \<open>collectSessionInfo\<close> logs: the numbers of accounts, of sessions with a hero, of sessions,
  of online and offline sessions, and for each gate the number of its online sessions.\<close>

record session_info =
  si_accounts :: nat
  si_heros :: nat
  si_sessions :: nat
  si_online :: nat
  si_offline :: nat
  si_gates :: "(u16, nat) omap"

fun count_gates :: "session list \<Rightarrow> (u16, nat) omap \<Rightarrow> (u16, nat) omap" where
  "count_gates [] m = m"
| "count_gates (s # ss) m =
     count_gates ss
       (if ss_online s
        then om_set (ss_gate s) (Suc (case om_find m (ss_gate s) of Some n \<Rightarrow> n | None \<Rightarrow> 0)) m
        else m)"

definition collectSessionInfo :: "game_state \<Rightarrow> session_info result" where
  "collectSessionInfo g =
     bind_result
       (all_results (map (\<lambda>(t, p). case gs_sessions g p of Some s \<Rightarrow> Inr s | None \<Rightarrow> Inl Use_After_Free)
         (gs_onlines g)))
       (\<lambda>ss. let online = length (filter ss_online ss); offline = length (filter (\<lambda>s. \<not> ss_online s) ss)
             in Inr \<lparr>si_accounts = length (remdups (map ss_account ss)),
                     si_heros = length (filter (\<lambda>s. ss_hero s \<noteq> None) ss),
                     si_sessions = offline + online, si_online = online, si_offline = offline,
                     si_gates = count_gates ss []\<rparr>)"

section \<open>GateSession\<close>

text \<open>The version the gate announces is compared with the server's; on a mismatch the connection is
  closed, but the handler goes on.\<close>

definition parseGateRegister :: "bool \<Rightarrow> u16 \<Rightarrow> ptr \<Rightarrow> game_state \<Rightarrow> game_out list \<times> game_state" where
  "parseGateRegister version_ok n p g =
     (let g = g\<lparr>gs_gate_id := (gs_gate_id g)(p := n)\<rparr>;
          (_, g) = addGate n p g
      in ((if version_ok then [] else [Gate_Close p]) @ [Gate_Registered p], g))"

definition parseAddUser :: "ptr \<Rightarrow> ptr \<Rightarrow> u32 \<Rightarrow> u64 \<Rightarrow> game_state \<Rightarrow> game_step" where
  "parseAddUser fresh p t a g =
     bind_result (addUser fresh t a (gs_gate_id g p) g) (\<lambda>(_, out, g). Inr (out, g))"

definition parseUserMsg :: "c2s \<Rightarrow> u32 \<Rightarrow> game_state \<Rightarrow> game_step" where
  "parseUserMsg m flag g =
     (let p = getUser flag g in if p \<noteq> NULL then session_parsePBMessage m p g else Inr ([], g))"

section \<open>GameDBClient\<close>

definition parseNeedCreateHero :: "u32 \<Rightarrow> game_state \<Rightarrow> game_step" where
  "parseNeedCreateHero flag g =
     (let p = getUser flag g in if p \<noteq> NULL then parseDBQueryNeedCreateHero p g else Inr ([], g))"

definition parseQueryHeroInfo :: "hero_db \<Rightarrow> u32 \<Rightarrow> game_state \<Rightarrow> game_step" where
  "parseQueryHeroInfo m flag g =
     (let p = getUser flag g in if p \<noteq> NULL then praseDBQueryHeroInfo m p g else Inr ([], g))"

text \<open>\<open>DreamHero::VerifyToy\<close> for the hero \<open>a\<close>: the hero of the account that the database names as the
  owner loses the toy, then \<open>a\<close> gets it.\<close>

definition VerifyToy :: "toy_data \<Rightarrow> u64 \<Rightarrow> u64 \<Rightarrow> game_state \<Rightarrow> game_step" where
  "VerifyToy t owner a g =
     (case GetHero a g of
        None \<Rightarrow> Inl Use_After_Free
      | Some h \<Rightarrow>
          let k = toy_cd_key t;
              g = (case GetHero owner g of
                     None \<Rightarrow> g
                   | Some w \<Rightarrow> modifyToyAccount (h_account h) (c_str k)
                                (put_hero owner (RemoveToyByCDKey k w) g));
              (es, h') = take_toy t (the (GetHero a g));
              g = put_hero a h' g
          in bind_result (deliver_all g es) (\<lambda>out. Inr (out, g)))"

definition parseMsgVerifyToy :: "toy_data \<Rightarrow> u64 \<Rightarrow> u32 \<Rightarrow> game_state \<Rightarrow> game_step" where
  "parseMsgVerifyToy t owner flag g =
     (let p = getUser flag g
      in if p = NULL then Inr ([], g)
         else (case gs_sessions g p of
                 None \<Rightarrow> Inl Use_After_Free
               | Some s \<Rightarrow>
                   (case ss_hero s of None \<Rightarrow> Inr ([], g) | Some a \<Rightarrow> VerifyToy t owner a g)))"

text \<open>\<open>MsgVerifyToyError\<close> does not test the hero pointer.\<close>

definition MsgVerifyToyError :: "hero_error \<Rightarrow> string \<Rightarrow> u32 \<Rightarrow> game_state \<Rightarrow> game_step" where
  "MsgVerifyToyError err k flag g =
     (let p = getUser flag g
      in if p = NULL then Inr ([], g)
         else (case gs_sessions g p of
                 None \<Rightarrow> Inl Use_After_Free
               | Some s \<Rightarrow>
                   (case ss_hero s of
                      None \<Rightarrow> Inl Null_Deref
                    | Some a \<Rightarrow> hero_call (\<lambda>h. Inr (VerifyToyError err k h, h)) p g)))"

text \<open>An unregistered message of the database server is passed to the player.\<close>

definition parseDBMsgDefault :: "s2c \<Rightarrow> u32 \<Rightarrow> game_state \<Rightarrow> (game_out list) result" where
  "parseDBMsgDefault m flag g =
     (let p = getUser flag g
      in if flag = 0 \<or> p = NULL then Inr []
         else (case gs_sessions g p of
                 None \<Rightarrow> Inl Use_After_Free
               | Some s \<Rightarrow> Inr (session_sendPBMessage g s m)))"

section \<open>GameServer: stopping\<close>

definition game_setStop :: "(u64 \<Rightarrow> string) \<Rightarrow> game_state \<Rightarrow> (game_out list) result" where
  "game_setStop time g = SaveDreamHeroes time g"

definition game_checkStop :: "(u64 \<Rightarrow> string) \<Rightarrow> game_state \<Rightarrow> game_step" where
  "game_checkStop time g =
     (if gs_save_ok g
      then bind_result (SaveDreamHeroes time g) (\<lambda>out. Inr (out, g\<lparr>gs_stop := True\<rparr>))
      else Inr ([], g))"

text \<open>\<open>initDataFromCharacterDB\<close>: the id generator starts at the greatest id in use.\<close>

definition initDataFromCharacterDB :: "u64 option \<Rightarrow> game_state \<Rightarrow> game_state" where
  "initDataFromCharacterDB max_id g =
     g\<lparr>gs_config := set_generate_equip_id (case max_id of Some i \<Rightarrow> i | None \<Rightarrow> 0) (gs_config g)\<rparr>"

section \<open>The events of the server\<close>

datatype game_event =
    Ev_Gate_Register bool u16 ptr
  | Ev_Add_User ptr ptr u32 u64
  | Ev_Remove_User u32
  | Ev_Offline u32
  | Ev_User_Msg c2s u32
  | Ev_Gate_Closed ptr
  | Ev_Need_Create u32
  | Ev_Hero_Info hero_db u32
  | Ev_Verify_Toy toy_data u64 u32
  | Ev_Verify_Toy_Error hero_error string u32
  | Ev_Save_Ok
  | Ev_Check_Stop "u64 \<Rightarrow> string"

definition quiet :: "game_state result \<Rightarrow> game_step" where
  "quiet r = bind_result r (\<lambda>g. Inr ([], g))"

fun game_handle :: "game_event \<Rightarrow> game_state \<Rightarrow> game_step" where
  "game_handle (Ev_Gate_Register v n p) g = Inr (parseGateRegister v n p g)"
| "game_handle (Ev_Add_User fresh p t a) g = parseAddUser fresh p t a g"
| "game_handle (Ev_Remove_User t) g = Inr ([], removeUser t g)"
| "game_handle (Ev_Offline t) g = quiet (offlineUser t g)"
| "game_handle (Ev_User_Msg m flag) g = parseUserMsg m flag g"
| "game_handle (Ev_Gate_Closed p) g = quiet (removeGate p g)"
| "game_handle (Ev_Need_Create flag) g = parseNeedCreateHero flag g"
| "game_handle (Ev_Hero_Info m flag) g = parseQueryHeroInfo m flag g"
| "game_handle (Ev_Verify_Toy t a flag) g = parseMsgVerifyToy t a flag g"
| "game_handle (Ev_Verify_Toy_Error e k flag) g = MsgVerifyToyError e k flag g"
| "game_handle Ev_Save_Ok g = Inr ([], save_all_heroes_ok g)"
| "game_handle (Ev_Check_Stop time) g = game_checkStop time g"

text \<open>A new session gets an address that is not null and not in use.\<close>

fun game_allowed :: "game_event \<Rightarrow> game_state \<Rightarrow> bool" where
  "game_allowed (Ev_Add_User fresh p t a) g \<longleftrightarrow> fresh \<noteq> NULL \<and> gs_sessions g fresh = None"
| "game_allowed _ g \<longleftrightarrow> True"

inductive game_reach :: "game_config \<Rightarrow> game_state \<Rightarrow> bool" for c where
  start: "game_reach c (new_game c)"
| event: "game_reach c g \<Longrightarrow> game_allowed e g \<Longrightarrow> game_handle e g = Inr (out, g') \<Longrightarrow> game_reach c g'"

section \<open>Invariant\<close>

text \<open>A hero in memory has well-formed maps, is stored under its account and has been given a session.\<close>

definition hero_wf :: "u64 \<Rightarrow> dream_hero \<Rightarrow> bool" where
  "hero_wf a h \<longleftrightarrow> om_ok (h_equips h) \<and> om_ok (h_toys h)
     \<and> list_all (\<lambda>e. fst e = eq_id (snd e)) (h_equips h)
     \<and> list_all (\<lambda>e. fst e = toy_cd_key (snd e)) (h_toys h)
     \<and> h_account h = a \<and> hd_account (h_info h) = a \<and> h_session h \<noteq> NULL"

text \<open>
  The online table and the live sessions are the same thing seen from two sides: a transaction id is
  entered with an address exactly when a live session with that id is at the address. A session's
  hero is the one of its account and is in memory.
\<close>

definition heroes_ok :: "game_state \<Rightarrow> bool" where
  "heroes_ok g \<longleftrightarrow> om_ok (gs_heros g) \<and> (\<forall>a h. GetHero a g = Some h \<longrightarrow> hero_wf a h)"

definition users_ok :: "game_state \<Rightarrow> bool" where
  "users_ok g \<longleftrightarrow> om_ok (gs_onlines g) \<and> gs_sessions g NULL = None
     \<and> (\<forall>t p. om_find (gs_onlines g) t = Some p \<longleftrightarrow> (\<exists>s. gs_sessions g p = Some s \<and> ss_tranid s = t))"

definition links_ok :: "game_state \<Rightarrow> bool" where
  "links_ok g \<longleftrightarrow> (\<forall>p s a. gs_sessions g p = Some s \<longrightarrow> ss_hero s = Some a \<longrightarrow>
            a = ss_account s \<and> GetHero a g \<noteq> None)"

definition game_ok :: "game_state \<Rightarrow> bool" where
  "game_ok g \<longleftrightarrow> heroes_ok g \<and> users_ok g \<and> links_ok g \<and> slots_ok (gs_gates g)"

lemma GetHero_put [simp]: "GetHero a (put_hero b h g) = (if a = b then Some h else GetHero a g)"
  by (simp add: GetHero_def put_hero_def)

lemma put_hero_simps [simp]:
  "gs_onlines (put_hero a h g) = gs_onlines g" "gs_sessions (put_hero a h g) = gs_sessions g"
  "gs_gates (put_hero a h g) = gs_gates g" "gs_gate_id (put_hero a h g) = gs_gate_id g"
  "getUser t (put_hero a h g) = getUser t g"
  by (simp_all add: put_hero_def getUser_def)

lemma set_ss_simps [simp]:
  "gs_onlines (set_ss p s g) = gs_onlines g" "gs_sessions (set_ss p s g) = (gs_sessions g)(p := Some s)"
  "gs_gates (set_ss p s g) = gs_gates g" "GetHero a (set_ss p s g) = GetHero a g"
  "getUser t (set_ss p s g) = getUser t g"
  by (simp_all add: set_ss_def GetHero_def getUser_def)

lemma getUser_Some: "getUser t g \<noteq> NULL \<Longrightarrow> om_find (gs_onlines g) t = Some (getUser t g)"
  by (simp add: getUser_def ptr_map_getData_def split: option.splits)

lemma game_ok_session:
  assumes "game_ok g" and "getUser t g \<noteq> NULL"
  obtains s where "gs_sessions g (getUser t g) = Some s" "ss_tranid s = t"
  using assms(1) getUser_Some [OF assms(2)] unfolding game_ok_def users_ok_def by blast

lemma game_ok_hero:
  assumes "game_ok g" and "gs_sessions g p = Some s" and "ss_hero s = Some a"
  obtains h where "GetHero a g = Some h" "hero_wf a h" "a = ss_account s"
  using assms unfolding game_ok_def heroes_ok_def links_ok_def by blast

lemma game_ok_GetHero: "game_ok g \<Longrightarrow> GetHero a g = Some h \<Longrightarrow> hero_wf a h"
  by (simp add: game_ok_def heroes_ok_def)

lemma game_ok_not_null: "game_ok g \<Longrightarrow> gs_sessions g p = Some s \<Longrightarrow> p \<noteq> NULL"
  by (cases "p = NULL") (auto simp: game_ok_def users_ok_def)

lemma game_ok_put [simp, invs]:
  assumes "game_ok g" and "hero_wf a h"
  shows "game_ok (put_hero a h g)"
proof -
  have "om_ok (gs_heros (put_hero a h g))"
    using assms by (simp add: game_ok_def heroes_ok_def put_hero_def)
  with assms show ?thesis
    by (simp add: game_ok_def heroes_ok_def users_ok_def links_ok_def)
qed

lemma users_ok_set_ss:
  assumes "users_ok g" and "gs_sessions g p = Some s0" and "ss_tranid s = ss_tranid s0"
  shows "users_ok (set_ss p s g)"
  using assms unfolding users_ok_def by (cases "p = NULL") auto

lemma game_ok_set_ss [invs]:
  assumes "game_ok g" and "gs_sessions g p = Some s0" and "ss_tranid s = ss_tranid s0"
    and "\<And>a. ss_hero s = Some a \<Longrightarrow> a = ss_account s \<and> GetHero a g \<noteq> None"
  shows "game_ok (set_ss p s g)"
  using assms users_ok_set_ss [OF _ assms(2,3)] unfolding game_ok_def heroes_ok_def links_ok_def
  by (simp add: set_ss_def [where g = g]) (simp add: GetHero_def)

lemma hero_wf_handlers [simp, invs]:
  assumes "hero_wf a h"
  shows "hero_wf a (snd (ModifySuit d h))" "hero_wf a (snd (modify_suit i n h))"
    "hero_wf a (RemoveToyByCDKey k h)" "hero_wf a (snd (take_toy t h))"
    "hero_wf a (snd (SendClientInit h))" "hero_wf a (set_online b h)"
    "p \<noteq> NULL \<Longrightarrow> hero_wf a (set_session p h)" "hero_wf a (set_account a h)"
    "DelSuit i h = Inr (es, h') \<Longrightarrow> hero_wf a h'"
  using assms
  by (auto simp: hero_wf_def ModifySuit_def modify_suit_def RemoveToyByCDKey_def take_toy_def
        SendClientInit_def StartSave_def set_online_def set_session_def set_account_def DelSuit_def
        Let_def case_prod_unfold hero_maps split: option.splits)

lemma deliver_all_put [simp]: "deliver_all (put_hero a h g) es = deliver_all g es"
proof -
  have "deliver_effect (put_hero a h g) e = deliver_effect g e" for e
    by (cases e) (simp_all add: session_sendPBMessage_def gate_send_def split: option.splits)
  then have "deliver_effect (put_hero a h g) = deliver_effect g"
    by (rule ext)
  then show ?thesis by (simp add: deliver_all_def)
qed

lemma hero_call_cases:
  assumes "hero_call f p g = Inr (out, g')"
  shows "g' = g \<or> (\<exists>a h es h'. GetHero a g = Some h \<and> f h = Inr (es, h') \<and> g' = put_hero a h' g)"
  using assms by (auto simp: hero_call_def Let_def split: option.splits)

lemma game_ok_hero_call:
  assumes "game_ok g" and "hero_call f p g = Inr (out, g')"
    and "\<And>a h es h'. hero_wf a h \<Longrightarrow> f h = Inr (es, h') \<Longrightarrow> hero_wf a h'"
  shows "game_ok g'"
  using hero_call_cases [OF assms(2)]
proof
  assume "\<exists>a h es h'. GetHero a g = Some h \<and> f h = Inr (es, h') \<and> g' = put_hero a h' g"
  then obtain a h es h' where h: "GetHero a g = Some h" "f h = Inr (es, h')" "g' = put_hero a h' g"
    by blast
  with assms(1) assms(3) [OF game_ok_GetHero [OF assms(1) h(1)] h(2)] show ?thesis
    by simp
qed (use assms in simp)

lemma game_ok_send_init:
  assumes "game_ok g" and "send_init a g = Inr (out, g')"
  shows "game_ok g'"
  using assms hero_wf_handlers(5) [OF game_ok_GetHero [OF assms(1), of a]]
  by (auto simp: send_init_def Let_def case_prod_unfold split: option.splits)

lemma hero_wf_reset: 
  assumes "om_ok (h_equips h)" "om_ok (h_toys h)" "list_all (\<lambda>e. fst e = eq_id (snd e)) (h_equips h)"
    "list_all (\<lambda>e. fst e = toy_cd_key (snd e)) (h_toys h)" "p \<noteq> NULL"
  shows "hero_wf a (set_account a (set_session p h))"
  using assms by (simp add: hero_wf_def set_account_def set_session_def)

lemma fold_om_insert:
  "om_ok m \<Longrightarrow> om_ok (fold (\<lambda>t. om_insert (key t) t) ts m)"
  "list_all (\<lambda>e. fst e = key (snd e)) m \<Longrightarrow>
   list_all (\<lambda>e. fst e = key (snd e)) (fold (\<lambda>t. om_insert (key t) t) ts m)"
  by (induction ts arbitrary: m) (simp_all add: hero_maps)

lemma hero_wf_set_info: "p \<noteq> NULL \<Longrightarrow> hero_wf a (set_account a (set_session p (set_info m new_hero)))"
  by (intro hero_wf_reset) (simp_all add: set_info_def new_hero_def fold_om_insert)

lemma hero_wf_from_config:
  "p \<noteq> NULL \<Longrightarrow> hero_wf a (set_account a (set_session p (fst (LoadFromConfig g new_hero))))"
  using load_equips_ok [of "[]" "hc_equips (gc_hero_config g)" g]
  by (intro hero_wf_reset) (simp_all add: LoadFromConfig_def new_hero_def Let_def case_prod_unfold)

lemma set_account_idem [simp]: "set_account a (set_session p (set_account b h)) = set_account a (set_session p h)"
  by (simp add: set_account_def set_session_def)

lemma game_ok_config [simp]: "game_ok (g\<lparr>gs_config := c\<rparr>) = game_ok g"
  by (simp add: game_ok_def heroes_ok_def users_ok_def links_ok_def GetHero_def)

lemma GetHero_config [simp]: "GetHero a (g\<lparr>gs_config := c\<rparr>) = GetHero a g"
  by (simp add: GetHero_def)

lemma CreateHero_ok:
  assumes "game_ok g" and "p \<noteq> NULL"
  shows "game_ok (CreateHero_db m a p g)" "game_ok (CreateHero_config a p g)"
    "GetHero a (CreateHero_db m a p g) \<noteq> None" "GetHero a (CreateHero_config a p g) \<noteq> None"
    "gs_sessions (CreateHero_db m a p g) = gs_sessions g"
    "gs_sessions (CreateHero_config a p g) = gs_sessions g"
  using assms hero_wf_set_info [OF assms(2)] hero_wf_from_config [OF assms(2)]
  by (auto simp: CreateHero_db_def CreateHero_config_def Let_def case_prod_unfold game_ok_GetHero
      hero_wf_handlers split: option.splits)

text \<open>Without the sessions in \<open>P\<close>.\<close>

definition drop_sessions :: "(ptr \<Rightarrow> session \<Rightarrow> bool) \<Rightarrow> game_state \<Rightarrow> game_state" where
  "drop_sessions P g = g\<lparr>gs_sessions := (\<lambda>p. case gs_sessions g p of
       Some s \<Rightarrow> if P p s then None else Some s | None \<Rightarrow> None)\<rparr>"

lemma drop_sessions_simps [simp]:
  "gs_heros (drop_sessions P g) = gs_heros g" "gs_onlines (drop_sessions P g) = gs_onlines g"
  "gs_gates (drop_sessions P g) = gs_gates g" "GetHero a (drop_sessions P g) = GetHero a g"
  "gs_sessions (drop_sessions P g) p = (case gs_sessions g p of
       Some s \<Rightarrow> if P p s then None else Some s | None \<Rightarrow> None)"
  by (simp_all add: drop_sessions_def GetHero_def)

lemma release_session_drop: "release_session p g = drop_sessions (\<lambda>q s. q = p) g"
  by (auto simp: release_session_def drop_sessions_def fun_eq_iff split: option.splits)

lemma drop_sessions_drop: "drop_sessions P (drop_sessions Q g) = drop_sessions (\<lambda>p s. P p s \<or> Q p s) g"
  by (auto simp: drop_sessions_def fun_eq_iff split: option.splits)

lemma drop_sessions_cong:
  "(\<And>p s. gs_sessions g p = Some s \<Longrightarrow> P p s = Q p s) \<Longrightarrow> drop_sessions P g = drop_sessions Q g"
  by (auto simp: drop_sessions_def fun_eq_iff split: option.splits)

lemma drop_sessions_none:
  assumes "\<And>p s. gs_sessions g p = Some s \<Longrightarrow> \<not> P p s"
  shows "drop_sessions P g = g"
proof -
  have "(\<lambda>p. case gs_sessions g p of Some s \<Rightarrow> if P p s then None else Some s | None \<Rightarrow> None) = gs_sessions g"
    using assms by (auto simp: fun_eq_iff split: option.splits)
  then show ?thesis by (simp add: drop_sessions_def)
qed

lemma game_ok_drop:
  assumes "game_ok g" and "om_ok m"
    and "\<And>t p. om_find m t = Some p \<longleftrightarrow>
           (\<exists>s. gs_sessions g p = Some s \<and> ss_tranid s = t \<and> \<not> P p s)"
  shows "game_ok (drop_sessions P g\<lparr>gs_onlines := m\<rparr>)"
proof -
  have users: "users_ok g" using assms(1) by (simp add: game_ok_def)
  have "om_find m t = Some p \<longleftrightarrow> (\<exists>s. gs_sessions (drop_sessions P g) p = Some s \<and> ss_tranid s = t)" for t p
    unfolding assms(3) by (auto split: option.splits)
  moreover have "gs_sessions g NULL = None"
    using users by (simp add: users_ok_def)
  ultimately have "users_ok (drop_sessions P g\<lparr>gs_onlines := m\<rparr>)"
    using assms(2) by (simp add: users_ok_def)
  moreover have "links_ok (drop_sessions P g\<lparr>gs_onlines := m\<rparr>)"
    using assms(1) by (auto simp: game_ok_def links_ok_def GetHero_def split: option.splits if_splits)
  moreover have "heroes_ok (drop_sessions P g\<lparr>gs_onlines := m\<rparr>)"
    using assms(1) by (simp add: game_ok_def heroes_ok_def GetHero_def)
  ultimately show ?thesis
    using assms(1) by (simp add: game_ok_def)
qed

lemma removeUser_eq:
  assumes "game_ok g"
  shows "removeUser t g
    = drop_sessions (\<lambda>p s. ss_tranid s = t) g\<lparr>gs_onlines := om_erase t (gs_onlines g)\<rparr>"
proof (cases "om_find (gs_onlines g) t")
  case None
  then have "\<And>p s. gs_sessions g p = Some s \<Longrightarrow> ss_tranid s \<noteq> t"
    using assms unfolding game_ok_def users_ok_def by (metis option.distinct(1))
  then have "drop_sessions (\<lambda>p s. ss_tranid s = t) g = g"
    by (rule drop_sessions_none)
  moreover have "om_erase t (gs_onlines g) = gs_onlines g"
    using None by (auto simp: om_erase_def filter_id_conv map_of_eq_None_iff)
  ultimately show ?thesis
    using None by (simp add: removeUser_def ptr_map_eraseData_def)
next
  case (Some p)
  then have "\<And>q s. gs_sessions g q = Some s \<Longrightarrow> (q = p) = (ss_tranid s = t)"
    using assms unfolding game_ok_def users_ok_def by (metis option.inject)
  then have "drop_sessions (\<lambda>p s. ss_tranid s = t) g = release_session p g"
    unfolding release_session_drop by (intro drop_sessions_cong) simp
  moreover have "p \<noteq> NULL"
    using assms Some unfolding game_ok_def users_ok_def by force
  ultimately show ?thesis
    using Some
    by (simp add: removeUser_def ptr_map_eraseData_def release_session_def)
qed

lemma users_iff:
  "game_ok g \<Longrightarrow> om_find (gs_onlines g) t = Some p \<longleftrightarrow> (\<exists>s. gs_sessions g p = Some s \<and> ss_tranid s = t)"
  by (simp add: game_ok_def users_ok_def)

lemma game_ok_om: "game_ok g \<Longrightarrow> om_ok (gs_onlines g)"
  by (simp add: game_ok_def users_ok_def)

lemma game_ok_removeUser [invs]: "game_ok g \<Longrightarrow> game_ok (removeUser t g)"
  unfolding removeUser_eq
  by (rule game_ok_drop) (auto simp: game_ok_om users_iff)

lemma remove_by_gate_loop_eq:
  assumes "\<forall>(t, p) \<in> set m. p \<noteq> NULL \<and> (\<exists>s. gs_sessions g p = Some s \<and> ss_tranid s = t)"
    and "distinct (map fst m)"
  shows "remove_by_gate_loop n m g =
    Inr (filter (\<lambda>(t, p). ss_gate (the (gs_sessions g p)) \<noteq> n) m,
         drop_sessions (\<lambda>p s. ss_gate s = n \<and> (ss_tranid s, p) \<in> set m) g)"
  using assms
proof (induction m arbitrary: g)
  case Nil
  then show ?case by (simp add: drop_sessions_none)
next
  case (Cons e m)
  obtain t p s where e: "e = (t, p)" "p \<noteq> NULL" "gs_sessions g p = Some s" "ss_tranid s = t"
    using Cons.prems(1) by (cases e) auto
  show ?case
  proof (cases "ss_gate s = n")
    case False
    have "drop_sessions (\<lambda>p s. ss_gate s = n \<and> (ss_tranid s, p) \<in> set m) g
        = drop_sessions (\<lambda>p s. ss_gate s = n \<and> (ss_tranid s, p) \<in> set (e # m)) g"
      using e False by (intro drop_sessions_cong) auto
    with e False Cons show ?thesis by simp
  next
    case True
    let ?g = "release_session p g"
    have other: "q \<noteq> p" if "(u, q) \<in> set m" for u q
    proof
      assume "q = p"
      with that Cons.prems(1) e have "u = t" by auto
      with that Cons.prems(2) e show False by force
    qed
    have "\<forall>(u, q) \<in> set m. q \<noteq> NULL \<and> (\<exists>s. gs_sessions ?g q = Some s \<and> ss_tranid s = u)"
      using Cons.prems(1) other by (fastforce simp: release_session_def)
    then have "remove_by_gate_loop n m ?g =
      Inr (filter (\<lambda>(t, p). ss_gate (the (gs_sessions ?g p)) \<noteq> n) m,
         drop_sessions (\<lambda>p s. ss_gate s = n \<and> (ss_tranid s, p) \<in> set m) ?g)"
      using Cons.IH Cons.prems(2) by simp
    moreover have "filter (\<lambda>(t, p). ss_gate (the (gs_sessions ?g p)) \<noteq> n) m
        = filter (\<lambda>(t, p). ss_gate (the (gs_sessions g p)) \<noteq> n) m"
      using other by (intro filter_cong) (auto simp: release_session_def)
    moreover have "drop_sessions (\<lambda>p s. ss_gate s = n \<and> (ss_tranid s, p) \<in> set m) ?g
        = drop_sessions (\<lambda>p s. ss_gate s = n \<and> (ss_tranid s, p) \<in> set (e # m)) g"
      unfolding release_session_drop drop_sessions_drop
      using e True by (intro drop_sessions_cong) auto
    ultimately show ?thesis
      using e True by simp
  qed
qed

lemma removeUserByGate_eq:
  assumes "game_ok g"
  shows "removeUserByGate n g = Inr (drop_sessions (\<lambda>p s. ss_gate s = n) g
    \<lparr>gs_onlines := filter (\<lambda>(t, p). ss_gate (the (gs_sessions g p)) \<noteq> n) (gs_onlines g)\<rparr>)"
proof -
  have mem: "(t, p) \<in> set (gs_onlines g) \<longleftrightarrow> (\<exists>s. gs_sessions g p = Some s \<and> ss_tranid s = t)" for t p
    using users_iff [OF assms] om_mem_iff [OF game_ok_om [OF assms]] by simp
  have "\<forall>(t, p) \<in> set (gs_onlines g). p \<noteq> NULL \<and> (\<exists>s. gs_sessions g p = Some s \<and> ss_tranid s = t)"
    using mem game_ok_not_null [OF assms] by auto
  moreover have "drop_sessions (\<lambda>p s. ss_gate s = n \<and> (ss_tranid s, p) \<in> set (gs_onlines g)) g
      = drop_sessions (\<lambda>p s. ss_gate s = n) g"
    by (rule drop_sessions_cong) (simp add: mem)
  ultimately show ?thesis
    using om_ok_distinct [OF game_ok_om [OF assms]]
    by (simp add: removeUserByGate_def remove_by_gate_loop_eq)
qed

lemma game_ok_removeUserByGate [invs]:
  assumes "game_ok g" and "removeUserByGate n g = Inr g'"
  shows "game_ok g'"
proof -
  let ?m = "filter (\<lambda>(t, p). ss_gate (the (gs_sessions g p)) \<noteq> n) (gs_onlines g)"
  have ok: "om_ok ?m"
    by (simp add: game_ok_om [OF assms(1)])
  have "om_find ?m t = Some p \<longleftrightarrow>
      (\<exists>s. gs_sessions g p = Some s \<and> ss_tranid s = t \<and> ss_gate s \<noteq> n)" for t p
    using om_mem_iff [OF ok, of t p] users_iff [OF assms(1), of t p]
      om_mem_iff [OF game_ok_om [OF assms(1)], of t p] by auto
  then show ?thesis
    using assms game_ok_drop [OF assms(1) ok, of "\<lambda>p s. ss_gate s = n"]
    by (simp add: removeUserByGate_eq)
qed

lemma game_ok_gates [simp]:
  "game_ok g \<Longrightarrow> slots_ok t \<Longrightarrow> game_ok (g\<lparr>gs_gates := t\<rparr>)"
  "game_ok (g\<lparr>gs_gate_id := i\<rparr>) = game_ok g" "game_ok (g\<lparr>gs_save_ok := b\<rparr>) = game_ok g"
  "game_ok (g\<lparr>gs_stop := b\<rparr>) = game_ok g" "game_ok (g\<lparr>gs_toy_account := m\<rparr>) = game_ok g"
  by (simp_all add: game_ok_def heroes_ok_def users_ok_def links_ok_def GetHero_def)

lemma game_ok_slots: "game_ok g \<Longrightarrow> slots_ok (gs_gates g)"
  by (simp add: game_ok_def)

lemma game_ok_removeGate [invs]:
  assumes "game_ok g" and "removeGate p g = Inr g'"
  shows "game_ok g'"
  using assms game_ok_removeUserByGate [OF assms(1)]
  by (auto simp: removeGate_def Let_def game_ok_slots split: if_splits)

lemma game_ok_online [invs]:
  assumes "game_ok g" and "setWaitReconnet p g = Inr g' \<or> setReconnet p g = Inr g'"
  shows "game_ok g'"
proof -
  obtain s where s: "gs_sessions g p = Some s"
    using assms(2) by (auto simp: setWaitReconnet_def setReconnet_def split: option.splits)
  have set: "game_ok (set_ss p (s\<lparr>ss_online := b\<rparr>) g)" for b
    by (rule game_ok_set_ss [OF assms(1) s]) (use assms(1) s in \<open>auto simp: game_ok_def links_ok_def\<close>)
  show ?thesis
    using assms(2) s set game_ok_GetHero [OF assms(1)]
    by (auto simp: setWaitReconnet_def setReconnet_def Let_def split: option.splits)
qed

lemma deliver_sessions: 
  "gs_sessions g = gs_sessions g' \<Longrightarrow> gs_gates g = gs_gates g' \<Longrightarrow> deliver_all g = deliver_all g'"
proof -
  assume "gs_sessions g = gs_sessions g'" "gs_gates g = gs_gates g'"
  then have "deliver_effect g e = deliver_effect g' e" for e
    by (cases e) (simp_all add: session_sendPBMessage_def gate_send_def split: option.splits)
  then have "deliver_effect g = deliver_effect g'" by (rule ext)
  then show ?thesis by (intro ext) (simp only: deliver_all_def)
qed

lemma game_ok_add:
  assumes "game_ok g" and "getUser t g = NULL" and "p \<noteq> NULL" and "gs_sessions g p = None"
    and "ss_tranid s = t" and "\<And>a. ss_hero s = Some a \<Longrightarrow> a = ss_account s \<and> GetHero a g \<noteq> None"
  shows "game_ok (set_ss p s g\<lparr>gs_onlines := om_set t p (gs_onlines g)\<rparr>)"
proof -
  have "om_find (gs_onlines g) t \<noteq> Some NULL"
    using game_ok_not_null [OF assms(1)] users_iff [OF assms(1)] by blast
  then have none: "om_find (gs_onlines g) t = None"
    using assms(2) by (auto simp: getUser_def ptr_map_getData_def split: option.splits)
  have iff: "om_find (om_set t p (gs_onlines g)) u = Some q
      \<longleftrightarrow> (\<exists>x. gs_sessions (set_ss p s g) q = Some x \<and> ss_tranid x = u)" for u q
    using users_iff [OF assms(1), of u q] users_iff [OF assms(1), of t q] none assms(3-5) by auto
  have "users_ok (set_ss p s g\<lparr>gs_onlines := om_set t p (gs_onlines g)\<rparr>)"
    using assms(1,3) iff by (simp add: users_ok_def game_ok_def)
  then show ?thesis
    using assms(1,6)
    by (auto simp: game_ok_def heroes_ok_def links_ok_def GetHero_def set_ss_def split: if_splits)
qed

lemma put_hero_put: "put_hero a x (put_hero a y g) = put_hero a x g"
  by (simp add: put_hero_def)

lemma send_init_cases:
  assumes "send_init a g = Inr (out, g')"
  obtains h where "GetHero a g = Some h" "g' = put_hero a (snd (SendClientInit h)) g"
  using assms by (auto simp: send_init_def Let_def case_prod_unfold split: option.splits)

lemma put_hero_onlines [simp]:
  "put_hero a h g\<lparr>gs_onlines := m\<rparr> = put_hero a h (g\<lparr>gs_onlines := m\<rparr>)"
  by (simp add: put_hero_def)

lemma put_hero_set_ss: "set_ss p s (put_hero a h g) = put_hero a h (set_ss p s g)"
  by (simp add: put_hero_def set_ss_def)

lemma create_session_cases:
  assumes "game_ok g" and "p \<noteq> NULL" and "create_session p t a gate g = Inr (out, g')"
  obtains h s where "hero_wf a h" "GetHero a g \<noteq> None" "ss_hero s = Some a" "ss_account s = a"
      "ss_tranid s = t" "g' = put_hero a h (set_ss p s g)"
    | s where "ss_hero s = None" "ss_tranid s = t" "ss_account s = a" "g' = set_ss p s g"
proof (cases "GetHero a g")
  case None
  then show thesis
    using assms(3)
    by (intro that(2) [of "\<lparr>ss_tranid = t, ss_account = a, ss_gate = gate, ss_online = True, ss_hero = None\<rparr>"])
       (auto simp: create_session_def)
next
  case (Some h)
  let ?s = "\<lparr>ss_tranid = t, ss_account = a, ss_gate = gate, ss_online = True, ss_hero = Some a\<rparr>"
  have "send_init a (put_hero a (set_session p h) (set_ss p ?s g)) = Inr (out, g')"
    using Some assms(3) by (simp add: create_session_def)
  then have "g' = put_hero a (snd (SendClientInit (set_session p h))) (set_ss p ?s g)"
    by (rule send_init_cases) (auto simp: put_hero_put)
  moreover have "hero_wf a (snd (SendClientInit (set_session p h)))"
    using game_ok_GetHero [OF assms(1) Some] assms(2) by simp
  ultimately show thesis
    using that(1) [of _ ?s] Some by simp
qed

lemma ptr_map_addData_none:
  "om_find m t = None \<Longrightarrow> snd (ptr_map_addData t p m) = om_set t p m"
  by (simp add: ptr_map_addData_def)

lemma game_ok_no_user:
  assumes "game_ok g" and "getUser t g = NULL"
  shows "om_find (gs_onlines g) t = None"
proof -
  have "om_find (gs_onlines g) t \<noteq> Some NULL"
    using game_ok_not_null [OF assms(1)] users_iff [OF assms(1)] by blast
  then show ?thesis
    using assms(2) by (auto simp: getUser_def ptr_map_getData_def split: option.splits)
qed

lemma game_ok_addUser [invs]:
  assumes "game_ok g" and "fresh \<noteq> NULL" and "gs_sessions g fresh = None"
    and "addUser fresh t a gate g = Inr (p, out, g')"
  shows "game_ok g'"
proof (cases "getUser t g = NULL")
  case False
  then show ?thesis
    using assms(1,4) game_ok_online [OF assms(1)]
    by (auto simp: addUser_def Let_def split: option.splits if_splits)
next
  case True
  then obtain g1 where g1: "create_session fresh t a gate g = Inr (out, g1)"
      "g' = g1\<lparr>gs_onlines := snd (ptr_map_addData t fresh (gs_onlines g1))\<rparr>"
    using assms(4) by (auto simp: addUser_def Let_def)
  show ?thesis
    using assms(1,2) g1(1)
  proof (cases rule: create_session_cases)
    case (1 h s)
    then have "game_ok (set_ss fresh s g\<lparr>gs_onlines := om_set t fresh (gs_onlines g)\<rparr>)"
      using assms(1-3) True by (intro game_ok_add) auto
    with 1 show ?thesis
      using g1(2) game_ok_no_user [OF assms(1) True] by (simp add: ptr_map_addData_none)
  next
    case (2 s)
    then have "game_ok (set_ss fresh s g\<lparr>gs_onlines := om_set t fresh (gs_onlines g)\<rparr>)"
      using assms(1-3) True by (intro game_ok_add) auto
    with 2 show ?thesis
      using g1(2) game_ok_no_user [OF assms(1) True] by (simp add: ptr_map_addData_none)
  qed
qed

lemma game_ok_create:
  assumes "game_ok g" and "gs_sessions g p = Some s"
    and "send_init (ss_account s) (set_ss p (s\<lparr>ss_hero := Some (ss_account s)\<rparr>) g1) = Inr (out, g')"
    and "g1 = CreateHero_config (ss_account s) p g \<or> g1 = CreateHero_db m (ss_account s) p g"
  shows "game_ok g'"
proof -
  have "p \<noteq> NULL" using assms(1,2) by (rule game_ok_not_null)
  then have "game_ok g1" "GetHero (ss_account s) g1 \<noteq> None" "gs_sessions g1 p = Some s"
    using CreateHero_ok [OF assms(1)] assms(2,4) by auto
  then have "game_ok (set_ss p (s\<lparr>ss_hero := Some (ss_account s)\<rparr>) g1)"
    by (intro game_ok_set_ss) auto
  then show ?thesis
    using assms(3) by (rule game_ok_send_init)
qed

lemma game_ok_VerifyToy [invs]:
  assumes "game_ok g" and "VerifyToy t w a g = Inr (out, g')"
  shows "game_ok g'"
proof -
  obtain h where h: "GetHero a g = Some h"
    using assms(2) by (auto simp: VerifyToy_def split: option.splits)
  let ?g = "case GetHero w g of None \<Rightarrow> g
    | Some x \<Rightarrow> modifyToyAccount (h_account h) (c_str (toy_cd_key t))
                 (put_hero w (RemoveToyByCDKey (toy_cd_key t) x) g)"
  have ok: "game_ok ?g"
    using assms(1) game_ok_GetHero [OF assms(1)] by (simp add: modifyToyAccount_def split: option.split)
  have "GetHero a ?g \<noteq> None"
    using h by (simp add: modifyToyAccount_def GetHero_def put_hero_def split: option.split)
  then have "hero_wf a (snd (take_toy t (the (GetHero a ?g))))"
    using game_ok_GetHero [OF ok, of a] by (auto intro: hero_wf_handlers)
  then have "game_ok (put_hero a (snd (take_toy t (the (GetHero a ?g)))) ?g)"
    by (rule game_ok_put [OF ok])
  then show ?thesis
    using assms(2) h by (simp add: VerifyToy_def Let_def case_prod_unfold)
qed

lemma game_ok_user_msg [invs]:
  assumes "game_ok g" and "parseUserMsg m flag g = Inr (out, g')"
  shows "game_ok g'"
proof (cases "getUser flag g = NULL")
  case False
  note hc = game_ok_hero_call [OF assms(1)]
  have run: "session_parsePBMessage m (getUser flag g) g = Inr (out, g')"
    using assms(2) False by (simp add: parseUserMsg_def)
  show ?thesis
  proof (cases m)
    case (C2SModifySuitNameReq i n)
    with run have "hero_call (\<lambda>h. Inr (modify_suit i n h)) (getUser flag g) g = Inr (out, g')" by simp
    then show ?thesis
      by (rule hc) (metis Inr_inject hero_wf_handlers(2) snd_conv)
  next
    case (C2SModifySuitReq d)
    with run have "hero_call (\<lambda>h. Inr (ModifySuit d h)) (getUser flag g) g = Inr (out, g')" by simp
    then show ?thesis
      by (rule hc) (metis Inr_inject hero_wf_handlers(1) snd_conv)
  next
    case (C2SDelSuitReq i)
    with run have "hero_call (DelSuit i) (getUser flag g) g = Inr (out, g')" by simp
    then show ?thesis
      by (rule hc) (rule hero_wf_handlers(9))
  next
    case (C2SVerifyToyCDKeyReq k)
    with run have "hero_call (\<lambda>h. bind_result (VerifyToyCDKey k h) (\<lambda>es. Inr (es, h)))
        (getUser flag g) g = Inr (out, g')" by simp
    then show ?thesis
      by (rule hc) auto
  qed (use run assms(1) in simp_all)
qed (use assms in \<open>simp add: parseUserMsg_def\<close>)

lemma game_step_ok:
  assumes "game_ok g" and "game_allowed e g" and "game_handle e g = Inr (out, g')"
  shows "game_ok g'"
proof (cases e)
  case (Ev_Add_User fresh p t a)
  with assms game_ok_addUser [OF assms(1), of fresh t a "gs_gate_id g p"] show ?thesis
    by (auto simp: parseAddUser_def)
next
  case (Ev_Need_Create flag)
  with assms game_ok_create [OF assms(1)] show ?thesis
    by (fastforce simp: parseNeedCreateHero_def parseDBQueryNeedCreateHero_def Let_def split: option.splits if_splits)
next
  case (Ev_Hero_Info m flag)
  with assms game_ok_create [OF assms(1)] show ?thesis
    by (fastforce simp: parseQueryHeroInfo_def praseDBQueryHeroInfo_def Let_def split: option.splits if_splits)
next
  case (Ev_Gate_Register v n p)
  with assms show ?thesis
    by (auto simp: parseGateRegister_def addGate_def game_ok_slots)
next
  case (Ev_Verify_Toy_Error err k flag)
  with assms show ?thesis
    by (auto simp: MsgVerifyToyError_def Let_def split: option.splits if_splits
        elim: game_ok_hero_call [OF assms(1)])
next
  case (Ev_Offline t)
  with assms game_ok_online [OF assms(1)] show ?thesis
    by (auto simp: quiet_def offlineUser_def Let_def split: if_splits)
next
  case (Ev_Gate_Closed p)
  with assms show ?thesis
    by (auto simp: quiet_def elim: game_ok_removeGate)
next
  case (Ev_Verify_Toy t a flag)
  with assms show ?thesis
    by (auto simp: parseMsgVerifyToy_def Let_def split: option.splits if_splits elim: game_ok_VerifyToy)
next
  case (Ev_User_Msg m flag)
  with assms show ?thesis by (auto elim: game_ok_user_msg)
next
  case (Ev_Check_Stop time)
  with assms show ?thesis by (auto simp: game_checkStop_def split: if_splits)
qed (use assms in \<open>auto simp: save_all_heroes_ok_def game_ok_removeUser\<close>)

lemma game_ok_new: "game_ok (new_game c)"
  by (simp add: game_ok_def heroes_ok_def users_ok_def links_ok_def new_game_def GetHero_def)

section \<open>The gate table\<close>

definition close_gate :: "u16 \<Rightarrow> ptr \<Rightarrow> game_state \<Rightarrow> game_state" where
  "close_gate n p g =
     (case removeGate p (g\<lparr>gs_gate_id := (gs_gate_id g)(p := n)\<rparr>) of Inr g' \<Rightarrow> g' | Inl e \<Rightarrow> g)"

lemma removeGate_eq:
  assumes "game_ok g"
  shows "removeGate p g = (let n = gs_gate_id g p in
    if p \<noteq> NULL \<and> slot_get (gs_gates g) n = p
    then Inr (drop_sessions (\<lambda>p s. ss_gate s = n) g
      \<lparr>gs_onlines := filter (\<lambda>(t, p). ss_gate (the (gs_sessions g p)) \<noteq> n) (gs_onlines g),
       gs_gates := slot_remove n p (gs_gates g)\<rparr>)
    else Inr g)"
  by (auto simp: removeGate_def Let_def removeUserByGate_eq [OF assms] slot_get_def)

lemma close_gate_gates:
  "game_ok g \<Longrightarrow> gs_gates (close_gate n p g) = slot_remove n p (gs_gates g)"
  by (auto simp: close_gate_def removeGate_eq Let_def slot_get_def slot_remove_def)

interpretation game_gates: peer_table game_ok "\<lambda>g. slot_get (gs_gates g)"
    "\<lambda>n p g. snd (parseGateRegister v n p g)" close_gate
proof
  fix g n p m
  assume ok: "game_ok g"
  show "game_ok (snd (parseGateRegister v n p g))"
    using ok by (simp add: parseGateRegister_def addGate_def game_ok_slots)
  show "game_ok (close_gate n p g)"
    using ok game_ok_removeGate [of "g\<lparr>gs_gate_id := (gs_gate_id g)(p := n)\<rparr>" p]
    by (auto simp: close_gate_def split: sum.split)
  show "slot_get (gs_gates (snd (parseGateRegister v n p g))) m =
      (if n = m \<and> valid_slot n \<and> p \<noteq> NULL then p else slot_get (gs_gates g) m)"
    using ok by (simp add: parseGateRegister_def addGate_def slot_get_add game_ok_slots)
  show "slot_get (gs_gates (close_gate n p g)) m =
      (if n = m \<and> slot_get (gs_gates g) m = p then NULL else slot_get (gs_gates g) m)"
    using ok by (simp add: close_gate_gates slot_get_remove game_ok_slots)
qed

section \<open>Properties\<close>

text \<open>C3: in every state the game server can reach, the online table and the live sessions agree, every
  session's hero is in memory and is the one of its account, and every hero is stored under its own
  account with its items and toys under their own keys.\<close>

theorem game_invariant: "game_reach c g \<Longrightarrow> game_ok g"
  by (induction rule: game_reach.induct) (auto intro: game_ok_new game_step_ok)

definition empty_config :: game_config where
  "empty_config = \<lparr>gc_hero_config = \<lparr>hc_gold = 0, hc_diamond = 0, hc_level = 0, hc_equips = [],
     hc_suits_name = []\<rparr>, gc_level_up = [], gc_generate_id = 0\<rparr>"

definition one_user :: game_state where
  "one_user = set_ss 1 \<lparr>ss_tranid = 7, ss_account = 9, ss_gate = 0, ss_online = True, ss_hero = None\<rparr>
     (new_game empty_config)\<lparr>gs_onlines := [(7, 1)]\<rparr>"

lemma one_user_reach: "game_reach empty_config one_user"
proof (rule game_reach.event [OF game_reach.start])
  show "game_handle (Ev_Add_User 1 5 7 9) (new_game empty_config)
      = Inr ([Db_Msg 7 (ReqHeroDataGS2DB 9)], one_user)"
    by (simp add: parseAddUser_def addUser_def getUser_def new_game_def ptr_map_getData_def
        create_session_def GetHero_def set_ss_def ptr_map_addData_def one_user_def)
qed (simp add: new_game_def)

theorem game_invariant_witness: "game_ok one_user"
  by (rule game_invariant [OF one_user_reach])

text \<open>The accounts in memory that hold the toy with key \<open>k\<close>.\<close>

definition has_toy :: "string \<Rightarrow> dream_hero option \<Rightarrow> bool" where
  "has_toy k o_h = (case o_h of None \<Rightarrow> False | Some h \<Rightarrow> om_find (h_toys h) k \<noteq> None)"

definition holders :: "string \<Rightarrow> game_state \<Rightarrow> u64 set" where
  "holders k g = {a. has_toy k (GetHero a g)}"

lemma GetHero_modify [simp]: "GetHero a (modifyToyAccount b k g) = GetHero a g"
  by (simp add: GetHero_def modifyToyAccount_def)

lemma has_toy_take:
  "c_str (toy_cd_key t) = toy_cd_key t \<Longrightarrow>
   has_toy j (Some (snd (take_toy t h))) \<longleftrightarrow> j = toy_cd_key t \<or> has_toy j (Some h)"
  by (auto simp: has_toy_def take_toy_def om_find_insert split: option.split)

lemma has_toy_remove:
  "c_str k = k \<Longrightarrow> has_toy j (map_option (RemoveToyByCDKey k) x) \<longleftrightarrow> j \<noteq> k \<and> has_toy j x"
  by (auto simp: has_toy_def RemoveToyByCDKey_def split: option.split)

text \<open>C6: when the database confirms a toy key, the toy moves: afterwards it is held by the hero that
  asked and by all earlier holders except the account the database named. So the toy has one holder
  exactly when the named account was the only other one; other toys stay where they are.\<close>

theorem VerifyToy_holders:
  assumes "VerifyToy t w a g = Inr (out, g')" and "c_str (toy_cd_key t) = toy_cd_key t"
  shows "holders (toy_cd_key t) g' = insert a (holders (toy_cd_key t) g - {w})
    \<and> (k \<noteq> toy_cd_key t \<longrightarrow> holders k g' = holders k g)"
proof -
  obtain h where h: "GetHero a g = Some h"
    using assms(1) by (auto simp: VerifyToy_def split: option.splits)
  define g1 where "g1 = (case GetHero w g of None \<Rightarrow> g
    | Some x \<Rightarrow> modifyToyAccount (h_account h) (c_str (toy_cd_key t))
                 (put_hero w (RemoveToyByCDKey (toy_cd_key t) x) g))"
  have g': "g' = put_hero a (snd (take_toy t (the (GetHero a g1)))) g1"
    using assms(1) h by (auto simp: VerifyToy_def Let_def case_prod_unfold g1_def)
  have g1: "GetHero b g1 = (if b = w then map_option (RemoveToyByCDKey (toy_cd_key t)) (GetHero b g)
      else GetHero b g)" for b
    by (simp add: g1_def split: option.split)
  then obtain h1 where h1: "GetHero a g1 = Some h1"
    using h by (cases "a = w") simp_all
  have "has_toy j (GetHero b g') \<longleftrightarrow> (b = a \<and> j = toy_cd_key t) \<or> has_toy j (GetHero b g1)" for b j
    using h1 has_toy_take [OF assms(2)] by (simp add: g')
  moreover have "has_toy j (GetHero b g1) \<longleftrightarrow>
      has_toy j (GetHero b g) \<and> \<not> (b = w \<and> j = toy_cd_key t)" for b j
    using has_toy_remove [OF assms(2)] by (auto simp: g1)
  ultimately show ?thesis by (auto simp: holders_def)
qed

definition sample_toy :: toy_data where
  "sample_toy = \<lparr>toy_cd_key = ''K'', toy_time_stamp = 0,
     toy_base = \<lparr>toy_config_id = 1, toy_config_type = 1, toy_level = 1\<rparr>\<rparr>"

definition toy_game :: game_state where
  "toy_game = (new_game empty_config)\<lparr>
     gs_heros := [(1, set_account 1 (new_hero\<lparr>h_session := 1\<rparr>)),
                  (2, set_account 2 (new_hero\<lparr>h_session := 2, h_toys := [(''K'', sample_toy)]\<rparr>))],
     gs_sessions := (\<lambda>_. None)(1 := Some \<lparr>ss_tranid = 7, ss_account = 1, ss_gate = 0,
       ss_online = True, ss_hero = Some 1\<rparr>)\<rparr>"

theorem VerifyToy_holders_witness:
  "\<exists>out g'. VerifyToy sample_toy 2 1 toy_game = Inr (out, g') \<and> holders ''K'' g' = {1}"
proof -
  have "\<exists>out g'. VerifyToy sample_toy 2 1 toy_game = Inr (out, g')"
    by (simp add: VerifyToy_def toy_game_def GetHero_def put_hero_def modifyToyAccount_def new_game_def
        take_toy_def send_client_def sample_toy_def set_account_def new_hero_def RemoveToyByCDKey_def
        c_str_def deliver_all_def session_sendPBMessage_def om_insert_def gate_send_def om_erase_def
        slot_get_def valid_slot_def Let_def)
  then obtain out g' where run: "VerifyToy sample_toy 2 1 toy_game = Inr (out, g')" by blast
  have "holders ''K'' toy_game = {2}"
    by (auto simp: holders_def has_toy_def toy_game_def GetHero_def new_game_def set_account_def
        new_hero_def split: if_splits)
  with VerifyToy_holders [OF run] show ?thesis
    using run by (simp add: sample_toy_def c_str_def)
qed

lemma all_results_Inr: "all_results rs = Inr xs \<longleftrightarrow> rs = map Inr xs"
  by (induction rs arbitrary: xs) auto

lemma SaveHero_cases:
  assumes "SaveHero time h = Inr es"
  obtains sql rest where "es = To_Db (h_session h) (SaveDataGS2DB sql) # rest"
  using assms by (auto simp: SaveHero_def send_db_def Let_def split: if_splits)

text \<open>when a player leaves, the session is released but its hero keeps pointing to it: the hero
  stays in memory with its save timer, and from then on saving that hero uses freed memory, and so
  does the saving of all heroes when the server stops.\<close>

theorem removed_session_dangles:
  assumes "game_ok g" and "om_find (gs_onlines g) t = Some p"
    and "GetHero a g = Some h" and "h_session h = p" and "SaveHero time h = Inr es"
  shows "GetHero a (removeUser t g) = Some h
    \<and> save_hero_event time h (removeUser t g) = Inl Use_After_Free
    \<and> (\<nexists>out. SaveDreamHeroes time (removeUser t g) = Inr out)"
proof -
  let ?g = "removeUser t g"
  obtain s where s: "gs_sessions g p = Some s" "ss_tranid s = t"
    using assms(1,2) users_iff by blast
  then have gone: "gs_sessions ?g p = None"
    by (simp add: removeUser_eq [OF assms(1)])
  obtain sql rest where es: "es = To_Db p (SaveDataGS2DB sql) # rest"
    using SaveHero_cases [OF assms(5)] assms(4) by metis
  have fault: "save_hero_event time h ?g = Inl Use_After_Free"
    using gone by (simp add: save_hero_event_def assms(5) es deliver_all_def)
  have same: "gs_heros ?g = gs_heros g"
    by (simp add: removeUser_eq [OF assms(1)])
  then have hero: "GetHero a ?g = Some h"
    using assms(3) by (simp add: GetHero_def)
  have "SaveDreamHeroes time ?g \<noteq> Inr out" for out
  proof
    assume "SaveDreamHeroes time ?g = Inr out"
    then obtain outs where "map (\<lambda>(a, h). save_hero_event time h ?g) (gs_heros ?g) = map Inr outs"
      by (auto simp: SaveDreamHeroes_def all_results_Inr)
    moreover have "(a, h) \<in> set (gs_heros ?g)"
      using hero by (simp add: GetHero_def map_of_SomeD)
    ultimately have "save_hero_event time h ?g \<in> set (map Inr outs)"
      by (metis (mono_tags, lifting) image_eqI case_prod_conv list.set_map)
    with fault show False by auto
  qed
  with fault hero show ?thesis by blast
qed

definition playing :: game_state where
  "playing = (new_game empty_config)\<lparr>gs_heros := [(9, set_account 9 (new_hero\<lparr>h_session := 1\<rparr>))],
     gs_onlines := [(7, 1)],
     gs_sessions := (\<lambda>_. None)(1 := Some \<lparr>ss_tranid = 7, ss_account = 9, ss_gate = 0,
       ss_online = True, ss_hero = Some 9\<rparr>)\<rparr>"

lemma playing_ok: "game_ok playing"
  by (auto simp: game_ok_def heroes_ok_def users_ok_def links_ok_def playing_def new_game_def
      GetHero_def hero_wf_def set_account_def new_hero_def split: if_splits)

theorem removed_session_dangles_witness:
  "\<nexists>out. SaveDreamHeroes (\<lambda>_. []) (removeUser 7 playing) = Inr out"
proof -
  have "\<exists>es. SaveHero (\<lambda>_. []) (set_account 9 (new_hero\<lparr>h_session := 1\<rparr>)) = Inr es"
    by (simp add: SaveHero_def set_account_def new_hero_def send_db_def character_sql_def
        sprintf_to_def c_str_def quoted_def show_u64_def show_i32_def show_int_def
        equip_statements_def toy_statements_def show_nat.simps)
  then obtain es where "SaveHero (\<lambda>_. []) (set_account 9 (new_hero\<lparr>h_session := 1\<rparr>)) = Inr es" by blast
  from removed_session_dangles [OF playing_ok _ _ _ this, of 7 1 9] show ?thesis
    by (simp add: playing_def GetHero_def set_account_def new_hero_def)
qed

text \<open>a player who goes offline, or whose toy key is refused, before the database has delivered the
  hero makes the server dereference the null hero pointer.\<close>

theorem offline_before_hero_faults:
  assumes "game_ok g" and "getUser t g = NULL" and "GetHero a g = None" and "p \<noteq> NULL"
    and "gs_sessions g p = None"
  shows "\<exists>g'. addUser p t a gate g = Inr (p, [Db_Msg t (ReqHeroDataGS2DB a)], g')
    \<and> offlineUser t g' = Inl Null_Deref \<and> MsgVerifyToyError e k t g' = Inl Null_Deref"
proof -
  let ?s = "\<lparr>ss_tranid = t, ss_account = a, ss_gate = gate, ss_online = True, ss_hero = None\<rparr>"
  let ?g = "set_ss p ?s g\<lparr>gs_onlines := om_set t p (gs_onlines g)\<rparr>"
  have "getUser t ?g = p"
    by (simp add: getUser_def ptr_map_getData_def)
  then have "addUser p t a gate g = Inr (p, [Db_Msg t (ReqHeroDataGS2DB a)], ?g)
    \<and> offlineUser t ?g = Inl Null_Deref \<and> MsgVerifyToyError e k t ?g = Inl Null_Deref"
    using assms game_ok_no_user [OF assms(1,2)]
    by (simp add: addUser_def create_session_def ptr_map_addData_none offlineUser_def setWaitReconnet_def
        MsgVerifyToyError_def Let_def)
  then show ?thesis by blast
qed

theorem offline_before_hero_faults_witness:
  "\<exists>g'. addUser 1 7 9 0 (new_game empty_config) = Inr (1, [Db_Msg 7 (ReqHeroDataGS2DB 9)], g')
    \<and> offlineUser 7 g' = Inl Null_Deref
    \<and> MsgVerifyToyError no_error ''K'' 7 g' = Inl Null_Deref"
  by (rule offline_before_hero_faults [OF game_ok_new])
     (simp_all add: new_game_def getUser_def ptr_map_getData_def GetHero_def)

text \<open>What a login sends to the client.\<close>

definition init_messages :: "dream_hero \<Rightarrow> s2c list" where
  "init_messages h = map EquipInit (equip_messages (map snd (h_equips h)))
     @ [ToyInit (map (\<lambda>e. toy_base (snd e)) (h_toys h)), HeroInit (h_info h)]"

lemma SendClientInit_eq:
  "h_session h \<noteq> NULL \<Longrightarrow> SendClientInit h =
     (map (To_Client (h_session h)) (init_messages h), h\<lparr>h_save_event := True, h_online := True\<rparr>)"
proof -
  assume "h_session h \<noteq> NULL"
  then have "concat (map (\<lambda>m. send_client (h\<lparr>h_save_event := b\<rparr>) (EquipInit m)) ms)
      = map (\<lambda>m. To_Client (h_session h) (EquipInit m)) ms" for b ms
    by (induction ms) (simp_all add: send_client_def)
  with \<open>h_session h \<noteq> NULL\<close> show ?thesis
    by (simp add: SendClientInit_def StartSave_def init_messages_def send_client_def comp_def)
qed

lemma deliver_all_to_gate:
  assumes "gs_sessions g p = Some s" and "ss_online s" and "slot_get (gs_gates g) (ss_gate s) = q"
    and "q \<noteq> NULL"
  shows "deliver_all g (map (To_Client p) ms) = Inr (map (Gate_Msg q (ss_tranid s)) ms)"
proof -
  have "map (deliver_effect g) (map (To_Client p) ms) = map (\<lambda>m. Inr [Gate_Msg q (ss_tranid s) m]) ms"
    using assms by (simp add: session_sendPBMessage_def gate_send_def)
  moreover have "all_results (map (\<lambda>m. Inr [Gate_Msg q (ss_tranid s) m]) ms)
      = Inr (map (\<lambda>m. [Gate_Msg q (ss_tranid s) m]) ms)"
    by (simp add: all_results_Inr)
  moreover have "concat (map (\<lambda>m. [Gate_Msg q (ss_tranid s) m]) ms) = map (Gate_Msg q (ss_tranid s)) ms"
    by (induction ms) simp_all
  ultimately show ?thesis
    unfolding deliver_all_def by (simp only: bind_result.simps)
qed

lemma addUser_new:
  assumes "game_ok g" and "getUser t g = NULL" and "GetHero a g = None" and "p \<noteq> NULL"
    and "gs_sessions g p = None"
  shows "addUser p t a gate g = Inr (p, [Db_Msg t (ReqHeroDataGS2DB a)],
    set_ss p \<lparr>ss_tranid = t, ss_account = a, ss_gate = gate, ss_online = True, ss_hero = None\<rparr> g
      \<lparr>gs_onlines := om_set t p (gs_onlines g)\<rparr>)"
  using assms game_ok_no_user [OF assms(1,2)]
  by (simp add: addUser_def create_session_def ptr_map_addData_none)

lemma need_create_new_hero:
  assumes "getUser t g = p" and "p \<noteq> NULL" and "gs_sessions g p = Some s"
    and "s = \<lparr>ss_tranid = t, ss_account = a, ss_gate = gate, ss_online = True, ss_hero = None\<rparr>"
    and "GetHero a g = None" and "slot_get (gs_gates g) gate = q" and "q \<noteq> NULL"
  shows "\<exists>g2 h. parseNeedCreateHero t g = Inr (map (Gate_Msg q t) (init_messages h), g2)
    \<and> GetHero a g2 = Some h
    \<and> h = (set_account a (set_session p (fst (LoadFromConfig (gs_config g) new_hero))))\<lparr>h_save_event := True, h_online := True\<rparr>"
proof -
  let ?new = "set_account a (set_session p (fst (LoadFromConfig (gs_config g) new_hero)))"
  let ?h = "?new\<lparr>h_save_event := True, h_online := True\<rparr>"
  let ?g = "set_ss p (s\<lparr>ss_hero := Some a\<rparr>) (g\<lparr>gs_config := snd (LoadFromConfig (gs_config g) new_hero)\<rparr>)"
  let ?g2 = "put_hero a ?h ?g"
  have "CreateHero_config a p g = put_hero a ?new (g\<lparr>gs_config := snd (LoadFromConfig (gs_config g) new_hero)\<rparr>)"
    by (simp add: CreateHero_config_def assms(5) case_prod_unfold Let_def)
  then have "parseNeedCreateHero t g = send_init a (put_hero a ?new ?g)"
    using assms by (simp add: parseNeedCreateHero_def parseDBQueryNeedCreateHero_def put_hero_set_ss)
  also have "\<dots> = Inr (map (Gate_Msg q t) (init_messages ?h), ?g2)"
  proof -
    have sess: "gs_sessions ?g2 p = Some (s\<lparr>ss_hero := Some a\<rparr>)" by simp
    have ses: "h_session ?new = p" by (simp add: set_account_def set_session_def)
    have msgs: "init_messages ?h = init_messages ?new" by (simp add: init_messages_def)
    have "deliver_all ?g2 (map (To_Client p) ms) = Inr (map (Gate_Msg q t) ms)" for ms
      using deliver_all_to_gate [OF sess, of q ms] assms(4,6,7) by simp
    then show ?thesis
      using assms(2) ses by (simp add: send_init_def SendClientInit_eq put_hero_put msgs del: deliver_all_put)
  qed
  finally show ?thesis by (intro exI [of _ ?g2] exI [of _ ?h]) simp
qed

text \<open>a first login works out: the session asks the database for the hero, and when the database
  knows none, a hero is created from the configuration, is online, belongs to the session, and its
  data goes to the gate under the player's transaction id, the hero itself last.\<close>

theorem first_login:
  assumes "game_ok g" and "getUser t g = NULL" and "GetHero a g = None" and "p \<noteq> NULL"
    and "gs_sessions g p = None" and "slot_get (gs_gates g) gate = q" and "q \<noteq> NULL"
  shows "\<exists>g1 g2 h. addUser p t a gate g = Inr (p, [Db_Msg t (ReqHeroDataGS2DB a)], g1)
    \<and> parseNeedCreateHero t g1 = Inr (map (Gate_Msg q t) (init_messages h), g2)
    \<and> GetHero a g2 = Some h \<and> h_online h \<and> h_session h = p \<and> h_save_event h
    \<and> h_equips h = h_equips (fst (LoadFromConfig (gs_config g) new_hero))"
proof -
  let ?s = "\<lparr>ss_tranid = t, ss_account = a, ss_gate = gate, ss_online = True, ss_hero = None\<rparr>"
  let ?g = "set_ss p ?s g\<lparr>gs_onlines := om_set t p (gs_onlines g)\<rparr>"
  have user: "getUser t ?g = p" "gs_sessions ?g p = Some ?s" "GetHero a ?g = None" "gs_config ?g = gs_config g"
    using assms(3) by (simp_all add: getUser_def ptr_map_getData_def GetHero_def set_ss_def)
  moreover have "slot_get (gs_gates ?g) gate = q" using assms(6) by simp
  ultimately show ?thesis
    using need_create_new_hero [OF user(1) assms(4) user(2) refl user(3) _ assms(7)] addUser_new [OF assms(1-5), of gate]
    by (auto simp: set_account_def set_session_def)
qed

theorem first_login_witness:
  "\<exists>g1 g2 h. addUser 3 7 9 5 (new_game empty_config\<lparr>gs_gates := no_slots[5 := 2]\<rparr>)
      = Inr (3, [Db_Msg 7 (ReqHeroDataGS2DB 9)], g1)
    \<and> parseNeedCreateHero 7 g1 = Inr (map (Gate_Msg 2 7) (init_messages h), g2) \<and> h_online h"
proof -
  let ?g = "new_game empty_config\<lparr>gs_gates := no_slots[5 := 2]\<rparr>"
  have "game_ok ?g"
    by (rule game_ok_gates(1) [OF game_ok_new]) (simp add: slots_ok_def no_slots_def)
  moreover have "getUser 7 ?g = NULL" "GetHero 9 ?g = None" "gs_sessions ?g 3 = None"
      "slot_get (gs_gates ?g) 5 = 2"
    by (simp_all add: new_game_def getUser_def ptr_map_getData_def GetHero_def slot_get_def
        valid_slot_def MAX_GATE_ID_def no_slots_def)
  ultimately show ?thesis
    using first_login [of ?g 7 9 3 5 2] by auto
qed

text \<open>when a gate connection closes and the table still holds it, exactly the players behind that
  gate lose their sessions and the slot becomes free; when the gate has meanwhile registered again
  over a new connection, nothing changes.\<close>

theorem gate_close_spec:
  assumes "game_ok g" and "gs_gate_id g p = n" and "p \<noteq> NULL"
  shows "\<exists>g'. removeGate p g = Inr g'
    \<and> (if slot_get (gs_gates g) n = p
       then slot_get (gs_gates g') n = NULL
         \<and> (\<forall>q. gs_sessions g' q = (case gs_sessions g q of
              Some s \<Rightarrow> if ss_gate s = n then None else Some s | None \<Rightarrow> None))
         \<and> (\<forall>t. getUser t g' = (if getUser t g = NULL then NULL
              else if gs_sessions g' (getUser t g) = None then NULL else getUser t g))
         \<and> gs_heros g' = gs_heros g
       else g' = g)"
proof (cases "slot_get (gs_gates g) n = p")
  case False
  then show ?thesis
    using assms by (simp add: removeGate_eq)
next
  case True
  let ?m = "filter (\<lambda>(t, p). ss_gate (the (gs_sessions g p)) \<noteq> n) (gs_onlines g)"
  let ?g = "drop_sessions (\<lambda>p s. ss_gate s = n) g\<lparr>gs_onlines := ?m, gs_gates := slot_remove n p (gs_gates g)\<rparr>"
  have run: "removeGate p g = Inr ?g"
    using True assms by (simp add: removeGate_eq)
  have ok: "game_ok ?g"
    by (rule game_ok_removeGate [OF assms(1) run])
  have find: "om_find ?m t = Some q \<longleftrightarrow> om_find (gs_onlines g) t = Some q \<and> gs_sessions ?g q \<noteq> None" for t q
    using users_iff [OF ok, of t q] users_iff [OF assms(1), of t q] by (auto split: option.splits if_splits)
  have "getUser t ?g = (if getUser t g = NULL then NULL
      else if gs_sessions ?g (getUser t g) = None then NULL else getUser t g)" for t
  proof (cases "om_find ?m t")
    case None
    with find [of t] show ?thesis
      by (cases "om_find (gs_onlines g) t") (simp_all add: getUser_def ptr_map_getData_def)
  next
    case (Some q)
    with find [of t q] show ?thesis
      by (auto simp: getUser_def ptr_map_getData_def)
  qed
  moreover have "slot_get (gs_gates ?g) n = NULL"
    using True assms(1) by (simp add: slot_get_remove game_ok_slots)
  ultimately show ?thesis
    using run True by (intro exI [of _ ?g]) simp
qed

theorem gate_close_spec_witness:
  "\<exists>g'. removeGate 2 (playing\<lparr>gs_gates := no_slots[5 := 3], gs_gate_id := (\<lambda>_. 5)\<rparr>) = Inr g'
    \<and> g' = playing\<lparr>gs_gates := no_slots[5 := 3], gs_gate_id := (\<lambda>_. 5)\<rparr>"
proof -
  let ?g = "playing\<lparr>gs_gates := no_slots[5 := 3], gs_gate_id := (\<lambda>_. 5)\<rparr>"
  have "game_ok (playing\<lparr>gs_gates := no_slots[5 := 3]\<rparr>)"
    by (rule game_ok_gates(1) [OF playing_ok]) (simp add: slots_ok_def no_slots_def)
  then have "game_ok ?g" by simp
  moreover have "slot_get (gs_gates ?g) 5 = 3"
    by (simp add: slot_get_def valid_slot_def MAX_GATE_ID_def no_slots_def)
  ultimately show ?thesis
    using gate_close_spec [of ?g 2 5] by simp
qed

end
