(* ===== verification/Gate.thy ===== *)
theory Gate
  imports Containers Slot_Table
begin

text \<open>
  The gate server: \<^verbatim>\<open>gateserver/user_manager.cpp\<close> (who is expected, online, or may
  reconnect), \<^verbatim>\<open>gateserver/user_session.cpp\<close> (one client connection),
  \<^verbatim>\<open>gateserver/game_manager.cpp\<close> and \<^verbatim>\<open>gateserver/game_client.cpp\<close> (connections to the
  game servers) and the handlers of \<^verbatim>\<open>gateserver/login_client.cpp\<close>. Connection objects come
  from pools and are never freed, so reading one is always possible; client messages that only
  pass through are values of a type parameter.
\<close>

section \<open>State\<close>

datatype user_status = Disable | Wait_Account | Connected | Wait_Close

text \<open>\<open>us_close\<close>: the time left of the pending close event, if there is one.\<close>

record user_session =
  us_tranid :: u32
  us_gs_id :: u16
  us_state :: user_status
  us_close :: "u32 option"

record game_client =
  gm_game_id :: u8
  gm_onlines :: u32

text \<open>The two kinds of timers of the user manager, each with the transaction id it was started for.
  A started timer is never taken back.\<close>

datatype gate_timer =
    Remove_Wait_Connect u32
  | Remove_Reconnect u32

record gate_state =
  gt_onlines :: "u32 ptr_map"
  gt_onlineaccs :: "(u64, u32) omap"
  gt_wait :: "(u32, u64) omap"
  gt_recon :: "(u32, u16) omap"
  gt_timers :: "gate_timer list"
  gt_users :: "ptr \<Rightarrow> user_session"
  gt_active :: slots
  gt_clients :: "ptr \<Rightarrow> game_client"
  gt_games :: "ptr set"
  gt_idle_max :: u32
  gt_tell_login :: bool

datatype 'm gate_out =
    Add_User_GT2GS ptr u32 u64
  | Remove_User_GT2GS ptr u32
  | Offline_User_GT2GS ptr u32
  | To_Game_Server ptr u32 'm
  | To_User_Client ptr u32 'm
  | Prepar_GT2LN u64
  | Onlines_GT2LN u32
  | Close_User ptr
  | Close_Game ptr

definition new_user_session :: user_session where
  "new_user_session = \<lparr>us_tranid = 0, us_gs_id = 0, us_state = Disable, us_close = None\<rparr>"

definition new_gate :: "u32 \<Rightarrow> gate_state" where
  "new_gate idle = \<lparr>gt_onlines = [], gt_onlineaccs = [], gt_wait = [], gt_recon = [], gt_timers = [],
     gt_users = (\<lambda>_. new_user_session), gt_active = no_slots,
     gt_clients = (\<lambda>_. \<lparr>gm_game_id = 0, gm_onlines = 0\<rparr>), gt_games = {}, gt_idle_max = idle,
     gt_tell_login = False\<rparr>"

section \<open>GameManager\<close>

definition getGameClient :: "gate_state \<Rightarrow> u16 \<Rightarrow> ptr" where
  "getGameClient g gs = slot_get (gt_active g) gs"

text \<open>The loop of \<open>getIdleGameClient\<close>: it starts with the first active server, stops at one below the
  idle limit, and otherwise goes on to the next one with fewer players.\<close>

fun idle_loop :: "(ptr \<Rightarrow> u32) \<Rightarrow> u32 \<Rightarrow> ptr list \<Rightarrow> ptr \<Rightarrow> ptr" where
  "idle_loop onl lim [] best = best"
| "idle_loop onl lim (p # ps) best =
     (if p = NULL then idle_loop onl lim ps best
      else if best = NULL \<or> onl p < onl best
      then (if onl p < lim then p else idle_loop onl lim ps p)
      else idle_loop onl lim ps best)"

definition getIdleGameClient :: "gate_state \<Rightarrow> ptr" where
  "getIdleGameClient g =
     idle_loop (\<lambda>p. gm_onlines (gt_clients g p)) (gt_idle_max g) (gt_active g) NULL"

definition isGamesStop :: "gate_state \<Rightarrow> bool" where
  "isGamesStop g = list_all (\<lambda>p. p = NULL) (gt_active g)"

definition addActiveGameClient :: "ptr \<Rightarrow> u32 \<Rightarrow> gate_state \<Rightarrow> gate_state" where
  "addActiveGameClient p n g =
     (if p \<noteq> NULL \<and> 0 < n \<and> n < 0xff then g\<lparr>gt_active := (gt_active g)[unat n := p]\<rparr> else g)"

definition addClientByConfig :: "ptr \<Rightarrow> gate_state \<Rightarrow> gate_state" where
  "addClientByConfig p g = g\<lparr>gt_games := insert p (gt_games g)\<rparr>"

text \<open>\<open>shutDown\<close>, and the destructor: the order in which the set is walked does not matter here.\<close>

definition gate_shutDown :: "gate_state \<Rightarrow> ptr set \<times> gate_state" where
  "gate_shutDown g = (gt_games g, g\<lparr>gt_active := no_slots, gt_games := {}\<rparr>)"

section \<open>UserSession\<close>

definition set_user :: "ptr \<Rightarrow> user_session \<Rightarrow> gate_state \<Rightarrow> gate_state" where
  "set_user p u g = g\<lparr>gt_users := (gt_users g)(p := u)\<rparr>"

text \<open>\<open>setState\<close> with the times of its close events in milliseconds.\<close>

definition setState :: "user_status \<Rightarrow> user_session \<Rightarrow> user_session" where
  "setState s u =
     (case s of
        Disable \<Rightarrow> u\<lparr>us_state := Disable, us_tranid := 0, us_gs_id := 0, us_close := None\<rparr>
      | Wait_Account \<Rightarrow> u\<lparr>us_state := Wait_Account, us_close := Some 20000\<rparr>
      | Connected \<Rightarrow> u\<lparr>us_state := Connected, us_close := None\<rparr>
      | Wait_Close \<Rightarrow> u\<lparr>us_state := Wait_Close, us_close := Some 1000\<rparr>)"

definition us_on_accept :: "ptr \<Rightarrow> gate_state \<Rightarrow> gate_state" where
  "us_on_accept p g = set_user p (setState Wait_Account (gt_users g p)) g"

definition us_reset :: "ptr \<Rightarrow> gate_state \<Rightarrow> gate_state" where
  "us_reset p g =
     set_user p ((gt_users g p)\<lparr>us_tranid := 0, us_state := Disable, us_gs_id := 0\<rparr>) g"

definition us_parseExitGame :: "ptr \<Rightarrow> gate_state \<Rightarrow> gate_state" where
  "us_parseExitGame p g = set_user p (setState Wait_Close (gt_users g p)) g"

text \<open>A message of the client goes to its game server under the session's transaction id.\<close>

definition us_parseGameMsg :: "'m \<Rightarrow> ptr \<Rightarrow> gate_state \<Rightarrow> 'm gate_out list" where
  "us_parseGameMsg m p g =
     (let c = getGameClient g (us_gs_id (gt_users g p))
      in if c \<noteq> NULL then [To_Game_Server c (us_tranid (gt_users g p)) m] else [])"
section \<open>UserManager\<close>

text \<open>\<open>eraseValue\<close> of the two builds: the one without \<^verbatim>\<open>WIN32\<close> has undefined behaviour as soon
  as it erases an entry.\<close>

definition eraseValue ::
    "bool \<Rightarrow> 'v \<Rightarrow> ('k::linorder, 'v) omap \<Rightarrow> (('k, 'v) omap) result" where
  "eraseValue win32 v m =
     (if win32 then Inr (obj_map_eraseValue v m) else obj_map_eraseValue_posix v m)"

definition removePlayer :: "u32 \<Rightarrow> ptr \<Rightarrow> 'm gate_out list" where
  "removePlayer t c = (if c \<noteq> NULL then [Remove_User_GT2GS c t] else [])"

definition kickUser :: "u32 \<Rightarrow> u64 \<Rightarrow> gate_state \<Rightarrow> 'm gate_out list \<times> gate_state" where
  "kickUser t a g =
     (let p = ptr_map_getData (gt_onlines g) t
      in if p \<noteq> NULL
         then (removePlayer t (getGameClient g (us_gs_id (gt_users g p))) @ [Close_User p],
               g\<lparr>gt_onlines := snd (ptr_map_eraseData t (gt_onlines g)),
                 gt_onlineaccs := snd (obj_map_eraseData a (gt_onlineaccs g))\<rparr>)
         else
           let (_, v, w) = obj_map_takeData t 0 (gt_wait g);
               accs = (if v \<noteq> 0 then snd (obj_map_eraseData v (gt_onlineaccs g)) else gt_onlineaccs g);
               (found, gs, rec) = obj_map_takeData t 0 (gt_recon g)
           in (if found then removePlayer t (getGameClient g gs) else [],
               g\<lparr>gt_wait := w, gt_onlineaccs := accs, gt_recon := rec\<rparr>))"

definition addToWait :: "u32 \<Rightarrow> u64 \<Rightarrow> gate_state \<Rightarrow> 'm gate_out list \<times> gate_state" where
  "addToWait t a g =
     (let (out, g) = (if ptr_map_getData (gt_onlines g) t \<noteq> NULL then kickUser t a g else ([], g))
      in (out @ [Prepar_GT2LN (ucast t)],
          g\<lparr>gt_wait := snd (obj_map_addData t a (gt_wait g)),
            gt_timers := gt_timers g @ [Remove_Wait_Connect t]\<rparr>))"

definition eventCallRemoveWait :: "u32 \<Rightarrow> gate_state \<Rightarrow> gate_state" where
  "eventCallRemoveWait t g = g\<lparr>gt_wait := snd (snd (obj_map_takeData t 0 (gt_wait g)))\<rparr>"

text \<open>\<open>removeUsers\<close> walks over a copy of the online map: the sessions of the game server are told to
  close, and only the reconnect map changes.\<close>

fun remove_users_loop ::
    "bool \<Rightarrow> u16 \<Rightarrow> (u32, ptr) omap \<Rightarrow> gate_state \<Rightarrow> gate_state result" where
  "remove_users_loop win32 gs [] g = Inr g"
| "remove_users_loop win32 gs ((t, p) # m) g =
     (if p \<noteq> NULL \<and> us_gs_id (gt_users g p) = gs
      then (let g = set_user p (setState Wait_Close (gt_users g p)) g
            in if win32 then remove_users_loop win32 gs m g else Inl Bad_Iterator)
      else remove_users_loop win32 gs m g)"

definition removeUsers :: "bool \<Rightarrow> u16 \<Rightarrow> gate_state \<Rightarrow> gate_state result" where
  "removeUsers win32 gs g =
     bind_result (remove_users_loop win32 gs (gt_onlines g) g) (\<lambda>g.
     bind_result (eraseValue win32 gs (gt_recon g)) (\<lambda>m. Inr (g\<lparr>gt_recon := m\<rparr>)))"

definition getAccount :: "u32 \<Rightarrow> gate_state \<Rightarrow> u64" where
  "getAccount t g = snd (obj_map_getKey (gt_onlineaccs g) 0 t)"

definition enableGateEvent :: "gate_state \<Rightarrow> gate_state" where
  "enableGateEvent g = g\<lparr>gt_tell_login := True\<rparr>"

definition getUserSession :: "u32 \<Rightarrow> gate_state \<Rightarrow> ptr" where
  "getUserSession t g = ptr_map_getData (gt_onlines g) t"

definition evevntCall :: "gate_state \<Rightarrow> 'm gate_out list" where
  "evevntCall g = [Onlines_GT2LN (word_of_nat (obj_map_getSize (gt_onlineaccs g)))]"

definition makeRegisterData :: "gate_state \<Rightarrow> (u64 \<times> u32) list" where
  "makeRegisterData g = gt_onlineaccs g"

text \<open>\<open>checkClose\<close>, called when a client connection has closed.\<close>

definition checkClose :: "bool \<Rightarrow> ptr \<Rightarrow> gate_state \<Rightarrow> ('m gate_out list \<times> gate_state) result" where
  "checkClose win32 p g =
     (let u = gt_users g p; t = us_tranid u; gsid = us_gs_id u;
          g = g\<lparr>gt_onlines := snd (ptr_map_eraseData t (gt_onlines g))\<rparr>;
          c = getGameClient g gsid
      in bind_result
           (if c \<noteq> NULL \<and> us_state u = Connected
            then Inr ([Offline_User_GT2GS c t], g\<lparr>gt_recon := snd (obj_map_addData t gsid (gt_recon g))\<rparr>)
            else bind_result (eraseValue win32 t (gt_onlineaccs g)) (\<lambda>m.
                 Inr (removePlayer t c, g\<lparr>gt_onlineaccs := m\<rparr>)))
           (\<lambda>(out, g). Inr (out, g\<lparr>gt_timers := gt_timers g @ [Remove_Reconnect t]\<rparr>)))"

definition eventCallRemoveReconn ::
    "bool \<Rightarrow> u32 \<Rightarrow> gate_state \<Rightarrow> ('m gate_out list \<times> gate_state) result" where
  "eventCallRemoveReconn win32 t g =
     (let (_, gsid, rec) = obj_map_takeData t 0 (gt_recon g); g = g\<lparr>gt_recon := rec\<rparr>
      in bind_result (eraseValue win32 t (gt_onlineaccs g)) (\<lambda>m.
           let g = g\<lparr>gt_onlineaccs := m\<rparr>
           in Inr (if gsid \<noteq> 0 then removePlayer t (getGameClient g gsid) else [], g)))"

text \<open>\<open>checkConn\<close> decides what a client that presents the transaction id \<open>t\<close> may do.\<close>

definition checkConn :: "u32 \<Rightarrow> ptr \<Rightarrow> gate_state \<Rightarrow> bool \<times> 'm gate_out list \<times> gate_state" where
  "checkConn t p g =
     (if obj_map_hasData (gt_wait g) t
      then (let (_, v, w) = obj_map_takeData t 0 (gt_wait g); g = g\<lparr>gt_wait := w\<rparr>;
                c = getIdleGameClient g
            in if c = NULL
               then (False, [], set_user p (setState Wait_Close (gt_users g p)) g)
               else (True, [Add_User_GT2GS c t v],
                     (set_user p (setState Connected
                        ((gt_users g p)\<lparr>us_gs_id := ucast (gm_game_id (gt_clients g c))\<rparr>)) g)
                     \<lparr>gt_onlines := snd (ptr_map_addData t p (gt_onlines g)),
                      gt_onlineaccs := snd (obj_map_addData v t (gt_onlineaccs g))\<rparr>))
      else (case om_find (gt_recon g) t of
              Some gs \<Rightarrow>
                (True, [],
                 (set_user p (setState Connected ((gt_users g p)\<lparr>us_gs_id := gs\<rparr>)) g)
                 \<lparr>gt_recon := snd (obj_map_eraseData t (gt_recon g)),
                  gt_onlines := snd (ptr_map_addData t p (gt_onlines g))\<rparr>)
            | None \<Rightarrow> (False, [], set_user p (setState Wait_Close (gt_users g p)) g)))"

definition us_parseLoginGame :: "u32 \<Rightarrow> ptr \<Rightarrow> gate_state \<Rightarrow> 'm gate_out list \<times> gate_state" where
  "us_parseLoginGame user_account p g =
     (if us_state (gt_users g p) = Connected then ([], g)
      else let t = user_account; (ok, out, g) = checkConn t p g
           in (out, if ok then set_user p ((gt_users g p)\<lparr>us_tranid := t\<rparr>) g else g))"

definition us_on_close :: "bool \<Rightarrow> ptr \<Rightarrow> gate_state \<Rightarrow> ('m gate_out list \<times> gate_state) result" where
  "us_on_close win32 p g =
     bind_result (checkClose win32 p g) (\<lambda>(out, g).
     Inr (out, set_user p (setState Disable (gt_users g p)) g))"

definition fire_timer :: "bool \<Rightarrow> gate_timer \<Rightarrow> gate_state \<Rightarrow> ('m gate_out list \<times> gate_state) result" where
  "fire_timer win32 e g =
     (let g = g\<lparr>gt_timers := remove1 e (gt_timers g)\<rparr>
      in case e of
           Remove_Wait_Connect t \<Rightarrow> Inr ([], eventCallRemoveWait t g)
         | Remove_Reconnect t \<Rightarrow> eventCallRemoveReconn win32 t g)"

section \<open>GateGameClient and GateLoginClient\<close>

definition gg_parseGameMsg :: "'m \<Rightarrow> u32 \<Rightarrow> gate_state \<Rightarrow> 'm gate_out list" where
  "gg_parseGameMsg m flag g =
     (let p = getUserSession flag g in if p \<noteq> NULL then [To_User_Client p flag m] else [])"

text \<open>\<open>old\<close> is the connection to the game server that asks for the change.\<close>

definition gg_parseChangeGS :: "ptr \<Rightarrow> u16 \<Rightarrow> u32 \<Rightarrow> gate_state \<Rightarrow> 'm gate_out list \<times> gate_state" where
  "gg_parseChangeGS old gs flag g =
     (let p = getUserSession flag g
      in if p = NULL then ([], g)
         else let c = getGameClient g gs
              in if c = NULL then ([Close_User p], g)
                 else let t = us_tranid (gt_users g p); a = getAccount t g
                      in if a \<noteq> 0
                         then ([Remove_User_GT2GS old t, Add_User_GT2GS c t a],
                               set_user p ((gt_users g p)\<lparr>us_gs_id := gs\<rparr>) g)
                         else ([Remove_User_GT2GS old t, Close_User p], g))"

definition gg_parseGameRegister :: "u32 \<Rightarrow> ptr \<Rightarrow> gate_state \<Rightarrow> gate_state" where
  "gg_parseGameRegister serverid c g =
     (let g = g\<lparr>gt_clients := (gt_clients g)(c := (gt_clients g c)\<lparr>gm_game_id := ucast serverid\<rparr>)\<rparr>
      in addActiveGameClient c (ucast (gm_game_id (gt_clients g c))) g)"

definition gg_parseGameOnlines :: "u32 \<Rightarrow> ptr \<Rightarrow> gate_state \<Rightarrow> gate_state" where
  "gg_parseGameOnlines n c g =
     g\<lparr>gt_clients := (gt_clients g)(c := (gt_clients g c)\<lparr>gm_onlines := n\<rparr>)\<rparr>"

definition removeActiveGameClient :: "bool \<Rightarrow> ptr \<Rightarrow> gate_state \<Rightarrow> gate_state result" where
  "removeActiveGameClient win32 c g =
     (let n = gm_game_id (gt_clients g c)
      in if c \<noteq> NULL \<and> 0 < n \<and> n < 0xff \<and> gt_active g ! unat n = c
         then bind_result (removeUsers win32 (ucast n) g) (\<lambda>g.
              Inr (g\<lparr>gt_active := (gt_active g)[unat n := NULL]\<rparr>))
         else Inr g)"

definition gl_parseLoginUser :: "u32 \<Rightarrow> u64 \<Rightarrow> gate_state \<Rightarrow> 'm gate_out list \<times> gate_state" where
  "gl_parseLoginUser t a g = addToWait t a g"

definition gl_parseLoginKick :: "u32 \<Rightarrow> u64 \<Rightarrow> gate_state \<Rightarrow> 'm gate_out list \<times> gate_state" where
  "gl_parseLoginKick t a g = kickUser t a g"

text \<open>On connecting to the login server the gate announces the players it has.\<close>

definition gl_on_connect :: "gate_state \<Rightarrow> (u64 \<times> u32) list \<times> gate_state" where
  "gl_on_connect g = (makeRegisterData g, enableGateEvent g)"

section \<open>Choosing a game server\<close>

lemma idle_loop_spec:
  assumes "b = NULL \<or> \<not> onl b < lim"
  shows "idle_loop onl lim ps b = NULL \<longleftrightarrow> b = NULL \<and> (\<forall>p \<in> set ps. p = NULL)"
    and "idle_loop onl lim ps b \<noteq> NULL \<Longrightarrow> idle_loop onl lim ps b \<in> insert b (set ps)
      \<and> (onl (idle_loop onl lim ps b) < lim
         \<or> (\<forall>p \<in> insert b (set ps). p \<noteq> NULL \<longrightarrow> onl (idle_loop onl lim ps b) \<le> onl p))"
  using assms
proof (induction ps arbitrary: b)
  case (Cons p ps)
  {
    case 1
    then show ?case using Cons.IH(1) by auto
  next
    case 2
    have step: "idle_loop onl lim (p # ps) b =
      (if p \<noteq> NULL \<and> (b = NULL \<or> onl p < onl b)
       then (if onl p < lim then p else idle_loop onl lim ps p) else idle_loop onl lim ps b)"
      by simp
    show ?case
    proof (cases "p \<noteq> NULL \<and> (b = NULL \<or> onl p < onl b)")
      case True
      then show ?thesis
        using 2 Cons.IH(2) [of p] unfolding step by (cases "onl p < lim") (auto intro: order_trans less_imp_le)
    next
      case False
      then have "p \<noteq> NULL \<Longrightarrow> b \<noteq> NULL \<and> onl b \<le> onl p" by auto
      with False show ?thesis
        using 2 Cons.IH(2) [of b] unfolding step by (auto intro: order_trans)
    qed
  }
qed auto

section \<open>The events of the gate\<close>

datatype gate_event =
    Login_User u32 u64
  | Login_Kick u32 u64
  | Accept ptr
  | Login_Game u32 ptr
  | Client_Closed ptr
  | Timer gate_timer
  | Change_GS ptr u16 u32
  | Game_Register u32 ptr
  | Game_Onlines u32 ptr
  | Game_Closed ptr

fun gate_handle ::
    "bool \<Rightarrow> gate_event \<Rightarrow> gate_state \<Rightarrow> ('m gate_out list \<times> gate_state) result" where
  "gate_handle w (Login_User t a) g = Inr (gl_parseLoginUser t a g)"
| "gate_handle w (Login_Kick t a) g = Inr (gl_parseLoginKick t a g)"
| "gate_handle w (Accept p) g = Inr ([], us_on_accept p g)"
| "gate_handle w (Login_Game a p) g = Inr (us_parseLoginGame a p g)"
| "gate_handle w (Client_Closed p) g = us_on_close w p g"
| "gate_handle w (Timer e) g = fire_timer w e g"
| "gate_handle w (Change_GS old gs flag) g = Inr (gg_parseChangeGS old gs flag g)"
| "gate_handle w (Game_Register n c) g = Inr ([], gg_parseGameRegister n c g)"
| "gate_handle w (Game_Onlines n c) g = Inr ([], gg_parseGameOnlines n c g)"
| "gate_handle w (Game_Closed c) g = bind_result (removeActiveGameClient w c g) (\<lambda>g. Inr ([], g))"

text \<open>
  A connection object is accepted when it is out of use, and only started timers fire. The last
  condition of \<open>Login_Game\<close> is \<^emph>\<open>not\<close> tested by the code: a client that is online does not log in
  again while it is being closed (\<open>relogin_kicks_stranger\<close> below shows what happens otherwise). The
  handler \<open>us_parseExitGame\<close> is not registered for any message, so it is no event.
\<close>

fun gate_allowed :: "gate_event \<Rightarrow> gate_state \<Rightarrow> bool" where
  "gate_allowed (Accept p) g \<longleftrightarrow> p \<noteq> NULL \<and> us_state (gt_users g p) = Disable"
| "gate_allowed (Timer e) g \<longleftrightarrow> e \<in> set (gt_timers g)"
| "gate_allowed (Client_Closed p) g \<longleftrightarrow> p \<noteq> NULL \<and> us_state (gt_users g p) \<noteq> Disable"
| "gate_allowed (Login_Game a p) g \<longleftrightarrow> p \<noteq> NULL \<and> us_state (gt_users g p) \<noteq> Disable
     \<and> (us_state (gt_users g p) = Wait_Close \<longrightarrow> p \<notin> snd ` set (gt_onlines g))"
| "gate_allowed _ g \<longleftrightarrow> True"

inductive gate_reach :: "bool \<Rightarrow> u32 \<Rightarrow> gate_state \<Rightarrow> bool" for w idle where
  start: "gate_reach w idle (new_gate idle)"
| event: "gate_reach w idle g \<Longrightarrow> gate_allowed e g \<Longrightarrow>
    gate_handle w e g = Inr (out :: unit gate_out list, g') \<Longrightarrow> gate_reach w idle g'"

text \<open>A transaction id that is online belongs to a connection in use that is logged in under it.\<close>

definition gate_ok :: "gate_state \<Rightarrow> bool" where
  "gate_ok g \<longleftrightarrow> (\<forall>t p. om_find (gt_onlines g) t = Some p \<longrightarrow>
     p \<noteq> NULL \<and> us_tranid (gt_users g p) = t \<and> us_state (gt_users g p) \<in> {Connected, Wait_Close})"

lemma gate_okD:
  "gate_ok g \<Longrightarrow> om_find (gt_onlines g) t = Some p \<Longrightarrow>
   p \<noteq> NULL \<and> us_tranid (gt_users g p) = t \<and> us_state (gt_users g p) \<in> {Connected, Wait_Close}"
  by (simp add: gate_ok_def)

lemma gate_ok_same [intro]:
  "gate_ok g \<Longrightarrow> gt_users g' = gt_users g \<Longrightarrow> om_find (gt_onlines g') \<subseteq>\<^sub>m om_find (gt_onlines g) \<Longrightarrow> gate_ok g'"
  by (auto simp: gate_ok_def map_le_def dom_def) (metis option.distinct(1) option.inject)+

lemma gate_ok_frame [simp]:
  "gate_ok (g\<lparr>gt_onlineaccs := a\<rparr>) = gate_ok g" "gate_ok (g\<lparr>gt_wait := b\<rparr>) = gate_ok g"
  "gate_ok (g\<lparr>gt_recon := c\<rparr>) = gate_ok g" "gate_ok (g\<lparr>gt_timers := d\<rparr>) = gate_ok g"
  "gate_ok (g\<lparr>gt_active := e\<rparr>) = gate_ok g" "gate_ok (g\<lparr>gt_clients := f\<rparr>) = gate_ok g"
  by (simp_all add: gate_ok_def)

lemma ptr_map_eraseData_find [simp]:
  "om_find (snd (ptr_map_eraseData k m)) = (om_find m)(k := None)"
  by (auto simp: ptr_map_eraseData_def fun_eq_iff split: option.split)

lemma kickUser_users [simp]: "gt_users (snd (kickUser t a g)) = gt_users g"
  by (simp add: kickUser_def Let_def case_prod_unfold)

lemma kickUser_onlines:
  "om_find (gt_onlines (snd (kickUser t a g))) =
     (if ptr_map_getData (gt_onlines g) t \<noteq> NULL
      then (om_find (gt_onlines g))(t := None) else om_find (gt_onlines g))"
  by (simp add: kickUser_def Let_def case_prod_unfold fun_upd_def)

lemma kickUser_onlines_le:
  "om_find (gt_onlines (snd (kickUser t a g))) \<subseteq>\<^sub>m om_find (gt_onlines g)"
  by (auto simp: kickUser_onlines map_le_def split: if_splits)

lemma gate_ok_kick [invs]: "gate_ok g \<Longrightarrow> gate_ok (snd (kickUser t a g))"
  by (erule gate_ok_same [OF _ kickUser_users kickUser_onlines_le])

lemma gate_ok_addToWait [invs]: "gate_ok g \<Longrightarrow> gate_ok (snd (addToWait t a g))"
  using gate_ok_kick [of g t a]
  by (auto simp: addToWait_def Let_def case_prod_unfold gate_ok_def)

lemma setState_simps [simp]:
  "us_state (setState s u) = s" "s \<noteq> Disable \<Longrightarrow> us_tranid (setState s u) = us_tranid u"
  "s \<noteq> Disable \<Longrightarrow> us_gs_id (setState s u) = us_gs_id u"
  by (cases s; simp add: setState_def)+

lemma gate_ok_set_user:
  assumes "gate_ok g" and "us_tranid u = us_tranid (gt_users g p)"
    and "us_state u \<in> {Connected, Wait_Close} \<or> us_state (gt_users g p) \<notin> {Connected, Wait_Close}"
  shows "gate_ok (set_user p u g)"
  using assms unfolding gate_ok_def set_user_def by auto

lemma remove_users_loop_frame:
  "remove_users_loop w gs m g = Inr g' \<Longrightarrow> gt_onlines g' = gt_onlines g \<and> gt_recon g' = gt_recon g
     \<and> gt_active g' = gt_active g"
  by (induction w gs m g rule: remove_users_loop.induct) (auto simp: set_user_def Let_def split: if_splits)

lemma gate_ok_remove_loop:
  "gate_ok g \<Longrightarrow> remove_users_loop w gs m g = Inr g' \<Longrightarrow> gate_ok g'"
proof (induction w gs m g rule: remove_users_loop.induct)
  case (2 w gs t p m g)
  have "gate_ok (set_user p (setState Wait_Close (gt_users g p)) g)"
    by (rule gate_ok_set_user [OF 2(3)]) simp_all
  with 2 show ?case by (auto simp: Let_def split: if_splits)
qed simp

lemma gate_ok_removeUsers [invs]:
  assumes "gate_ok g" and "removeUsers w gs g = Inr g'"
  shows "gate_ok g'"
proof -
  obtain h where "remove_users_loop w gs (gt_onlines g) g = Inr h"
    and "\<exists>m. g' = h\<lparr>gt_recon := m\<rparr>"
    using assms(2) unfolding removeUsers_def by (auto split: sum.splits)
  then show ?thesis using gate_ok_remove_loop [OF assms(1)] by auto
qed

lemma om_find_mem: "om_find m k = Some v \<Longrightarrow> v \<in> snd ` set m"
  by (induction m) (auto split: if_splits)

lemma gate_ok_parseLoginGame:
  assumes ok: "gate_ok g" and p: "p \<noteq> NULL"
    and closing: "us_state (gt_users g p) = Wait_Close \<longrightarrow> p \<notin> snd ` set (gt_onlines g)"
  shows "gate_ok (snd (us_parseLoginGame a p g))"
proof (cases "us_state (gt_users g p) = Connected")
  case True
  with ok show ?thesis by (simp add: us_parseLoginGame_def)
next
  case False
  then have free: "om_find (gt_onlines g) t \<noteq> Some p" for t
    using gate_okD [OF ok, of t p] closing om_find_mem by fastforce
  show ?thesis
    using ok free p False
    by (auto simp: us_parseLoginGame_def checkConn_def Let_def case_prod_unfold gate_ok_def set_user_def
        ptr_map_addData_def setState_def split: option.splits if_splits)
qed

lemma us_on_close_online:
  assumes "us_on_close w p g = Inr (out, g')"
  shows "om_find (gt_onlines g') = (om_find (gt_onlines g))(us_tranid (gt_users g p) := None)"
    and "gt_users g' = (gt_users g)(p := setState Disable (gt_users g p))"
  using assms unfolding us_on_close_def checkClose_def Let_def
  by (auto simp: set_user_def split: if_splits sum.splits)

lemma gate_ok_on_close:
  assumes ok: "gate_ok g" and "us_on_close w p g = Inr (out, g')"
  shows "gate_ok g'"
  using ok us_on_close_online [OF assms(2)] by (auto simp: gate_ok_def)

lemma gate_ok_timer:
  assumes "gate_ok g" and "fire_timer w e g = Inr (out, g')"
  shows "gate_ok g'"
  using assms
  by (auto simp: fire_timer_def eventCallRemoveWait_def eventCallRemoveReconn_def Let_def case_prod_unfold
      split: gate_timer.splits sum.splits)

lemma gate_ok_changeGS: "gate_ok g \<Longrightarrow> gate_ok (snd (gg_parseChangeGS c gs flag g))"
  by (auto simp: gg_parseChangeGS_def Let_def set_user_def gate_ok_def)

lemma gate_ok_register: "gate_ok g \<Longrightarrow> gate_ok (gg_parseGameRegister n c g)"
  by (auto simp: gg_parseGameRegister_def addActiveGameClient_def Let_def)

lemma gate_ok_onlines: "gate_ok g \<Longrightarrow> gate_ok (gg_parseGameOnlines n c g)"
  by (simp add: gg_parseGameOnlines_def)

lemma gate_ok_gameClosed:
  "gate_ok g \<Longrightarrow> removeActiveGameClient w c g = Inr g' \<Longrightarrow> gate_ok g'"
  using gate_ok_removeUsers [of g w "ucast (gm_game_id (gt_clients g c))"]
  by (auto simp: removeActiveGameClient_def Let_def split: if_splits sum.splits)

lemma gate_ok_handle:
  assumes "gate_ok g" and "gate_allowed e g" and "gate_handle w e g = Inr (out, g')"
  shows "gate_ok g'"
proof (cases e)
  case (Accept p)
  with assms show ?thesis
    using gate_ok_set_user [of g "setState Wait_Account (gt_users g p)" p] by (simp add: us_on_accept_def)
next
  case (Login_Game a p)
  with assms gate_ok_parseLoginGame [of g p a] show ?thesis
    by (metis Inr_inject gate_allowed.simps(4) gate_handle.simps(4) snd_conv)
next
  case (Login_User t a)
  with assms gate_ok_addToWait [of g t a] show ?thesis
    by (metis Inr_inject gate_handle.simps(1) gl_parseLoginUser_def snd_conv)
next
  case (Login_Kick t a)
  with assms gate_ok_kick [of g t a] show ?thesis
    by (metis Inr_inject gate_handle.simps(2) gl_parseLoginKick_def snd_conv)
next
  case (Change_GS c gs flag)
  with assms gate_ok_changeGS [of g c gs flag] show ?thesis
    by (metis Inr_inject gate_handle.simps(7) snd_conv)
next
  case (Client_Closed p)
  with assms gate_ok_on_close show ?thesis by simp
next
  case (Timer x)
  with assms gate_ok_timer show ?thesis by simp
next
  case (Game_Closed c)
  with assms gate_ok_gameClosed show ?thesis by (auto split: sum.splits)
qed (use assms in \<open>auto intro: gate_ok_register gate_ok_onlines\<close>)

lemma gate_ok_new [invs]: "gate_ok (new_gate idle)"
  by (simp add: gate_ok_def new_gate_def)

lemma gate_reach_ok: "gate_reach w idle g \<Longrightarrow> gate_ok g"
  by (induction rule: gate_reach.induct) (auto intro: gate_ok_new gate_ok_handle)


section \<open>Losing a game server\<close>

lemma setState_idem [simp]: "setState Wait_Close (setState Wait_Close u) = setState Wait_Close u"
  by (simp add: setState_def)

lemma remove_users_loop_users:
  "remove_users_loop True gs m g = Inr g' \<Longrightarrow>
   gt_users g' = (\<lambda>p. if p \<noteq> NULL \<and> p \<in> snd ` set m \<and> us_gs_id (gt_users g p) = gs
                      then setState Wait_Close (gt_users g p) else gt_users g p)"
proof (induction "True" gs m g rule: remove_users_loop.induct)
  case (2 gs t p m g)
  show ?case
  proof (cases "p \<noteq> NULL \<and> us_gs_id (gt_users g p) = gs")
    case True
    with 2 show ?thesis by (auto simp: set_user_def Let_def fun_eq_iff)
  next
    case False
    with 2(3) have "remove_users_loop True gs m g = Inr g'" by (auto split: if_splits)
    with 2(2) False show ?thesis by (auto simp: fun_eq_iff)
  qed
qed (simp add: fun_eq_iff)

lemma remove_users_loop_total: "\<exists>g'. remove_users_loop True gs m g = Inr g'"
  by (induction "True" gs m g rule: remove_users_loop.induct) (auto simp: Let_def)

lemma removeUsers_spec:
  "\<exists>g'. removeUsers True gs g = Inr g' \<and> gt_onlines g' = gt_onlines g \<and> gt_active g' = gt_active g
     \<and> gt_recon g' = obj_map_eraseValue gs (gt_recon g)
     \<and> gt_users g' = (\<lambda>p. if p \<noteq> NULL \<and> p \<in> snd ` set (gt_onlines g) \<and> us_gs_id (gt_users g p) = gs
                      then setState Wait_Close (gt_users g p) else gt_users g p)"
proof -
  obtain h where "remove_users_loop True gs (gt_onlines g) g = Inr h"
    using remove_users_loop_total by blast
  with remove_users_loop_frame [OF this] remove_users_loop_users [OF this] show ?thesis
    by (simp add: removeUsers_def eraseValue_def)
qed

text \<open>The other build goes on from an erased iterator as soon as a session or an entry matches.\<close>

lemma remove_users_loop_posix:
  "remove_users_loop False gs m g =
     (if \<exists>p \<in> snd ` set m. p \<noteq> NULL \<and> us_gs_id (gt_users g p) = gs then Inl Bad_Iterator else Inr g)"
  by (induction "False" gs m g rule: remove_users_loop.induct) (auto simp: Let_def)

text \<open>A session is on the game server, or waits to reconnect to it.\<close>

definition has_users :: "u16 \<Rightarrow> gate_state \<Rightarrow> bool" where
  "has_users n g \<longleftrightarrow> (\<exists>p \<in> snd ` set (gt_onlines g). p \<noteq> NULL \<and> us_gs_id (gt_users g p) = n) \<or> n \<in> snd ` set (gt_recon g)"

lemma eraseValue_unused: "n \<notin> snd ` set (gt_recon g) \<Longrightarrow> g\<lparr>gt_recon := obj_map_eraseValue n (gt_recon g)\<rparr> = g"
proof -
  assume "n \<notin> snd ` set (gt_recon g)"
  then have "obj_map_eraseValue n (gt_recon g) = gt_recon g"
    unfolding obj_map_eraseValue_filter by (intro filter_True) auto
  then show ?thesis by simp
qed

lemma removeUsers_posix: "removeUsers False n g = (if has_users n g then Inl Bad_Iterator else Inr g)"
  using eraseValue_unused [of n g]
  by (auto simp: removeUsers_def has_users_def remove_users_loop_posix eraseValue_def eraseValue_posix_cases)

lemma removeUsers_unused:
  assumes "\<not> has_users n g" shows "removeUsers w n g = Inr g"
proof (cases w)
  case True
  have loop: "remove_users_loop True n m g = Inr g" if "\<forall>p \<in> snd ` set m. p \<noteq> NULL \<longrightarrow> us_gs_id (gt_users g p) \<noteq> n" for m
    using that by (induction m) auto
  have "remove_users_loop True n (gt_onlines g) g = Inr g" using assms by (intro loop) (auto simp: has_users_def)
  moreover have "n \<notin> snd ` set (gt_recon g)" using assms by (simp add: has_users_def)
  ultimately show ?thesis using True eraseValue_unused [of n g] by (simp add: removeUsers_def eraseValue_def)
qed (use assms removeUsers_posix in simp)

lemma removeActive_registered:
  assumes "getGameClient g n = c" and "c \<noteq> NULL" and "ucast (gm_game_id (gt_clients g c)) = n"
  shows "removeActiveGameClient w c g = bind_result (removeUsers w n g) (\<lambda>g. Inr (g\<lparr>gt_active := (gt_active g)[unat n := NULL]\<rparr>))"
    and "valid_slot n" and "gt_active g ! unat n = c"
proof -
  let ?id = "gm_game_id (gt_clients g c)"
  have id: "unat ?id = unat n" unfolding assms(3) [symmetric]
    by (simp add: unsigned_ucast_eq take_bit_nat_eq_self order_less_le_trans [OF unsigned_less])
  from assms(1,2) show valid: "valid_slot n" "gt_active g ! unat n = c"
    by (auto simp: getGameClient_def slot_get_def split: if_splits)
  then have "0 < ?id" "?id < 0xff"
    using id by (simp_all add: valid_slot_def MAX_GATE_ID_def word_less_nat_alt)
  then show "removeActiveGameClient w c g = bind_result (removeUsers w n g) (\<lambda>g. Inr (g\<lparr>gt_active := (gt_active g)[unat n := NULL]\<rparr>))"
    using assms(2,3) valid(2) id by (simp add: removeActiveGameClient_def Let_def)
qed

text \<open>C23: When the connection to a registered game server closes, the server is no longer found under its id, every online session on
  it (and no other session) is told to close, and no player may reconnect to it. This is so in the WIN32 build, and in the other build when
  no session is on the server or waits to reconnect to it; otherwise the other build goes on from an erased iterator.\<close>

theorem lost_game_server:
  assumes "getGameClient g n = c" and "c \<noteq> NULL" and "slots_ok (gt_active g)"
    and "ucast (gm_game_id (gt_clients g c)) = n" and "om_ok (gt_recon g)"
  shows "if w \<or> \<not> has_users n g
    then \<exists>g'. removeActiveGameClient w c g = Inr g' \<and> getGameClient g' n = NULL
      \<and> (\<forall>k. k \<noteq> n \<longrightarrow> getGameClient g' k = getGameClient g k)
      \<and> (\<forall>p. gt_users g' p =
            (if p \<noteq> NULL \<and> p \<in> snd ` set (gt_onlines g) \<and> us_gs_id (gt_users g p) = n
             then setState Wait_Close (gt_users g p) else gt_users g p))
      \<and> (\<forall>t. om_find (gt_recon g') t = (if om_find (gt_recon g) t = Some n then None else om_find (gt_recon g) t))
    else removeActiveGameClient w c g = Inl Bad_Iterator"
proof (cases "w \<or> \<not> has_users n g")
  case True
  note registered = removeActive_registered [OF assms(1,2,4)]
  have "\<exists>h. removeUsers w n g = Inr h \<and> gt_active h = gt_active g \<and> gt_recon h = obj_map_eraseValue n (gt_recon g)
      \<and> gt_users h = (\<lambda>p. if p \<noteq> NULL \<and> p \<in> snd ` set (gt_onlines g) \<and> us_gs_id (gt_users g p) = n
                      then setState Wait_Close (gt_users g p) else gt_users g p)"
  proof (cases "has_users n g")
    case used: True
    with True have "w" by blast
    then show ?thesis using removeUsers_spec [of n g] by auto
  next
    case False
    then show ?thesis using removeUsers_unused [of n g w] removeUsers_unused [of n g True] removeUsers_spec [of n g] by simp
  qed
  then obtain h where h: "removeUsers w n g = Inr h" "gt_active h = gt_active g"
      "gt_recon h = obj_map_eraseValue n (gt_recon g)"
      "gt_users h = (\<lambda>p. if p \<noteq> NULL \<and> p \<in> snd ` set (gt_onlines g) \<and> us_gs_id (gt_users g p) = n
                      then setState Wait_Close (gt_users g p) else gt_users g p)" by blast
  have "removeActiveGameClient w c g = Inr (h\<lparr>gt_active := (gt_active h)[unat n := NULL]\<rparr>)"
    using registered(1) h(1) by simp
  moreover have "(gt_active g)[unat n := NULL] = slot_remove n c (gt_active g)"
    using registered(2,3) assms(2) by (simp add: slot_remove_def)
  ultimately show ?thesis
    using True h assms
    by (simp add: getGameClient_def slots.look_unregister om_find_eraseValue)
next
  case False
  then show ?thesis using removeActive_registered(1) [OF assms(1,2,4)] removeUsers_posix [of n g] by simp
qed

section \<open>The game server a new player gets\<close>

text \<open>A new player gets no game server exactly when none is connected; otherwise the server chosen
  is connected, and it is below the idle limit or has the fewest players of all.\<close>

theorem getIdleGameClient_spec:
  "(getIdleGameClient g = NULL \<longleftrightarrow> isGamesStop g)
   \<and> (getIdleGameClient g \<noteq> NULL \<longrightarrow> getIdleGameClient g \<in> set (gt_active g)
      \<and> (gm_onlines (gt_clients g (getIdleGameClient g)) < gt_idle_max g
         \<or> (\<forall>p \<in> set (gt_active g). p \<noteq> NULL \<longrightarrow>
              gm_onlines (gt_clients g (getIdleGameClient g)) \<le> gm_onlines (gt_clients g p))))"
  using idle_loop_spec [of NULL "\<lambda>p. gm_onlines (gt_clients g p)" "gt_idle_max g" "gt_active g"]
  by (auto simp: getIdleGameClient_def isGamesStop_def list_all_iff)

section \<open>Messages reach the right player\<close>

text \<open>C22: As long as no client logs in on a connection that is closing, a message of a game server
  for the transaction id \<open>flag\<close> is delivered, if at all, to a connection in use that is logged in under
  that id, and the messages of this connection reach the game server under the same id.\<close>

theorem gate_routing:
  assumes "gate_reach w idle g" and "To_User_Client p f m \<in> set (gg_parseGameMsg m flag g)"
  shows "f = flag \<and> p \<noteq> NULL \<and> us_tranid (gt_users g p) = flag
    \<and> us_state (gt_users g p) \<in> {Connected, Wait_Close}
    \<and> set (us_parseGameMsg k p g) \<subseteq> {To_Game_Server (getGameClient g (us_gs_id (gt_users g p))) flag k}"
proof -
  from assms(2) have "om_find (gt_onlines g) flag = Some p" and "f = flag"
    by (auto simp: gg_parseGameMsg_def getUserSession_def ptr_map_getData_def split: if_splits option.splits)
  with gate_okD [OF gate_reach_ok [OF assms(1)]] show ?thesis
    by (auto simp: us_parseGameMsg_def Let_def)
qed


section \<open>Reconnecting\<close>

lemma parseLoginGame_recon:
  assumes "us_state (gt_users g q) = Wait_Account" and "om_find (gt_wait g) t = None"
    and "om_find (gt_recon g) t = Some gs" and "om_find (gt_onlines g) t = None"
  shows "\<exists>g'. us_parseLoginGame t q g = ([] :: 'm gate_out list, g') \<and> getUserSession t g' = q
    \<and> us_tranid (gt_users g' q) = t \<and> us_state (gt_users g' q) = Connected \<and> us_gs_id (gt_users g' q) = gs
    \<and> gt_onlineaccs g' = gt_onlineaccs g \<and> om_find (gt_recon g') t = None \<and> gt_timers g' = gt_timers g
    \<and> gt_active g' = gt_active g"
  using assms
  by (simp add: us_parseLoginGame_def checkConn_def obj_map_hasData_def Let_def set_user_def
      getUserSession_def ptr_map_getData_def ptr_map_addData_def setState_def obj_map_eraseData_def)

lemma on_close_connected:
  assumes "us_state (gt_users g p) = Connected" and "us_tranid (gt_users g p) = t"
    and "us_gs_id (gt_users g p) = gs" and "getGameClient g gs = c" and "c \<noteq> NULL"
    and "om_find (gt_recon g) t = None"
  shows "\<exists>g'. us_on_close w p g = Inr ([Offline_User_GT2GS c t] :: 'm gate_out list, g')
    \<and> om_find (gt_recon g') t = Some gs \<and> om_find (gt_onlines g') t = None \<and> gt_wait g' = gt_wait g
    \<and> gt_onlineaccs g' = gt_onlineaccs g \<and> Remove_Reconnect t \<in> set (gt_timers g')
    \<and> (\<forall>q. q \<noteq> p \<longrightarrow> gt_users g' q = gt_users g q)"
  using assms
  by (simp add: us_on_close_def checkClose_def Let_def obj_map_addData_def getGameClient_def set_user_def)

text \<open>A player whom the gate kicks while connected (the game server is told to remove the hero)
  still becomes one who may reconnect when the connection closes: a client that presents the old
  transaction id is let in as this player, and the game server is told nothing.\<close>

theorem kicked_user_reconnects:
  assumes "getUserSession t g = p" and "p \<noteq> NULL" and "us_tranid (gt_users g p) = t"
    and "us_state (gt_users g p) = Connected" and "us_gs_id (gt_users g p) = gs"
    and "getGameClient g gs = c" and "c \<noteq> NULL"
    and "om_find (gt_wait g) t = None" and "om_find (gt_recon g) t = None"
    and "q \<noteq> p" and "us_state (gt_users g q) = Wait_Account"
  shows "fst (kickUser t a g :: 'm gate_out list \<times> gate_state) = [Remove_User_GT2GS c t, Close_User p]
    \<and> (\<exists>g1 g2. us_on_close w p (snd (kickUser t a g :: 'm gate_out list \<times> gate_state))
           = Inr ([Offline_User_GT2GS c t] :: 'm gate_out list, g1)
        \<and> us_parseLoginGame t q g1 = ([] :: 'm gate_out list, g2)
        \<and> getUserSession t g2 = q \<and> us_state (gt_users g2 q) = Connected)"
proof -
  let ?g = "snd (kickUser t a g :: 'm gate_out list \<times> gate_state)"
  have kick: "fst (kickUser t a g) = [Remove_User_GT2GS c t, Close_User p]"
    "?g = g\<lparr>gt_onlines := snd (ptr_map_eraseData t (gt_onlines g)),
             gt_onlineaccs := snd (obj_map_eraseData a (gt_onlineaccs g))\<rparr>"
    using assms by (auto simp: kickUser_def getUserSession_def removePlayer_def Let_def)
  then have "getGameClient ?g gs = c" "gt_users ?g = gt_users g" "gt_wait ?g = gt_wait g"
      "om_find (gt_recon ?g) t = None"
    using assms by (simp_all add: getGameClient_def)
  then have close: "\<exists>g'. us_on_close w p ?g = Inr ([Offline_User_GT2GS c t] :: 'm gate_out list, g')
      \<and> om_find (gt_recon g') t = Some gs \<and> om_find (gt_onlines g') t = None \<and> gt_wait g' = gt_wait g
      \<and> (\<forall>q. q \<noteq> p \<longrightarrow> gt_users g' q = gt_users g q)"
    using on_close_connected [of ?g p t gs c w] assms(3-7) by metis
  obtain g1 where
    g1: "us_on_close w p ?g = Inr ([Offline_User_GT2GS c t] :: 'm gate_out list, g1)"
      "om_find (gt_recon g1) t = Some gs" "om_find (gt_onlines g1) t = None"
      "om_find (gt_wait g1) t = None" "gt_users g1 q = gt_users g q"
    using close assms(8,10) by metis
  obtain g2 where "us_parseLoginGame t q g1 = ([] :: 'm gate_out list, g2)"
      "getUserSession t g2 = q" "us_state (gt_users g2 q) = Connected"
    using parseLoginGame_recon [of g1 q t gs] g1 assms(11) by metis
  with kick(1) g1(1) show ?thesis by metis
qed

text \<open>A player who loses the connection and is back in time is forgotten when the timer of the
  disconnect fires, because reconnecting does not take the timer back: in the WIN32 build the session
  stays online while its account is unknown to the gate; in the other build erasing the account is
  undefined behaviour.\<close>

theorem reconnect_timer_forgets:
  assumes "getUserSession t g = p" and "p \<noteq> NULL" and "us_tranid (gt_users g p) = t"
    and "us_state (gt_users g p) = Connected" and "us_gs_id (gt_users g p) = gs"
    and "getGameClient g gs = c" and "c \<noteq> NULL"
    and "om_find (gt_wait g) t = None" and "om_find (gt_recon g) t = None"
    and "getAccount t g \<noteq> 0"
    and "q \<noteq> p" and "us_state (gt_users g q) = Wait_Account"
  shows "\<exists>g1 g2. us_on_close w p g = Inr ([Offline_User_GT2GS c t] :: 'm gate_out list, g1)
    \<and> us_parseLoginGame t q g1 = ([] :: 'm gate_out list, g2)
    \<and> Remove_Reconnect t \<in> set (gt_timers g2) \<and> getAccount t g2 \<noteq> 0
    \<and> (if w then \<exists>g3. fire_timer w (Remove_Reconnect t) g2 = Inr ([] :: 'm gate_out list, g3)
                 \<and> getUserSession t g3 = q \<and> us_state (gt_users g3 q) = Connected \<and> getAccount t g3 = 0
       else fire_timer w (Remove_Reconnect t) g2 = Inl Bad_Iterator)"
proof -
  obtain g1 where g1: "us_on_close w p g = Inr ([Offline_User_GT2GS c t] :: 'm gate_out list, g1)"
      "om_find (gt_recon g1) t = Some gs" "om_find (gt_onlines g1) t = None"
      "om_find (gt_wait g1) t = None" "gt_users g1 q = gt_users g q"
      "gt_onlineaccs g1 = gt_onlineaccs g" "Remove_Reconnect t \<in> set (gt_timers g1)"
    using on_close_connected [of g p t gs c w] assms by metis
  then obtain g2 where g2: "us_parseLoginGame t q g1 = ([] :: 'm gate_out list, g2)"
      "getUserSession t g2 = q" "us_state (gt_users g2 q) = Connected"
      "gt_onlineaccs g2 = gt_onlineaccs g" "om_find (gt_recon g2) t = None" "gt_timers g2 = gt_timers g1"
    using parseLoginGame_recon [of g1 q t gs] assms(12) by metis
  have mem: "t \<in> snd ` set (gt_onlineaccs g)"
    using assms(10) getKey_not_found [of "gt_onlineaccs g" 0 t 0] by (auto simp: getAccount_def)
  have gone: "snd (obj_map_getKey (obj_map_eraseValue t m) 0 t) = 0" for m :: "(u64, u32) omap"
    using getKey_not_found [of "obj_map_eraseValue t m" 0 t 0]
    by (auto simp: obj_map_eraseValue_filter)
  show ?thesis
    using g1 g2 mem assms(10)
    by (cases w)
      (simp_all add: fire_timer_def eventCallRemoveReconn_def Let_def obj_map_takeData_def eraseValue_def
        eraseValue_posix_cases getAccount_def getUserSession_def gone)
qed

section \<open>A new player\<close>

lemma addToWait_fresh:
  assumes "getUserSession t g = NULL" and "om_find (gt_wait g) t = None"
  shows "addToWait t a g = ([Prepar_GT2LN (ucast t)],
    g\<lparr>gt_wait := om_set t a (gt_wait g), gt_timers := gt_timers g @ [Remove_Wait_Connect t]\<rparr>)"
  using assms by (simp add: addToWait_def getUserSession_def obj_map_addData_def)

lemma parseLoginGame_waiting:
  assumes "us_state (gt_users g q) = Wait_Account" and "om_find (gt_wait g) t = Some a"
    and "om_find (gt_onlines g) t = None" and "getIdleGameClient g = c" and "c \<noteq> NULL"
  shows "\<exists>g'. us_parseLoginGame t q g = ([Add_User_GT2GS c t a], g') \<and> getUserSession t g' = q
    \<and> us_tranid (gt_users g' q) = t \<and> us_state (gt_users g' q) = Connected"
  using assms
  by (simp add: us_parseLoginGame_def checkConn_def obj_map_hasData_def obj_map_takeData_def Let_def set_user_def
      getUserSession_def ptr_map_getData_def ptr_map_addData_def setState_def getIdleGameClient_def)

section \<open>A second login on a closing connection\<close>

fun run_gate :: "bool \<Rightarrow> gate_event list \<Rightarrow> gate_state \<Rightarrow> (unit gate_out list \<times> gate_state) result" where
  "run_gate w [] g = Inr ([], g)"
| "run_gate w (e # es) g =
     bind_result (gate_handle w e g) (\<lambda>(out, g).
     bind_result (run_gate w es g) (\<lambda>(out', g). Inr (out @ out', g)))"

text \<open>Without that restriction the gate confuses players: when player 1 loses the game server
  and logs in under a second transaction id before the gate closes the connection, the entry of id 1 stays
  behind. The connection object is used again for another player (3), who then receives what a game server
  sends to player 1, and whose connection is closed when the login server kicks player 1.\<close>

theorem relogin_kicks_stranger:
  "bind_result
     (run_gate True
        [Game_Register 1 9, Game_Register 2 8, Login_User 1 11, Login_User 2 22, Login_User 3 33,
         Accept 5, Login_Game 1 5, Game_Closed 9, Login_Game 2 5, Client_Closed 5,
         Accept 5, Login_Game 3 5] (new_gate 100))
     (\<lambda>(out, g). Inr (gg_parseGameMsg () 1 g, us_tranid (gt_users g 5), fst (gl_parseLoginKick 1 11 g) :: unit gate_out list))
   = Inr ([To_User_Client 5 1 ()], 3, [Remove_User_GT2GS 8 1, Close_User 5])"
  by code_simp

section \<open>Concrete instances\<close>

text \<open>One game server (connection 9, id 1), player 1 with account 11 online on connection 5, and a fresh
  client on connection 6.\<close>

definition demo_gate :: gate_state where
  "demo_gate = us_on_accept 6 (snd (us_parseLoginGame 1 5 (us_on_accept 5
     (snd (addToWait 1 11 (gg_parseGameRegister 1 9 (new_gate 100)) :: unit gate_out list \<times> gate_state)))
     :: unit gate_out list \<times> gate_state))"

lemma gate_handle_reach:
  "gate_reach w idle g \<Longrightarrow> gate_allowed e g \<Longrightarrow>
   gate_handle w e g = (Inr (out, g') :: (unit gate_out list \<times> gate_state) result) \<Longrightarrow> gate_reach w idle g'"
  by (rule gate_reach.event)

lemma gate_reach_demo: "gate_reach w 100 demo_gate"
proof -
  let ?g1 = "gg_parseGameRegister 1 9 (new_gate 100)"
  let ?g2 = "snd (addToWait 1 11 ?g1 :: unit gate_out list \<times> gate_state)"
  let ?g3 = "us_on_accept 5 ?g2"
  let ?g4 = "snd (us_parseLoginGame 1 5 ?g3 :: unit gate_out list \<times> gate_state)"
  have "gate_reach w 100 ?g1"
    by (rule gate_handle_reach [OF gate_reach.start, of "Game_Register 1 9"]) simp_all
  then have "gate_reach w 100 ?g2"
    by (rule gate_handle_reach [of _ _ _ "Login_User 1 11" "fst (addToWait 1 11 ?g1)"])
      (simp_all add: gl_parseLoginUser_def)
  then have "gate_reach w 100 ?g3"
    by (rule gate_handle_reach [of _ _ _ "Accept 5"]) (simp, code_simp, simp)
  then have "gate_reach w 100 ?g4"
    by (rule gate_handle_reach [of _ _ _ "Login_Game 1 5" "fst (us_parseLoginGame 1 5 ?g3)"]) (simp, code_simp, simp)
  then show ?thesis unfolding demo_gate_def
    by (rule gate_handle_reach [of _ _ _ "Accept 6"]) (simp, code_simp, simp)
qed

lemma demo_facts:
  "getUserSession 1 demo_gate = 5" "us_tranid (gt_users demo_gate 5) = 1"
  "us_state (gt_users demo_gate 5) = Connected" "us_gs_id (gt_users demo_gate 5) = 1"
  "getGameClient demo_gate 1 = 9" "om_find (gt_wait demo_gate) 1 = None"
  "om_find (gt_recon demo_gate) 1 = None" "getAccount 1 demo_gate = 11"
  "us_state (gt_users demo_gate 6) = Wait_Account" "gt_recon demo_gate = []"
  "gm_game_id (gt_clients demo_gate 9) = 1" "length (gt_active demo_gate) = 255"
  "getIdleGameClient demo_gate = 9"
  by code_simp+

theorem getIdleGameClient_spec_witness:
  "getIdleGameClient demo_gate \<in> set (gt_active demo_gate)"
  using getIdleGameClient_spec [of demo_gate] demo_facts by simp

theorem lost_game_server_witness:
  "(\<exists>g'. removeActiveGameClient True 9 demo_gate = Inr g' \<and> getGameClient g' 1 = NULL)
   \<and> removeActiveGameClient False 9 demo_gate = Inl Bad_Iterator"
proof -
  have "has_users 1 demo_gate" by code_simp
  then show ?thesis
    using lost_game_server [of demo_gate 1 9 True] lost_game_server [of demo_gate 1 9 False] demo_facts
    by (auto simp: slots_ok_def MAX_GATE_ID_def)
qed

theorem gate_routing_witness:
  "To_User_Client 5 1 () \<in> set (gg_parseGameMsg () 1 demo_gate) \<and> us_tranid (gt_users demo_gate 5) = 1"
  using gate_routing [of True 100 demo_gate 5 1 "()" 1 "()"] gate_reach_demo demo_facts
  by (simp add: gg_parseGameMsg_def)

theorem kicked_user_reconnects_witness:
  "fst (kickUser 1 11 demo_gate) = [Remove_User_GT2GS 9 1, Close_User 5 :: unit gate_out]"
  using kicked_user_reconnects [of 1 demo_gate 5 1 9 6 11 True, where 'm = unit] demo_facts by simp

theorem reconnect_timer_forgets_witness:
  "\<exists>g1 :: gate_state. us_on_close False 5 demo_gate = Inr ([Offline_User_GT2GS 9 1 :: unit gate_out], g1)"
  using reconnect_timer_forgets [of 1 demo_gate 5 1 9 6 False, where 'm = unit] demo_facts by auto


end
