(* ===== verification/Login.thy ===== *)
theory Login
  imports Containers Slot_Table Crypt Utilities
begin

text \<open>
  The login server: \<^verbatim>\<open>login/account_manager.cpp\<close> (accounts and the database checks),
  \<^verbatim>\<open>login/gate_manager.cpp\<close> and \<^verbatim>\<open>login/gate_session.cpp\<close> (the gates and the players sent
  to them), \<^verbatim>\<open>login/user_session.cpp\<close> (one client connection) and
  \<^verbatim>\<open>common/version.cpp\<close>. Connection objects come from pools and are never freed; a database
  task keeps the pointer of the connection that asked.
\<close>

section \<open>Versions\<close>

record server_version =
  nMajor :: u16
  nMinor :: u16
  nBuild :: u16
  nAppSvn :: u16

definition this_version :: server_version where
  "this_version = \<lparr>nMajor = 0, nMinor = 0, nBuild = 1, nAppSvn = 1\<rparr>"

definition version_toString :: string where
  "version_toString = show_nat 0 @ ''.'' @ show_nat 0 @ ''.'' @ show_nat 1 @ ''.'' @ show_nat 1"

definition checkVersion :: "server_version \<Rightarrow> u16 \<Rightarrow> u16 \<Rightarrow> u16 \<Rightarrow> u16 \<Rightarrow> bool" where
  "checkVersion v major minor build svn \<longleftrightarrow>
     nMajor v = major \<and> nMinor v = minor \<and> nBuild v = build \<and> svn = nAppSvn v"

definition checkVersion_other :: "server_version \<Rightarrow> server_version \<Rightarrow> bool" where
  "checkVersion_other v w \<longleftrightarrow>
     nMajor v = nMajor w \<and> nMinor v = nMinor w \<and> nBuild v = nBuild w \<and> nAppSvn v = nAppSvn w"

section \<open>State\<close>

datatype login_status = L_Disable | L_Wait_Data | L_Checking_Data | L_Wait_Gate | L_Wait_Close

text \<open>\<open>ls_close\<close>: the time left of the close event; \<open>ls_valid\<close> and \<open>ls_addr\<close> belong to
  the connection.\<close>

record login_session =
  ls_account :: u64
  ls_state :: login_status
  ls_close :: "u32 option"
  ls_valid :: bool
  ls_addr :: string

record login_account =
  ac_gate :: u16
  ac_id :: u64
  ac_tran :: u32

record login_gate =
  lg_id :: u8
  lg_onlines :: u32
  lg_ip :: string
  lg_port :: u16
  lg_balence :: "u64 list"

datatype check_kind = Login_Check | New_Acc_Check

text \<open>The results of the stored procedures; any other byte is possible too.\<close>

definition check_pass :: u8 where "check_pass = 0"
definition not_found :: u8 where "not_found = 1"
definition error_name_pwd :: u8 where "error_name_pwd = 2"
definition already_have_acc :: u8 where "already_have_acc = 3"

record check_acct =
  ca_str :: string
  ca_pwd :: string
  ca_result :: u8
  ca_owner :: ptr
  ca_acct :: u32
  ca_type :: check_kind

record ban_and_mute =
  bm_id :: u32
  bm_mute :: u32
  bm_ban :: u32

record login_state =
  lt_accts :: "(u64, login_account) omap"
  lt_bans :: "(u32, ban_and_mute) omap"
  lt_wait :: "u32 ptr_map"
  lt_gates :: slots
  lt_gate :: "ptr \<Rightarrow> login_gate"
  lt_users :: "ptr \<Rightarrow> login_session"
  lt_tasks :: "check_acct list"
  lt_time :: u64

datatype login_out =
    Kick_LN2GT ptr u64 u32
  | User_Login_LN2GT ptr u64 u32
  | Login_Success ptr string u32 u32
  | Login_Fail ptr
  | Login_Name_Fail ptr
  | Register_Faild ptr
  | Close_Gate ptr

definition new_login_session :: login_session where
  "new_login_session = \<lparr>ls_account = 0, ls_state = L_Disable, ls_close = None, ls_valid = False, ls_addr = []\<rparr>"

definition new_login_gate :: login_gate where
  "new_login_gate = \<lparr>lg_id = 0, lg_onlines = 0, lg_ip = ''127.0.0.1'', lg_port = 0, lg_balence = []\<rparr>"

definition new_login_account :: login_account where
  "new_login_account = \<lparr>ac_gate = 0, ac_id = 0, ac_tran = 0\<rparr>"

definition new_login :: login_state where
  "new_login = \<lparr>lt_accts = [], lt_bans = [], lt_wait = [], lt_gates = no_slots,
     lt_gate = (\<lambda>_. new_login_gate), lt_users = (\<lambda>_. new_login_session), lt_tasks = [], lt_time = 0\<rparr>"

definition new_check :: "string \<Rightarrow> string \<Rightarrow> check_kind \<Rightarrow> ptr \<Rightarrow> check_acct" where
  "new_check name password t p =
     \<lparr>ca_str = name, ca_pwd = password, ca_result = check_pass, ca_owner = p, ca_acct = 0, ca_type = t\<rparr>"

section \<open>UserLoginSession\<close>

definition ls_modify :: "u32 \<Rightarrow> login_session \<Rightarrow> login_session" where
  "ls_modify ms u = (if ls_close u \<noteq> None then u\<lparr>ls_close := Some ms\<rparr> else u)"

definition ls_setState :: "login_status \<Rightarrow> login_session \<Rightarrow> login_session" where
  "ls_setState s u =
     (let u = u\<lparr>ls_state := s\<rparr>
      in case s of
           L_Disable \<Rightarrow> u\<lparr>ls_close := None\<rparr>
         | L_Wait_Data \<Rightarrow> u\<lparr>ls_close := Some 30000\<rparr>
         | L_Checking_Data \<Rightarrow> ls_modify 60000 u
         | L_Wait_Gate \<Rightarrow> ls_modify 60000 u
         | L_Wait_Close \<Rightarrow> ls_modify 5000 u)"

definition put_session :: "ptr \<Rightarrow> login_session \<Rightarrow> login_state \<Rightarrow> login_state" where
  "put_session p u l = l\<lparr>lt_users := (lt_users l)(p := u)\<rparr>"

definition set_session_state :: "login_status \<Rightarrow> ptr \<Rightarrow> login_state \<Rightarrow> login_state" where
  "set_session_state s p l = put_session p (ls_setState s (lt_users l p)) l"

text \<open>The connection's own part of accepting and closing sets the address and the validity.\<close>

definition ls_on_accept :: "ptr \<Rightarrow> string \<Rightarrow> login_state \<Rightarrow> login_state" where
  "ls_on_accept p addr l =
     put_session p ((ls_setState L_Wait_Data (lt_users l p))\<lparr>ls_valid := True, ls_addr := addr\<rparr>) l"

definition ls_on_close :: "ptr \<Rightarrow> login_state \<Rightarrow> login_state" where
  "ls_on_close p l = put_session p ((ls_setState L_Disable (lt_users l p))\<lparr>ls_valid := False\<rparr>) l"

definition ls_reset :: "ptr \<Rightarrow> login_state \<Rightarrow> login_state" where
  "ls_reset p l = put_session p ((lt_users l p)\<lparr>ls_state := L_Disable, ls_account := 0\<rparr>) l"

text \<open>The close event calls \<open>setClose\<close>, whose body is commented out.\<close>

definition ls_setClose :: "ptr \<Rightarrow> login_state \<Rightarrow> login_state" where
  "ls_setClose p l = put_session p ((lt_users l p)\<lparr>ls_close := None\<rparr>) l"

section \<open>GateSession\<close>

definition put_gate :: "ptr \<Rightarrow> login_gate \<Rightarrow> login_state \<Rightarrow> login_state" where
  "put_gate c x l = l\<lparr>lt_gate := (lt_gate l)(c := x)\<rparr>"

definition parseGateOnlines :: "u32 \<Rightarrow> ptr \<Rightarrow> login_state \<Rightarrow> login_state" where
  "parseGateOnlines n c l = put_gate c ((lt_gate l c)\<lparr>lg_onlines := n\<rparr>) l"

definition addBalenceTime :: "ptr \<Rightarrow> login_state \<Rightarrow> login_state" where
  "addBalenceTime c l = put_gate c ((lt_gate l c)\<lparr>lg_balence := lg_balence (lt_gate l c) @ [lt_time l]\<rparr>) l"

text \<open>The sum is taken in \<^verbatim>\<open>size_t\<close> and converted to \<^verbatim>\<open>int\<close>.\<close>

definition getBalenceCount :: "login_gate \<Rightarrow> int" where
  "getBalenceCount x = sint (ucast (ucast (lg_onlines x) + word_of_nat (length (lg_balence x)) :: u64) :: u32)"

text \<open>
  \<^verbatim>\<open>_BALENCE_TIME_ * 20 + time_temp\<close>, where the macro is \<^verbatim>\<open>2 * _TIME_SECOND_MSEL_\<close>; both
  times are seconds.
\<close>

definition balence_expired :: "u64 \<Rightarrow> u64 \<Rightarrow> bool" where
  "balence_expired now t \<longleftrightarrow> now > 2 * 1000 * 20 + t"

definition balenceInfoEvent :: "ptr \<Rightarrow> login_state \<Rightarrow> login_state" where
  "balenceInfoEvent c l =
     put_gate c ((lt_gate l c)\<lparr>lg_balence := filter (\<lambda>t. \<not> balence_expired (lt_time l) t) (lg_balence (lt_gate l c))\<rparr>) l"

section \<open>GateManager\<close>

definition login_addGate :: "u16 \<Rightarrow> ptr \<Rightarrow> login_state \<Rightarrow> login_state" where
  "login_addGate n c l = l\<lparr>lt_gates := slot_add n c (lt_gates l)\<rparr>"

definition login_removeGate :: "ptr \<Rightarrow> login_state \<Rightarrow> login_state" where
  "login_removeGate c l =
     (if c = NULL then l
      else let n = ucast (lg_id (lt_gate l c))
           in l\<lparr>lt_gates := slot_remove n c (lt_gates l)\<rparr>)"

text \<open>The test \<^verbatim>\<open>id >= INVALID_GATE_ID\<close> is true for every id.\<close>

definition kickUserFromGate :: "login_account \<Rightarrow> login_state \<Rightarrow> login_out list" where
  "kickUserFromGate a l =
     (if unat (ac_gate a) < MAX_GATE_ID
      then (let c = lt_gates l ! unat (ac_gate a)
            in if c \<noteq> NULL then [Kick_LN2GT c (ac_id a) (ac_tran a)] else [])
      else [])"

fun idle_gate_loop :: "(ptr \<Rightarrow> int) \<Rightarrow> ptr list \<Rightarrow> ptr \<Rightarrow> ptr" where
  "idle_gate_loop count [] best = best"
| "idle_gate_loop count (c # cs) best =
     (if c = NULL then idle_gate_loop count cs best
      else if best = NULL \<or> count best > count c then idle_gate_loop count cs c
      else idle_gate_loop count cs best)"

definition getIdleGate :: "login_state \<Rightarrow> ptr" where
  "getIdleGate l = idle_gate_loop (\<lambda>c. getBalenceCount (lt_gate l c)) (lt_gates l) NULL"

text \<open>The account and the session are what the two pointers refer to; the new account is returned.\<close>

definition giveUserToGate ::
    "login_account \<Rightarrow> ptr \<Rightarrow> login_state \<Rightarrow> bool \<times> login_account \<times> login_out list \<times> login_state" where
  "giveUserToGate a p l =
     (let c = getIdleGate l
      in if p \<noteq> NULL \<and> c \<noteq> NULL
         then (let a = a\<lparr>ac_gate := ucast (lg_id (lt_gate l c))\<rparr>;
                   l = put_session p (ls_setState L_Wait_Gate ((lt_users l p)\<lparr>ls_account := ac_id a\<rparr>)) l;
                   l = addBalenceTime c l;
                   l = l\<lparr>lt_wait := snd (ptr_map_addData (ac_tran a) p (lt_wait l))\<rparr>
               in (True, a, [User_Login_LN2GT c (ac_id a) (ac_tran a)], l))
         else (False, a, [], l))"

definition getWaiteSession :: "u64 \<Rightarrow> login_state \<Rightarrow> ptr" where
  "getWaiteSession n l = ptr_map_getData (lt_wait l) (ucast n)"

definition removeWaitSession :: "u64 \<Rightarrow> login_state \<Rightarrow> login_state" where
  "removeWaitSession n l = l\<lparr>lt_wait := snd (ptr_map_eraseData (ucast n) (lt_wait l))\<rparr>"

definition receiveUserPrepar :: "u64 \<Rightarrow> string \<Rightarrow> u16 \<Rightarrow> login_state \<Rightarrow> login_out list \<times> login_state" where
  "receiveUserPrepar n ip port l =
     (let p = getWaiteSession n l
      in if p \<noteq> NULL
         then ([Login_Success p ip (ucast port) (ucast n)],
               removeWaitSession n (set_session_state L_Wait_Close p l))
         else ([], l))"

definition parseGateUserPrepar :: "u64 \<Rightarrow> ptr \<Rightarrow> login_state \<Rightarrow> login_out list \<times> login_state" where
  "parseGateUserPrepar n c l = receiveUserPrepar n (lg_ip (lt_gate l c)) (lg_port (lt_gate l c)) l"

section \<open>AccountManager\<close>

definition login_getAccount :: "u64 \<Rightarrow> login_state \<Rightarrow> login_account option" where
  "login_getAccount a l = om_find (lt_accts l) a"

definition addAccount :: "u64 \<Rightarrow> u32 \<Rightarrow> u16 \<Rightarrow> login_state \<Rightarrow> login_state" where
  "addAccount a t n l = l\<lparr>lt_accts := om_set a \<lparr>ac_gate = n, ac_id = a, ac_tran = t\<rparr> (lt_accts l)\<rparr>"

definition removeAccount :: "u64 \<Rightarrow> login_state \<Rightarrow> login_state" where
  "removeAccount a l = l\<lparr>lt_accts := om_erase a (lt_accts l)\<rparr>"

definition loadBanCall :: "(u32 \<times> u32 \<times> u32) list \<Rightarrow> login_state \<Rightarrow> login_state" where
  "loadBanCall rows l =
     l\<lparr>lt_bans := foldl (\<lambda>m (n, ban, mute). om_set n \<lparr>bm_id = n, bm_mute = mute, bm_ban = ban\<rparr> m) (lt_bans l) rows\<rparr>"

text \<open>The whole test is commented out.\<close>

definition isBanned :: "u32 \<Rightarrow> login_state \<Rightarrow> bool" where
  "isBanned a l = False"

text \<open>\<open>now\<close> is \<^verbatim>\<open>time(NULL)\<close>.\<close>

definition makeTransId :: "string \<Rightarrow> nat \<Rightarrow> u32 result" where
  "makeTransId str now =
     (let s = str @ show_nat now in sslCrc32 (Some (map of_char s)) (word_of_nat (length s)))"

definition check_text :: "check_acct \<Rightarrow> string" where
  "check_text k =
     (case ca_type k of Login_Check \<Rightarrow> ''CALL CheckAccount(%0q, %1q)'' | New_Acc_Check \<Rightarrow> ''CALL NewAccount(%0q, %1q)'')"

text \<open>\<open>batchQuery\<close> stores the first row of the procedure's answer, if there is one.\<close>

definition batchQuery :: "(u32 \<times> u8) option \<Rightarrow> check_acct \<Rightarrow> check_acct" where
  "batchQuery row k = (case row of Some (a, r) \<Rightarrow> k\<lparr>ca_acct := a, ca_result := r\<rparr> | None \<Rightarrow> k)"

definition addBatchTask :: "check_acct \<Rightarrow> login_state \<Rightarrow> login_state" where
  "addBatchTask k l = l\<lparr>lt_tasks := lt_tasks l @ [k]\<rparr>"

definition checkAccount :: "string \<Rightarrow> string \<Rightarrow> ptr \<Rightarrow> check_kind \<Rightarrow> login_state \<Rightarrow> login_state" where
  "checkAccount name password p t l = addBatchTask (new_check name password t p) (set_session_state L_Checking_Data p l)"

definition ls_parseLoginGame :: "string \<Rightarrow> string \<Rightarrow> ptr \<Rightarrow> login_state \<Rightarrow> login_state" where
  "ls_parseLoginGame name password p l = checkAccount name password p Login_Check l"

definition ls_parseRegister :: "string \<Rightarrow> string \<Rightarrow> ptr \<Rightarrow> login_state \<Rightarrow> login_state" where
  "ls_parseRegister name password p l = checkAccount name password p New_Acc_Check l"

definition CreateNewAccount :: "check_acct \<Rightarrow> bool \<Rightarrow> login_state \<Rightarrow> login_out list \<times> login_state" where
  "CreateNewAccount k sucess l =
     (let p = ca_owner k
      in if p \<noteq> NULL \<and> ls_valid (lt_users l p)
         then (if \<not> sucess then ([Register_Faild p], set_session_state L_Wait_Close p l)
               else if ca_result k \<noteq> check_pass then ([Register_Faild p], set_session_state L_Wait_Close p l)
               else ([], addBatchTask (new_check (ca_str k) (ca_pwd k) Login_Check p) l))
         else ([], l))"

definition checkAccountCall ::
    "nat \<Rightarrow> check_acct \<Rightarrow> bool \<Rightarrow> login_state \<Rightarrow> (login_out list \<times> login_state) result" where
  "checkAccountCall now k sucess l =
     (let p = ca_owner k; acct = ucast (ca_acct k)
      in if p \<noteq> NULL \<and> ls_valid (lt_users l p)
         then if \<not> sucess then Inr ([Login_Fail p], set_session_state L_Wait_Close p l)
         else if ca_acct k \<noteq> 0
         then (let kick = (case login_getAccount acct l of Some a \<Rightarrow> kickUserFromGate a l | None \<Rightarrow> [])
               in bind_result (makeTransId (ca_str k @ ca_pwd k @ ls_addr (lt_users l p)) now) (\<lambda>t.
                  let (ok, a, out, l) = giveUserToGate \<lparr>ac_gate = 0, ac_id = acct, ac_tran = t\<rparr> p l;
                      l = l\<lparr>lt_accts := om_set acct a (lt_accts l)\<rparr>
                  in if ok then Inr (kick @ out, l)
                     else Inr (kick @ [Login_Fail p], set_session_state L_Wait_Close p (removeAccount acct l))))
         else Inr ([Login_Name_Fail p], set_session_state L_Wait_Close p l)
         else Inr ([], l))"

section \<open>Registration of a gate\<close>

text \<open>
  The accounts the gate reports. The assertion is there in builds without \<^verbatim>\<open>NDEBUG\<close>.
\<close>

fun register_accounts ::
    "bool \<Rightarrow> u16 \<Rightarrow> (u64 \<times> u32) list \<Rightarrow> login_state \<Rightarrow> (login_out list \<times> login_state) result" where
  "register_accounts ndebug n [] l = Inr ([], l)"
| "register_accounts ndebug n ((a, t) # ds) l =
     (let other = (case login_getAccount a l of Some x \<Rightarrow> ac_gate x \<noteq> n | None \<Rightarrow> False);
          kick = (case login_getAccount a l of Some x \<Rightarrow> if ac_gate x \<noteq> n then kickUserFromGate x l else [] | None \<Rightarrow> [])
      in if other \<and> \<not> ndebug then Inl Assert_Failed
         else bind_result (register_accounts ndebug n ds (addAccount a t n l)) (\<lambda>(out, l). Inr (kick @ out, l)))"

definition login_parseGateRegister ::
    "bool \<Rightarrow> server_version \<Rightarrow> u32 \<Rightarrow> u32 \<times> u32 \<times> u32 \<times> u32 \<Rightarrow> string \<Rightarrow> u32 \<Rightarrow> (u64 \<times> u32) list
     \<Rightarrow> ptr \<Rightarrow> login_state \<Rightarrow> (login_out list \<times> login_state) result" where
  "login_parseGateRegister ndebug me serverid ver ip port accounts c l =
     (let (major, minor, build, svn) = ver; gid = ucast serverid :: u8;
          closing = (if checkVersion me (ucast major) (ucast minor) (ucast build) (ucast svn) then [] else [Close_Gate c]);
          l = put_gate c ((lt_gate l c)\<lparr>lg_id := gid, lg_onlines := word_of_nat (length accounts),
                 lg_ip := ip, lg_port := ucast port\<rparr>) l;
          l = login_addGate (ucast gid) c l
      in bind_result (register_accounts ndebug (ucast gid) accounts l) (\<lambda>(out, l). Inr (closing @ out, l)))"

definition gate_on_close :: "ptr \<Rightarrow> login_state \<Rightarrow> login_state" where
  "gate_on_close c l = login_removeGate c l"


section \<open>The gates of the login server\<close>

interpretation login_gates: peer_table "\<lambda>l. slots_ok (lt_gates l)" "\<lambda>l n. slot_get (lt_gates l) n"
  login_addGate "\<lambda>n c l. l\<lparr>lt_gates := slot_remove n c (lt_gates l)\<rparr>"
  by unfold_locales (simp_all add: login_addGate_def slot_get_add slot_get_remove)

lemma idle_gate_loop_spec:
  "idle_gate_loop f cs b = NULL \<longleftrightarrow> b = NULL \<and> (\<forall>c \<in> set cs. c = NULL)"
  "idle_gate_loop f cs b \<noteq> NULL \<Longrightarrow> idle_gate_loop f cs b \<in> insert b (set cs)
     \<and> (\<forall>c \<in> insert b (set cs). c \<noteq> NULL \<longrightarrow> f (idle_gate_loop f cs b) \<le> f c)"
proof (induction cs arbitrary: b)
  case (Cons c cs)
  {
    case 1
    show ?case
      by (cases "c = NULL"; cases "b = NULL") (simp_all add: Cons(1) del: neq0_conv)
  next
    case 2
    show ?case
    proof (cases "c \<noteq> NULL \<and> (b = NULL \<or> f b > f c)")
      case True
      then have step: "idle_gate_loop f (c # cs) b = idle_gate_loop f cs c" by simp
      show ?thesis
        using Cons(2) [of c] 2 True unfolding step by (auto intro: order_trans less_imp_le)
    next
      case False
      then have step: "idle_gate_loop f (c # cs) b = idle_gate_loop f cs b" by auto
      show ?thesis
        using Cons(2) [of b] 2 False unfolding step by (auto intro: order_trans)
    qed
  }
qed auto

lemma getIdleGate_least:
  assumes "getIdleGate l = c" and "c \<noteq> NULL"
  shows "c \<in> set (lt_gates l)"
    and "d \<in> set (lt_gates l) \<Longrightarrow> d \<noteq> NULL \<Longrightarrow> getBalenceCount (lt_gate l c) \<le> getBalenceCount (lt_gate l d)"
  using idle_gate_loop_spec(2) [of "\<lambda>c. getBalenceCount (lt_gate l c)" "lt_gates l" NULL] assms
  by (auto simp: getIdleGate_def)

lemma getIdleGate_none: "getIdleGate l = NULL \<longleftrightarrow> (\<forall>c \<in> set (lt_gates l). c = NULL)"
  unfolding getIdleGate_def by (simp only: idle_gate_loop_spec(1)) simp

section \<open>A login that succeeds\<close>

lemma makeTransId_total: "\<exists>t. makeTransId s now = Inr t"
proof -
  have "unat (word_of_nat n :: u32) \<le> n" for n
    by (simp add: unsigned_of_nat take_bit_eq_mod)
  then show ?thesis
    by (simp add: makeTransId_def sslCrc32_def crc32_def Let_def not_less [symmetric])
qed

lemma login_check_accepted:
  assumes "ca_owner k = p" and "p \<noteq> NULL" and "ls_valid (lt_users l p)" and "ca_acct k \<noteq> 0"
    and "getIdleGate l = c" and "c \<noteq> NULL"
    and "makeTransId (ca_str k @ ca_pwd k @ ls_addr (lt_users l p)) now = Inr t"
  shows "\<exists>kick l'. checkAccountCall now k True l = Inr (kick @ [User_Login_LN2GT c (ucast (ca_acct k)) t], l')
    \<and> kick = (case login_getAccount (ucast (ca_acct k)) l of Some a \<Rightarrow> kickUserFromGate a l | None \<Rightarrow> [])
    \<and> login_getAccount (ucast (ca_acct k)) l' = Some \<lparr>ac_gate = ucast (lg_id (lt_gate l c)), ac_id = ucast (ca_acct k), ac_tran = t\<rparr>
    \<and> om_find (lt_wait l') t = (case om_find (lt_wait l) t of Some r \<Rightarrow> Some r | None \<Rightarrow> Some p)
    \<and> lt_gates l' = lt_gates l \<and> (\<forall>q. q \<noteq> p \<longrightarrow> lt_users l' q = lt_users l q)
    \<and> lg_ip (lt_gate l' c) = lg_ip (lt_gate l c) \<and> lg_port (lt_gate l' c) = lg_port (lt_gate l c)"
  using assms
  by (simp add: checkAccountCall_def giveUserToGate_def addBalenceTime_def put_session_def put_gate_def
      login_getAccount_def ptr_map_addData_def Let_def split: option.split)

lemma prepar_answers:
  assumes "om_find (lt_wait l) t = Some p" and "p \<noteq> NULL"
  shows "\<exists>l'. parseGateUserPrepar (ucast t) c l =
      ([Login_Success p (lg_ip (lt_gate l c)) (ucast (lg_port (lt_gate l c))) t], l')
    \<and> om_find (lt_wait l') t = None \<and> ls_state (lt_users l' p) = L_Wait_Close"
proof -
  have "ucast (ucast t :: u64) = t" by transfer simp
  with assms show ?thesis
    by (simp add: parseGateUserPrepar_def receiveUserPrepar_def getWaiteSession_def ptr_map_getData_def
        removeWaitSession_def ptr_map_eraseData_def set_session_state_def put_session_def ls_setState_def
        ls_modify_def Let_def)
qed


text \<open>A client that disconnects before the database answers leaves its task behind. When the
  connection object is in use again, the answer is acted on for the new client: the account is given to a
  gate, and the new client is told the transaction id under which it can enter the game.\<close>

theorem stale_login_answer:
  assumes "ca_owner k = p" and "p \<noteq> NULL" and "ca_acct k \<noteq> 0"
    and "getIdleGate l = c" and "c \<noteq> NULL" and "om_find (lt_wait l) t = None"
    and "makeTransId (ca_str k @ ca_pwd k @ addr) now = Inr t"
  shows "\<exists>kick l2 l3. checkAccountCall now k True (ls_on_accept p addr (ls_on_close p l))
      = Inr (kick @ [User_Login_LN2GT c (ucast (ca_acct k)) t], l2)
    \<and> parseGateUserPrepar (ucast t) c l2
      = ([Login_Success p (lg_ip (lt_gate l c)) (ucast (lg_port (lt_gate l c))) t], l3)"
proof -
  let ?l = "ls_on_accept p addr (ls_on_close p l)"
  have same: "ls_valid (lt_users ?l p)" "ls_addr (lt_users ?l p) = addr" "getIdleGate ?l = c"
      "lt_wait ?l = lt_wait l" "lt_gate ?l = lt_gate l"
    using assms(4) by (simp_all add: ls_on_accept_def ls_on_close_def put_session_def getIdleGate_def)
  obtain kick l2 where l2: "checkAccountCall now k True ?l = Inr (kick @ [User_Login_LN2GT c (ucast (ca_acct k)) t], l2)"
      "om_find (lt_wait l2) t = Some p"
      "lg_ip (lt_gate l2 c) = lg_ip (lt_gate l c)" "lg_port (lt_gate l2 c) = lg_port (lt_gate l c)"
    using login_check_accepted [of k p ?l c now t] assms same by auto
  with prepar_answers [OF l2(2) assms(2), of c] show ?thesis by auto
qed

text \<open>Two clients of one address that log in to the same account within one second get the same
  transaction id. The second is sent to a gate like the first, but both answers of the gates concern the first
  one only, which is still told that its login succeeded; the second client gets no answer.\<close>

theorem same_second_login:
  assumes "ca_owner k = p" and "p \<noteq> NULL" and "q \<noteq> NULL" and "p \<noteq> q" and "ca_acct k \<noteq> 0"
    and "ls_valid (lt_users l p)" and "ls_valid (lt_users l q)"
    and "ls_addr (lt_users l q) = ls_addr (lt_users l p)"
    and "getIdleGate l \<noteq> NULL" and "om_find (lt_wait l) t = None"
    and "makeTransId (ca_str k @ ca_pwd k @ ls_addr (lt_users l p)) now = Inr t"
  shows "\<exists>kick1 kick2 c1 c2 l1 l2 l3 ip port.
      checkAccountCall now k True l = Inr (kick1 @ [User_Login_LN2GT c1 (ucast (ca_acct k)) t], l1)
    \<and> checkAccountCall now (k\<lparr>ca_owner := q\<rparr>) True l1 = Inr (kick2 @ [User_Login_LN2GT c2 (ucast (ca_acct k)) t], l2)
    \<and> parseGateUserPrepar (ucast t) c1 l2 = ([Login_Success p ip port t], l3)
    \<and> parseGateUserPrepar (ucast t) c2 l3 = ([], l3)"
proof -
  obtain kick1 l1 where l1: "checkAccountCall now k True l = Inr (kick1 @ [User_Login_LN2GT (getIdleGate l) (ucast (ca_acct k)) t], l1)"
      "om_find (lt_wait l1) t = Some p" "lt_gates l1 = lt_gates l" "lt_users l1 q = lt_users l q"
    using login_check_accepted [of k p l "getIdleGate l" now t] assms by (auto simp del: neq0_conv)
  have idle: "getIdleGate l1 \<noteq> NULL"
    using assms(9) l1(3) by (simp only: getIdleGate_none) simp
  obtain kick2 l2 where l2: "checkAccountCall now (k\<lparr>ca_owner := q\<rparr>) True l1
        = Inr (kick2 @ [User_Login_LN2GT (getIdleGate l1) (ucast (ca_acct k)) t], l2)"
      "om_find (lt_wait l2) t = Some p"
    using login_check_accepted [of "k\<lparr>ca_owner := q\<rparr>" q l1 "getIdleGate l1" now t] assms l1 idle
    by (auto simp del: neq0_conv)
  obtain l3 where l3: "om_find (lt_wait l3) t = None"
      "parseGateUserPrepar (ucast t) (getIdleGate l) l2 = ([Login_Success p (lg_ip (lt_gate l2 (getIdleGate l)))
         (ucast (lg_port (lt_gate l2 (getIdleGate l)))) t], l3)"
    using prepar_answers [OF l2(2) assms(2)] by blast
  have "ucast (ucast t :: u64) = t" by transfer simp
  then have "parseGateUserPrepar (ucast t) (getIdleGate l1) l3 = ([], l3)"
    using l3(1) by (simp add: parseGateUserPrepar_def receiveUserPrepar_def getWaiteSession_def ptr_map_getData_def)
  with l1(1) l2(1) l3(2) show ?thesis by blast
qed

section \<open>Concrete instances\<close>

text \<open>One gate (connection 4, id 7) and two clients of one address, which log in to account 11.\<close>

definition demo_login :: login_state where
  "demo_login = ls_on_accept 2 ''10.0.0.1'' (ls_on_accept 1 ''10.0.0.1'' (login_addGate 7 4
     (put_gate 4 (new_login_gate\<lparr>lg_id := 7, lg_port := 9000\<rparr>) new_login)))"

definition demo_check :: check_acct where
  "demo_check = (new_check ''ann'' ''pw'' Login_Check 1)\<lparr>ca_acct := 11\<rparr>"

lemma demo_login_facts:
  "ca_owner demo_check = 1" "ca_acct demo_check = 11" "ls_valid (lt_users demo_login 1)"
  "ls_valid (lt_users demo_login 2)" "ls_addr (lt_users demo_login 1) = ''10.0.0.1''"
  "ls_addr (lt_users demo_login 2) = ''10.0.0.1''" "getIdleGate demo_login = 4" "om_find (lt_wait demo_login) t = None"
proof -
  show "getIdleGate demo_login = 4" by code_simp
qed (simp_all add: demo_login_def demo_check_def new_check_def new_login_def ls_on_accept_def put_session_def
    login_addGate_def put_gate_def)

theorem stale_login_answer_witness:
  "\<exists>t kick l2. checkAccountCall 1000 demo_check True (ls_on_accept 1 ''10.9.9.9'' (ls_on_close 1 demo_login))
     = Inr (kick @ [User_Login_LN2GT 4 11 t], l2)"
proof -
  obtain t where "makeTransId (ca_str demo_check @ ca_pwd demo_check @ ''10.9.9.9'') 1000 = Inr t"
    using makeTransId_total by blast
  with stale_login_answer [of demo_check 1 demo_login 4 t "''10.9.9.9''" 1000] demo_login_facts
  show ?thesis by (auto simp del: append_assoc)
qed

theorem same_second_login_witness:
  "\<exists>t kick l1 l3 c d. checkAccountCall 1000 demo_check True demo_login = Inr (kick @ [User_Login_LN2GT c 11 t], l1)
     \<and> parseGateUserPrepar (ucast t) d l3 = ([], l3)"
proof -
  obtain t where "makeTransId (ca_str demo_check @ ca_pwd demo_check @ ''10.0.0.1'') 1000 = Inr t"
    using makeTransId_total by blast
  with same_second_login [of demo_check 1 2 demo_login t 1000] demo_login_facts
  show ?thesis by (auto simp del: append_assoc)
qed


end
