(* ===== verification/Database.thy ===== *)
theory Database
  imports Containers Utilities "HOL-Library.Multiset"
begin

text \<open>
  The database access of \<^verbatim>\<open>common/database.cpp\<close>, \<^verbatim>\<open>common/database.h\<close> and
  \<^verbatim>\<open>common/run_object.h\<close>: the main thread puts tasks into queues by type, one or more
  threads per type work them off, and the main thread calls the tasks' callbacks. What a statement does in the
  database is an outcome given to the model. Threads are steps of a transition system; one step is what a thread
  does while it holds no lock or one lock.
\<close>

section \<open>State\<close>

datatype obj_state = Init_Obj | Run_Obj | Wait_Stop | Stop_Obj

datatype query_kind = Store_Query | Use_Query | Trance_Query | Batch_Query

datatype task_state = Doing | Done | Error

text \<open>Tasks are told apart by a number; callbacks and parameters have addresses. A \<open>store\<close> of no known kind is \<open>None\<close>.\<close>

record db_task =
  tk_id :: ptr
  tk_cb :: ptr
  tk_str :: string
  tk_store :: "query_kind option"
  tk_parms :: ptr
  tk_state :: task_state

text \<open>\<open>th_data\<close>: the type of the queue the thread works on.\<close>

record db_thread =
  th_data :: u32
  th_task :: "db_task option"
  th_stop :: bool
  th_connect :: bool

record database =
  db_obj :: obj_state
  db_tasks :: "(u32, db_task list) omap"
  db_threads :: "db_thread list"
  db_results :: "db_task list"

definition NORMAL_THREAD :: u32 where
  "NORMAL_THREAD = 0"

definition new_thread :: "u32 \<Rightarrow> db_thread" where
  "new_thread n = \<lparr>th_data = n, th_task = None, th_stop = False, th_connect = False\<rparr>"

definition new_database :: database where
  "new_database = \<lparr>db_obj = Init_Obj, db_tasks = [], db_threads = [], db_results = []\<rparr>"

definition new_task :: "ptr \<Rightarrow> ptr \<Rightarrow> query_kind option \<Rightarrow> string \<Rightarrow> ptr \<Rightarrow> db_task" where
  "new_task a cb f st p =
     \<lparr>tk_id = a, tk_cb = cb, tk_str = st, tk_store = f, tk_parms = p, tk_state = Doing\<rparr>"

section \<open>Queues\<close>

definition isObjState :: "database \<Rightarrow> obj_state \<Rightarrow> bool" where
  "isObjState d s \<longleftrightarrow> db_obj d = s"

definition isObjStop :: "database \<Rightarrow> bool" where
  "isObjStop d \<longleftrightarrow> db_obj d = Stop_Obj"

definition setObjState :: "obj_state \<Rightarrow> database \<Rightarrow> database" where
  "setObjState s d = d\<lparr>db_obj := s\<rparr>"

definition addTask :: "db_task \<Rightarrow> db_task list \<Rightarrow> db_task list" where
  "addTask t works = works @ [t]"

definition getTask :: "db_task list \<Rightarrow> db_task option \<times> db_task list" where
  "getTask works = (case works of [] \<Rightarrow> (None, []) | t # ts \<Rightarrow> (Some t, ts))"

definition getTaskCount :: "db_task list \<Rightarrow> nat" where
  "getTaskCount works = length works"

definition addThread :: "u32 \<Rightarrow> u32 \<Rightarrow> database \<Rightarrow> database" where
  "addThread n threads d =
     d\<lparr>db_tasks := om_set n [] (db_tasks d),
       db_threads := db_threads d @ (if n \<noteq> NORMAL_THREAD then [new_thread n] else replicate (unat threads) (new_thread n))\<rparr>"

text \<open>\<open>addRealTask\<close>: after \<open>addThread\<close> the type is found, so it calls itself at most once.\<close>

definition addRealTask :: "u32 \<Rightarrow> db_task \<Rightarrow> database \<Rightarrow> database" where
  "addRealTask n t d =
     (case om_find (db_tasks d) n of
        Some works \<Rightarrow> d\<lparr>db_tasks := om_set n (addTask t works) (db_tasks d)\<rparr>
      | None \<Rightarrow>
          let d = addThread n 1 d
          in (case om_find (db_tasks d) n of
                Some works \<Rightarrow> d\<lparr>db_tasks := om_set n (addTask t works) (db_tasks d)\<rparr>
              | None \<Rightarrow> d))"

definition initDatabase :: "u32 \<Rightarrow> database \<Rightarrow> database" where
  "initDatabase threads d = setObjState Run_Obj (addThread NORMAL_THREAD threads d)"

text \<open>The three entry points differ in the kind of the task only.\<close>

definition addQueryTask :: "query_kind \<Rightarrow> ptr \<Rightarrow> ptr \<Rightarrow> string \<Rightarrow> ptr \<Rightarrow> u32 \<Rightarrow> database \<Rightarrow> database" where
  "addQueryTask kind addr cb str p n d =
     (if \<not> isObjState d Run_Obj then d else addRealTask n (new_task addr cb (Some kind) str p) d)"

definition addSQueryTask :: "ptr \<Rightarrow> ptr \<Rightarrow> string \<Rightarrow> ptr \<Rightarrow> u32 \<Rightarrow> database \<Rightarrow> database" where
  "addSQueryTask = addQueryTask Store_Query"

definition addUQueryTask :: "ptr \<Rightarrow> ptr \<Rightarrow> string \<Rightarrow> ptr \<Rightarrow> u32 \<Rightarrow> database \<Rightarrow> database" where
  "addUQueryTask = addQueryTask Use_Query"

definition db_addBatchTask :: "ptr \<Rightarrow> ptr \<Rightarrow> string \<Rightarrow> ptr \<Rightarrow> u32 \<Rightarrow> database \<Rightarrow> database" where
  "db_addBatchTask = addQueryTask Batch_Query"

definition addDone :: "db_task \<Rightarrow> database \<Rightarrow> database" where
  "addDone t d = d\<lparr>db_results := db_results d @ [t]\<rparr>"

section \<open>The threads\<close>

text \<open>How the execution of a task can end: the exceptions caught in \<open>work\<close>, and the connection
  found closed before the execution.\<close>

datatype outcome =
    Query_Ok
  | Not_Connected
  | Bad_Query int
  | Bad_Conversion
  | Mysql_Exception
  | Std_Exception
  | Any_Exception

definition take_task :: "nat \<Rightarrow> database \<Rightarrow> database" where
  "take_task i d =
     (let th = db_threads d ! i
      in case om_find (db_tasks d) (th_data th) of
           Some works \<Rightarrow>
             (let (t, works) = getTask works
              in d\<lparr>db_tasks := om_set (th_data th) works (db_tasks d),
                   db_threads := (db_threads d)[i := th\<lparr>th_task := t\<rparr>]\<rparr>)
         | None \<Rightarrow> d)"

text \<open>One round of the loop in \<open>work\<close> for the task the thread holds.\<close>

definition work_round :: "nat \<Rightarrow> outcome \<Rightarrow> database \<Rightarrow> database" where
  "work_round i out d =
     (let th = db_threads d ! i
      in case th_task th of
           None \<Rightarrow> d
         | Some t \<Rightarrow>
             let finish = (\<lambda>s d. addDone (t\<lparr>tk_state := s\<rparr>) (d\<lparr>db_threads := (db_threads d)[i := th\<lparr>th_task := None\<rparr>]\<rparr>))
             in (case out of
                   Not_Connected \<Rightarrow> d
                 | Query_Ok \<Rightarrow> take_task i (finish (if tk_store t = None then Error else Done) d)
                 | Bad_Query code \<Rightarrow>
                     if code \<noteq> 2013 \<and> code \<noteq> 2006
                     then (let d = finish Error d
                           in d\<lparr>db_threads := (db_threads d)[i := (db_threads d ! i)\<lparr>th_connect := False\<rparr>]\<rparr>)
                     else d\<lparr>db_threads := (db_threads d)[i := th\<lparr>th_connect := False\<rparr>]\<rparr>
                 | Bad_Conversion \<Rightarrow> finish Error d
                 | Mysql_Exception \<Rightarrow> finish Error d
                 | Std_Exception \<Rightarrow> d
                 | Any_Exception \<Rightarrow> d))"

definition isDone :: "db_thread \<Rightarrow> bool" where
  "isDone th \<longleftrightarrow> th_task th = None"

definition realConnect :: "bool \<Rightarrow> db_thread \<Rightarrow> bool \<times> db_thread" where
  "realConnect ok th = (if th_connect th then (True, th) else (ok, th\<lparr>th_connect := ok\<rparr>))"

section \<open>The main thread\<close>

fun stop_threads :: "db_thread list \<Rightarrow> bool \<times> db_thread list" where
  "stop_threads [] = (True, [])"
| "stop_threads (th # ths) =
     (if isDone th then (let (b, ths') = stop_threads ths in (b, th\<lparr>th_stop := True\<rparr> # ths'))
      else (False, th # ths))"

definition db_checkStop :: "database \<Rightarrow> database" where
  "db_checkStop d =
     (if isObjState d Wait_Stop \<and> list_all (\<lambda>(n, works). getTaskCount works = 0) (db_tasks d)
      then (let (all, ths) = stop_threads (db_threads d); d = d\<lparr>db_threads := ths\<rparr>
            in if all then setObjState Stop_Obj d else d)
      else d)"

text \<open>\<open>run\<close> returns the tasks whose callbacks it calls, in this order.\<close>

definition db_run :: "database \<Rightarrow> db_task list \<times> database" where
  "db_run d =
     (let d = db_checkStop d
      in if isObjState d Wait_Stop \<or> isObjState d Run_Obj then (db_results d, d\<lparr>db_results := []\<rparr>) else ([], d))"

definition db_shutDown :: "database \<Rightarrow> database" where
  "db_shutDown d = d\<lparr>db_tasks := [], db_threads := []\<rparr>"

section \<open>Runs\<close>

text \<open>
  \<open>ty\<close> gives the type each task is put in under. A label says what the environment sees: a task
  comes in, callbacks are called, or a thread does something.
\<close>

datatype db_label = Put ptr | Call "ptr list" | Tau

inductive db_step :: "(ptr \<Rightarrow> u32) \<Rightarrow> database \<Rightarrow> db_label \<Rightarrow> database \<Rightarrow> bool" for ty where
  put: "isObjState d Run_Obj \<Longrightarrow>
    db_step ty d (Put a) (addQueryTask kind a cb str p (ty a) d)"
| get: "i < length (db_threads d) \<Longrightarrow> \<not> th_stop (db_threads d ! i) \<Longrightarrow> th_task (db_threads d ! i) = None \<Longrightarrow>
    db_step ty d Tau (take_task i d)"
| work: "i < length (db_threads d) \<Longrightarrow> db_step ty d Tau (work_round i out d)"
| connect: "i < length (db_threads d) \<Longrightarrow>
    db_step ty d Tau (d\<lparr>db_threads := (db_threads d)[i := snd (realConnect ok (db_threads d ! i))]\<rparr>)"
| run: "db_run d = (ts, d') \<Longrightarrow> db_step ty d (Call (map tk_id ts)) d'"
| stop: "db_step ty d Tau (setObjState Wait_Stop d)"

inductive db_path :: "(ptr \<Rightarrow> u32) \<Rightarrow> database \<Rightarrow> ptr list \<Rightarrow> ptr list \<Rightarrow> database \<Rightarrow> bool" for ty d0 where
  start: "db_path ty d0 [] [] d0"
| put: "db_path ty d0 sub calls d \<Longrightarrow> db_step ty d (Put a) d' \<Longrightarrow> db_path ty d0 (sub @ [a]) calls d'"
| call: "db_path ty d0 sub calls d \<Longrightarrow> db_step ty d (Call as) d' \<Longrightarrow> db_path ty d0 sub (calls @ as) d'"
| tau: "db_path ty d0 sub calls d \<Longrightarrow> db_step ty d Tau d' \<Longrightarrow> db_path ty d0 sub calls d'"

section \<open>Order and completeness\<close>

definition held :: "db_thread \<Rightarrow> ptr list" where
  "held th = (case th_task th of Some t \<Rightarrow> [tk_id t] | None \<Rightarrow> [])"

definition inflight :: "u32 \<Rightarrow> db_thread list \<Rightarrow> ptr list" where
  "inflight n ths = concat (map (\<lambda>th. if th_data th = n then held th else []) ths)"

definition waiting :: "u32 \<Rightarrow> database \<Rightarrow> ptr list" where
  "waiting n d = (case om_find (db_tasks d) n of Some works \<Rightarrow> map tk_id works | None \<Rightarrow> [])"

definition pending :: "u32 \<Rightarrow> database \<Rightarrow> ptr list" where
  "pending n d = inflight n (db_threads d) @ waiting n d"

definition workers :: "u32 \<Rightarrow> database \<Rightarrow> nat" where
  "workers n d = length (filter (\<lambda>th. th_data th = n) (db_threads d))"

definition of_type :: "(ptr \<Rightarrow> u32) \<Rightarrow> u32 \<Rightarrow> ptr list \<Rightarrow> ptr list" where
  "of_type ty n xs = filter (\<lambda>a. ty a = n) xs"

text \<open>The tasks of a type that the threads hold or the queue contains have this type; every type but
  the normal one has one thread; and what has come in is what has gone out, is finished, held or queued, in
  this order where there is one thread.\<close>

definition db_ok :: "(ptr \<Rightarrow> u32) \<Rightarrow> ptr list \<Rightarrow> ptr list \<Rightarrow> database \<Rightarrow> bool" where
  "db_ok ty sub calls d \<longleftrightarrow>
     (\<forall>n. \<forall>a \<in> set (pending n d). ty a = n)
   \<and> (\<forall>n. n \<noteq> NORMAL_THREAD \<longrightarrow> workers n d = (if om_find (db_tasks d) n = None then 0 else 1))
   \<and> (\<forall>n. n \<noteq> NORMAL_THREAD \<longrightarrow>
        of_type ty n sub = of_type ty n (calls @ map tk_id (db_results d)) @ pending n d)
   \<and> (\<forall>n. mset (of_type ty n sub) = mset (of_type ty n (calls @ map tk_id (db_results d)) @ pending n d))"

lemma of_type_simps [simp]:
  "of_type ty n [] = []" "of_type ty n (xs @ ys) = of_type ty n xs @ of_type ty n ys"
  "of_type ty n [a] = (if ty a = n then [a] else [])"
  by (simp_all add: of_type_def)

lemma inflight_split:
  assumes "i < length ths"
  shows "\<exists>xs ys. (\<forall>th. th_data th = th_data (ths ! i) \<longrightarrow>
      inflight n (ths[i := th]) = xs @ (if th_data (ths ! i) = n then held th else []) @ ys)
    \<and> inflight n ths = xs @ (if th_data (ths ! i) = n then held (ths ! i) else []) @ ys
    \<and> (length (filter (\<lambda>th. th_data th = n) ths) = 1 \<longrightarrow> th_data (ths ! i) = n \<longrightarrow> xs = [] \<and> ys = [])"
proof (intro exI conjI allI impI)
  have split: "ths = take i ths @ ths ! i # drop (Suc i) ths"
    using assms by (rule id_take_nth_drop)
  have none: "filter (\<lambda>th. th_data th = n) zs = [] \<Longrightarrow> inflight n zs = []" for zs
    by (induction zs) (auto simp: inflight_def split: if_splits)
  have app: "inflight n (us @ z # vs) = inflight n us @ (if th_data z = n then held z else []) @ inflight n vs" for us z vs
    by (simp add: inflight_def)
  show "inflight n (ths[i := th]) = inflight n (take i ths) @ (if th_data (ths ! i) = n then held th else []) @ inflight n (drop (Suc i) ths)"
    if "th_data th = th_data (ths ! i)" for th
    unfolding upd_conv_take_nth_drop [OF assms] app by (simp add: that)
  show "inflight n ths = inflight n (take i ths) @ (if th_data (ths ! i) = n then held (ths ! i) else []) @ inflight n (drop (Suc i) ths)"
    by (subst split) (rule app)
  assume one: "length (filter (\<lambda>th. th_data th = n) ths) = 1" "th_data (ths ! i) = n"
  have "length (filter (\<lambda>th. th_data th = n) (take i ths @ ths ! i # drop (Suc i) ths)) = 1"
    using one(1) by (simp only: split [symmetric])
  then have "filter (\<lambda>th. th_data th = n) (take i ths) = []" "filter (\<lambda>th. th_data th = n) (drop (Suc i) ths) = []"
    using one(2) by auto
  then show "inflight n (take i ths) = []" "inflight n (drop (Suc i) ths) = []" by (simp_all add: none)
qed

lemma workers_update:
  "i < length ths \<Longrightarrow> th_data th = th_data (ths ! i) \<Longrightarrow>
   length (filter (\<lambda>th. th_data th = n) (ths[i := th])) = length (filter (\<lambda>th. th_data th = n) ths)"
  by (induction ths arbitrary: i) (auto split: nat.split simp: nth_Cons' split: if_splits)

lemma db_okD:
  assumes "db_ok ty sub calls d"
  shows "a \<in> set (pending n d) \<Longrightarrow> ty a = n"
    and "n \<noteq> NORMAL_THREAD \<Longrightarrow> workers n d = (if om_find (db_tasks d) n = None then 0 else 1)"
    and "n \<noteq> NORMAL_THREAD \<Longrightarrow> of_type ty n sub = of_type ty n (calls @ map tk_id (db_results d)) @ pending n d"
    and "mset (of_type ty n sub) = mset (of_type ty n (calls @ map tk_id (db_results d)) @ pending n d)"
  using assms by (simp_all add: db_ok_def)

text \<open>A step that leaves the accounts of every type alone.\<close>

lemma db_ok_same:
  assumes "db_ok ty sub calls d"
    and "\<And>n. pending n d' = pending n d" and "\<And>n. workers n d' = workers n d"
    and "\<And>n. (om_find (db_tasks d') n = None) = (om_find (db_tasks d) n = None)"
    and "db_results d' = db_results d"
  shows "db_ok ty sub calls d'"
  using assms unfolding db_ok_def by simp

text \<open>A finished task goes from the front of its type's pending tasks to the results.\<close>

lemma db_ok_finish:
  assumes ok: "db_ok ty sub calls d"
    and rest: "\<And>n. n \<noteq> m \<Longrightarrow> pending n d' = pending n d"
    and moved: "mset (pending m d) = mset (tk_id t # pending m d')"
    and first: "m \<noteq> NORMAL_THREAD \<Longrightarrow> pending m d = tk_id t # pending m d'"
    and "\<And>n. workers n d' = workers n d"
    and "\<And>n. (om_find (db_tasks d') n = None) = (om_find (db_tasks d) n = None)"
    and res: "db_results d' = db_results d @ [t]"
  shows "db_ok ty sub calls d'"
proof -
  have mem: "set (pending m d) = insert (tk_id t) (set (pending m d'))"
    using arg_cong [OF moved, of set_mset] by simp
  then have ty: "ty (tk_id t) = m"
    using db_okD(1) [OF ok] by simp
  have "set (pending n d') \<subseteq> set (pending n d)" for n
    using rest [of n] mem by (cases "n = m") auto
  then have "\<forall>n. \<forall>a \<in> set (pending n d'). ty a = n"
    using db_okD(1) [OF ok] by blast
  moreover have "of_type ty n sub = of_type ty n (calls @ map tk_id (db_results d')) @ pending n d'"
    if "n \<noteq> NORMAL_THREAD" for n
    using db_okD(3) [OF ok that] first rest [of n] ty res that by (cases "n = m") auto
  moreover have "mset (of_type ty n sub) = mset (of_type ty n (calls @ map tk_id (db_results d')) @ pending n d')" for n
    using db_okD(4) [OF ok, of n] moved rest [of n] ty res by (cases "n = m") auto
  ultimately show ?thesis
    using db_okD(2) [OF ok] assms(5,6) unfolding db_ok_def by simp
qed

lemma take_task_keeps:
  assumes i: "i < length (db_threads d)" and "th_task (db_threads d ! i) = None"
    and normal: "\<And>n. n \<noteq> NORMAL_THREAD \<Longrightarrow> workers n d = (if om_find (db_tasks d) n = None then 0 else 1)"
  shows "workers n (take_task i d) = workers n d"
    and "(om_find (db_tasks (take_task i d)) n = None) = (om_find (db_tasks d) n = None)"
    and "db_results (take_task i d) = db_results d"
    and "mset (pending n (take_task i d)) = mset (pending n d)"
    and "n \<noteq> NORMAL_THREAD \<Longrightarrow> pending n (take_task i d) = pending n d"
proof -
  let ?th = "db_threads d ! i"
  show "workers n (take_task i d) = workers n d"
    using workers_update [OF i, of "?th\<lparr>th_task := t\<rparr>" n for t]
    by (cases "om_find (db_tasks d) (th_data ?th)") (simp_all add: take_task_def Let_def workers_def case_prod_unfold)
  show "(om_find (db_tasks (take_task i d)) n = None) = (om_find (db_tasks d) n = None)"
    by (simp add: take_task_def Let_def case_prod_unfold split: option.split)
  show "db_results (take_task i d) = db_results d"
    by (simp add: take_task_def Let_def case_prod_unfold split: option.split)
  obtain xs ys where split: "\<forall>th. th_data th = th_data ?th \<longrightarrow>
      inflight n ((db_threads d)[i := th]) = xs @ (if th_data ?th = n then held th else []) @ ys"
    "inflight n (db_threads d) = xs @ (if th_data ?th = n then held ?th else []) @ ys"
    "length (filter (\<lambda>th. th_data th = n) (db_threads d)) = 1 \<longrightarrow> th_data ?th = n \<longrightarrow> xs = [] \<and> ys = []"
    using inflight_split [OF i, of n] by blast
  have none: "held ?th = []" using assms(2) by (simp add: held_def)
  have after: "pending n (take_task i d) =
      (case om_find (db_tasks d) (th_data ?th) of
         Some (t # ts) \<Rightarrow> if th_data ?th = n then xs @ tk_id t # ys @ map tk_id ts else pending n d
       | _ \<Rightarrow> pending n d)"
    using split(1,2) none
    by (auto simp: take_task_def Let_def getTask_def pending_def waiting_def held_def split: option.split list.split)
  have before: "om_find (db_tasks d) n = Some (t # ts) \<Longrightarrow> pending n d = xs @ ys @ tk_id t # map tk_id ts"
    if "th_data ?th = n" for t ts
    using split(2) none that by (simp add: pending_def waiting_def)
  show "mset (pending n (take_task i d)) = mset (pending n d)"
    using after before by (auto split: option.split list.split)
  assume n: "n \<noteq> NORMAL_THREAD"
  have "xs = [] \<and> ys = []" if "th_data ?th = n" "om_find (db_tasks d) n \<noteq> None"
    using split(3) normal [OF n] that by (simp add: workers_def)
  then show "pending n (take_task i d) = pending n d"
    using after before by (auto split: option.split list.split)
qed

lemma db_ok_take:
  assumes "db_ok ty sub calls d" and "i < length (db_threads d)" and "th_task (db_threads d ! i) = None"
  shows "db_ok ty sub calls (take_task i d)"
proof -
  note k = take_task_keeps [OF assms(2,3) db_okD(2) [OF assms(1)]]
  have "set (pending n (take_task i d)) = set (pending n d)" for n
    using arg_cong [OF k(4), of set_mset] by simp
  then show ?thesis
    using assms(1) k unfolding db_ok_def by simp
qed


lemma inflight_new [simp]: "inflight n (ths @ replicate k (new_thread m)) = inflight n ths"
  "inflight n (ths @ [new_thread m]) = inflight n ths"
  by (simp_all add: inflight_def new_thread_def held_def)

lemma pending_put: "pending n (addRealTask m t d) = pending n d @ (if n = m then [tk_id t] else [])"
  by (auto simp: pending_def waiting_def addRealTask_def addThread_def addTask_def Let_def split: option.split)

lemma workers_put:
  "n \<noteq> NORMAL_THREAD \<Longrightarrow> workers n (addRealTask m t d) =
     (if n = m \<and> om_find (db_tasks d) m = None then Suc (workers n d) else workers n d)"
  by (auto simp: workers_def addRealTask_def addThread_def Let_def new_thread_def split: option.split)

lemma db_ok_put:
  assumes ok: "db_ok ty sub calls d" and "ty (tk_id t) = m"
  shows "db_ok ty (sub @ [tk_id t]) calls (addRealTask m t d)"
proof -
  have res: "db_results (addRealTask m t d) = db_results d"
    by (simp add: addRealTask_def addThread_def Let_def split: option.split)
  have tasks: "(om_find (db_tasks (addRealTask m t d)) n = None) = (om_find (db_tasks d) n = None \<and> n \<noteq> m)" for n
    by (simp add: addRealTask_def addThread_def Let_def split: option.split)
  show ?thesis
    using assms db_okD [OF ok] unfolding db_ok_def by (simp add: pending_put workers_put res tasks) blast
qed

lemma workers_pos: "i < length ths \<Longrightarrow> th_data (ths ! i) = n \<Longrightarrow> 0 < length (filter (\<lambda>th. th_data th = n) ths)"
  by (auto simp: filter_empty_conv intro: nth_mem)

lemma db_ok_thread:
  assumes "db_ok ty sub calls d" and i: "i < length (db_threads d)"
    and "th_data th = th_data (db_threads d ! i)" and "th_task th = th_task (db_threads d ! i)"
  shows "db_ok ty sub calls (d\<lparr>db_threads := (db_threads d)[i := th]\<rparr>)"
proof -
  have "inflight n ((db_threads d)[i := th]) = inflight n (db_threads d)" for n
    using inflight_split [OF i, of n] assms(3,4) by (auto simp: held_def)
  moreover have "workers n (d\<lparr>db_threads := (db_threads d)[i := th]\<rparr>) = workers n d" for n
    by (simp add: workers_def workers_update [OF i assms(3)])
  ultimately show ?thesis
    by (intro db_ok_same [OF assms(1)]) (simp_all add: pending_def waiting_def)
qed

lemma db_ok_done:
  assumes ok: "db_ok ty sub calls d" and i: "i < length (db_threads d)" and t: "th_task (db_threads d ! i) = Some t"
  shows "db_ok ty sub calls (addDone (t\<lparr>tk_state := s\<rparr>)
    (d\<lparr>db_threads := (db_threads d)[i := (db_threads d ! i)\<lparr>th_task := None\<rparr>]\<rparr>))"
    (is "db_ok _ _ _ ?d")
proof (rule db_ok_finish [OF ok, where m = "th_data (db_threads d ! i)" and t = "t\<lparr>tk_state := s\<rparr>"])
  let ?th = "db_threads d ! i" and ?m = "th_data (db_threads d ! i)"
  have none: "held (?th\<lparr>th_task := None\<rparr>) = []" and some: "held ?th = [tk_id t]"
    using t by (simp_all add: held_def)
  show "pending n ?d = pending n d" if "n \<noteq> ?m" for n
    using inflight_split [OF i, of n] that by (auto simp: pending_def waiting_def addDone_def)
  obtain xs ys where xy: "inflight ?m (db_threads d) = xs @ tk_id t # ys"
      "inflight ?m ((db_threads d)[i := ?th\<lparr>th_task := None\<rparr>]) = xs @ ys"
      "length (filter (\<lambda>th. th_data th = ?m) (db_threads d)) = 1 \<longrightarrow> xs = [] \<and> ys = []"
    using inflight_split [OF i, of ?m] none some by auto
  then show "mset (pending ?m d) = mset (tk_id (t\<lparr>tk_state := s\<rparr>) # pending ?m ?d)"
    by (simp add: pending_def waiting_def addDone_def)
  show "pending ?m d = tk_id (t\<lparr>tk_state := s\<rparr>) # pending ?m ?d" if "?m \<noteq> NORMAL_THREAD"
  proof -
    have "length (filter (\<lambda>th. th_data th = ?m) (db_threads d)) = 1"
      using db_okD(2) [OF ok that] workers_pos [OF i refl] by (auto simp: workers_def split: if_splits)
    with xy show ?thesis by (simp add: pending_def waiting_def addDone_def)
  qed
  show "workers n ?d = workers n d" for n
    by (simp add: workers_def addDone_def workers_update [OF i])
qed (simp_all add: addDone_def)

lemma db_ok_work:
  assumes ok: "db_ok ty sub calls d" and i: "i < length (db_threads d)"
  shows "db_ok ty sub calls (work_round i out d)"
proof (cases "th_task (db_threads d ! i)")
  case None
  with ok show ?thesis by (simp add: work_round_def)
next
  case (Some t)
  let ?d = "\<lambda>s. addDone (t\<lparr>tk_state := s\<rparr>)
    (d\<lparr>db_threads := (db_threads d)[i := (db_threads d ! i)\<lparr>th_task := None\<rparr>]\<rparr>)"
  have fin: "db_ok ty sub calls (?d s)" for s
    by (rule db_ok_done [OF ok i Some])
  have thr: "db_threads (?d s) = (db_threads d)[i := (db_threads d ! i)\<lparr>th_task := None\<rparr>]" for s
    by (simp add: addDone_def)
  have "db_ok ty sub calls (take_task i (?d s))" for s
    using db_ok_take [OF fin, of i s] thr i by simp
  moreover have "db_ok ty sub calls ((?d Error)\<lparr>db_threads := (db_threads (?d Error))[i := (db_threads (?d Error) ! i)\<lparr>th_connect := False\<rparr>]\<rparr>)"
    by (rule db_ok_thread [OF fin]) (simp_all add: thr i)
  moreover have "db_ok ty sub calls (d\<lparr>db_threads := (db_threads d)[i := (db_threads d ! i)\<lparr>th_connect := False\<rparr>]\<rparr>)"
    by (rule db_ok_thread [OF ok i]) simp_all
  ultimately show ?thesis
    using ok fin Some unfolding work_round_def Let_def by (cases out) simp_all
qed


lemma stop_threads_frame:
  "inflight n (snd (stop_threads ths)) = inflight n ths"
  "length (filter (\<lambda>th. th_data th = n) (snd (stop_threads ths))) = length (filter (\<lambda>th. th_data th = n) ths)"
  by (induction ths) (auto simp: inflight_def held_def Let_def case_prod_unfold)

lemma checkStop_frame:
  "pending n (db_checkStop d) = pending n d" "workers n (db_checkStop d) = workers n d"
  "db_tasks (db_checkStop d) = db_tasks d" "db_results (db_checkStop d) = db_results d"
  using stop_threads_frame [of n "db_threads d"]
  by (auto simp: db_checkStop_def setObjState_def pending_def waiting_def workers_def Let_def case_prod_unfold)

lemma db_ok_run:
  assumes "db_ok ty sub calls d" and "db_run d = (ts, d')"
  shows "db_ok ty sub (calls @ map tk_id ts) d'"
proof -
  let ?d = "db_checkStop d"
  have ok: "db_ok ty sub calls ?d"
    by (rule db_ok_same [OF assms(1)]) (simp_all add: checkStop_frame)
  show ?thesis
  proof (cases "isObjState ?d Wait_Stop \<or> isObjState ?d Run_Obj")
    case True
    then have "ts = db_results ?d" "d' = ?d\<lparr>db_results := []\<rparr>"
      using assms(2) by (auto simp: db_run_def Let_def)
    with ok show ?thesis
      unfolding db_ok_def by (simp add: pending_def waiting_def workers_def)
  next
    case False
    with assms(2) ok show ?thesis by (auto simp: db_run_def Let_def)
  qed
qed

lemma addRealTask_id: "tk_id (new_task a cb f st p) = a"
  by (simp add: new_task_def)

lemma db_path_ok:
  assumes "db_path ty d0 sub calls d" and "db_ok ty [] [] d0"
  shows "db_ok ty sub calls d"
  using assms
proof (induction rule: db_path.induct)
  case (put sub calls d a d')
  from put(2,3) put(4) show ?case
    by (cases rule: db_step.cases)
      (auto simp: addQueryTask_def dest: db_ok_put [where m = "ty a" and t = "new_task a cb f st p" for cb f st p]
        simp: addRealTask_id)
next
  case (call sub calls d as d')
  from call(2,3,4) show ?case by (cases rule: db_step.cases) (auto intro: db_ok_run)
next
  case (tau sub calls d d')
  then have ok: "db_ok ty sub calls d" by simp
  from tau(2) show ?case
  proof (cases rule: db_step.cases)
    case (get i)
    with db_ok_take [OF ok] show ?thesis by simp
  next
    case (work i out)
    with db_ok_work [OF ok] show ?thesis by simp
  next
    case (connect i ok')
    then show ?thesis
      using db_ok_thread [OF ok, of i "snd (realConnect ok' (db_threads d ! i))"] by (auto simp: realConnect_def)
  next
    case stop
    then show ?thesis
      using db_ok_same [OF ok, of d'] by (simp add: setObjState_def pending_def waiting_def workers_def)
  qed
qed

lemma db_ok_init: "db_ok ty [] [] (initDatabase threads new_database)"
proof -
  have "inflight n (replicate k (new_thread m)) = []" for n k m
    using inflight_new(1) [of n "[]" k m] by (simp add: inflight_def)
  then show ?thesis
    by (auto simp: db_ok_def initDatabase_def setObjState_def addThread_def new_database_def pending_def waiting_def
        workers_def new_thread_def)
qed

text \<open>C28: Every task put into the running database is, at any time, in exactly one place: its callback has
  been called, or it is finished, held by a thread or queued. The tasks of each type other than the
  normal one are served strictly in the order in which they came in, also across lost connections and failed
  statements.\<close>

theorem db_fifo:
  assumes "db_path ty (initDatabase threads new_database) sub calls d"
  shows "mset (of_type ty n sub) = mset (of_type ty n (calls @ map tk_id (db_results d)) @ pending n d)
    \<and> (n \<noteq> NORMAL_THREAD \<longrightarrow>
         of_type ty n sub = of_type ty n (calls @ map tk_id (db_results d)) @ pending n d)"
  using db_okD(3,4) [OF db_path_ok [OF assms db_ok_init]] by simp_all


section \<open>Stopping\<close>

lemma stop_threads_idle: "list_all isDone ths \<Longrightarrow> fst (stop_threads ths)"
  by (induction ths) (auto simp: case_prod_unfold Let_def)

text \<open>Stopping loses answers. When the queues are empty and the threads idle, \<open>run\<close> of a waiting
  database stops it and calls no callback, although finished tasks are there; the stopped database takes no new task
  and never calls one of their callbacks, however often \<open>run\<close> is called.\<close>

theorem stopping_loses_results:
  assumes "isObjState d Wait_Stop" and "list_all (\<lambda>(n, works). works = []) (db_tasks d)"
    and "list_all isDone (db_threads d)"
  shows "\<exists>d'. db_run d = ([], d') \<and> isObjStop d' \<and> db_results d' = db_results d
    \<and> addQueryTask kind a cb str p n d' = d' \<and> db_run d' = ([], d')"
proof -
  let ?d = "setObjState Stop_Obj (d\<lparr>db_threads := snd (stop_threads (db_threads d))\<rparr>)"
  have "db_checkStop d = ?d"
    using assms stop_threads_idle [OF assms(3)]
    by (simp add: db_checkStop_def getTaskCount_def case_prod_unfold Let_def)
  moreover have "db_checkStop ?d = ?d" by (simp add: db_checkStop_def isObjState_def setObjState_def)
  ultimately show ?thesis
    by (simp add: db_run_def Let_def isObjState_def isObjStop_def setObjState_def addQueryTask_def)
qed

section \<open>Concrete runs\<close>

text \<open>Tasks 1 and 2 of types 3 and 1: what their threads do is not ordered.\<close>

definition demo_type :: "ptr \<Rightarrow> u32" where
  "demo_type a = (if a = 1 then 3 else 1)"

definition demo_db :: database where
  "demo_db = work_round 2 Query_Ok (take_task 2 (addSQueryTask 2 0 ''select'' 0 1 (addSQueryTask 1 0 ''replace'' 0 3
     (initDatabase 1 new_database))))"

lemma db_step_put: "isObjState d Run_Obj \<Longrightarrow> ty a = n \<Longrightarrow> db_step ty d (Put a) (addSQueryTask a cb str p n d)"
  unfolding addSQueryTask_def using db_step.put [of d ty a Store_Query cb str p] by simp

lemma demo_db_path: "db_path demo_type (initDatabase 1 new_database) [1, 2] [2] (snd (db_run demo_db))"
proof -
  let ?d0 = "initDatabase 1 new_database"
  let ?d1 = "addSQueryTask 1 0 ''replace'' 0 3 ?d0"
  let ?d2 = "addSQueryTask 2 0 ''select'' 0 1 ?d1"
  let ?d3 = "take_task 2 ?d2"
  have run: "isObjState ?d0 Run_Obj" "isObjState ?d1 Run_Obj"
    and len: "length (db_threads ?d2) = 3" "length (db_threads ?d3) = 3"
    and idle: "\<not> th_stop (db_threads ?d2 ! 2)" "th_task (db_threads ?d2 ! 2) = None"
    and out: "map tk_id (fst (db_run demo_db)) = [2]"
    by code_simp+
  have "db_path demo_type ?d0 ([] @ [1]) [] ?d1"
    by (rule db_path.put [OF db_path.start db_step_put]) (simp_all add: run demo_type_def del: One_nat_def)
  then have "db_path demo_type ?d0 (([] @ [1]) @ [2]) [] ?d2"
    by (rule db_path.put [OF _ db_step_put]) (simp_all add: run demo_type_def del: One_nat_def)
  then have "db_path demo_type ?d0 (([] @ [1]) @ [2]) [] ?d3"
    by (rule db_path.tau [OF _ db_step.get]) (simp_all add: len idle del: One_nat_def)
  then have "db_path demo_type ?d0 (([] @ [1]) @ [2]) [] demo_db"
    unfolding demo_db_def by (rule db_path.tau [OF _ db_step.work]) (simp add: len del: One_nat_def)
  then have "db_path demo_type ?d0 (([] @ [1]) @ [2]) ([] @ map tk_id (fst (db_run demo_db))) (snd (db_run demo_db))"
    by (rule db_path.call [OF _ db_step.run]) simp
  then show ?thesis unfolding out by simp
qed

text \<open>The order holds for one type only: the statement that saves a hero and the query for the same hero
  have different types, and the query that came in later can be answered before the hero is saved.\<close>

theorem query_overtakes_save:
  "demo_type 1 \<noteq> demo_type 2 \<and>
   (\<exists>d. db_path demo_type (initDatabase 1 new_database) [1, 2] [2] d \<and> pending 3 d = [1])"
proof -
  have "pending 3 (snd (db_run demo_db)) = [1]" by code_simp
  with demo_db_path show ?thesis by (auto simp: demo_type_def)
qed

theorem db_fifo_witness: "of_type demo_type 3 [1, 2] = [1] \<and> pending 3 (snd (db_run demo_db)) = [1]"
  using db_fifo [OF demo_db_path, of 3] by (simp add: of_type_def demo_type_def NORMAL_THREAD_def) code_simp

theorem stopping_loses_results_witness:
  "\<exists>d'. db_run (new_database\<lparr>db_obj := Wait_Stop, db_results := [new_task 1 0 (Some Store_Query) [] 0]\<rparr>) = ([], d')
     \<and> isObjStop d' \<and> db_results d' \<noteq> []"
proof -
  let ?d = "new_database\<lparr>db_obj := Wait_Stop, db_results := [new_task 1 0 (Some Store_Query) [] 0]\<rparr>"
  have "isObjState ?d Wait_Stop" "db_tasks ?d = []" "db_threads ?d = []" "db_results ?d \<noteq> []"
    by (simp_all add: isObjState_def new_database_def)
  with stopping_loses_results [of ?d Store_Query 0 0 "[]" 0 0] show ?thesis by auto
qed

end
