(* ===== verification/Db_Quest.thy ===== *)
theory Db_Quest
  imports Dream_Hero Login Database
begin

text \<open>
  The database server: \<^verbatim>\<open>databaseserver/db_quest.cpp\<close> (queries, what their rows become, and
  the messages to the game servers), \<^verbatim>\<open>databaseserver/game_session.cpp\<close>,
  \<^verbatim>\<open>databaseserver/game_manager.cpp\<close> and \<^verbatim>\<open>databaseserver/CharDatabase.cpp\<close>.
  A query result is a list of rows, records of the columns read, or nothing when the query failed.
\<close>

section \<open>Data\<close>

text \<open>\<^verbatim>\<open>tgHeroData\<close>; the message starts empty.\<close>

record hero_query =
  hq_account :: u64
  hq_tranid :: u32
  hq_gsid :: u16
  hq_info :: hero_db

record toy_verify =
  tv_account :: u64
  tv_tranid :: u32
  tv_gsid :: u16
  tv_cd_key :: string

record character_row =
  cr_account_id :: u64
  cr_level :: u32
  cr_name :: string
  cr_action_point :: i32
  cr_gold :: i32
  cr_diamand :: i32
  cr_suits_name :: string

record equip_db_row =
  er_equip_id :: u64
  er_equip_config_id :: i32
  er_equipped :: bool
  er_level :: i32
  er_client_save_flag :: i32
  er_equip_count :: i32

record toy_db_row =
  tr_account :: u64
  tr_verify_time :: u64
  tr_toy_cd_key :: string
  tr_toy_config_id :: i32
  tr_toy_config_type :: i32
  tr_toy_level :: i32

text \<open>What a task is for: its callback with its parameters.\<close>

datatype quest_callback =
    DoQueryHeroInfo hero_query
  | DoQueryHeroEquips hero_query
  | DoQuerryHeroToys hero_query
  | DoQuerryToyVerify toy_verify
  | CallNothing

datatype task_type = Query_Hero_Info | Query_Hero_Map_Info | Save_Hero_Info | Querry_Verify_Toy

datatype db_msg =
    HeroDataDB2GS hero_db
  | NeedCreateHeroDB2GS
  | SaveAllHeroesDB2GS
  | VerifyToyDB2GS toy_data u64

datatype quest_out =
    Add_Task task_type string quest_callback
  | To_Game ptr u32 db_msg
  | Close_Game_Conn ptr
  | Stop_Database

record quest_state =
  qs_receive_close :: bool
  qs_save_timer :: bool
  qs_close_gs_id :: u16
  qs_games :: slots
  qs_game_id :: "ptr \<Rightarrow> u16"

definition no_hero_data :: hero_data where
  "no_hero_data = \<lparr>hd_account = 0, hd_level = 0, hd_name = [], hd_action_point = 0, hd_diamand = 0, hd_gold = 0, hd_suits = []\<rparr>"

definition new_hero_query :: "u64 \<Rightarrow> u32 \<Rightarrow> u16 \<Rightarrow> hero_query" where
  "new_hero_query a t gs =
     \<lparr>hq_account = a, hq_tranid = t, hq_gsid = gs,
      hq_info = \<lparr>db_account = 0, db_data = no_hero_data, db_equips = [], db_toys = []\<rparr>\<rparr>"

definition new_quest :: quest_state where
  "new_quest = \<lparr>qs_receive_close = False, qs_save_timer = False, qs_close_gs_id = 0, qs_games = no_slots, qs_game_id = (\<lambda>_. 0)\<rparr>"

section \<open>GameManager\<close>

definition quest_getGameClient :: "quest_state \<Rightarrow> u16 \<Rightarrow> ptr" where
  "quest_getGameClient q gs = slot_get (qs_games q) gs"

definition addGame :: "u16 \<Rightarrow> ptr \<Rightarrow> quest_state \<Rightarrow> bool \<times> quest_state" where
  "addGame n p q =
     (if p = NULL then (False, q)
      else if valid_slot n then (True, q\<lparr>qs_games := slot_add n p (qs_games q)\<rparr>)
      else (False, q))"

definition removeGame :: "ptr \<Rightarrow> quest_state \<Rightarrow> quest_state" where
  "removeGame p q = (if p \<noteq> NULL then q\<lparr>qs_games := slot_remove (qs_game_id q p) p (qs_games q)\<rparr> else q)"

definition quest_sendMsgToAll :: "db_msg \<Rightarrow> u32 \<Rightarrow> quest_state \<Rightarrow> quest_out list" where
  "quest_sendMsgToAll m flag q = map (\<lambda>p. To_Game p flag m) (filter (\<lambda>p. p \<noteq> NULL) (qs_games q))"

definition quest_sendMessage :: "db_msg \<Rightarrow> u32 \<Rightarrow> u16 \<Rightarrow> quest_state \<Rightarrow> quest_out list" where
  "quest_sendMessage m flag gs q =
     (let p = slot_get (qs_games q) gs in if p \<noteq> NULL then [To_Game p flag m] else [])"

section \<open>DBQuestManager: requests\<close>

definition queryHeroInfo :: "u64 \<Rightarrow> u32 \<Rightarrow> u16 \<Rightarrow> quest_out list" where
  "queryHeroInfo a t gs =
     [Add_Task Query_Hero_Info (''select * from `character` where `account_id`='' @ show_u64 a @ '';'')
        (DoQueryHeroInfo (new_hero_query a t gs))]"

text \<open>The key goes into a buffer of 256 bytes and into the statement as it is.\<close>

definition verifyToyCDKey :: "u32 \<Rightarrow> u16 \<Rightarrow> u64 \<Rightarrow> string \<Rightarrow> (quest_out list) result" where
  "verifyToyCDKey t gs acc cdkey =
     bind_result (sprintf_to 256 (''select * from `character_toy` where `toy_cd_key`='' @ quoted (c_str cdkey) @ '';'')) (\<lambda>sql.
       Inr [Add_Task Querry_Verify_Toy sql
              (DoQuerryToyVerify \<lparr>tv_account = acc, tv_tranid = t, tv_gsid = gs, tv_cd_key = c_str cdkey\<rparr>)])"

definition saveSqlData :: "string \<Rightarrow> quest_out list" where
  "saveSqlData sql = [Add_Task Save_Hero_Info (c_str sql) CallNothing]"

definition set_close_gs_id :: "u16 \<Rightarrow> quest_state \<Rightarrow> quest_state" where
  "set_close_gs_id gs q = q\<lparr>qs_close_gs_id := gs\<rparr>"

definition onSaveToClose :: "quest_out list" where
  "onSaveToClose = [Stop_Database]"

definition saveToClose :: "u16 \<Rightarrow> quest_state \<Rightarrow> quest_out list \<times> quest_state" where
  "saveToClose gs q =
     (if qs_receive_close q then ([], q)
      else (let q = (if qs_save_timer q then q else (set_close_gs_id gs q)\<lparr>qs_save_timer := True\<rparr>);
                q = q\<lparr>qs_receive_close := True\<rparr>
            in (quest_sendMessage SaveAllHeroesDB2GS 0 gs q, q)))"

section \<open>DBQuestManager: answers\<close>

text \<open>One entry of the suits text: every number after the name is read from the first piece again.\<close>

definition parse_suit :: "string \<Rightarrow> suit_data list" where
  "parse_suit text =
     (let info = snd (SplitStringA text '','')
      in if 2 \<le> length info \<and> isIntger (c_str (info ! 0))
         then [\<lparr>suit_id = word_of_int (atoi (c_str (info ! 0))), suit_name = c_str (info ! 1),
                equip_ids = map (\<lambda>i. word_of_int (atoi (c_str (info ! 0)))) [2..<length info]\<rparr>]
         else [])"

definition parse_suits :: "string \<Rightarrow> suit_data list" where
  "parse_suits text = concat (map parse_suit (snd (SplitStringA text '':'')))"

definition load_hero :: "character_row \<Rightarrow> hero_db \<Rightarrow> hero_db" where
  "load_hero row info =
     info\<lparr>db_account := cr_account_id row,
          db_data := \<lparr>hd_account = cr_account_id row, hd_level = cr_level row, hd_name = c_str (c_str (cr_name row)),
             hd_action_point = cr_action_point row, hd_diamand = cr_diamand row, hd_gold = cr_gold row,
             hd_suits = hd_suits (db_data info) @ parse_suits (c_str (cr_suits_name row))\<rparr>\<rparr>"

definition dbDoQueryHeroInfo :: "character_row list option \<Rightarrow> hero_query \<Rightarrow> quest_state \<Rightarrow> quest_out list" where
  "dbDoQueryHeroInfo r d q =
     (case r of
        Some (row # _) \<Rightarrow>
          [Add_Task Query_Hero_Info (''select * from `character_equip` where `account_id`='' @ show_u64 (cr_account_id row) @ '';'')
             (DoQueryHeroEquips (d\<lparr>hq_info := load_hero row (hq_info d)\<rparr>))]
      | _ \<Rightarrow> quest_sendMessage NeedCreateHeroDB2GS (hq_tranid d) (hq_gsid d) q)"

definition load_equip :: "equip_db_row \<Rightarrow> equip_data" where
  "load_equip row = \<lparr>eq_id = er_equip_id row, eq_equip_id = er_equip_config_id row, eq_level = er_level row,
     eq_equipped = er_equipped row, eq_client_save_flag = er_client_save_flag row, eq_count = er_equip_count row\<rparr>"

definition dbDoQueryHeroEquips :: "equip_db_row list option \<Rightarrow> hero_query \<Rightarrow> quest_out list" where
  "dbDoQueryHeroEquips r d =
     (case r of
        None \<Rightarrow> []
      | Some rows \<Rightarrow>
          (let info = (hq_info d)\<lparr>db_equips := db_equips (hq_info d) @ map load_equip rows\<rparr>
           in [Add_Task Query_Hero_Info (''select * from `character_toy` where `account`='' @ show_u64 (hq_account d) @ '';'')
                 (DoQuerryHeroToys (d\<lparr>hq_info := info\<rparr>))]))"

text \<open>
  The column \<^verbatim>\<open>UNIX_TIMESTAMP(`verify_time`)\<close> is read by name. \<open>column\<close> tells whether the result
  has it; the row class throws when a name is not found.
\<close>

definition load_toy :: "bool \<Rightarrow> toy_db_row \<Rightarrow> toy_data result" where
  "load_toy column row =
     (if column
      then Inr \<lparr>toy_cd_key = c_str (tr_toy_cd_key row), toy_time_stamp = tr_verify_time row,
             toy_base = \<lparr>toy_config_id = tr_toy_config_id row, toy_config_type = tr_toy_config_type row,
                toy_level = tr_toy_level row\<rparr>\<rparr>
      else Inl (Runtime_Error ''BadFieldName''))"

definition dbDoQuerryHeroToys ::
    "bool \<Rightarrow> toy_db_row list option \<Rightarrow> hero_query \<Rightarrow> quest_state \<Rightarrow> (quest_out list) result" where
  "dbDoQuerryHeroToys column r d q =
     (case r of
        None \<Rightarrow> Inr []
      | Some rows \<Rightarrow>
          bind_result (all_results (map (load_toy column) rows)) (\<lambda>toys.
          Inr (quest_sendMessage (HeroDataDB2GS ((hq_info d)\<lparr>db_toys := db_toys (hq_info d) @ toys\<rparr>))
                 (hq_tranid d) (hq_gsid d) q)))"

text \<open>\<open>lt\<close> is \<^verbatim>\<open>localtime\<close>, \<open>server_time\<close> the global \<^verbatim>\<open>g_server_time\<close>.\<close>

definition dbDoQuerryToyVerify ::
    "(u64 \<Rightarrow> tm) \<Rightarrow> u64 \<Rightarrow> u64 \<Rightarrow> toy_db_row list option \<Rightarrow> toy_verify \<Rightarrow> quest_state \<Rightarrow> (quest_out list) result" where
  "dbDoQuerryToyVerify lt now server_time r d q =
     (case r of
        Some (row # _) \<Rightarrow>
          (let entry = \<lparr>toy_cd_key = c_str (tr_toy_cd_key row), toy_time_stamp = server_time,
                 toy_base = \<lparr>toy_config_id = tr_toy_config_id row, toy_config_type = tr_toy_config_type row,
                    toy_level = tr_toy_level row\<rparr>\<rparr>
           in bind_result (sprintf_to 512 (''update set `account`='' @ show_u64 (tv_account d) @ '', `verify_time`=''
                  @ quoted (get_time lt now server_time) @ '' where `toy_cd_key`='' @ quoted (tv_cd_key d))) (\<lambda>sql.
              Inr (Add_Task Querry_Verify_Toy sql CallNothing
                   # quest_sendMessage (VerifyToyDB2GS entry (tr_account row)) (tv_tranid d) (tv_gsid d) q)))
      | _ \<Rightarrow> Inr [])"

section \<open>GameSession\<close>

definition quest_parseGameRegister ::
    "server_version \<Rightarrow> u32 \<Rightarrow> u32 \<times> u32 \<times> u32 \<times> u32 \<Rightarrow> ptr \<Rightarrow> quest_state \<Rightarrow> quest_out list \<times> quest_state" where
  "quest_parseGameRegister me serverid ver p q =
     (let (major, minor, build, svn) = ver;
          q = q\<lparr>qs_game_id := (qs_game_id q)(p := ucast serverid)\<rparr>;
          closing = (if checkVersion me (ucast major) (ucast minor) (ucast build) (ucast svn) then [] else [Close_Game_Conn p])
      in (closing, snd (addGame (ucast serverid) p q)))"

definition parseMsgSaveHeroData :: "string \<Rightarrow> quest_out list" where
  "parseMsgSaveHeroData sql = saveSqlData (c_str sql)"

definition parseMsgReqHeroDataGS2DB :: "u64 \<Rightarrow> u32 \<Rightarrow> ptr \<Rightarrow> quest_state \<Rightarrow> quest_out list" where
  "parseMsgReqHeroDataGS2DB a flag p q = queryHeroInfo a flag (qs_game_id q p)"

definition quest_parseMsgVerifyToy :: "string \<Rightarrow> u64 \<Rightarrow> u32 \<Rightarrow> ptr \<Rightarrow> quest_state \<Rightarrow> (quest_out list) result" where
  "quest_parseMsgVerifyToy cdkey a flag p q = verifyToyCDKey flag (qs_game_id q p) a (c_str cdkey)"

definition parseMsgSaveAllHeroesGS2DB :: "ptr \<Rightarrow> quest_state \<Rightarrow> quest_out list \<times> quest_state" where
  "parseMsgSaveAllHeroesGS2DB p q = saveToClose (qs_game_id q p) q"

definition quest_on_close :: "ptr \<Rightarrow> quest_state \<Rightarrow> quest_state" where
  "quest_on_close p q = removeGame p q"

interpretation quest_games: peer_table "\<lambda>q. slots_ok (qs_games q)" quest_getGameClient
  "\<lambda>n p q. snd (addGame n p q)" "\<lambda>n p q. q\<lparr>qs_games := slot_remove n p (qs_games q)\<rparr>"
  by unfold_locales (auto simp: quest_getGameClient_def addGame_def slot_get_add slot_get_remove)

section \<open>The suits as text and back\<close>

lemma show_i32_free [simp]:
  "CHR '','' \<notin> set (show_i32 w)" "CHR '':'' \<notin> set (show_i32 w)" "CHR 0x00 \<notin> set (show_i32 w)" "show_i32 w \<noteq> []"
  using show_int_chars [of "CHR '',''" "sint w"] show_int_chars [of "CHR '':''" "sint w"]
    show_int_chars [of "CHR 0x00" "sint w"]
  by (auto simp: show_i32_def is_digit_def)

lemma show_u64_free [simp]:
  "CHR '','' \<notin> set (show_u64 w)" "CHR '':'' \<notin> set (show_u64 w)" "CHR 0x00 \<notin> set (show_u64 w)" "show_u64 w \<noteq> []"
  using show_nat_digits [of "unat w"] by (auto simp: show_u64_def list_all_iff is_digit_def)

definition plain_name :: "string \<Rightarrow> bool" where
  "plain_name s \<longleftrightarrow> s \<noteq> [] \<and> CHR '','' \<notin> set s \<and> CHR '':'' \<notin> set s \<and> CHR 0x00 \<notin> set s"

definition suit_pieces :: "suit_data \<Rightarrow> string list" where
  "suit_pieces s = show_i32 (suit_id s) # suit_name s # map show_u64 (equip_ids s)"

lemma join_with_Cons: "join_with c (p # ps) = p @ concat (map (\<lambda>q. c # q) ps)"
  by (induction ps arbitrary: p) auto

lemma set_join_with: "c \<in> set (join_with d ps) \<Longrightarrow> c = d \<or> (\<exists>p \<in> set ps. c \<in> set p)"
  by (induction d ps rule: join_with.induct) auto

lemma suit_text_join:
  "plain_name (suit_name s) \<Longrightarrow> suit_text s = Inr t \<Longrightarrow> t = join_with (CHR '','') (suit_pieces s)"
  by (auto simp: suit_text_def sprintf_to_def plain_name_def c_str_id suit_pieces_def join_with_Cons comp_def
      split: if_splits)

lemma suits_text_join:
  "list_all (\<lambda>s. plain_name (suit_name s)) ss \<Longrightarrow> suits_text ss = Inr t \<Longrightarrow>
   t = join_with (CHR '':'') (map (\<lambda>s. join_with (CHR '','') (suit_pieces s)) ss)"
  by (induction ss arbitrary: t rule: suits_text.induct) (auto dest: suit_text_join)

lemma isIntger_show [simp]: "isIntger (show_i32 w)" "atoi (show_i32 w) = sint w"
proof -
  have "read_int (show_i32 w) = Some (sint w)"
    using read_show_int [of "[]" "sint w"] by (simp add: show_i32_def)
  moreover have "- (2 ^ 31) \<le> sint w" "sint w < 2 ^ 31"
    using sint_greater_eq [of w] sint_less [of w] by simp_all
  ultimately show "isIntger (show_i32 w)" "atoi (show_i32 w) = sint w"
    by (simp_all add: isIntger_def atoi_def)
qed

lemma parse_suit_text:
  assumes "plain_name (suit_name s)"
  shows "parse_suit (join_with (CHR '','') (suit_pieces s)) =
    [s\<lparr>equip_ids := replicate (length (equip_ids s)) (scast (suit_id s))\<rparr>]"
proof -
  have "list_all (\<lambda>p. CHR '','' \<notin> set p \<and> p \<noteq> []) (suit_pieces s)"
    using assms by (auto simp: suit_pieces_def plain_name_def list_all_iff)
  then have "snd (SplitStringA (join_with (CHR '','') (suit_pieces s)) '','') = suit_pieces s"
    by (intro SplitStringA_join) (simp_all add: suit_pieces_def)
  moreover have "word_of_int (sint (suit_id s)) = suit_id s" "word_of_int (sint (suit_id s)) = (scast (suit_id s) :: u64)"
    unfolding scast_eq [symmetric] by simp_all
  moreover have "map (\<lambda>i. x) [2..<Suc (Suc k)] = replicate k x" for k and x :: u64
    by (simp add: map_replicate_const del: upt_Suc)
  ultimately show ?thesis
    using assms by (simp add: parse_suit_def suit_pieces_def c_str_id plain_name_def Let_def del: upt_Suc)
qed

lemma suit_pieces_colon:
  "plain_name (suit_name s) \<Longrightarrow>
   CHR '':'' \<notin> set (join_with (CHR '','') (suit_pieces s)) \<and> join_with (CHR '','') (suit_pieces s) \<noteq> []"
  by (auto simp: suit_pieces_def join_with_Cons plain_name_def)

lemma parse_suits_text:
  assumes "list_all (\<lambda>s. plain_name (suit_name s)) ss" and "suits_text ss = Inr t"
  shows "parse_suits t = map (\<lambda>s. s\<lparr>equip_ids := replicate (length (equip_ids s)) (scast (suit_id s))\<rparr>) ss"
proof (cases "ss = []")
  case True
  with assms show ?thesis by (simp add: parse_suits_def SplitStringA_def)
next
  case False
  let ?f = "\<lambda>s. join_with (CHR '','') (suit_pieces s)"
  have "snd (SplitStringA t '':'') = map ?f ss"
    unfolding suits_text_join [OF assms]
    using False assms(1) suit_pieces_colon by (intro SplitStringA_join) (auto simp: list_all_iff)
  moreover have "concat (map parse_suit (map ?f ss)) =
      map (\<lambda>s. s\<lparr>equip_ids := replicate (length (equip_ids s)) (scast (suit_id s))\<rparr>) ss"
    using assms(1) by (induction ss) (simp_all add: parse_suit_text)
  ultimately show ?thesis by (simp add: parse_suits_def)
qed

lemma suits_text_no_nul:
  assumes "list_all (\<lambda>s. plain_name (suit_name s)) ss" and "suits_text ss = Inr t"
  shows "CHR 0x00 \<notin> set t"
  using assms(1) unfolding suits_text_join [OF assms]
  by (auto simp: list_all_iff suit_pieces_def plain_name_def dest!: set_join_with)

end
