(* ===== verification/Hero_Reload.thy ===== *)
theory Hero_Reload
  imports Db_Quest
begin

text \<open>
  A hero on its way through the database: the statement that \<open>SaveHero\<close> of
  \<^verbatim>\<open>gameserver/DreamHero.cpp\<close> writes, the columns that \<open>dbDoQueryHeroInfo\<close> of
  \<^verbatim>\<open>databaseserver/db_quest.cpp\<close> reads by name, and between them a database that is a parameter:
  \<open>answer sql query\<close> are the rows for a query after the statement \<open>sql\<close>, as texts by column.
\<close>

section \<open>Reading a row\<close>

text \<open>The columns are looked up by name; \<open>number\<close> is the client library's conversion of a text. A missing
  column, or a text that is no number, is an exception.\<close>

definition number_column :: "(string \<Rightarrow> int option) \<Rightarrow> (string \<Rightarrow> string option) \<Rightarrow> string \<Rightarrow> int option" where
  "number_column number row col = Option.bind (row col) number"

definition character_row_of :: "(string \<Rightarrow> int option) \<Rightarrow> (string \<Rightarrow> string option) \<Rightarrow> character_row option" where
  "character_row_of number row =
     (case number_column number row ''account_id'' of None \<Rightarrow> None | Some acc \<Rightarrow>
      case number_column number row ''level'' of None \<Rightarrow> None | Some level \<Rightarrow>
      case row ''name'' of None \<Rightarrow> None | Some name \<Rightarrow>
      case number_column number row ''action_point'' of None \<Rightarrow> None | Some action_point \<Rightarrow>
      case number_column number row ''gold'' of None \<Rightarrow> None | Some gold \<Rightarrow>
      case number_column number row ''diamand'' of None \<Rightarrow> None | Some diamand \<Rightarrow>
      case row ''suits_name'' of None \<Rightarrow> None | Some suits_name \<Rightarrow>
        Some \<lparr>cr_account_id = word_of_int acc, cr_level = word_of_int level, cr_name = name,
          cr_action_point = word_of_int action_point, cr_gold = word_of_int gold, cr_diamand = word_of_int diamand,
          cr_suits_name = suits_name\<rparr>)"

section \<open>What a REPLACE statement stores\<close>

datatype sql_value = Sql_Number int | Sql_Text string

fun sql_literal :: "sql_value \<Rightarrow> string" where
  "sql_literal (Sql_Number n) = show_int n"
| "sql_literal (Sql_Text s) = quoted s"

fun sql_text :: "sql_value \<Rightarrow> string" where
  "sql_text (Sql_Number n) = show_int n"
| "sql_text (Sql_Text s) = s"

text \<open>A text stands for itself when it has no quote and no backslash.\<close>

definition no_escape :: "string \<Rightarrow> bool" where
  "no_escape s \<longleftrightarrow> CHR 0x27 \<notin> set s \<and> CHR 0x5C \<notin> set s"

fun literal_ok :: "sql_value \<Rightarrow> bool" where
  "literal_ok (Sql_Number n) = True"
| "literal_ok (Sql_Text s) = no_escape s"

text \<open>A list with commas; the flag of an item says whether a space follows the comma before it.\<close>

fun comma_list :: "(bool \<times> string) list \<Rightarrow> string" where
  "comma_list [] = []"
| "comma_list ((b, x) # items) = x @ concat (map (\<lambda>(b, x). (if b then '', '' else '','') @ x) items)"

definition backquoted :: "string \<Rightarrow> string" where
  "backquoted s = CHR 0x60 # s @ [CHR 0x60]"

text \<open>The columns of the table \<^verbatim>\<open>character\<close>.\<close>

definition character_columns :: "string list" where
  "character_columns = [''account_id'', ''level'', ''name'', ''action_point'', ''gold'', ''diamand'', ''suits_name'']"

definition character_replace :: "(bool \<times> string \<times> bool \<times> sql_value) list \<Rightarrow> string" where
  "character_replace items =
     ''replace into `character`('' @ comma_list (map (\<lambda>(b, col, _). (b, backquoted col)) items)
     @ '') values('' @ comma_list (map (\<lambda>(_, _, b, v). (b, sql_literal v)) items) @ '')''"

definition character_query :: "int \<Rightarrow> string" where
  "character_query account = ''select * from `character` where `account_id`='' @ show_int account @ '';''"

text \<open>
  The database after a REPLACE of all the columns, in any order, with literals that their columns can hold:
  the query for the account gives one row, with the text of each literal under the name that
  stands at its position. \<open>fits\<close> says what a column can hold.
\<close>

definition replaces_rows :: "(string \<Rightarrow> sql_value \<Rightarrow> bool) \<Rightarrow> (string \<Rightarrow> string \<Rightarrow> (string \<Rightarrow> string option) list) \<Rightarrow> bool" where
  "replaces_rows fits answer \<longleftrightarrow>
     (\<forall>items account.
        let row = map (\<lambda>(_, col, _, v). (col, v)) items in
        distinct (map fst row) \<and> set (map fst row) = set character_columns \<and> (''account_id'', Sql_Number account) \<in> set row
        \<and> (\<forall>(col, v)\<in>set row. literal_ok v \<and> fits col v)
        \<longrightarrow> answer (character_replace items) (character_query account) = [map_of (map (\<lambda>(col, v). (col, sql_text v)) row)])"

section \<open>The statement of SaveHero\<close>

definition hero_items :: "hero_data \<Rightarrow> string \<Rightarrow> (bool \<times> string \<times> bool \<times> sql_value) list" where
  "hero_items d suits =
     [(True, ''account_id'', True, Sql_Number (uint (hd_account d))),
      (True, ''level'', True, Sql_Number (sint (hd_level d))),
      (True, ''name'', True, Sql_Text (hd_name d)),
      (False, ''action_point'', True, Sql_Number (sint (hd_action_point d))),
      (True, ''diamand'', True, Sql_Number (sint (hd_diamand d))),
      (True, ''gold'', True, Sql_Number (sint (hd_gold d))),
      (True, ''suits_name'', True, Sql_Text suits)]"

lemma show_u64_int: "show_u64 w = show_int (uint w)"
  by (simp add: show_u64_def show_int_def)

lemma character_sql_items: "c_str (hd_name d) = hd_name d \<Longrightarrow> character_sql d suits = character_replace (hero_items d suits)"
  by (simp add: character_sql_def character_replace_def hero_items_def backquoted_def show_u64_int show_i32_def)

lemma SaveHero_first:
  assumes "SaveHero time h = Inr out"
  obtains suits rest where "suits_text (hd_suits (h_info h)) = Inr suits"
    and "out = To_Db (h_session h) (SaveDataGS2DB (character_sql (h_info h) suits)) # rest"
  using assms by (auto simp: SaveHero_def sprintf_to_def send_db_def Let_def split: if_splits)

text \<open>Names that the statement and the suits text can carry.\<close>

definition plain_hero :: "hero_data \<Rightarrow> bool" where
  "plain_hero d \<longleftrightarrow> plain_name (hd_name d) \<and> no_escape (hd_name d) \<and> 0 \<le> sint (hd_level d)
     \<and> list_all (\<lambda>s. plain_name (suit_name s) \<and> no_escape (suit_name s)) (hd_suits d)"

lemma show_i32_no_escape [simp]: "no_escape (show_i32 w)"
  using show_int_chars [of "CHR 0x27" "sint w"] show_int_chars [of "CHR 0x5C" "sint w"]
  by (auto simp: show_i32_def no_escape_def is_digit_def)

lemma show_int_no_nul [simp]: "CHR 0x00 \<notin> set (show_int i)"
  using show_int_chars [of "CHR 0x00" i] by (auto simp: is_digit_def)

lemma show_u64_no_escape [simp]: "no_escape (show_u64 w)"
  using show_int_chars [of "CHR 0x27" "uint w"] show_int_chars [of "CHR 0x5C" "uint w"]
  by (auto simp: show_u64_int no_escape_def is_digit_def)

lemma plain_suits:
  assumes "plain_hero d"
  shows "list_all (\<lambda>s. plain_name (suit_name s)) (hd_suits d)" and "c_str (hd_name d) = hd_name d"
  using assms by (auto simp: plain_hero_def list_all_iff plain_name_def c_str_id)

lemma suits_no_escape:
  assumes "plain_hero d" and "suits_text (hd_suits d) = Inr suits" shows "no_escape suits"
proof -
  have "c \<noteq> CHR 0x27 \<and> c \<noteq> CHR 0x5C" if c: "c \<in> set suits" for c
  proof -
    have "c = CHR '':'' \<or> (\<exists>s\<in>set (hd_suits d). c \<in> set (join_with (CHR '','') (suit_pieces s)))"
      using c set_join_with unfolding suits_text_join [OF plain_suits(1) [OF assms(1)] assms(2)] by fastforce
    then have "c = CHR '':'' \<or> c = CHR '','' \<or> (\<exists>s\<in>set (hd_suits d). \<exists>p\<in>set (suit_pieces s). c \<in> set p)"
      using set_join_with by fast
    moreover have "no_escape p" if "s \<in> set (hd_suits d)" "p \<in> set (suit_pieces s)" for s p
      using assms(1) that by (auto simp: suit_pieces_def plain_hero_def list_all_iff)
    ultimately show ?thesis unfolding no_escape_def by auto
  qed
  then show ?thesis by (auto simp: no_escape_def)
qed

lemma sql_no_nul:
  assumes "plain_hero d" and "suits_text (hd_suits d) = Inr suits" shows "c_str (character_sql d suits) = character_sql d suits"
proof (rule c_str_id)
  have "CHR 0x00 \<notin> set suits" using suits_text_no_nul [OF plain_suits(1) [OF assms(1)] assms(2)] .
  moreover have "CHR 0x00 \<notin> set (c_str (hd_name d))"
    using assms(1) by (simp add: c_str_id plain_hero_def plain_name_def)
  ultimately show "CHR 0x00 \<notin> set (character_sql d suits)"
    by (simp add: character_sql_def quoted_def)
qed

text \<open>The row that is found after the statement has been executed.\<close>

definition hero_row :: "hero_data \<Rightarrow> string \<Rightarrow> character_row" where
  "hero_row d suits = \<lparr>cr_account_id = hd_account d, cr_level = hd_level d, cr_name = hd_name d,
     cr_action_point = hd_action_point d, cr_gold = hd_gold d, cr_diamand = hd_diamand d, cr_suits_name = suits\<rparr>"

lemma stored_row:
  assumes "replaces_rows fits answer" and "\<forall>n. number (show_int n) = Some n" and "plain_hero d"
    and "suits_text (hd_suits d) = Inr suits"
    and "fits ''account_id'' (Sql_Number (uint (hd_account d)))" and "fits ''level'' (Sql_Number (sint (hd_level d)))"
    and "fits ''name'' (Sql_Text (hd_name d))" and "fits ''action_point'' (Sql_Number (sint (hd_action_point d)))"
    and "fits ''gold'' (Sql_Number (sint (hd_gold d)))" and "fits ''diamand'' (Sql_Number (sint (hd_diamand d)))"
    and "fits ''suits_name'' (Sql_Text suits)"
  shows "map (character_row_of number) (answer (character_sql d suits) (character_query (uint (hd_account d))))
    = [Some (hero_row d suits)]"
proof -
  have esc: "no_escape (hd_name d)" "no_escape suits"
    using assms(3) suits_no_escape [OF assms(3,4)] by (simp_all add: plain_hero_def)
  have level: "word_of_int (sint (hd_level d)) = hd_level d" by simp
  let ?row = "map (\<lambda>(_, col, _, v). (col, v)) (hero_items d suits)"
  let ?cols = "[''account_id'', ''level'', ''name'', ''action_point'', ''diamand'', ''gold'', ''suits_name'']"
  have "map fst ?row = ?cols" by (simp add: hero_items_def)
  moreover have "distinct ?cols" "set ?cols = set character_columns" by code_simp+
  ultimately have cols: "distinct (map fst ?row)" "set (map fst ?row) = set character_columns" by metis+
  have acc: "(''account_id'', Sql_Number (uint (hd_account d))) \<in> set ?row" by (simp add: hero_items_def)
  have vals: "\<forall>(col, v)\<in>set ?row. literal_ok v \<and> fits col v"
    using assms(5-11) esc by (simp add: hero_items_def)
  have "answer (character_replace (hero_items d suits)) (character_query (uint (hd_account d)))
      = [map_of (map (\<lambda>(col, v). (col, sql_text v)) ?row)]"
    using assms(1) cols acc vals unfolding replaces_rows_def Let_def by blast
  then have "answer (character_sql d suits) (character_query (uint (hd_account d)))
      = [map_of (map (\<lambda>(col, v). (col, sql_text v)) (map (\<lambda>(_, col, _, v). (col, v)) (hero_items d suits)))]"
    using character_sql_items plain_suits(2) [OF assms(3)] by simp
  then show ?thesis
    using assms(2) by (simp add: hero_items_def character_row_of_def number_column_def hero_row_def)
qed

section \<open>A database that does so\<close>

text \<open>It takes the statement apart at the commas outside of quotes.\<close>

definition prepend :: "string \<Rightarrow> string list \<Rightarrow> string list" where
  "prepend x ps = (x @ hd ps) # tl ps"

fun split_top :: "bool \<Rightarrow> string \<Rightarrow> string list" where
  "split_top q [] = [[]]"
| "split_top q (c # cs) =
     (if c = CHR '','' \<and> \<not> q then [] # split_top q cs
      else prepend [c] (split_top (if c = CHR 0x27 then \<not> q else q) cs))"

definition bare :: "string \<Rightarrow> string" where
  "bare s = (let x = (if s \<noteq> [] \<and> hd s = CHR '' '' then tl s else s)
             in if x \<noteq> [] \<and> (hd x = CHR 0x27 \<or> hd x = CHR 0x60) then butlast (tl x) else x)"

definition sample_answer :: "string \<Rightarrow> string \<Rightarrow> (string \<Rightarrow> string option) list" where
  "sample_answer sql query =
     (let body = drop (length ''replace into `character`('') sql;
          cols = takeWhile (\<lambda>c. c \<noteq> CHR '')'') body;
          vals = butlast (drop (length cols + length '') values('') body);
          row = map_of (zip (map bare (split_top False cols)) (map bare (split_top False vals)))
      in case row ''account_id'' of
           None \<Rightarrow> []
         | Some a \<Rightarrow> if query = ''select * from `character` where `account_id`='' @ a @ '';'' then [row] else [])"

definition piece :: "string \<Rightarrow> bool" where
  "piece x \<longleftrightarrow> (\<forall>rest. split_top False (x @ rest) = prepend x (split_top False rest))"

lemma split_top_not_Nil [simp]: "split_top q s \<noteq> []"
  by (cases s) (simp_all add: prepend_def)

lemma prepend_prepend [simp]: "prepend x (prepend y ps) = prepend (x @ y) ps" "ps \<noteq> [] \<Longrightarrow> prepend [] ps = ps"
  by (simp_all add: prepend_def)

lemma piece_plain: "CHR '','' \<notin> set x \<Longrightarrow> CHR 0x27 \<notin> set x \<Longrightarrow> piece x"
  unfolding piece_def by (induction x) auto

lemma split_in_quotes: "CHR 0x27 \<notin> set s \<Longrightarrow> split_top True (s @ rest) = prepend s (split_top True rest)"
  by (induction s) auto

lemma piece_quoted: "no_escape s \<Longrightarrow> piece (quoted s)"
  by (simp add: piece_def quoted_def split_in_quotes no_escape_def)

lemma piece_literal: "literal_ok v \<Longrightarrow> piece (sql_literal v)"
  using show_int_chars [of "CHR '',''"] show_int_chars [of "CHR 0x27"]
  by (cases v) (auto simp: piece_quoted is_digit_def intro!: piece_plain)

lemma split_comma_list:
  assumes "\<forall>(b, x)\<in>set items. piece x" and "items \<noteq> []"
  shows "split_top False (comma_list items)
    = snd (hd items) # map (\<lambda>(b, x). (if b then '' '' else []) @ x) (tl items)"
proof -
  have more: "\<forall>(b, x)\<in>set r. piece x \<Longrightarrow>
      split_top False (concat (map (\<lambda>(b, x). (if b then '', '' else '','') @ x) r))
        = [] # map (\<lambda>(b, x). (if b then '' '' else []) @ x) r" for r :: "(bool \<times> string) list"
    by (induction r) (auto simp: piece_def prepend_def split: if_splits)
  obtain b x r where "items = (b, x) # r" using assms(2) by (cases items) auto
  with assms(1) more [of r] show ?thesis by (auto simp: piece_def prepend_def)
qed

lemma bare_spaced: "bare x = y \<Longrightarrow> x \<noteq> [] \<Longrightarrow> hd x \<noteq> CHR '' '' \<Longrightarrow> bare ((if b then '' '' else []) @ x) = y"
  by (simp add: bare_def)

lemma bare_quoted [simp]: "bare (quoted s) = s" "bare (backquoted s) = s"
  by (simp_all add: bare_def quoted_def backquoted_def)

lemma hd_show_int: "is_digit (hd (show_int i)) \<or> hd (show_int i) = CHR ''-''"
  using show_int_chars [of "hd (show_int i)" i] by simp

lemma bare_literal: "bare (sql_literal v) = sql_text v \<and> sql_literal v \<noteq> [] \<and> hd (sql_literal v) \<noteq> CHR '' ''"
proof (cases v)
  case (Sql_Number n)
  with hd_show_int [of n] show ?thesis by (auto simp: bare_def is_digit_def Let_def)
next
  case (Sql_Text s)
  then show ?thesis by (simp add: bare_quoted) (simp add: quoted_def)
qed

lemma bare_comma_list:
  assumes "\<forall>(b, x)\<in>set items. piece x \<and> bare x = f x \<and> x \<noteq> [] \<and> hd x \<noteq> CHR '' ''" and "items \<noteq> []"
  shows "map bare (split_top False (comma_list items)) = map (\<lambda>(b, x). f x) items"
proof -
  obtain b x r where items: "items = (b, x) # r" using assms(2) by (cases items) auto
  have "\<forall>(b, x)\<in>set items. piece x" using assms(1) by blast
  moreover have "map bare (map (\<lambda>(b, x). (if b then '' '' else []) @ x) r) = map (\<lambda>(b, x). f x) r"
    using assms(1) bare_spaced unfolding items by (auto simp del: append_Cons)
  ultimately show ?thesis
    using split_comma_list [of items] assms(1) unfolding items by simp
qed

lemma column_chars:
  assumes "col \<in> set character_columns"
  shows "CHR '','' \<notin> set col" and "CHR 0x27 \<notin> set col" and "CHR '')'' \<notin> set col"
proof -
  have "list_all (\<lambda>col. CHR '','' \<notin> set col \<and> CHR 0x27 \<notin> set col \<and> CHR '')'' \<notin> set col) character_columns"
    by code_simp
  with assms show "CHR '','' \<notin> set col" "CHR 0x27 \<notin> set col" "CHR '')'' \<notin> set col" by (auto simp: list_all_iff)
qed

lemma set_comma_list: "c \<in> set (comma_list items) \<Longrightarrow> c = CHR '','' \<or> c = CHR '' '' \<or> (\<exists>(b, x)\<in>set items. c \<in> set x)"
  by (induction items rule: comma_list.induct) (auto split: if_splits)

lemma sample_answer_row:
  fixes items :: "(bool \<times> string \<times> bool \<times> sql_value) list"
  assumes "\<forall>(b, col, b', v)\<in>set items. col \<in> set character_columns \<and> literal_ok v" and "items \<noteq> []"
  shows "sample_answer (character_replace items) query =
    (let row = map_of (map (\<lambda>(b, col, b', v). (col, sql_text v)) items)
     in case row ''account_id'' of
          None \<Rightarrow> []
        | Some a \<Rightarrow> if query = ''select * from `character` where `account_id`='' @ a @ '';'' then [row] else [])"
proof -
  let ?cols = "comma_list (map (\<lambda>(b, col, _). (b, backquoted col)) items)"
  let ?vals = "comma_list (map (\<lambda>(_, _, b, v). (b, sql_literal v)) items)"
  have "CHR '')'' \<notin> set col" if "(b, col, b', v) \<in> set items" for b col b' v
    using assms(1) that column_chars(3) by fast
  then have chars: "CHR '')'' \<notin> set ?cols"
    by (auto simp: backquoted_def dest!: set_comma_list)
  have "map bare (split_top False ?cols) = map (\<lambda>(b, x). bare x) (map (\<lambda>(b, col, _). (b, backquoted col)) items)"
    using assms column_chars by (intro bare_comma_list) (auto simp: backquoted_def intro!: piece_plain)
  then have cols: "map bare (split_top False ?cols) = map (\<lambda>(b, col, b', v). col) items"
    by (simp add: comp_def case_prod_unfold)
  have ok: "literal_ok v" if "(b, col, b', v) \<in> set items" for b col b' v
    using assms(1) that by fast
  have "\<forall>(b, x)\<in>set (map (\<lambda>(_, _, b, v). (b, sql_literal v)) items). piece x \<and> bare x = bare x \<and> x \<noteq> [] \<and> hd x \<noteq> CHR '' ''"
    by (clarsimp simp: bare_literal) (rule piece_literal, erule ok)
  then have "map bare (split_top False ?vals) = map (\<lambda>(b, x). bare x) (map (\<lambda>(_, _, b, v). (b, sql_literal v)) items)"
    using assms(2) by (intro bare_comma_list) simp_all
  then have vals: "map bare (split_top False ?vals) = map (\<lambda>(b, col, b', v). sql_text v) items"
    using bare_literal by (simp add: comp_def case_prod_unfold)
  have body: "drop (length ''replace into `character`('') (character_replace items) = ?cols @ '') values('' @ ?vals @ '')''"
    by (simp add: character_replace_def)
  have tw: "takeWhile (\<lambda>c. c \<noteq> CHR '')'') (?cols @ '') values('' @ ?vals @ '')'') = ?cols"
    using chars by (subst takeWhile_append2) auto
  have db: "butlast (drop (length ?cols + length '') values('') (?cols @ '') values('' @ ?vals @ '')'')) = ?vals"
    by (simp add: butlast_append)
  have zip: "zip (map (\<lambda>(b, col, b', v). col) items) (map (\<lambda>(b, col, b', v). sql_text v) items)
      = map (\<lambda>(b, col, b', v). (col, sql_text v)) items"
    by (induction items) auto
  show ?thesis
    unfolding sample_answer_def body Let_def tw db cols vals zip ..
qed

lemma sample_replaces: "replaces_rows (\<lambda>_ _. True) sample_answer"
  unfolding replaces_rows_def Let_def
proof (intro allI impI, elim conjE)
  fix items :: "(bool \<times> string \<times> bool \<times> sql_value) list" and account
  let ?row = "map (\<lambda>(_, col, _, v). (col, v)) items" and ?f = "\<lambda>(col, v). (col, sql_text v)"
  assume cols: "distinct (map fst ?row)" "set (map fst ?row) = set character_columns"
    and acc: "(''account_id'', Sql_Number account) \<in> set ?row" and ok: "\<forall>(col, v)\<in>set ?row. literal_ok v \<and> True"
  have row: "map (\<lambda>(b, col, b', v). (col, sql_text v)) items = map ?f ?row" by (simp add: comp_def case_prod_unfold)
  have "\<forall>x\<in>set items. fst (snd x) \<in> set character_columns"
    unfolding cols(2) [symmetric] by force
  then have "\<forall>(b, col, b', v)\<in>set items. col \<in> set character_columns \<and> literal_ok v"
    using ok by fastforce
  moreover have "items \<noteq> []" using acc by auto
  moreover have "map_of (map ?f ?row) ''account_id'' = Some (show_int account)"
  proof (rule map_of_is_SomeI)
    have "map fst (map ?f ?row) = map fst ?row" by (simp add: comp_def case_prod_unfold)
    with cols(1) show "distinct (map fst (map ?f ?row))" by (simp only:)
    have "?f (''account_id'', Sql_Number account) \<in> set (map ?f ?row)" unfolding set_map by (rule imageI) (rule acc [unfolded set_map])
    then show "(''account_id'', show_int account) \<in> set (map ?f ?row)" by (simp only: prod.case sql_text.simps)
  qed
  ultimately show "sample_answer (character_replace items) (character_query account) = [map_of (map ?f ?row)]"
    by (simp add: sample_answer_row row Let_def character_query_def del: map_map)
qed

section \<open>There and back\<close>

lemma hero_row_loaded:
  assumes "plain_hero d" and "suits_text (hd_suits d) = Inr suits"
  shows "dbDoQueryHeroInfo (Some [hero_row d suits]) (new_hero_query a t gs) q =
    [Add_Task Query_Hero_Info (''select * from `character_equip` where `account_id`='' @ show_u64 (hd_account d) @ '';'')
      (DoQueryHeroEquips ((new_hero_query a t gs)\<lparr>hq_info := \<lparr>db_account = hd_account d,
        db_data = d\<lparr>hd_suits := map (\<lambda>s. s\<lparr>equip_ids := replicate (length (equip_ids s)) (scast (suit_id s))\<rparr>) (hd_suits d)\<rparr>,
        db_equips = [], db_toys = []\<rparr>\<rparr>))]"
proof -
  note p = plain_suits [OF assms(1)]
  have "parse_suits (c_str suits) = map (\<lambda>s. s\<lparr>equip_ids := replicate (length (equip_ids s)) (scast (suit_id s))\<rparr>) (hd_suits d)"
    using parse_suits_text [OF p(1) assms(2)] c_str_id [OF suits_text_no_nul [OF p(1) assms(2)]] by simp
  then show ?thesis
    by (simp add: dbDoQueryHeroInfo_def load_hero_def new_hero_query_def no_hero_data_def hero_row_def p(2))
qed

text \<open>C34: A hero that the game server saves is the hero that the database server loads, but for the equipment of its suits. Let the
  names of the hero and of its suits be plain (not empty, without comma, colon, zero byte, single quote and backslash), its level below
  \<open>2^31\<close>, and every value fit into its column. If \<open>SaveHero\<close> does not throw, its first statement goes to the database
  server, which executes it as it is; on a database that stores what a REPLACE statement says and answers the query for a hero
  with the row of the account, the query of the same account then finds one row, and loading this row gives all that was
  saved, except the equipment of the suits: each suit has as many entries as before, but every one is the number of the suit itself.\<close>

theorem hero_reload:
  assumes "SaveHero time h = Inr out" and "d = h_info h" and "plain_hero d"
    and "replaces_rows fits answer" and "\<forall>n. number (show_int n) = Some n"
    and "fits ''account_id'' (Sql_Number (uint (hd_account d)))" and "fits ''level'' (Sql_Number (sint (hd_level d)))"
    and "fits ''name'' (Sql_Text (hd_name d))" and "fits ''action_point'' (Sql_Number (sint (hd_action_point d)))"
    and "fits ''gold'' (Sql_Number (sint (hd_gold d)))" and "fits ''diamand'' (Sql_Number (sint (hd_diamand d)))"
    and "\<forall>suits. suits_text (hd_suits d) = Inr suits \<longrightarrow> fits ''suits_name'' (Sql_Text suits)"
  shows "\<exists>sql rest query row.
      out = To_Db (h_session h) (SaveDataGS2DB sql) # rest
    \<and> parseMsgSaveHeroData sql = [Add_Task Save_Hero_Info sql CallNothing]
    \<and> queryHeroInfo (hd_account d) t gs = [Add_Task Query_Hero_Info query (DoQueryHeroInfo (new_hero_query (hd_account d) t gs))]
    \<and> map (character_row_of number) (answer sql query) = [Some row]
    \<and> dbDoQueryHeroInfo (Some [row]) (new_hero_query (hd_account d) t gs) q =
      [Add_Task Query_Hero_Info (''select * from `character_equip` where `account_id`='' @ show_u64 (hd_account d) @ '';'')
        (DoQueryHeroEquips ((new_hero_query (hd_account d) t gs)\<lparr>hq_info := \<lparr>db_account = hd_account d,
          db_data = d\<lparr>hd_suits := map (\<lambda>s. s\<lparr>equip_ids := replicate (length (equip_ids s)) (scast (suit_id s))\<rparr>) (hd_suits d)\<rparr>,
          db_equips = [], db_toys = []\<rparr>\<rparr>))]"
proof -
  obtain suits rest where s: "suits_text (hd_suits d) = Inr suits"
      "out = To_Db (h_session h) (SaveDataGS2DB (character_sql d suits)) # rest"
    using SaveHero_first [OF assms(1)] assms(2) by metis
  let ?sql = "character_sql d suits"
  have "parseMsgSaveHeroData ?sql = [Add_Task Save_Hero_Info ?sql CallNothing]"
    by (simp add: parseMsgSaveHeroData_def saveSqlData_def sql_no_nul [OF assms(3) s(1)])
  moreover have "queryHeroInfo (hd_account d) t gs = [Add_Task Query_Hero_Info (character_query (uint (hd_account d)))
      (DoQueryHeroInfo (new_hero_query (hd_account d) t gs))]"
    by (simp add: queryHeroInfo_def character_query_def show_u64_int)
  moreover have "map (character_row_of number) (answer ?sql (character_query (uint (hd_account d)))) = [Some (hero_row d suits)]"
    using stored_row [OF assms(4,5,3) s(1) assms(6-11)] assms(12) s(1) by blast
  ultimately show ?thesis
    using s(2) hero_row_loaded [OF assms(3) s(1)]
    by (intro exI [of _ ?sql] exI [of _ rest] exI [of _ "character_query (uint (hd_account d))"]
        exI [of _ "hero_row d suits"] conjI)
qed

definition saved_hero :: dream_hero where
  "saved_hero = (set_account 9 (new_hero\<lparr>h_session := 1\<rparr>))\<lparr>h_info := \<lparr>hd_account = 9, hd_level = 1, hd_name = ''ann'',
     hd_action_point = 5, hd_diamand = 8, hd_gold = 7, hd_suits = [\<lparr>suit_id = 3, suit_name = ''red'', equip_ids = [44, 45]\<rparr>]\<rparr>\<rparr>"

lemma saved_hero_out: "\<exists>out. SaveHero (\<lambda>_. []) saved_hero = Inr out"
proof -
  have "(case SaveHero (\<lambda>_. []) saved_hero of Inl e \<Rightarrow> False | Inr out \<Rightarrow> True)" by code_simp
  then show ?thesis by (auto split: sum.splits)
qed

theorem hero_reload_witness:
  "\<exists>sql rest query row data.
      SaveHero (\<lambda>_. []) saved_hero = Inr (To_Db 1 (SaveDataGS2DB sql) # rest)
    \<and> parseMsgSaveHeroData sql = [Add_Task Save_Hero_Info sql CallNothing]
    \<and> queryHeroInfo 9 7 1 = [Add_Task Query_Hero_Info query (DoQueryHeroInfo (new_hero_query 9 7 1))]
    \<and> map (character_row_of read_int) (sample_answer sql query) = [Some row]
    \<and> dbDoQueryHeroInfo (Some [row]) (new_hero_query 9 7 1) new_quest
        = [Add_Task Query_Hero_Info (''select * from `character_equip` where `account_id`='' @ show_u64 9 @ '';'') (DoQueryHeroEquips data)]
    \<and> hd_gold (db_data (hq_info data)) = 7 \<and> hd_diamand (db_data (hq_info data)) = 8
    \<and> hd_suits (db_data (hq_info data)) = [\<lparr>suit_id = 3, suit_name = ''red'', equip_ids = [3, 3]\<rparr>]"
proof -
  obtain out where out: "SaveHero (\<lambda>_. []) saved_hero = Inr out" using saved_hero_out by blast
  have plain: "plain_hero (h_info saved_hero)"
    by (simp add: plain_hero_def saved_hero_def plain_name_def no_escape_def)
  have number: "\<forall>n. read_int (show_int n) = Some n" using read_show_int [of "[]"] by simp
  have facts: "hd_account (h_info saved_hero) = 9" "h_session saved_hero = 1"
    by (simp_all add: saved_hero_def set_account_def)
  obtain sql rest query row where r: "out = To_Db 1 (SaveDataGS2DB sql) # rest"
      "parseMsgSaveHeroData sql = [Add_Task Save_Hero_Info sql CallNothing]"
      "queryHeroInfo 9 7 1 = [Add_Task Query_Hero_Info query (DoQueryHeroInfo (new_hero_query 9 7 1))]"
      "map (character_row_of read_int) (sample_answer sql query) = [Some row]"
      "dbDoQueryHeroInfo (Some [row]) (new_hero_query 9 7 1) new_quest =
        [Add_Task Query_Hero_Info (''select * from `character_equip` where `account_id`='' @ show_u64 9 @ '';'')
          (DoQueryHeroEquips ((new_hero_query 9 7 1)\<lparr>hq_info := \<lparr>db_account = 9,
            db_data = (h_info saved_hero)\<lparr>hd_suits :=
              map (\<lambda>s. s\<lparr>equip_ids := replicate (length (equip_ids s)) (scast (suit_id s))\<rparr>) (hd_suits (h_info saved_hero))\<rparr>,
            db_equips = [], db_toys = []\<rparr>\<rparr>))]"
    using hero_reload [OF out refl plain sample_replaces number TrueI TrueI TrueI TrueI TrueI TrueI allI [OF impI [OF TrueI]],
      of 7 1 new_quest] unfolding facts by (elim exE conjE)
  show ?thesis
    by (rule exI [of _ sql], rule exI [of _ rest], rule exI [of _ query], rule exI [of _ row], rule exI, intro conjI)
      (rule out [unfolded r(1)] r(2-5) | simp add: saved_hero_def numeral_2_eq_2)+
qed

end
