(* ===== verification/Event.thy ===== *)
theory Event
  imports Prelude "HOL-Library.Multiset"
begin

text \<open>
  The timers of \<^verbatim>\<open>common/event_table_object.cpp\<close> and
  \<^verbatim>\<open>common/event_manager.h\<close>: an event is an object of its own with a reference count; the
  object that asked for it and the holder that runs it both point to it. A callback is a number; what it does to
  the timers is given by a function from the state to the operations it performs, which may add and
  remove events while the holder is walking over its list.
\<close>

section \<open>State\<close>

text \<open>\<open>te_ref\<close> is a signed number, the two times are unsigned milliseconds.\<close>

record timed_event =
  te_obj :: ptr
  te_cb :: "nat option"
  te_type :: u32
  te_flag :: u16
  te_ms :: u32
  te_curr :: u32
  te_repeats :: u32
  te_deleted :: bool
  te_inst :: int
  te_ref :: int

record event_obj =
  eo_events :: "(u32 \<times> ptr) list"
  eo_inst :: int
  eo_holder :: ptr

record event_holder =
  eh_inst :: int
  eh_events :: "ptr list"

text \<open>The heap of events, the objects with events, the holders, and the manager's map of holders. An
  address at or above \<open>ev_next\<close> has not been given out yet.\<close>

record ev_state =
  ev_heap :: "ptr \<Rightarrow> timed_event option"
  ev_next :: ptr
  ev_objs :: "(ptr, event_obj) omap"
  ev_holder :: "(ptr, event_holder) omap"
  ev_map :: "(int, ptr) omap"

definition WORLD_INSTANCE :: int where
  "WORLD_INSTANCE = -1"

definition EVENT_REMOVAL_FLAG_ALL :: u32 where
  "EVENT_REMOVAL_FLAG_ALL = 0xFFFFFFFF"

definition DO_NOT_EXECUTE_IN_WORLD_CONTEXT :: u16 where
  "DO_NOT_EXECUTE_IN_WORLD_CONTEXT = 1"

definition DELETES_OBJECT :: u16 where
  "DELETES_OBJECT = 2"

definition new_event_obj :: event_obj where
  "new_event_obj = \<lparr>eo_events = [], eo_inst = -1, eo_holder = NULL\<rparr>"

definition new_event :: "ptr \<Rightarrow> nat option \<Rightarrow> u32 \<Rightarrow> u32 \<Rightarrow> u32 \<Rightarrow> u32 \<Rightarrow> timed_event" where
  "new_event obj cb type time repeats flags =
     \<lparr>te_obj = obj, te_cb = cb, te_type = type, te_flag = ucast flags, te_ms = time, te_curr = time,
      te_repeats = repeats, te_deleted = False, te_inst = 0, te_ref = 0\<rparr>"

definition get_obj :: "ptr \<Rightarrow> ev_state \<Rightarrow> event_obj" where
  "get_obj ob s = (case om_find (ev_objs s) ob of Some x \<Rightarrow> x | None \<Rightarrow> new_event_obj)"

definition put_obj :: "ptr \<Rightarrow> event_obj \<Rightarrow> ev_state \<Rightarrow> ev_state" where
  "put_obj ob x s = s\<lparr>ev_objs := om_set ob x (ev_objs s)\<rparr>"

fun fold_result :: "('a \<Rightarrow> 's \<Rightarrow> 's result) \<Rightarrow> 'a list \<Rightarrow> 's \<Rightarrow> 's result" where
  "fold_result f [] s = Inr s"
| "fold_result f (x # xs) s = bind_result (f x s) (fold_result f xs)"

section \<open>TimedEvent\<close>

definition put_event :: "ptr \<Rightarrow> timed_event \<Rightarrow> ev_state \<Rightarrow> ev_state" where
  "put_event e x s = s\<lparr>ev_heap := (ev_heap s)(e := Some x)\<rparr>"

text \<open>Every access to an event goes through its address.\<close>

definition with_event :: "ptr \<Rightarrow> ev_state \<Rightarrow> (timed_event \<Rightarrow> 'a result) \<Rightarrow> 'a result" where
  "with_event e s f = (case ev_heap s e of Some x \<Rightarrow> f x | None \<Rightarrow> Inl Use_After_Free)"

definition incRef :: "ptr \<Rightarrow> ev_state \<Rightarrow> ev_state result" where
  "incRef e s = with_event e s (\<lambda>x. Inr (put_event e (x\<lparr>te_ref := te_ref x + 1\<rparr>) s))"

definition decRef :: "ptr \<Rightarrow> ev_state \<Rightarrow> ev_state result" where
  "decRef e s = with_event e s (\<lambda>x.
     let x = x\<lparr>te_obj := NULL, te_deleted := True, te_ref := te_ref x - 1\<rparr>
     in Inr (if te_ref x \<le> 0 then s\<lparr>ev_heap := (ev_heap s)(e := None)\<rparr> else put_event e x s))"

section \<open>Holders\<close>

definition getEventHolder :: "int \<Rightarrow> ev_state \<Rightarrow> ptr" where
  "getEventHolder i s = (case om_find (ev_map s) i of Some h \<Rightarrow> h | None \<Rightarrow> NULL)"

definition addEventHolder :: "ptr \<Rightarrow> int \<Rightarrow> ev_state \<Rightarrow> ev_state" where
  "addEventHolder h i s = s\<lparr>ev_map := om_insert i h (ev_map s)\<rparr>"

fun remove_holder :: "ptr \<Rightarrow> (int, ptr) omap \<Rightarrow> (int, ptr) omap" where
  "remove_holder h [] = []"
| "remove_holder h ((i, h') # m) = (if h' = h then m else (i, h') # remove_holder h m)"

definition removeEventHolder :: "ptr \<Rightarrow> ev_state \<Rightarrow> ev_state" where
  "removeEventHolder h s = s\<lparr>ev_map := remove_holder h (ev_map s)\<rparr>"

definition removeEventHolder_id :: "int \<Rightarrow> ev_state \<Rightarrow> ev_state" where
  "removeEventHolder_id i s = s\<lparr>ev_map := om_erase i (ev_map s)\<rparr>"

definition new_holder :: "ptr \<Rightarrow> int \<Rightarrow> ev_state \<Rightarrow> ev_state" where
  "new_holder h i s =
     addEventHolder h i (s\<lparr>ev_holder := om_set h \<lparr>eh_inst = i, eh_events = []\<rparr> (ev_holder s)\<rparr>)"

definition delete_holder :: "ptr \<Rightarrow> ev_state \<Rightarrow> ev_state result" where
  "delete_holder h s =
     (case om_find (ev_holder s) h of
        None \<Rightarrow> Inl Use_After_Free
      | Some x \<Rightarrow>
          bind_result (fold_result decRef (eh_events x) (removeEventHolder h s)) (\<lambda>s.
          Inr (s\<lparr>ev_holder := om_erase h (ev_holder s)\<rparr>)))"

definition push_event :: "ptr \<Rightarrow> ptr \<Rightarrow> ev_state \<Rightarrow> ev_state result" where
  "push_event h e s =
     (case om_find (ev_holder s) h of
        None \<Rightarrow> Inl Use_After_Free
      | Some x \<Rightarrow> Inr (s\<lparr>ev_holder := om_set h (x\<lparr>eh_events := eh_events x @ [e]\<rparr>) (ev_holder s)\<rparr>))"

definition holder_addEvent :: "ptr \<Rightarrow> ptr \<Rightarrow> ev_state \<Rightarrow> ev_state result" where
  "holder_addEvent h e s = bind_result (incRef e s) (push_event h e)"

definition add_object_event :: "ptr \<Rightarrow> int \<Rightarrow> ptr \<Rightarrow> ev_state \<Rightarrow> ev_state result" where
  "add_object_event h i e s = with_event e s (\<lambda>x.
     if te_deleted x then Inr s
     else if i = WORLD_INSTANCE \<and> te_flag x AND DO_NOT_EXECUTE_IN_WORLD_CONTEXT \<noteq> 0 then Inr s
     else bind_result (incRef e s) (\<lambda>s. with_event e s (\<lambda>x. push_event h e (put_event e (x\<lparr>te_inst := i\<rparr>) s))))"

definition addObject :: "ptr \<Rightarrow> ptr \<Rightarrow> ev_state \<Rightarrow> ev_state result" where
  "addObject h ob s =
     (case om_find (ev_holder s) h of
        None \<Rightarrow> Inl Use_After_Free
      | Some x \<Rightarrow> fold_result (add_object_event h (eh_inst x)) (map snd (eo_events (get_obj ob s))) s)"

section \<open>EventableObject\<close>

text \<open>\<^verbatim>\<open>std::multimap\<close>: a new entry comes behind the entries with the same key.\<close>

definition mm_insert :: "u32 \<Rightarrow> ptr \<Rightarrow> (u32 \<times> ptr) list \<Rightarrow> (u32 \<times> ptr) list" where
  "mm_insert k e m = takeWhile (\<lambda>(k', _). k' \<le> k) m @ (k, e) # dropWhile (\<lambda>(k', _). k' \<le> k) m"

definition of_type_events :: "u32 \<Rightarrow> (u32 \<times> ptr) list \<Rightarrow> ptr list" where
  "of_type_events k m = map snd (filter (\<lambda>(k', _). k' = k) m)"

definition eventGetInstanceID :: int where
  "eventGetInstanceID = -1"

definition choose_holder :: "ptr \<Rightarrow> ev_state \<Rightarrow> ev_state" where
  "choose_holder ob s =
     put_obj ob ((get_obj ob s)\<lparr>eo_inst := eventGetInstanceID, eo_holder := getEventHolder eventGetInstanceID s\<rparr>) s"

text \<open>The part of \<open>eventAddEvent\<close> after the count has been raised.\<close>

definition link_event :: "ptr \<Rightarrow> ptr \<Rightarrow> timed_event \<Rightarrow> ev_state \<Rightarrow> ev_state result" where
  "link_event ob e x s =
     (let s = put_event e (x\<lparr>te_inst := eo_inst (get_obj ob s)\<rparr>) s;
          s = put_obj ob ((get_obj ob s)\<lparr>eo_events := mm_insert (te_type x) e (eo_events (get_obj ob s))\<rparr>) s;
          s = (if eo_holder (get_obj ob s) = NULL then choose_holder ob s else s)
      in if eo_holder (get_obj ob s) = NULL then Inl Assert_Failed
         else holder_addEvent (eo_holder (get_obj ob s)) e s)"

definition eventAddEvent :: "ptr \<Rightarrow> ptr \<Rightarrow> ev_state \<Rightarrow> ev_state result" where
  "eventAddEvent ob e s =
     (let s = (if eo_holder (get_obj ob s) = NULL then choose_holder ob s else s)
      in bind_result (incRef e s) (\<lambda>s. with_event e s (\<lambda>x. link_event ob e x s)))"

fun erase_pointer :: "u32 \<Rightarrow> ptr \<Rightarrow> (u32 \<times> ptr) list \<Rightarrow> (u32 \<times> ptr) list option" where
  "erase_pointer k e [] = None"
| "erase_pointer k e ((k', e') # m) =
     (if k' = k \<and> e' = e then Some m else map_option (\<lambda>m. (k', e') # m) (erase_pointer k e m))"

definition eventRemoveByPointer :: "ptr \<Rightarrow> ptr \<Rightarrow> ev_state \<Rightarrow> ev_state result" where
  "eventRemoveByPointer ob e s = with_event e s (\<lambda>x.
     case erase_pointer (te_type x) e (eo_events (get_obj ob s)) of
       None \<Rightarrow> Inr s
     | Some m \<Rightarrow> bind_result (decRef e s) (\<lambda>s. Inr (put_obj ob ((get_obj ob s)\<lparr>eo_events := m\<rparr>) s)))"

definition eventRemoveEvents :: "ptr \<Rightarrow> u32 \<Rightarrow> ev_state \<Rightarrow> ev_state result" where
  "eventRemoveEvents ob type s =
     (let m = eo_events (get_obj ob s)
      in if type = EVENT_REMOVAL_FLAG_ALL
         then bind_result (fold_result decRef (map snd m) s) (\<lambda>s. Inr (put_obj ob ((get_obj ob s)\<lparr>eo_events := []\<rparr>) s))
         else bind_result (fold_result decRef (of_type_events type m) s) (\<lambda>s.
              Inr (put_obj ob ((get_obj ob s)\<lparr>eo_events := filter (\<lambda>(k, _). k \<noteq> type) m\<rparr>) s)))"

definition change_events :: "(timed_event \<Rightarrow> timed_event) \<Rightarrow> ptr \<Rightarrow> u32 \<Rightarrow> ev_state \<Rightarrow> ev_state result" where
  "change_events f ob type s =
     fold_result (\<lambda>e s. with_event e s (\<lambda>x. Inr (put_event e (f x) s))) (of_type_events type (eo_events (get_obj ob s))) s"

text \<open>The comparison of a signed with an unsigned 32-bit number is unsigned.\<close>

definition eventModifyTimeLeft :: "ptr \<Rightarrow> u32 \<Rightarrow> u32 \<Rightarrow> bool \<Rightarrow> ev_state \<Rightarrow> ev_state result" where
  "eventModifyTimeLeft ob type left unconditioned =
     change_events (\<lambda>x. x\<lparr>te_curr := (if unconditioned then left else if left > te_ms x then te_ms x else left)\<rparr>) ob type"

definition eventModifyTime :: "ptr \<Rightarrow> u32 \<Rightarrow> u32 \<Rightarrow> ev_state \<Rightarrow> ev_state result" where
  "eventModifyTime ob type time = change_events (\<lambda>x. x\<lparr>te_ms := time\<rparr>) ob type"

definition eventModifyTimeAndTimeLeft :: "ptr \<Rightarrow> u32 \<Rightarrow> u32 \<Rightarrow> ev_state \<Rightarrow> ev_state result" where
  "eventModifyTimeAndTimeLeft ob type time = change_events (\<lambda>x. x\<lparr>te_ms := time, te_curr := time\<rparr>) ob type"

fun first_live :: "ptr list \<Rightarrow> ev_state \<Rightarrow> timed_event option result" where
  "first_live [] s = Inr None"
| "first_live (e # es) s = with_event e s (\<lambda>x. if te_deleted x then first_live es s else Inr (Some x))"

definition eventGetTimeLeft :: "ptr \<Rightarrow> u32 \<Rightarrow> ev_state \<Rightarrow> u32 option result" where
  "eventGetTimeLeft ob type s =
     bind_result (first_live (of_type_events type (eo_events (get_obj ob s))) s) (\<lambda>x. Inr (map_option te_curr x))"

definition eventHasEvent :: "ptr \<Rightarrow> u32 \<Rightarrow> ev_state \<Rightarrow> bool result" where
  "eventHasEvent ob type s =
     bind_result (first_live (of_type_events type (eo_events (get_obj ob s))) s) (\<lambda>x. Inr (x \<noteq> None))"

definition eventGetEventPeriod :: "ptr \<Rightarrow> u32 \<Rightarrow> ev_state \<Rightarrow> u32 result" where
  "eventGetEventPeriod ob type s =
     (case of_type_events type (eo_events (get_obj ob s)) of
        [] \<Rightarrow> Inr 0
      | e # _ \<Rightarrow> with_event e s (\<lambda>x. Inr (te_ms x)))"

definition eventRelocate :: "ptr \<Rightarrow> ev_state \<Rightarrow> ev_state result" where
  "eventRelocate ob s =
     (let h = getEventHolder eventGetInstanceID s
      in if h = eo_holder (get_obj ob s) then Inr s
         else (let h = (if h = NULL then getEventHolder (-1) s else h)
               in if h = NULL then Inl Assert_Failed
                  else bind_result (addObject h ob s) (\<lambda>s.
                       case om_find (ev_holder s) h of
                         None \<Rightarrow> Inl Use_After_Free
                       | Some x \<Rightarrow> Inr (put_obj ob ((get_obj ob s)\<lparr>eo_inst := eh_inst x, eo_holder := h\<rparr>) s))))"

definition delete_obj :: "ptr \<Rightarrow> ev_state \<Rightarrow> ev_state result" where
  "delete_obj ob s =
     bind_result (fold_result decRef (map snd (eo_events (get_obj ob s))) s) (\<lambda>s.
     Inr (s\<lparr>ev_objs := om_erase ob (ev_objs s)\<rparr>))"

section \<open>EventMgr and callbacks\<close>

definition addEvent :: "ptr \<Rightarrow> nat option \<Rightarrow> u32 \<Rightarrow> u32 \<Rightarrow> u32 \<Rightarrow> u32 \<Rightarrow> ev_state \<Rightarrow> ev_state result" where
  "addEvent ob cb type time repeats flags s =
     (let e = ev_next s
      in eventAddEvent ob e (put_event e (new_event ob cb type time repeats flags) (s\<lparr>ev_next := e + 1\<rparr>)))"

definition getEventTimeLeft :: "ptr \<Rightarrow> u32 \<Rightarrow> ev_state \<Rightarrow> u32 result" where
  "getEventTimeLeft ob type s =
     bind_result (eventGetTimeLeft ob type s) (\<lambda>t. Inr (case t of Some n \<Rightarrow> n | None \<Rightarrow> 0))"

datatype ev_op =
    Op_Add ptr "nat option" u32 u32 u32 u32
  | Op_Remove ptr u32
  | Op_Time_Left ptr u32 u32 bool
  | Op_Time ptr u32 u32
  | Op_Both ptr u32 u32

fun run_op :: "ev_op \<Rightarrow> ev_state \<Rightarrow> ev_state result" where
  "run_op (Op_Add ob cb type time repeats flags) s = addEvent ob cb type time repeats flags s"
| "run_op (Op_Remove ob type) s = eventRemoveEvents ob type s"
| "run_op (Op_Time_Left ob type time u) s = eventModifyTimeLeft ob type time u s"
| "run_op (Op_Time ob type time) s = eventModifyTime ob type time s"
| "run_op (Op_Both ob type time) s = eventModifyTimeAndTimeLeft ob type time s"

type_synonym behaviour = "nat \<Rightarrow> ev_state \<Rightarrow> ev_op list"

definition execute :: "behaviour \<Rightarrow> nat \<Rightarrow> ev_state \<Rightarrow> ev_state result" where
  "execute beh cb s = fold_result run_op (beh cb s) s"

section \<open>EventableObjectHolder::update\<close>

text \<open>What one round of the loop does with an event: keep it in the list or erase it. The last component
  tells whether its callback was called.\<close>

datatype verdict = Keep | Erase

definition erase_event :: "ptr \<Rightarrow> bool \<Rightarrow> ev_state \<Rightarrow> (verdict \<times> bool \<times> ev_state) result" where
  "erase_event e fired s = bind_result (decRef e s) (\<lambda>s. Inr (Erase, fired, s))"

definition visit_event :: "behaviour \<Rightarrow> int \<Rightarrow> u32 \<Rightarrow> ptr \<Rightarrow> ev_state \<Rightarrow> (verdict \<times> bool \<times> ev_state) result" where
  "visit_event beh i diff e s = with_event e s (\<lambda>x.
     if te_inst x \<noteq> i \<or> te_deleted x \<or> (i = WORLD_INSTANCE \<and> te_flag x AND DO_NOT_EXECUTE_IN_WORLD_CONTEXT \<noteq> 0)
     then erase_event e False s
     else if te_curr x \<le> diff
     then (case te_cb x of
             None \<Rightarrow> erase_event e False s
           | Some cb \<Rightarrow> bind_result (execute beh cb s) (\<lambda>s.
               if te_flag x AND DELETES_OBJECT \<noteq> 0 then erase_event e True s
               else with_event e s (\<lambda>x.
                 let n = (if te_repeats x \<noteq> 0 then te_repeats x - 1 else 0);
                     stop = (te_repeats x \<noteq> 0 \<and> n = 0) \<or> te_deleted x;
                     s = put_event e (x\<lparr>te_repeats := n\<rparr>) s
                 in if stop then erase_event e True s
                    else with_event e s (\<lambda>x. Inr (Keep, True, put_event e (x\<lparr>te_curr := te_ms x\<rparr>) s)))))
     else Inr (Keep, False, put_event e (x\<lparr>te_curr := te_curr x - diff\<rparr>) s))"

definition set_list :: "ptr \<Rightarrow> ptr list \<Rightarrow> ev_state \<Rightarrow> ev_state" where
  "set_list h es s =
     (case om_find (ev_holder s) h of
        Some x \<Rightarrow> s\<lparr>ev_holder := om_set h (x\<lparr>eh_events := es\<rparr>) (ev_holder s)\<rparr>
      | None \<Rightarrow> s)"

definition list_of :: "ptr \<Rightarrow> ev_state \<Rightarrow> ptr list" where
  "list_of h s = (case om_find (ev_holder s) h of Some x \<Rightarrow> eh_events x | None \<Rightarrow> [])"

definition drop_index :: "nat \<Rightarrow> 'a list \<Rightarrow> 'a list" where
  "drop_index i xs = take i xs @ drop (Suc i) xs"

text \<open>
  The loop goes by positions; the next iterator is taken before the event is looked at, so when the event was
  the last one, the loop ends there whatever its callback has added. What callbacks add behind an event
  that was not the last is visited in the same call, so the loop need not end: \<open>None\<close> when the fuel is used
  up. The result lists the events whose callbacks were called.
\<close>

fun update_loop ::
    "nat \<Rightarrow> behaviour \<Rightarrow> ptr \<Rightarrow> int \<Rightarrow> u32 \<Rightarrow> nat \<Rightarrow> ev_state \<Rightarrow> (ptr list \<times> ev_state) result option" where
  "update_loop 0 beh h inst diff i s = None"
| "update_loop (Suc n) beh h inst diff i s =
     (if length (list_of h s) \<le> i then Some (Inr ([], s))
      else let e = list_of h s ! i; final = (length (list_of h s) = Suc i)
      in (case visit_event beh inst diff e s of
            Inl err \<Rightarrow> Some (Inl err)
          | Inr (v, fired, s) \<Rightarrow>
              let (j, s) = (if v = Erase then (i, set_list h (drop_index i (list_of h s)) s) else (Suc i, s));
                  out = (if fired then [e] else [])
              in if final then Some (Inr (out, s))
                 else map_option (\<lambda>r. bind_result r (\<lambda>(out', s). Inr (out @ out', s))) (update_loop n beh h inst diff j s)))"

definition update :: "nat \<Rightarrow> behaviour \<Rightarrow> ptr \<Rightarrow> u32 \<Rightarrow> ev_state \<Rightarrow> (ptr list \<times> ev_state) result option" where
  "update fuel beh h diff s =
     (case om_find (ev_holder s) h of
        None \<Rightarrow> Some (Inl Use_After_Free)
      | Some x \<Rightarrow> update_loop fuel beh h (eh_inst x) diff 0 s)"


section \<open>Reference counts\<close>

definition links :: "('v \<Rightarrow> ptr list) \<Rightarrow> (ptr, 'v) omap \<Rightarrow> ptr multiset" where
  "links f m = mset (concat (map (\<lambda>e. f (snd e)) m))"

definition obj_links :: "event_obj \<Rightarrow> ptr list" where
  "obj_links x = map snd (eo_events x)"

definition refs :: "ev_state \<Rightarrow> ptr multiset" where
  "refs s = links obj_links (ev_objs s) + links eh_events (ev_holder s)"

text \<open>The counts agree with the links \<open>R\<close>; only events in \<open>F\<close> may have no link.\<close>

definition cell_ok :: "bool \<Rightarrow> nat \<Rightarrow> bool \<Rightarrow> timed_event option \<Rightarrow> bool" where
  "cell_ok free n given c =
     (case c of None \<Rightarrow> n = 0 | Some x \<Rightarrow> te_ref x = int n \<and> given \<and> (free \<or> 0 < n))"

definition heap_ok :: "ptr set \<Rightarrow> ptr multiset \<Rightarrow> ev_state \<Rightarrow> bool" where
  "heap_ok F R s \<longleftrightarrow> (\<forall>e. cell_ok (e \<in> F) (count R e) (e < ev_next s) (ev_heap s e))"

definition holders_ok :: "ev_state \<Rightarrow> bool" where
  "holders_ok s \<longleftrightarrow> om_ok (ev_objs s) \<and> om_ok (ev_holder s)
     \<and> (\<forall>ob. eo_holder (get_obj ob s) = NULL \<or> om_find (ev_holder s) (eo_holder (get_obj ob s)) \<noteq> None)
     \<and> getEventHolder WORLD_INSTANCE s \<noteq> NULL
     \<and> (\<forall>i. getEventHolder i s = NULL \<or> om_find (ev_holder s) (getEventHolder i s) \<noteq> None)"

definition ev_ok :: "ev_state \<Rightarrow> bool" where
  "ev_ok s \<longleftrightarrow> heap_ok {} (refs s) s \<and> holders_ok s"

lemma links_set:
  "om_ok m \<Longrightarrow> links f (om_set k v m) + (case om_find m k of Some w \<Rightarrow> mset (f w) | None \<Rightarrow> {#}) = links f m + mset (f v)"
proof (induction m)
  case (Cons e m)
  show ?case
  proof (cases "k < fst e")
    case True
    moreover from this have "om_find (e # m) k = None"
      using Cons.prems by (auto simp: map_of_eq_None_iff)
    ultimately show ?thesis by (simp add: links_def)
  next
    case False
    then show ?thesis
      using Cons by (cases "k = fst e") (auto simp: links_def ac_simps split: option.splits)
  qed
qed (simp add: links_def)

lemma links_erase:
  "om_ok m \<Longrightarrow> links f (om_erase k m) + (case om_find m k of Some w \<Rightarrow> mset (f w) | None \<Rightarrow> {#}) = links f m"
proof (induction m)
  case (Cons e m)
  have "k = fst e \<Longrightarrow> om_erase k m = m"
    using Cons.prems by (auto simp: om_erase_def filter_id_conv)
  moreover have "k = fst e \<Longrightarrow> om_find m k = None"
    using Cons.prems by (auto simp: map_of_eq_None_iff)
  ultimately show ?case
    using Cons by (cases "k = fst e") (auto simp: links_def om_erase_def ac_simps split: option.splits)
qed (simp add: links_def om_erase_def)

lemma refs_put_obj:
  assumes "om_ok (ev_objs s)"
  shows "refs (put_obj ob x s) + mset (obj_links (get_obj ob s)) = refs s + mset (obj_links x)"
  using links_set [OF assms, of obj_links ob x]
  by (auto simp: refs_def put_obj_def get_obj_def new_event_obj_def obj_links_def ac_simps split: option.splits)

lemma refs_set_list:
  assumes "om_ok (ev_holder s)" and "om_find (ev_holder s) h = Some x"
  shows "refs (set_list h es s) + mset (list_of h s) = refs s + mset es"
  using links_set [OF assms(1), of eh_events h "x\<lparr>eh_events := es\<rparr>"] assms(2)
  by (simp add: refs_def set_list_def list_of_def ac_simps)

lemma get_put_obj [simp]: "get_obj ob (put_obj ob' x s) = (if ob = ob' then x else get_obj ob s)"
  by (simp add: get_obj_def put_obj_def)

lemma frame_simps [simp]:
  "ev_heap (put_obj ob x s) = ev_heap s" "ev_next (put_obj ob x s) = ev_next s"
  "ev_holder (put_obj ob x s) = ev_holder s" "ev_map (put_obj ob x s) = ev_map s"
  "ev_objs (put_event e y s) = ev_objs s" "ev_holder (put_event e y s) = ev_holder s"
  "ev_map (put_event e y s) = ev_map s" "ev_next (put_event e y s) = ev_next s"
  "get_obj ob (put_event e y s) = get_obj ob s" "refs (put_event e y s) = refs s"
  "ev_heap (set_list h es s) = ev_heap s" "ev_next (set_list h es s) = ev_next s"
  "ev_objs (set_list h es s) = ev_objs s" "ev_map (set_list h es s) = ev_map s"
  "get_obj ob (set_list h es s) = get_obj ob s"
  by (simp_all add: put_obj_def put_event_def get_obj_def refs_def set_list_def split: option.split)

text \<open>Only the heap differs.\<close>

definition same_links :: "ev_state \<Rightarrow> ev_state \<Rightarrow> bool" where
  "same_links s t \<longleftrightarrow> ev_objs t = ev_objs s \<and> ev_holder t = ev_holder s \<and> ev_map t = ev_map s \<and> ev_next t = ev_next s"

lemma same_linksD:
  assumes "same_links s t"
  shows "refs t = refs s" "get_obj ob t = get_obj ob s" "holders_ok t = holders_ok s"
    "list_of h t = list_of h s" "getEventHolder i t = getEventHolder i s"
  using assms by (simp_all add: same_links_def refs_def get_obj_def holders_ok_def list_of_def getEventHolder_def)

lemma same_links_trans: "same_links s t \<Longrightarrow> same_links t u \<Longrightarrow> same_links s u"
  by (simp add: same_links_def)

lemma heap_okD:
  "heap_ok F R s \<Longrightarrow> cell_ok (e \<in> F) (count R e) (e < ev_next s) (ev_heap s e)"
  by (simp add: heap_ok_def)

lemma heap_ok_live:
  "heap_ok F R s \<Longrightarrow> e \<in># R \<Longrightarrow> \<exists>x. ev_heap s e = Some x"
  using heap_okD [of F R s e] by (auto simp: cell_ok_def count_eq_zero_iff split: option.splits)

lemma heap_ok_update:
  assumes "heap_ok F R s" and "cell_ok (e \<in> F') (count R' e) (e < ev_next s) (ev_heap t e)"
    and "\<And>d. d \<noteq> e \<Longrightarrow> (d \<in> F') = (d \<in> F) \<and> count R' d = count R d \<and> ev_heap t d = ev_heap s d"
    and "ev_next t = ev_next s"
  shows "heap_ok F' R' t"
  unfolding heap_ok_def
proof
  fix d
  show "cell_ok (d \<in> F') (count R' d) (d < ev_next t) (ev_heap t d)"
    using assms heap_okD [OF assms(1), of d] by (cases "d = e") simp_all
qed

lemma incRef_ok:
  assumes "heap_ok F R s" and "ev_heap s e \<noteq> None"
  shows "\<exists>t. incRef e s = Inr t \<and> heap_ok (F - {e}) (add_mset e R) t \<and> same_links s t \<and> ev_heap t e \<noteq> None"
proof -
  obtain x where x: "ev_heap s e = Some x" using assms(2) by blast
  let ?t = "put_event e (x\<lparr>te_ref := te_ref x + 1\<rparr>) s"
  have "heap_ok (F - {e}) (add_mset e R) ?t"
    by (rule heap_ok_update [OF assms(1), of e])
      (use heap_okD [OF assms(1), of e] x in \<open>auto simp: cell_ok_def put_event_def\<close>)
  with x show ?thesis
    by (simp add: incRef_def with_event_def same_links_def put_event_def)
qed

lemma decRef_ok:
  assumes "heap_ok F R s" and "e \<in># R" and "e \<notin> F"
  shows "\<exists>t. decRef e s = Inr t \<and> heap_ok F (R - {#e#}) t \<and> same_links s t"
proof -
  obtain x where x: "ev_heap s e = Some x"
    using heap_ok_live [OF assms(1,2)] by blast
  let ?x = "x\<lparr>te_obj := NULL, te_deleted := True, te_ref := te_ref x - 1\<rparr>"
  let ?t = "if te_ref ?x \<le> 0 then s\<lparr>ev_heap := (ev_heap s)(e := None)\<rparr> else put_event e ?x s"
  have pos: "0 < count R e" using assms(2) by simp
  have "heap_ok F (R - {#e#}) ?t"
    by (rule heap_ok_update [OF assms(1), of e])
      (use heap_okD [OF assms(1), of e] x pos in \<open>auto simp: cell_ok_def put_event_def of_nat_diff simp del: count_greater_zero_iff\<close>)
  with x show ?thesis
    by (auto simp: decRef_def with_event_def same_links_def put_event_def Let_def)
qed

lemma decRefs_ok:
  "heap_ok F R s \<Longrightarrow> mset es \<subseteq># R \<Longrightarrow> set es \<inter> F = {} \<Longrightarrow>
   \<exists>t. fold_result decRef es s = Inr t \<and> heap_ok F (R - mset es) t \<and> same_links s t"
proof (induction es arbitrary: R s)
  case Nil
  then show ?case by (simp add: same_links_def)
next
  case (Cons e es)
  have mem: "e \<in># R" using Cons.prems(2) by (auto dest: mset_subset_eqD)
  obtain t where t: "decRef e s = Inr t" "heap_ok F (R - {#e#}) t" "same_links s t"
    using decRef_ok [OF Cons.prems(1) mem] Cons.prems(3) by auto
  have "mset es \<subseteq># R - {#e#}"
    using Cons.prems(2) by (simp add: insert_subset_eq_iff)
  then obtain u where "fold_result decRef es t = Inr u" "heap_ok F (R - {#e#} - mset es) u" "same_links t u"
    using Cons.IH [OF t(2)] Cons.prems(3) by auto
  with t show ?case by (auto intro: same_links_trans)
qed

section \<open>The operations of a callback\<close>

definition extends :: "ev_state \<Rightarrow> ev_state \<Rightarrow> bool" where
  "extends s t \<longleftrightarrow> (\<forall>h. case om_find (ev_holder s) h of
       None \<Rightarrow> om_find (ev_holder t) h = None
     | Some x \<Rightarrow> \<exists>new. om_find (ev_holder t) h = Some (x\<lparr>eh_events := eh_events x @ new\<rparr>))"

lemma extends_refl [simp]: "ev_holder t = ev_holder s \<Longrightarrow> extends s t"
  by (auto simp: extends_def split: option.split intro!: exI [of _ "[]"])

lemma extends_trans:
  assumes "extends s t" and "extends t u"
  shows "extends s u"
  unfolding extends_def
proof
  fix h
  show "case om_find (ev_holder s) h of None \<Rightarrow> om_find (ev_holder u) h = None
      | Some x \<Rightarrow> \<exists>new. om_find (ev_holder u) h = Some (x\<lparr>eh_events := eh_events x @ new\<rparr>)"
    using assms [unfolded extends_def, THEN spec, of h]
    by (auto split: option.splits)
qed

lemma extends_find:
  "extends s t \<Longrightarrow> om_find (ev_holder s) h = Some x \<Longrightarrow>
   \<exists>new. om_find (ev_holder t) h = Some (x\<lparr>eh_events := eh_events x @ new\<rparr>)"
  unfolding extends_def by (drule spec [of _ h]) simp

lemma extends_list: "extends s t \<Longrightarrow> om_find (ev_holder s) h = Some x \<Longrightarrow> \<exists>new. list_of h t = list_of h s @ new"
  using extends_find [of s t h x] by (auto simp: list_of_def)

definition safe :: "(ev_state \<Rightarrow> ev_state result) \<Rightarrow> bool" where
  "safe f \<longleftrightarrow> (\<forall>s. ev_ok s \<longrightarrow> (\<exists>t. f s = Inr t \<and> ev_ok t \<and> extends s t))"

lemma safeD: "safe f \<Longrightarrow> ev_ok s \<Longrightarrow> \<exists>t. f s = Inr t \<and> ev_ok t \<and> extends s t"
  by (simp add: safe_def)

lemma ev_okD:
  assumes "ev_ok s"
  shows "heap_ok {} (refs s) s" "holders_ok s" "om_ok (ev_objs s)" "om_ok (ev_holder s)"
  using assms by (simp_all add: ev_ok_def holders_ok_def)

lemma holders_ok_put_obj:
  assumes "holders_ok s" and "eo_holder x = NULL \<or> om_find (ev_holder s) (eo_holder x) \<noteq> None"
  shows "holders_ok (put_obj ob x s)"
  using assms by (auto simp: holders_ok_def getEventHolder_def put_obj_def get_obj_def)

lemma obj_links_refs: "om_ok (ev_objs s) \<Longrightarrow> mset (obj_links (get_obj ob s)) \<subseteq># refs s"
proof -
  assume ok: "om_ok (ev_objs s)"
  have "refs (put_obj ob (new_event_obj) s) + mset (obj_links (get_obj ob s)) = refs s"
    using refs_put_obj [OF ok, of ob new_event_obj] by (simp add: obj_links_def new_event_obj_def)
  then show ?thesis by (metis mset_subset_eq_add_right)
qed

text \<open>An object gives up the links \<open>es\<close> and keeps the entries \<open>m\<close>.\<close>

lemma drop_links:
  assumes "ev_ok s" and "mset (obj_links (get_obj ob s)) = mset es + mset (map snd m)"
  shows "\<exists>t. fold_result decRef es s = Inr t
    \<and> ev_ok (put_obj ob ((get_obj ob t)\<lparr>eo_events := m\<rparr>) t) \<and> same_links s t"
proof -
  note ok = ev_okD [OF assms(1)]
  have sub: "mset es \<subseteq># refs s"
    using obj_links_refs [OF ok(3), of ob] assms(2) by (metis mset_subset_eq_add_left subset_mset.order_trans)
  obtain t where t: "fold_result decRef es s = Inr t" "heap_ok {} (refs s - mset es) t" "same_links s t"
    using decRefs_ok [OF ok(1) sub] by auto
  let ?u = "put_obj ob ((get_obj ob t)\<lparr>eo_events := m\<rparr>) t"
  have "refs ?u + mset (obj_links (get_obj ob s)) = refs s + mset (map snd m)"
    using refs_put_obj [of t ob "(get_obj ob t)\<lparr>eo_events := m\<rparr>"] ok(3) t(3)
    by (simp add: same_linksD(1,2) [OF t(3)] obj_links_def) (simp add: same_links_def)
  then have "refs ?u + mset es = refs s"
    using assms(2) by (simp add: ac_simps)
  then have "refs ?u = refs s - mset es" by (metis add_diff_cancel_right')
  moreover have "heap_ok {} R ?u = heap_ok {} R t" for R by (simp add: heap_ok_def)
  moreover have "holders_ok ?u"
    using ok(2) same_linksD(3) [OF t(3)] t(3)
    by (intro holders_ok_put_obj) (auto simp: holders_ok_def)
  ultimately show ?thesis
    using t by (auto simp: ev_ok_def)
qed

lemma same_links_extends: "same_links s t \<Longrightarrow> extends s t"
  by (simp add: same_links_def)

lemma safe_remove: "safe (eventRemoveEvents ob type)"
  unfolding safe_def
proof (intro allI impI)
  fix s assume ok: "ev_ok s"
  let ?m = "eo_events (get_obj ob s)"
  show "\<exists>t. eventRemoveEvents ob type s = Inr t \<and> ev_ok t \<and> extends s t"
  proof (cases "type = EVENT_REMOVAL_FLAG_ALL")
    case True
    obtain t where "fold_result decRef (map snd ?m) s = Inr t" "ev_ok (put_obj ob ((get_obj ob t)\<lparr>eo_events := []\<rparr>) t)"
        "same_links s t"
      using drop_links [OF ok, of ob "map snd ?m" "[]"] by (simp add: obj_links_def) blast
    with True show ?thesis by (simp add: eventRemoveEvents_def same_links_def)
  next
    case False
    let ?es = "of_type_events type ?m" and ?rest = "filter (\<lambda>(k, _). k \<noteq> type) ?m"
    have "mset (map snd m) = mset (map snd (filter (\<lambda>(k', _). k' = type) m)) + mset (map snd (filter (\<lambda>(k, _). k \<noteq> type) m))"
      for m :: "(u32 \<times> ptr) list"
      by (induction m) (simp_all add: case_prod_unfold)
    then have split: "mset (obj_links (get_obj ob s)) = mset ?es + mset (map snd ?rest)"
      unfolding obj_links_def of_type_events_def .
    obtain t where "fold_result decRef ?es s = Inr t"
        "ev_ok (put_obj ob ((get_obj ob t)\<lparr>eo_events := ?rest\<rparr>) t)" "same_links s t"
      using drop_links [OF ok split] by blast
    with False show ?thesis by (simp add: eventRemoveEvents_def same_links_def Let_def)
  qed
qed

lemma change_fold_ok:
  assumes "\<And>x. te_ref (f x) = te_ref x"
  shows "heap_ok F R s \<Longrightarrow> set es \<subseteq> set_mset R \<Longrightarrow>
    \<exists>t. fold_result (\<lambda>e s. with_event e s (\<lambda>x. Inr (put_event e (f x) s))) es s = Inr t \<and> heap_ok F R t \<and> same_links s t"
proof (induction es arbitrary: s)
  case Nil
  then show ?case by (simp add: same_links_def)
next
  case (Cons e es)
  then obtain x where x: "ev_heap s e = Some x"
    using heap_ok_live [of F R s e] by auto
  have ok: "heap_ok F R (put_event e (f x) s)"
    by (rule heap_ok_update [OF Cons.prems(1), of e])
      (use heap_okD [OF Cons.prems(1), of e] x in \<open>auto simp: cell_ok_def put_event_def assms\<close>)
  have "same_links s (put_event e (f x) s)" by (simp add: same_links_def)
  with Cons.IH [OF ok] Cons.prems(2) x show ?case
    by (auto simp: with_event_def intro: same_links_trans)
qed

lemma safe_change: "(\<And>x. te_ref (f x) = te_ref x) \<Longrightarrow> safe (change_events f ob type)"
  unfolding safe_def
proof (intro allI impI)
  fix s assume f: "\<And>x. te_ref (f x) = te_ref x" and ok: "ev_ok s"
  have "set (of_type_events type (eo_events (get_obj ob s))) \<subseteq> set (obj_links (get_obj ob s))"
    by (auto simp: of_type_events_def obj_links_def)
  also have "\<dots> \<subseteq> set_mset (refs s)"
    using set_mset_mono [OF obj_links_refs [OF ev_okD(3) [OF ok], of ob]] by simp
  finally obtain t where "change_events f ob type s = Inr t" "heap_ok {} (refs s) t" "same_links s t"
    using change_fold_ok [OF f ev_okD(1) [OF ok]] unfolding change_events_def by blast
  then show "\<exists>t. change_events f ob type s = Inr t \<and> ev_ok t \<and> extends s t"
    using ok by (auto simp: ev_ok_def same_linksD same_links_extends)
qed


lemma choose_holder_frame:
  assumes "om_ok (ev_objs s)"
  shows "refs (choose_holder ob s) = refs s" "ev_heap (choose_holder ob s) = ev_heap s"
    "ev_next (choose_holder ob s) = ev_next s" "ev_holder (choose_holder ob s) = ev_holder s"
    "eo_events (get_obj ob (choose_holder ob s)) = eo_events (get_obj ob s)"
    "eo_holder (get_obj ob (choose_holder ob s)) = getEventHolder WORLD_INSTANCE s"
  using refs_put_obj [OF assms, of ob "(get_obj ob s)\<lparr>eo_inst := -1, eo_holder := getEventHolder (-1) s\<rparr>"]
  by (simp_all add: choose_holder_def obj_links_def eventGetInstanceID_def WORLD_INSTANCE_def)

lemma holders_ok_known: "holders_ok s \<Longrightarrow> getEventHolder i s = NULL \<or> om_find (ev_holder s) (getEventHolder i s) \<noteq> None"
  by (simp add: holders_ok_def)

lemma holders_ok_choose: "holders_ok s \<Longrightarrow> holders_ok (choose_holder ob s)"
  unfolding choose_holder_def eventGetInstanceID_def
  using holders_ok_known [of s "-1"] by (intro holders_ok_put_obj) simp_all

lemma mm_insert_links: "mset (map snd (mm_insert k e m)) = add_mset e (mset (map snd m))"
proof -
  have "mset (map snd m) = mset (map snd (takeWhile P m)) + mset (map snd (dropWhile P m))" for P
    by (simp only: map_append [symmetric] mset_append [symmetric] takeWhile_dropWhile_id)
  then show ?thesis by (simp add: mm_insert_def)
qed

lemma holders_ok_obj:
  "holders_ok s \<Longrightarrow> eo_holder (get_obj ob s) = NULL \<or> om_find (ev_holder s) (eo_holder (get_obj ob s)) \<noteq> None"
  by (simp add: holders_ok_def)

lemma holders_ok_set_list: "holders_ok s \<Longrightarrow> om_find (ev_holder s) h = Some x \<Longrightarrow> holders_ok (set_list h es s)"
  by (auto simp: holders_ok_def set_list_def getEventHolder_def get_obj_def)

lemma push_event_ok:
  assumes "heap_ok F (add_mset e (refs s)) s" and "holders_ok s" and "om_find (ev_holder s) h \<noteq> None"
  shows "\<exists>t. push_event h e s = Inr t \<and> heap_ok F (refs t) t \<and> holders_ok t \<and> extends s t"
proof -
  obtain x where x: "om_find (ev_holder s) h = Some x" using assms(3) by blast
  let ?t = "set_list h (eh_events x @ [e]) s"
  have push: "push_event h e s = Inr ?t" by (simp add: push_event_def set_list_def x)
  have om: "om_ok (ev_holder s)" using assms(2) by (simp add: holders_ok_def)
  have "refs ?t + mset (eh_events x) = refs s + mset (eh_events x) + {#e#}"
    using refs_set_list [OF om x, of "eh_events x @ [e]"] x by (simp add: list_of_def)
  then have "refs ?t = add_mset e (refs s)" by simp
  moreover have "heap_ok F R ?t = heap_ok F R s" for R by (simp add: heap_ok_def)
  moreover have "holders_ok ?t" by (rule holders_ok_set_list [OF assms(2) x])
  moreover have "extends s ?t"
    unfolding extends_def
  proof
    fix h'
    show "case om_find (ev_holder s) h' of None \<Rightarrow> om_find (ev_holder ?t) h' = None
      | Some y \<Rightarrow> \<exists>new. om_find (ev_holder ?t) h' = Some (y\<lparr>eh_events := eh_events y @ new\<rparr>)"
      using x by (cases "h' = h")
        (auto simp: set_list_def split: option.split intro: exI [of _ "[e]"] exI [of _ "[]"])
  qed
  ultimately show ?thesis using push assms(1) by simp
qed

lemma safe_add: "safe (addEvent ob cb type time repeats flags)"
  unfolding safe_def
proof (intro allI impI)
  fix s assume ok: "ev_ok s"
  let ?e = "ev_next s" and ?x = "new_event ob cb type time repeats flags"
  let ?s0 = "put_event ?e ?x (s\<lparr>ev_next := ?e + 1\<rparr>)"
  let ?s1 = "if eo_holder (get_obj ob ?s0) = NULL then choose_holder ob ?s0 else ?s0"
  note k = ev_okD [OF ok]
  have refs0: "refs ?s0 = refs s" "ev_objs ?s0 = ev_objs s" "ev_holder ?s0 = ev_holder s"
    by (simp_all add: refs_def)
  have heap0: "heap_ok {?e} (refs s) ?s0"
    unfolding heap_ok_def
  proof
    fix d
    show "cell_ok (d \<in> {?e}) (count (refs s) d) (d < ev_next ?s0) (ev_heap ?s0 d)"
      using heap_okD [OF k(1), of d] by (auto simp: cell_ok_def put_event_def new_event_def split: option.splits)
  qed
  have hold0: "holders_ok ?s0"
    using k(2) by (simp add: holders_ok_def get_obj_def getEventHolder_def)
  have om0: "om_ok (ev_objs ?s0)" using k(3) by simp
  have world: "getEventHolder WORLD_INSTANCE ?s0 \<noteq> NULL" using hold0 by (simp add: holders_ok_def)
  have s1: "refs ?s1 = refs s" "ev_heap ?s1 = ev_heap ?s0" "ev_next ?s1 = ev_next ?s0" "ev_holder ?s1 = ev_holder s"
      "eo_holder (get_obj ob ?s1) \<noteq> NULL" "holders_ok ?s1"
    using choose_holder_frame [OF om0, of ob] holders_ok_choose [OF hold0, of ob] hold0 world refs0 by auto
  have heap1: "heap_ok {?e} (refs s) ?s1" using heap0 s1(2,3) by (simp add: heap_ok_def)
  have "ev_heap ?s1 ?e \<noteq> None" unfolding s1(2) by (simp add: put_event_def)
  then obtain s2 where s2: "incRef ?e ?s1 = Inr s2" "heap_ok {} (add_mset ?e (refs s)) s2" "same_links ?s1 s2"
      "ev_heap s2 ?e \<noteq> None"
    using incRef_ok [OF heap1, of ?e] by auto
  then obtain x where x: "ev_heap s2 ?e = Some x" by blast
  let ?s3 = "put_event ?e (x\<lparr>te_inst := eo_inst (get_obj ob s2)\<rparr>) s2"
  let ?s4 = "put_obj ob ((get_obj ob ?s3)\<lparr>eo_events := mm_insert (te_type x) ?e (eo_events (get_obj ob ?s3))\<rparr>) ?s3"
  have om2: "om_ok (ev_objs s2)" using s1(6) s2(3) by (simp add: same_links_def holders_ok_def)
  have heap3: "heap_ok {} (add_mset ?e (refs s)) ?s3"
    by (rule heap_ok_update [OF s2(2), of ?e]) (use heap_okD [OF s2(2), of ?e] x in \<open>auto simp: cell_ok_def put_event_def\<close>)
  have "refs ?s4 + mset (obj_links (get_obj ob s2)) = add_mset ?e (refs s2 + mset (obj_links (get_obj ob s2)))"
    using refs_put_obj [of ?s3 ob "(get_obj ob ?s3)\<lparr>eo_events := mm_insert (te_type x) ?e (eo_events (get_obj ob ?s3))\<rparr>"] om2
    by (simp add: obj_links_def mm_insert_links [simplified])
  then have refs4: "refs ?s4 = add_mset ?e (refs s)"
    using same_linksD(1) [OF s2(3)] s1(1) by simp
  have hold4: "holders_ok ?s4" "eo_holder (get_obj ob ?s4) \<noteq> NULL" "om_find (ev_holder ?s4) (eo_holder (get_obj ob ?s4)) \<noteq> None"
  proof -
    have "holders_ok s2" using s1(6) same_linksD(3) [OF s2(3)] by simp
    moreover from this have "holders_ok ?s3" by (simp add: holders_ok_def getEventHolder_def)
    ultimately show "holders_ok ?s4" by (intro holders_ok_put_obj) (auto simp: holders_ok_def)
    show "eo_holder (get_obj ob ?s4) \<noteq> NULL"
      using s1(5) same_linksD(2) [OF s2(3)] by simp
    with holders_ok_obj [OF \<open>holders_ok ?s4\<close>, of ob]
    show "om_find (ev_holder ?s4) (eo_holder (get_obj ob ?s4)) \<noteq> None" by (elim disjE) simp_all
  qed
  have heap4: "heap_ok {} (refs ?s4) ?s4" using heap3 refs4 by (simp add: heap_ok_def)
  have "ev_heap ?s4 ?e \<noteq> None" by (simp add: put_event_def)
  then obtain s5 where s5: "incRef ?e ?s4 = Inr s5" "heap_ok {} (add_mset ?e (refs ?s4)) s5" "same_links ?s4 s5"
    using incRef_ok [OF heap4, of ?e] by auto
  obtain t where t: "push_event (eo_holder (get_obj ob ?s4)) ?e s5 = Inr t" "heap_ok {} (refs t) t" "holders_ok t" "extends s5 t"
    using push_event_ok [of "{}" ?e s5 "eo_holder (get_obj ob ?s4)"] s5 hold4 same_linksD [OF s5(3)]
    by (auto simp: same_links_def)
  have "link_event ob ?e x s2 = Inr t"
    unfolding link_event_def Let_def holder_addEvent_def
    by (simp only: hold4(2) if_False s5(1) bind_result.simps t(1))
  then have "addEvent ob cb type time repeats flags s = Inr t"
    unfolding addEvent_def eventAddEvent_def Let_def
    by (simp only: s2(1) bind_result.simps with_event_def x option.case)
  moreover have "extends s s5"
    using s5(3) s2(3) s1(4) by (simp add: same_links_def)
  ultimately show "\<exists>t. addEvent ob cb type time repeats flags s = Inr t \<and> ev_ok t \<and> extends s t"
    using t extends_trans by (auto simp: ev_ok_def)
qed


section \<open>The update of a holder\<close>

lemma fold_result_safe:
  assumes "\<And>x. safe (f x)"
  shows "safe (fold_result f xs)"
proof (induction xs)
  case Nil
  then show ?case by (simp add: safe_def)
next
  case (Cons x xs)
  show ?case
    unfolding safe_def
  proof (intro allI impI)
    fix s assume "ev_ok s"
    then obtain t where t: "f x s = Inr t" "ev_ok t" "extends s t"
      using safeD [OF assms] by blast
    obtain u where "fold_result f xs t = Inr u" "ev_ok u" "extends t u"
      using safeD [OF Cons t(2)] by blast
    with t show "\<exists>t. fold_result f (x # xs) s = Inr t \<and> ev_ok t \<and> extends s t"
      using extends_trans by auto
  qed
qed

lemma safe_run_op: "safe (run_op x)"
proof (cases x)
  case (Op_Add ob cb type time repeats flags)
  then have "run_op x = addEvent ob cb type time repeats flags" by auto
  then show ?thesis by (simp add: safe_add)
next
  case (Op_Remove ob type)
  then have "run_op x = eventRemoveEvents ob type" by auto
  then show ?thesis by (simp add: safe_remove)
next
  case (Op_Time_Left ob type time u)
  then have "run_op x = eventModifyTimeLeft ob type time u" by auto
  then show ?thesis by (simp add: eventModifyTimeLeft_def safe_change)
next
  case (Op_Time ob type time)
  then have "run_op x = eventModifyTime ob type time" by auto
  then show ?thesis by (simp add: eventModifyTime_def [abs_def] safe_change)
next
  case (Op_Both ob type time)
  then have "run_op x = eventModifyTimeAndTimeLeft ob type time" by auto
  then show ?thesis by (simp add: eventModifyTimeAndTimeLeft_def [abs_def] safe_change)
qed

lemma safe_execute: "safe (execute beh cb)"
  unfolding safe_def execute_def using fold_result_safe [of run_op, OF safe_run_op, unfolded safe_def] by blast

lemma list_of_refs: "om_ok (ev_holder s) \<Longrightarrow> mset (list_of h s) \<subseteq># refs s"
proof (cases "om_find (ev_holder s) h")
  case (Some x)
  assume ok: "om_ok (ev_holder s)"
  have "refs (set_list h [] s) + mset (list_of h s) = refs s"
    using refs_set_list [OF ok Some, of "[]"] by simp
  then show ?thesis by (metis mset_subset_eq_add_right)
qed (simp add: list_of_def)

lemma listed_live:
  assumes "ev_ok s" and "i < length (list_of h s)"
  shows "\<exists>x. ev_heap s (list_of h s ! i) = Some x"
proof -
  have "list_of h s ! i \<in># refs s"
    using list_of_refs [OF ev_okD(4) [OF assms(1)], of h] nth_mem [OF assms(2)]
    by (meson in_multiset_in_set mset_subset_eqD)
  then show ?thesis by (rule heap_ok_live [OF ev_okD(1) [OF assms(1)]])
qed

lemma put_event_safe:
  assumes "ev_ok s" and "ev_heap s e = Some x" and "te_ref y = te_ref x"
  shows "ev_ok (put_event e y s)"
proof -
  have "heap_ok {} (refs s) (put_event e y s)"
    by (rule heap_ok_update [OF ev_okD(1) [OF assms(1)], of e])
      (use heap_okD [OF ev_okD(1) [OF assms(1)], of e] assms(2,3) in \<open>auto simp: cell_ok_def put_event_def\<close>)
  then show ?thesis
    using ev_okD(2) [OF assms(1)] by (simp add: ev_ok_def holders_ok_def getEventHolder_def)
qed

text \<open>After a round the event at position \<open>i\<close> is kept, or its count has gone down by one and removing it
  from the list restores the invariant.\<close>

definition round_ok :: "ptr \<Rightarrow> nat \<Rightarrow> verdict \<Rightarrow> ev_state \<Rightarrow> bool" where
  "round_ok h i v s \<longleftrightarrow>
     (case v of Keep \<Rightarrow> ev_ok s | Erase \<Rightarrow> ev_ok (set_list h (drop_index i (list_of h s)) s))"

lemma erase_event_ok:
  assumes ok: "ev_ok s" and h: "om_find (ev_holder s) h = Some y" and i: "i < length (list_of h s)" and e: "list_of h s ! i = e"
  shows "\<exists>t. erase_event e b s = Inr (Erase, b, t) \<and> round_ok h i Erase t \<and> ev_holder t = ev_holder s"
proof -
  note k = ev_okD [OF ok]
  have split: "mset (list_of h s) = add_mset e (mset (drop_index i (list_of h s)))"
    using arg_cong [OF id_take_nth_drop [OF i], of mset] e by (simp add: drop_index_def)
  have "e \<in># refs s"
    using list_of_refs [OF k(4), of h] split by (metis mset_subset_eqD union_single_eq_member)
  then obtain t where t: "decRef e s = Inr t" "heap_ok {} (refs s - {#e#}) t" "same_links s t"
    using decRef_ok [OF k(1)] by auto
  let ?u = "set_list h (drop_index i (list_of h t)) t"
  have same: "list_of h t = list_of h s" "om_ok (ev_holder t)" "om_find (ev_holder t) h = Some y" "refs t = refs s"
    using t(3) k(4) h same_linksD [OF t(3)] by (auto simp: same_links_def)
  have "refs ?u + mset (list_of h s) = refs s + mset (drop_index i (list_of h s))"
    using refs_set_list [OF same(2,3), of "drop_index i (list_of h t)"] same by simp
  then have "add_mset e (refs ?u) + mset (drop_index i (list_of h s)) = refs s + mset (drop_index i (list_of h s))"
    unfolding split by simp
  then have "add_mset e (refs ?u) = refs s" by (simp only: add_right_cancel)
  then have "refs ?u = refs s - {#e#}" by (metis add_mset_remove_trivial)
  moreover have "heap_ok {} R ?u = heap_ok {} R t" for R by (simp add: heap_ok_def)
  moreover have "holders_ok ?u"
    using k(2) same_linksD(3) [OF t(3)] by (intro holders_ok_set_list [OF _ same(3)]) simp
  ultimately have "ev_ok ?u" using t(2) by (simp add: ev_ok_def)
  with t show ?thesis by (simp add: erase_event_def round_ok_def same_links_def)
qed


lemma visit_ok:
  assumes ok: "ev_ok s" and h: "om_find (ev_holder s) h = Some y" and i: "i < length (list_of h s)"
  shows "\<exists>v b t. visit_event beh inst diff (list_of h s ! i) s = Inr (v, b, t) \<and> round_ok h i v t
    \<and> (\<exists>z. om_find (ev_holder t) h = Some z \<and> eh_inst z = eh_inst y)"
proof -
  let ?e = "list_of h s ! i"
  obtain x where x: "ev_heap s ?e = Some x" using listed_live [OF ok i] by blast
  have keep: "round_ok h i Keep (put_event ?e u s)" if "te_ref u = te_ref x" for u
    using put_event_safe [OF ok x that] by (simp add: round_ok_def)
  note erase = erase_event_ok [OF ok h i refl]
  define skip where "skip u \<longleftrightarrow> te_inst u \<noteq> inst \<or> te_deleted u
    \<or> (inst = WORLD_INSTANCE \<and> te_flag u AND DO_NOT_EXECUTE_IN_WORLD_CONTEXT \<noteq> 0)" for u :: timed_event
  show ?thesis
  proof (cases "skip x \<or> (te_curr x \<le> diff \<and> te_cb x = None)")
    case True
    then have "visit_event beh inst diff ?e s = erase_event ?e False s"
      using x by (cases "skip x") (auto simp: visit_event_def with_event_def skip_def)
    with erase [of False] h show ?thesis by auto
  next
    case False
    show ?thesis
    proof (cases "te_curr x \<le> diff")
      case later: False
      with False x have "visit_event beh inst diff ?e s = Inr (Keep, False, put_event ?e (x\<lparr>te_curr := te_curr x - diff\<rparr>) s)"
        by (auto simp: visit_event_def with_event_def skip_def)
      with keep h show ?thesis by auto
    next
      case due: True
      with False obtain cb where cb: "te_cb x = Some cb" by auto
      obtain s1 where s1: "execute beh cb s = Inr s1" "ev_ok s1" "extends s s1"
        using safeD [OF safe_execute ok] by blast
      obtain new where new: "om_find (ev_holder s1) h = Some (y\<lparr>eh_events := eh_events y @ new\<rparr>)"
        using extends_find [OF s1(3) h] by blast
      then have list1: "list_of h s1 = list_of h s @ new" using h by (simp add: list_of_def)
      then have i1: "i < length (list_of h s1)" "list_of h s1 ! i = ?e" using i by (simp_all add: nth_append)
      obtain x1 where x1: "ev_heap s1 ?e = Some x1" using listed_live [OF s1(2) i1(1)] i1(2) by auto
      let ?n = "if te_repeats x1 \<noteq> 0 then te_repeats x1 - 1 else 0"
      let ?s2 = "put_event ?e (x1\<lparr>te_repeats := ?n\<rparr>) s1"
      have ok2: "ev_ok ?s2" by (rule put_event_safe [OF s1(2) x1]) simp
      have x2: "ev_heap ?s2 ?e = Some (x1\<lparr>te_repeats := ?n\<rparr>)" by (simp add: put_event_def)
      have l2: "list_of h ?s2 = list_of h s1" by (simp add: list_of_def)
      have heap_put: "ev_heap (put_event e u w) e = Some u" for e u w by (simp add: put_event_def)
      have noskip: "te_inst x = inst" "\<not> te_deleted x"
          "\<not> (inst = WORLD_INSTANCE \<and> te_flag x AND DO_NOT_EXECUTE_IN_WORLD_CONTEXT \<noteq> 0)"
        using False by (auto simp: skip_def)
      have visit: "visit_event beh inst diff ?e s =
        (if te_flag x AND DELETES_OBJECT \<noteq> 0 then erase_event ?e True s1
         else if (te_repeats x1 \<noteq> 0 \<and> ?n = 0) \<or> te_deleted x1 then erase_event ?e True ?s2
         else Inr (Keep, True, put_event ?e (x1\<lparr>te_repeats := ?n, te_curr := te_ms x1\<rparr>) ?s2))"
        unfolding visit_event_def with_event_def x option.case
        using due s1(1) x1
        by (simp add: noskip(1,2) cb with_event_def heap_put Let_def del: de_Morgan_conj)
          (use noskip(3) in blast)
      have k3: "ev_ok (put_event ?e (x1\<lparr>te_repeats := ?n, te_curr := te_ms x1\<rparr>) ?s2)"
        by (rule put_event_safe [OF ok2 x2]) simp
      show ?thesis
        unfolding visit
        using erase_event_ok [OF s1(2) new i1, of True] erase_event_ok [OF ok2 _ _ _, of h _ i ?e True] new i1 k3 l2
        by (auto simp: round_ok_def)
    qed
  qed
qed

lemma update_loop_ok:
  "ev_ok s \<Longrightarrow> om_find (ev_holder s) h = Some y \<Longrightarrow>
   update_loop n beh h inst diff i s = Some r \<Longrightarrow> \<exists>out t. r = Inr (out, t) \<and> ev_ok t"
proof (induction n arbitrary: i s y r)
  case (Suc n)
  show ?case
  proof (cases "length (list_of h s) \<le> i")
    case True
    with Suc.prems show ?thesis by auto
  next
    case False
    then have i: "i < length (list_of h s)" by simp
    obtain v b t z where t: "visit_event beh inst diff (list_of h s ! i) s = Inr (v, b, t)" "round_ok h i v t"
        "om_find (ev_holder t) h = Some z"
      using visit_ok [OF Suc.prems(1,2) i] by blast
    obtain u j where u: "u = (if v = Erase then set_list h (drop_index i (list_of h t)) t else t)"
        "j = (if v = Erase then i else Suc i)" by simp
    have ok: "ev_ok u" using t(2) u(1) by (cases v) (simp_all add: round_ok_def)
    have z: "\<exists>z. om_find (ev_holder u) h = Some z" using t(3) u(1) by (simp add: set_list_def)
    have step: "update_loop (Suc n) beh h inst diff i s =
      (if length (list_of h s) = Suc i then Some (Inr ((if b then [list_of h s ! i] else []), u))
       else map_option (\<lambda>r. bind_result r (\<lambda>(out', s'). Inr ((if b then [list_of h s ! i] else []) @ out', s')))
              (update_loop n beh h inst diff j u))"
      using False t(1) u by (simp add: Let_def)
    show ?thesis
    proof (cases "length (list_of h s) = Suc i")
      case True
      with Suc.prems(3) ok show ?thesis unfolding step by (auto split: if_splits)
    next
      case more: False
      with Suc.prems(3) obtain r' where r': "update_loop n beh h inst diff j u = Some r'"
          "r = bind_result r' (\<lambda>(out', s'). Inr ((if b then [list_of h s ! i] else []) @ out', s'))"
        unfolding step by (simp only: if_False) (elim map_option_eq_Some [THEN iffD1, elim_format] exE conjE, blast)
      obtain z' where "om_find (ev_holder u) h = Some z'" using z by blast
      with Suc.IH [OF ok _ r'(1)] obtain out t' where "r' = Inr (out, t')" "ev_ok t'" by blast
      with r'(2) show ?thesis by simp
    qed
  qed
qed simp

text \<open>C30: Timers never use freed memory. From any state in which every event's count is the number of places that
  point to it (which the empty timer table is), each operation succeeds and keeps this; the update of a holder,
  whose callbacks may add, remove and change events while the list is walked, does too, whatever the callbacks do,
  if it comes to an end.\<close>

theorem event_counts_exact:
  assumes "ev_ok s"
  shows "(\<exists>t. run_op x s = Inr t \<and> ev_ok t)
    \<and> (om_find (ev_holder s) h \<noteq> None \<longrightarrow> update fuel beh h diff s \<noteq> None \<longrightarrow>
         (\<exists>out t. update fuel beh h diff s = Some (Inr (out, t)) \<and> ev_ok t))
    \<and> (\<forall>e y. ev_heap s e = Some y \<longrightarrow> te_ref y = int (count (refs s) e) \<and> 0 < te_ref y)
    \<and> (\<forall>e. e \<in># refs s \<longrightarrow> ev_heap s e \<noteq> None)"
proof (intro conjI allI impI)
  show "\<exists>t. run_op x s = Inr t \<and> ev_ok t"
    using safeD [OF safe_run_op assms] by blast
  show "\<exists>out t. update fuel beh h diff s = Some (Inr (out, t)) \<and> ev_ok t"
    if "om_find (ev_holder s) h \<noteq> None" "update fuel beh h diff s \<noteq> None"
    using that update_loop_ok [OF assms] by (fastforce simp: update_def)
  fix e
  show "te_ref y = int (count (refs s) e)" "0 < te_ref y" if "ev_heap s e = Some y" for y
    using heap_okD [OF ev_okD(1) [OF assms], of e] that by (simp_all add: cell_ok_def)
  show "ev_heap s e \<noteq> None" if "e \<in># refs s"
    using heap_ok_live [OF ev_okD(1) [OF assms] that] by blast
qed


definition one_timer :: ev_state where
  "one_timer = new_holder 1 WORLD_INSTANCE \<lparr>ev_heap = \<lambda>_. None, ev_next = 1, ev_objs = [], ev_holder = [], ev_map = []\<rparr>"

lemma one_timer_ok: "ev_ok one_timer" "om_find (ev_holder one_timer) 1 = Some \<lparr>eh_inst = WORLD_INSTANCE, eh_events = []\<rparr>"
proof -
  have "refs one_timer = {#}"
    by (simp add: one_timer_def new_holder_def addEventHolder_def refs_def links_def)
  then show "ev_ok one_timer"
    by (auto simp: ev_ok_def heap_ok_def cell_ok_def holders_ok_def one_timer_def new_holder_def addEventHolder_def
        get_obj_def new_event_obj_def getEventHolder_def om_insert_def WORLD_INSTANCE_def)
qed (simp add: one_timer_def new_holder_def addEventHolder_def)

lemma event_counts_exact_witness:
  "(\<exists>t. run_op (Op_Add 5 (Some 0) 7 100 1 0) one_timer = Inr t \<and> ev_ok t)
   \<and> update 1 (\<lambda>_ _. []) 1 50 one_timer = Some (Inr ([], one_timer)) \<and> (\<exists>out t. update 1 (\<lambda>_ _. []) 1 50 one_timer = Some (Inr (out, t)) \<and> ev_ok t)"
proof -
  have up: "update 1 (\<lambda>_ _. []) 1 50 one_timer = Some (Inr ([], one_timer))"
    using update_loop.simps(2) [of 0 "\<lambda>_ _. []" 1 WORLD_INSTANCE 50 0 one_timer]
    by (simp add: update_def list_of_def one_timer_ok(2) del: update_loop.simps One_nat_def) (simp add: one_timer_ok(2) [simplified])
  show ?thesis
    using event_counts_exact [OF one_timer_ok(1), of "Op_Add 5 (Some 0) 7 100 1 0" 1 1 "\<lambda>_ _. []" 50] up one_timer_ok(2)
    by blast
qed


section \<open>Timers that fire on time\<close>

text \<open>What one update does to one timer, seen from outside, when its callback leaves the timers alone: whether it
  fires, and what is left of it.\<close>

definition tick :: "int \<Rightarrow> u32 \<Rightarrow> timed_event \<Rightarrow> bool \<times> timed_event option" where
  "tick inst diff x =
     (if te_inst x \<noteq> inst \<or> te_deleted x \<or> (inst = WORLD_INSTANCE \<and> te_flag x AND DO_NOT_EXECUTE_IN_WORLD_CONTEXT \<noteq> 0)
      then (False, None)
      else if \<not> te_curr x \<le> diff then (False, Some (x\<lparr>te_curr := te_curr x - diff\<rparr>))
      else if te_cb x = None then (False, None)
      else if te_flag x AND DELETES_OBJECT \<noteq> 0 \<or> te_repeats x = 1 then (True, None)
      else (True, Some (x\<lparr>te_repeats := (if te_repeats x = 0 then 0 else te_repeats x - 1), te_curr := te_ms x\<rparr>)))"

definition quiet :: behaviour where
  "quiet = (\<lambda>_ _. [])"

lemma execute_quiet [simp]: "execute quiet cb s = Inr s"
  by (simp add: execute_def quiet_def)

lemma decRef_frame:
  assumes "ev_heap s e = Some x"
  shows "\<exists>t. decRef e s = Inr t \<and> ev_holder t = ev_holder s \<and> (\<forall>e'. e' \<noteq> e \<longrightarrow> ev_heap t e' = ev_heap s e')"
  using assms by (simp add: decRef_def with_event_def Let_def put_event_def)

lemma visit_quiet:
  assumes "ev_heap s e = Some x"
  shows "\<exists>t. visit_event quiet inst diff e s = Inr (if snd (tick inst diff x) = None then Erase else Keep, fst (tick inst diff x), t)
    \<and> ev_holder t = ev_holder s \<and> (\<forall>e'. e' \<noteq> e \<longrightarrow> ev_heap t e' = ev_heap s e')
    \<and> (snd (tick inst diff x) \<noteq> None \<longrightarrow> ev_heap t e = snd (tick inst diff x))"
proof -
  have erase: "\<exists>t. erase_event e b u = Inr (Erase, b, t) \<and> ev_holder t = ev_holder s \<and> (\<forall>e'. e' \<noteq> e \<longrightarrow> ev_heap t e' = ev_heap s e')"
    if "ev_heap u e = Some z" "ev_holder u = ev_holder s" "\<forall>e'. e' \<noteq> e \<longrightarrow> ev_heap u e' = ev_heap s e'" for b u z
    using decRef_frame [OF that(1)] that by (auto simp: erase_event_def)
  show ?thesis
  proof (cases "te_inst x \<noteq> inst \<or> te_deleted x \<or> (inst = WORLD_INSTANCE \<and> te_flag x AND DO_NOT_EXECUTE_IN_WORLD_CONTEXT \<noteq> 0)")
    case True
    then have "visit_event quiet inst diff e s = erase_event e False s" "tick inst diff x = (False, None)"
      by (simp_all only: visit_event_def with_event_def tick_def assms option.case if_True)
    with erase [OF assms, of False] show ?thesis by simp
  next
    case live: False
    show ?thesis
    proof (cases "te_curr x \<le> diff")
      case later: False
      have "visit_event quiet inst diff e s = Inr (Keep, False, put_event e (x\<lparr>te_curr := te_curr x - diff\<rparr>) s)"
        unfolding visit_event_def with_event_def assms option.case if_not_P [OF live] if_not_P [OF later] ..
      moreover have "tick inst diff x = (False, Some (x\<lparr>te_curr := te_curr x - diff\<rparr>))"
        unfolding tick_def if_not_P [OF live] if_P [OF later] ..
      ultimately show ?thesis by (simp add: put_event_def)
    next
      case due: True
      note neg = if_not_P [OF iffD2 [OF not_not due]]
      show ?thesis
      proof (cases "te_cb x")
        case None
        have "visit_event quiet inst diff e s = erase_event e False s"
          unfolding visit_event_def with_event_def assms option.case if_not_P [OF live] if_P [OF due] None ..
        moreover have "tick inst diff x = (False, None)"
          unfolding tick_def if_not_P [OF live] neg by (simp add: None)
        ultimately show ?thesis using erase [OF assms, of False] by simp
      next
        case (Some cb)
        let ?n = "if te_repeats x \<noteq> 0 then te_repeats x - 1 else 0"
        have heap_put: "ev_heap (put_event e u w) = (ev_heap w)(e \<mapsto> u)" "ev_holder (put_event e u w) = ev_holder w" for u w
          by (simp_all add: put_event_def)
        have visit: "visit_event quiet inst diff e s =
          (if te_flag x AND DELETES_OBJECT \<noteq> 0 then erase_event e True s
           else if te_repeats x = 1 then erase_event e True (put_event e (x\<lparr>te_repeats := 0\<rparr>) s)
           else Inr (Keep, True, put_event e (x\<lparr>te_repeats := ?n, te_curr := te_ms x\<rparr>) (put_event e (x\<lparr>te_repeats := ?n\<rparr>) s)))"
          unfolding visit_event_def with_event_def assms option.case if_not_P [OF live] if_P [OF due] Some
          using live by (simp add: assms heap_put Let_def)
        have tick: "tick inst diff x =
          (if te_flag x AND DELETES_OBJECT \<noteq> 0 \<or> te_repeats x = 1 then (True, None)
           else (True, Some (x\<lparr>te_repeats := ?n, te_curr := te_ms x\<rparr>)))"
          unfolding tick_def if_not_P [OF live] neg by (simp add: Some)
        show ?thesis
          unfolding visit tick
          using erase [OF assms refl, of True] erase [of "put_event e (x\<lparr>te_repeats := 0\<rparr>) s" "x\<lparr>te_repeats := 0\<rparr>" True]
          by (simp add: heap_put)
      qed
    qed
  qed
qed

lemma update_loop_quiet:
  assumes "list_of h s = pre @ suf" and "om_find (ev_holder s) h \<noteq> None" and "distinct suf"
    and "\<forall>e\<in>set suf. ev_heap s e \<noteq> None" and "length suf < n" and "i = length pre"
  shows "\<exists>t. update_loop n quiet h inst diff i s = Some (Inr (filter (\<lambda>e. fst (tick inst diff (the (ev_heap s e)))) suf, t))
    \<and> list_of h t = pre @ filter (\<lambda>e. snd (tick inst diff (the (ev_heap s e))) \<noteq> None) suf
    \<and> (\<forall>e. e \<notin> set suf \<longrightarrow> ev_heap t e = ev_heap s e)
    \<and> (\<forall>e\<in>set suf. snd (tick inst diff (the (ev_heap s e))) \<noteq> None \<longrightarrow> ev_heap t e = snd (tick inst diff (the (ev_heap s e))))
    \<and> (\<forall>y. om_find (ev_holder s) h = Some y \<longrightarrow> (\<exists>es. om_find (ev_holder t) h = Some (y\<lparr>eh_events := es\<rparr>)))"
  using assms
proof (induction n arbitrary: s pre suf i)
  case (Suc n)
  show ?case
  proof (cases suf)
    case Nil
    moreover have "\<exists>es. y = y\<lparr>eh_events := es\<rparr>" for y :: event_holder
      by (rule exI [of _ "eh_events y"]) simp
    ultimately show ?thesis using Suc.prems by auto
  next
    case (Cons e es)
    obtain x where x: "ev_heap s e = Some x" using Suc.prems(4) Cons by auto
    obtain y where y: "om_find (ev_holder s) h = Some y" using Suc.prems(2) by blast
    let ?k = "tick inst diff x"
    obtain t where t: "visit_event quiet inst diff e s = Inr (if snd ?k = None then Erase else Keep, fst ?k, t)"
        "ev_holder t = ev_holder s" "\<forall>e'. e' \<noteq> e \<longrightarrow> ev_heap t e' = ev_heap s e'"
        "snd ?k \<noteq> None \<longrightarrow> ev_heap t e = snd ?k"
      using visit_quiet [OF x] by blast
    have lt: "list_of h t = pre @ e # es" using t(2) Suc.prems(1) Cons by (simp add: list_of_def)
    define u where "u = (if snd ?k = None then set_list h (pre @ es) t else t)"
    define pre' where "pre' = (if snd ?k = None then pre else pre @ [e])"
    have u: "list_of h u = pre' @ es" "ev_heap u = ev_heap t" "\<exists>es. om_find (ev_holder u) h = Some (y\<lparr>eh_events := es\<rparr>)"
      using y t(2) lt by (auto simp: u_def pre'_def list_of_def set_list_def intro: exI [of _ "eh_events y"])
    have drop: "drop_index i (list_of h t) = pre @ es"
      using Suc.prems(6) lt by (simp add: drop_index_def)
    have step: "update_loop (Suc n) quiet h inst diff i s =
        (if es = [] then Some (Inr (if fst ?k then [e] else [], u))
         else map_option (\<lambda>r. bind_result r (\<lambda>(out', s'). Inr ((if fst ?k then [e] else []) @ out', s')))
                (update_loop n quiet h inst diff (length pre') u))"
      using Suc.prems(1,6) Cons t(1) drop by (simp add: u_def pre'_def nth_append)
    have heap: "\<forall>e\<in>set es. ev_heap u e = ev_heap s e"
      using Suc.prems(3) Cons t(3) u(2) by auto
    have same: "filter (\<lambda>e. P (the (ev_heap u e))) es = filter (\<lambda>e. P (the (ev_heap s e))) es" for P
      using heap by (intro filter_cong) auto
    show ?thesis
    proof (cases "es = []")
      case True
      with step t u x y Cons show ?thesis
        by (auto simp: pre'_def)
    next
      case False
      have pre: "om_find (ev_holder u) h \<noteq> None" "distinct es" "\<forall>e\<in>set es. ev_heap u e \<noteq> None" "length es < n"
        using u(3) heap Suc.prems(3-5) Cons by auto
      obtain z where z: "update_loop n quiet h inst diff (length pre') u =
            Some (Inr (filter (\<lambda>e. fst (tick inst diff (the (ev_heap u e)))) es, z))"
          "list_of h z = pre' @ filter (\<lambda>e. snd (tick inst diff (the (ev_heap u e))) \<noteq> None) es"
          "\<forall>e. e \<notin> set es \<longrightarrow> ev_heap z e = ev_heap u e"
          "\<forall>e\<in>set es. snd (tick inst diff (the (ev_heap u e))) \<noteq> None \<longrightarrow> ev_heap z e = snd (tick inst diff (the (ev_heap u e)))"
          "\<forall>y. om_find (ev_holder u) h = Some y \<longrightarrow> (\<exists>es. om_find (ev_holder z) h = Some (y\<lparr>eh_events := es\<rparr>))"
        using Suc.IH [OF u(1) pre refl] by blast
      have "e \<notin> set es" using Suc.prems(3) Cons by simp
      show ?thesis
      proof (intro exI [of _ z] conjI ballI allI impI)
        show "update_loop (Suc n) quiet h inst diff i s =
            Some (Inr (filter (\<lambda>e. fst (tick inst diff (the (ev_heap s e)))) suf, z))"
          unfolding step using False z(1) x Cons by (simp add: same [of "\<lambda>x. fst (tick inst diff x)"])
        show "list_of h z = pre @ filter (\<lambda>e. snd (tick inst diff (the (ev_heap s e))) \<noteq> None) suf"
          using z(2) x Cons by (simp add: same [of "\<lambda>x. snd (tick inst diff x) \<noteq> None"] pre'_def del: not_None_eq)
        show "ev_heap z d = ev_heap s d" if "d \<notin> set suf" for d
          using z(3) u(2) t(3) Cons that by simp
        show "ev_heap z d = snd (tick inst diff (the (ev_heap s d)))"
          if "d \<in> set suf" "snd (tick inst diff (the (ev_heap s d))) \<noteq> None" for d
          using that z(3,4) u(2) t(4) heap x Cons \<open>e \<notin> set es\<close> by (cases "d = e") auto
        show "\<exists>es. om_find (ev_holder z) h = Some (w\<lparr>eh_events := es\<rparr>)" if "om_find (ev_holder s) h = Some w" for w
          using that y u(3) z(5) by fastforce
      qed
    qed
  qed
qed simp

lemma update_quiet:
  assumes "ev_ok s" and "om_find (ev_holder s) h = Some y" and "distinct (eh_events y)"
  shows "\<exists>t. update (Suc (length (eh_events y))) quiet h diff s
      = Some (Inr (filter (\<lambda>e. fst (tick (eh_inst y) diff (the (ev_heap s e)))) (eh_events y), t))
    \<and> ev_ok t
    \<and> om_find (ev_holder t) h
      = Some (y\<lparr>eh_events := filter (\<lambda>e. snd (tick (eh_inst y) diff (the (ev_heap s e))) \<noteq> None) (eh_events y)\<rparr>)
    \<and> (\<forall>e. e \<notin> set (eh_events y) \<longrightarrow> ev_heap t e = ev_heap s e)
    \<and> (\<forall>e\<in>set (list_of h t). ev_heap t e = snd (tick (eh_inst y) diff (the (ev_heap s e))))"
proof -
  let ?inst = "eh_inst y" and ?es = "eh_events y"
  have list: "list_of h s = [] @ ?es" using assms(2) by (simp add: list_of_def)
  have live: "\<forall>e\<in>set ?es. ev_heap s e \<noteq> None"
  proof
    fix e assume "e \<in> set ?es"
    then obtain i where i: "i < length ?es" "e = ?es ! i" by (metis in_set_conv_nth)
    with listed_live [OF assms(1), of i h] list show "ev_heap s e \<noteq> None" by auto
  qed
  have some: "om_find (ev_holder s) h \<noteq> None" using assms(2) by simp
  obtain t where t: "update_loop (Suc (length ?es)) quiet h ?inst diff 0 s
        = Some (Inr (filter (\<lambda>e. fst (tick ?inst diff (the (ev_heap s e)))) ?es, t))"
      "list_of h t = [] @ filter (\<lambda>e. snd (tick ?inst diff (the (ev_heap s e))) \<noteq> None) ?es"
      "\<forall>e. e \<notin> set ?es \<longrightarrow> ev_heap t e = ev_heap s e"
      "\<forall>e\<in>set ?es. snd (tick ?inst diff (the (ev_heap s e))) \<noteq> None \<longrightarrow> ev_heap t e = snd (tick ?inst diff (the (ev_heap s e)))"
      "\<forall>w. om_find (ev_holder s) h = Some w \<longrightarrow> (\<exists>es. om_find (ev_holder t) h = Some (w\<lparr>eh_events := es\<rparr>))"
    using update_loop_quiet [OF list some assms(3) live lessI, of 0 ?inst diff] by (simp only: list.size(3)) blast
  have "ev_ok t" using update_loop_ok [OF assms(1,2) t(1)] by auto
  moreover obtain es where "om_find (ev_holder t) h = Some (y\<lparr>eh_events := es\<rparr>)" using t(5) assms(2) by blast
  ultimately show ?thesis
    using t by (auto simp: update_def assms(2) list_of_def)
qed

text \<open>A run of updates; the fuel of each is one more than the number of timers.\<close>

fun updates :: "u32 list \<Rightarrow> ptr \<Rightarrow> ev_state \<Rightarrow> (ptr list list \<times> ev_state) result option" where
  "updates [] h s = Some (Inr ([], s))"
| "updates (d # ds) h s =
     (case update (Suc (length (list_of h s))) quiet h d s of
        None \<Rightarrow> None
      | Some (Inl err) \<Rightarrow> Some (Inl err)
      | Some (Inr (out, s)) \<Rightarrow> map_option (\<lambda>r. bind_result r (\<lambda>(outs, s). Inr (out # outs, s))) (updates ds h s))"

lemma updates_step:
  assumes "ev_ok s" and "om_find (ev_holder s) h = Some y" and "distinct (eh_events y)"
  shows "\<exists>t y'. ev_ok t \<and> om_find (ev_holder t) h = Some y' \<and> distinct (eh_events y') \<and> eh_inst y' = eh_inst y
    \<and> updates (d # ds) h s = map_option (\<lambda>r. bind_result r (\<lambda>(outs, u).
         Inr (filter (\<lambda>e. fst (tick (eh_inst y) d (the (ev_heap s e)))) (eh_events y) # outs, u))) (updates ds h t)
    \<and> eh_events y' = filter (\<lambda>e. snd (tick (eh_inst y) d (the (ev_heap s e))) \<noteq> None) (eh_events y)
    \<and> (\<forall>e\<in>set (eh_events y'). ev_heap t e = snd (tick (eh_inst y) d (the (ev_heap s e))))"
proof -
  obtain t where t: "update (Suc (length (eh_events y))) quiet h d s
      = Some (Inr (filter (\<lambda>e. fst (tick (eh_inst y) d (the (ev_heap s e)))) (eh_events y), t))" "ev_ok t"
    "om_find (ev_holder t) h
      = Some (y\<lparr>eh_events := filter (\<lambda>e. snd (tick (eh_inst y) d (the (ev_heap s e))) \<noteq> None) (eh_events y)\<rparr>)"
    "\<forall>e\<in>set (list_of h t). ev_heap t e = snd (tick (eh_inst y) d (the (ev_heap s e)))"
    using update_quiet [OF assms, of d] by blast
  show ?thesis
    by (rule exI [of _ t], rule exI, intro conjI, rule t(2), rule t(3))
      (use t(1,4) assms(2,3) in \<open>simp_all add: list_of_def t(3) del: not_None_eq\<close>)
qed

lemma updates_unlisted:
  "ev_ok s \<Longrightarrow> om_find (ev_holder s) h = Some y \<Longrightarrow> distinct (eh_events y) \<Longrightarrow> e \<notin> set (eh_events y) \<Longrightarrow>
   \<exists>outs t. updates ds h s = Some (Inr (outs, t)) \<and> length outs = length ds \<and> (\<forall>i < length ds. e \<notin> set (outs ! i))"
proof (induction ds arbitrary: s y)
  case (Cons d ds)
  obtain t y' where t: "ev_ok t" "om_find (ev_holder t) h = Some y'" "distinct (eh_events y')"
      "updates (d # ds) h s = map_option (\<lambda>r. bind_result r (\<lambda>(outs, u).
         Inr (filter (\<lambda>e. fst (tick (eh_inst y) d (the (ev_heap s e)))) (eh_events y) # outs, u))) (updates ds h t)"
      "eh_events y' = filter (\<lambda>e. snd (tick (eh_inst y) d (the (ev_heap s e))) \<noteq> None) (eh_events y)"
    using updates_step [OF Cons.prems(1-3), of d ds] by blast
  have "e \<notin> set (eh_events y')" using t(5) Cons.prems(4) by simp
  then obtain outs u where "updates ds h t = Some (Inr (outs, u))" "length outs = length ds" "\<forall>i < length ds. e \<notin> set (outs ! i)"
    using Cons.IH [OF t(1-3)] by blast
  with t(4) Cons.prems(4) show ?case by (auto simp: nth_Cons split: nat.split)
qed simp

text \<open>A timer that is set to fire once.\<close>

definition one_shot :: "int \<Rightarrow> timed_event \<Rightarrow> bool" where
  "one_shot inst x \<longleftrightarrow> te_inst x = inst \<and> \<not> te_deleted x \<and> te_flag x AND DO_NOT_EXECUTE_IN_WORLD_CONTEXT = 0
     \<and> te_repeats x = 1 \<and> te_cb x \<noteq> None"

lemma tick_one_shot:
  "one_shot inst x \<Longrightarrow> tick inst d x = (if te_curr x \<le> d then (True, None) else (False, Some (x\<lparr>te_curr := te_curr x - d\<rparr>)))"
  by (auto simp: one_shot_def tick_def)

lemma one_shot_later: "one_shot inst x \<Longrightarrow> one_shot inst (x\<lparr>te_curr := c\<rparr>)"
  by (simp add: one_shot_def)

lemma updates_one_shot:
  "ev_ok s \<Longrightarrow> om_find (ev_holder s) h = Some y \<Longrightarrow> distinct (eh_events y) \<Longrightarrow> e \<in> set (eh_events y)
   \<Longrightarrow> ev_heap s e = Some x \<Longrightarrow> one_shot (eh_inst y) x \<Longrightarrow>
   \<exists>outs t. updates ds h s = Some (Inr (outs, t)) \<and> length outs = length ds
     \<and> (\<forall>i < length ds. e \<in> set (outs ! i) \<longleftrightarrow>
          unat (te_curr x) \<le> sum_list (map unat (take (Suc i) ds))
          \<and> (0 < i \<longrightarrow> sum_list (map unat (take i ds)) < unat (te_curr x)))"
proof (induction ds arbitrary: s y x)
  case (Cons d ds)
  obtain t y' where t: "ev_ok t" "om_find (ev_holder t) h = Some y'" "distinct (eh_events y')" "eh_inst y' = eh_inst y"
      "updates (d # ds) h s = map_option (\<lambda>r. bind_result r (\<lambda>(outs, u).
         Inr (filter (\<lambda>e. fst (tick (eh_inst y) d (the (ev_heap s e)))) (eh_events y) # outs, u))) (updates ds h t)"
      "eh_events y' = filter (\<lambda>e. snd (tick (eh_inst y) d (the (ev_heap s e))) \<noteq> None) (eh_events y)"
      "\<forall>e\<in>set (eh_events y'). ev_heap t e = snd (tick (eh_inst y) d (the (ev_heap s e)))"
    using updates_step [OF Cons.prems(1-3), of d ds] by blast
  let ?now = "filter (\<lambda>e. fst (tick (eh_inst y) d (the (ev_heap s e)))) (eh_events y)"
  note tick = tick_one_shot [OF Cons.prems(6), of d]
  show ?case
  proof (cases "te_curr x \<le> d")
    case True
    then have fires: "e \<in> set ?now" "e \<notin> set (eh_events y')" using Cons.prems(4,5) tick t(6) by simp_all
    then obtain outs u where u: "updates ds h t = Some (Inr (outs, u))" "length outs = length ds" "\<forall>i < length ds. e \<notin> set (outs ! i)"
      using updates_unlisted [OF t(1-3)] by blast
    have "unat (te_curr x) \<le> unat d" using True by (simp add: word_le_nat_alt)
    with fires u t(5) show ?thesis by (auto simp: nth_Cons split: nat.split)
  next
    case False
    let ?x = "x\<lparr>te_curr := te_curr x - d\<rparr>"
    have stays: "e \<notin> set ?now" "e \<in> set (eh_events y')" "ev_heap t e = Some ?x"
      using False Cons.prems(4,5) tick t(6,7) by simp_all
    have time: "unat (te_curr x - d) = unat (te_curr x) - unat d" "unat d < unat (te_curr x)"
      using False unat_sub [of d "te_curr x"] by (auto simp: word_le_nat_alt)
    obtain outs u where u: "updates ds h t = Some (Inr (outs, u))" "length outs = length ds"
        "\<forall>i < length ds. e \<in> set (outs ! i) \<longleftrightarrow>
          unat (te_curr ?x) \<le> sum_list (map unat (take (Suc i) ds))
          \<and> (0 < i \<longrightarrow> sum_list (map unat (take i ds)) < unat (te_curr ?x))"
      using Cons.IH [OF t(1-3) stays(2,3)] one_shot_later [OF Cons.prems(6)] t(4) by (simp only:) blast
    have "e \<in> set ((?now # outs) ! i) \<longleftrightarrow>
          unat (te_curr x) \<le> sum_list (map unat (take (Suc i) (d # ds)))
          \<and> (0 < i \<longrightarrow> sum_list (map unat (take i (d # ds))) < unat (te_curr x))" if "i < length (d # ds)" for i
    proof (cases i)
      case 0
      then show ?thesis using stays(1) time(2) by simp
    next
      case (Suc j)
      have "sum_list (map unat (take 0 ds)) < unat (te_curr x - d)" using time by simp
      then show ?thesis using Suc that u(3) time by (cases "j = 0") auto
    qed
    with u t(5) show ?thesis by simp
  qed
qed simp

text \<open>C31: An update is one pass over the timers. When the callbacks leave the timers alone, a holder's update comes
  to an end, calls exactly the callbacks of the live timers whose time is up, in the order of the list, takes
  the spent ones out and counts the others down or rewinds them; an event outside the list stays as it is.\<close>

theorem update_pass:
  assumes "ev_ok s" and "om_find (ev_holder s) h = Some y" and "distinct (eh_events y)"
  shows "\<exists>t. update (Suc (length (eh_events y))) quiet h diff s
      = Some (Inr (filter (\<lambda>e. fst (tick (eh_inst y) diff (the (ev_heap s e)))) (eh_events y), t))
    \<and> ev_ok t
    \<and> om_find (ev_holder t) h
      = Some (y\<lparr>eh_events := filter (\<lambda>e. snd (tick (eh_inst y) diff (the (ev_heap s e))) \<noteq> None) (eh_events y)\<rparr>)
    \<and> (\<forall>e. e \<notin> set (eh_events y) \<longrightarrow> ev_heap t e = ev_heap s e)
    \<and> (\<forall>e\<in>set (list_of h t). ev_heap t e = snd (tick (eh_inst y) diff (the (ev_heap s e))))"
  by (rule update_quiet [OF assms])

text \<open>A table with one timer of 100 ms that fires once.\<close>

definition shot :: timed_event where
  "shot = (new_event 5 (Some 0) 7 100 1 0)\<lparr>te_inst := -1, te_ref := 2\<rparr>"

definition shot_holder :: event_holder where
  "shot_holder = \<lparr>eh_inst = -1, eh_events = [1]\<rparr>"

definition shot_timer :: ev_state where
  "shot_timer = \<lparr>ev_heap = [1 \<mapsto> shot], ev_next = 2, ev_objs = [(5, \<lparr>eo_events = [(7, 1)], eo_inst = -1, eo_holder = 1\<rparr>)],
     ev_holder = [(1, shot_holder)], ev_map = [(-1, 1)]\<rparr>"

lemma shot_timer_ok: "ev_ok shot_timer" "om_find (ev_holder shot_timer) 1 = Some shot_holder" "distinct (eh_events shot_holder)"
    "1 \<in> set (eh_events shot_holder)" "ev_heap shot_timer 1 = Some shot" "one_shot (eh_inst shot_holder) shot" "te_curr shot = 100"
proof -
  have "refs shot_timer = {#1, 1#}"
    by (simp add: shot_timer_def shot_holder_def refs_def links_def obj_links_def)
  then show "ev_ok shot_timer"
    by (auto simp: ev_ok_def heap_ok_def cell_ok_def holders_ok_def shot_timer_def shot_def new_event_def
        get_obj_def new_event_obj_def getEventHolder_def WORLD_INSTANCE_def om_ok_def)
qed (simp_all add: shot_timer_def shot_holder_def shot_def new_event_def one_shot_def)

lemma update_pass_witness:
  "(\<exists>t. update 2 quiet 1 100 shot_timer = Some (Inr ([1], t)) \<and> list_of 1 t = [])
   \<and> (\<exists>t. update 2 quiet 1 99 shot_timer = Some (Inr ([], t)) \<and> ev_heap t 1 = Some (shot\<lparr>te_curr := 1\<rparr>))"
proof -
  note p = update_pass [OF shot_timer_ok(1-3)]
  have k: "tick (eh_inst shot_holder) d shot = (if 100 \<le> d then (True, None) else (False, Some (shot\<lparr>te_curr := 100 - d\<rparr>)))" for d
    using tick_one_shot [OF shot_timer_ok(6), of d] shot_timer_ok(7) by simp
  have l: "eh_events shot_holder = [1]" by (simp add: shot_holder_def)
  have n: "Suc (length [1 :: ptr]) = 2" by simp
  have on: "filter (\<lambda>e. fst (tick (eh_inst shot_holder) d (the (ev_heap shot_timer e)))) [1] = (if 100 \<le> d then [1] else [])"
    "filter (\<lambda>e. snd (tick (eh_inst shot_holder) d (the (ev_heap shot_timer e))) \<noteq> None) [1] = (if 100 \<le> d then [] else [1])" for d
    using shot_timer_ok(5) k [of d] by simp_all
  have le: "(100 :: u32) \<le> 100" "\<not> (100 :: u32) \<le> 99" by simp_all
  have "\<exists>t. update 2 quiet 1 100 shot_timer = Some (Inr ([1], t)) \<and> list_of 1 t = []"
    using p [of 100] unfolding l n on if_P [OF le(1)] by (auto simp: list_of_def)
  moreover have "\<exists>t. update 2 quiet 1 99 shot_timer = Some (Inr ([], t)) \<and> ev_heap t 1 = Some (shot\<lparr>te_curr := 1\<rparr>)"
    using p [of 99] k [of 99] shot_timer_ok(5) unfolding l n on if_not_P [OF le(2)] by (auto simp: list_of_def)
  ultimately show ?thesis ..
qed

end
