(* ===== verification/Timer_Frame.thy ===== *)
theory Timer_Frame
  imports Event
begin

text \<open>
  When a timer of \<^verbatim>\<open>common/event_table_object.cpp\<close> is called, for a program that goes on using
  the other timers. The operations of \<^verbatim>\<open>Event\<close> that are about another object or another type
  leave a timer and its place in the holder's list as they are, a round of \<open>update_loop\<close> for another
  timer does too, and so a run of updates counts a one-shot timer down and calls it once.
\<close>

section \<open>What leaves a timer alone\<close>

text \<open>An operation that is not about the timers of object \<open>ob\<close> with type \<open>k\<close>, or adds a timer.\<close>

fun spares :: "ptr \<Rightarrow> u32 \<Rightarrow> ev_op \<Rightarrow> bool" where
  "spares ob k (Op_Add ob' cb type time repeats flags) = True"
| "spares ob k (Op_Remove ob' type) = (ob' \<noteq> ob \<or> (type \<noteq> k \<and> type \<noteq> EVENT_REMOVAL_FLAG_ALL))"
| "spares ob k (Op_Time_Left ob' type time u) = (ob' \<noteq> ob \<or> type \<noteq> k)"
| "spares ob k (Op_Time ob' type time) = (ob' \<noteq> ob \<or> type \<noteq> k)"
| "spares ob k (Op_Both ob' type time) = (ob' \<noteq> ob \<or> type \<noteq> k)"

text \<open>The timer is linked by this object under this type only.\<close>

definition belongs :: "ptr \<Rightarrow> u32 \<Rightarrow> ptr \<Rightarrow> ev_state \<Rightarrow> bool" where
  "belongs ob k e s \<longleftrightarrow> e < ev_next s \<and> (\<forall>ob' k'. (k', e) \<in> set (eo_events (get_obj ob' s)) \<longrightarrow> ob' = ob \<and> k' = k)"

text \<open>From one state to the other the links of \<open>e\<close> do not grow, and the list of the holder \<open>h\<close> only gets other timers at its end.\<close>

definition keeps_place :: "ptr \<Rightarrow> ptr \<Rightarrow> ev_state \<Rightarrow> ev_state \<Rightarrow> bool" where
  "keeps_place e h s t \<longleftrightarrow> ev_next s \<le> ev_next t
     \<and> (\<forall>ob k. (k, e) \<in> set (eo_events (get_obj ob t)) \<longrightarrow> (k, e) \<in> set (eo_events (get_obj ob s)))
     \<and> (\<forall>y. om_find (ev_holder s) h = Some y \<longrightarrow>
          (\<exists>new. om_find (ev_holder t) h = Some (y\<lparr>eh_events := eh_events y @ new\<rparr>) \<and> e \<notin> set new))"

lemma keeps_place_same:
  assumes "ev_next t = ev_next s" and "\<And>ob. eo_events (get_obj ob t) = eo_events (get_obj ob s)" and "ev_holder t = ev_holder s"
  shows "keeps_place e h s t"
  using assms by (auto simp: keeps_place_def intro!: exI [of _ "[]"])

lemma keeps_place_trans:
  assumes "keeps_place e h s t" and "keeps_place e h t u" shows "keeps_place e h s u"
proof -
  have "\<exists>new. om_find (ev_holder u) h = Some (y\<lparr>eh_events := eh_events y @ new\<rparr>) \<and> e \<notin> set new"
    if y: "om_find (ev_holder s) h = Some y" for y
  proof -
    obtain new where n: "om_find (ev_holder t) h = Some (y\<lparr>eh_events := eh_events y @ new\<rparr>)" "e \<notin> set new"
      using assms(1) y unfolding keeps_place_def by blast
    then obtain new' where "om_find (ev_holder u) h = Some (y\<lparr>eh_events := eh_events y @ new\<rparr>
        \<lparr>eh_events := eh_events (y\<lparr>eh_events := eh_events y @ new\<rparr>) @ new'\<rparr>)" "e \<notin> set new'"
      using assms(2) unfolding keeps_place_def by blast
    with n(2) show ?thesis by (intro exI [of _ "new @ new'"]) simp
  qed
  with assms show ?thesis unfolding keeps_place_def by (meson order_trans)
qed

lemma belongs_keeps: "belongs ob k e s \<Longrightarrow> keeps_place e h s t \<Longrightarrow> belongs ob k e t"
  unfolding belongs_def keeps_place_def by (meson order_less_le_trans)

text \<open>Nothing happens to \<open>e\<close>, in its place or in itself.\<close>

definition untouched :: "ptr \<Rightarrow> ptr \<Rightarrow> ev_state \<Rightarrow> ev_state \<Rightarrow> bool" where
  "untouched e h s t \<longleftrightarrow> ev_heap t e = ev_heap s e \<and> keeps_place e h s t"

lemma untouched_trans: "untouched e h s t \<Longrightarrow> untouched e h t u \<Longrightarrow> untouched e h s u"
  unfolding untouched_def using keeps_place_trans by auto

lemma untouched_refl: "untouched e h s s"
  by (simp add: untouched_def keeps_place_same)

lemma untouched_put_event: "d \<noteq> e \<Longrightarrow> untouched e h s (put_event d x s)"
  by (auto simp: untouched_def put_event_def get_obj_def intro!: keeps_place_same)

lemma decRef_touches:
  assumes "decRef d s = Inr t"
  shows "d \<noteq> e \<Longrightarrow> untouched e h s t" and "keeps_place e h s t" and "ev_holder t = ev_holder s"
  using assms
  by (auto simp: decRef_def with_event_def Let_def untouched_def put_event_def get_obj_def split: option.splits if_splits
      intro!: keeps_place_same)

lemma untouched_incRef: "incRef d s = Inr t \<Longrightarrow> d \<noteq> e \<Longrightarrow> untouched e h s t"
  by (auto simp: incRef_def with_event_def split: option.splits intro!: untouched_put_event)

lemma untouched_fold:
  assumes "\<And>d s t. d \<in> set ds \<Longrightarrow> f d s = Inr t \<Longrightarrow> untouched e h s t"
  shows "fold_result f ds s = Inr t \<Longrightarrow> untouched e h s t"
  using assms
proof (induction ds arbitrary: s)
  case (Cons d ds)
  then obtain u where u: "f d s = Inr u" "fold_result f ds u = Inr t" by auto
  have "untouched e h s u" by (rule Cons.prems(2) [OF _ u(1)]) simp
  moreover have "untouched e h u t" by (rule Cons.IH [OF u(2)], rule Cons.prems(2)) simp_all
  ultimately show ?case by (rule untouched_trans)
qed (simp add: untouched_refl)

lemma untouched_put_obj:
  assumes "\<And>k. (k, e) \<in> set (eo_events x) \<Longrightarrow> (k, e) \<in> set (eo_events (get_obj ob s))"
  shows "untouched e h s (put_obj ob x s)"
  using assms by (auto simp: untouched_def keeps_place_def intro!: exI [of _ "[]"])

lemma untouched_choose: "untouched e h s (choose_holder ob s)"
  unfolding choose_holder_def by (rule untouched_put_obj) simp

lemma untouched_push:
  assumes "push_event h' d s = Inr t" and "d \<noteq> e" shows "untouched e h s t"
proof -
  obtain x where x: "om_find (ev_holder s) h' = Some x"
      "t = s\<lparr>ev_holder := om_set h' (x\<lparr>eh_events := eh_events x @ [d]\<rparr>) (ev_holder s)\<rparr>"
    using assms(1) by (auto simp: push_event_def split: option.splits)
  have "\<exists>new. om_find (ev_holder t) h = Some (y\<lparr>eh_events := eh_events y @ new\<rparr>) \<and> e \<notin> set new"
    if "om_find (ev_holder s) h = Some y" for y
    using that x assms(2) by (cases "h' = h") (auto intro: exI [of _ "[d]"] exI [of _ "[]"])
  with x(2) show ?thesis by (simp add: untouched_def keeps_place_def get_obj_def)
qed

lemma set_mm_insert: "set (mm_insert k e m) = insert (k, e) (set m)"
proof -
  have "set m = set (takeWhile P m) \<union> set (dropWhile P m)" for P
    by (metis set_append takeWhile_dropWhile_id)
  then show ?thesis unfolding mm_insert_def by auto
qed

lemma untouched_link:
  assumes "link_event ob d x s = Inr t" and "d \<noteq> e" shows "untouched e h s t"
proof -
  let ?s1 = "put_event d (x\<lparr>te_inst := eo_inst (get_obj ob s)\<rparr>) s"
  let ?s2 = "put_obj ob ((get_obj ob ?s1)\<lparr>eo_events := mm_insert (te_type x) d (eo_events (get_obj ob ?s1))\<rparr>) ?s1"
  let ?s3 = "if eo_holder (get_obj ob ?s2) = NULL then choose_holder ob ?s2 else ?s2"
  have "untouched e h ?s1 ?s2" by (rule untouched_put_obj) (use assms(2) in \<open>auto simp: set_mm_insert\<close>)
  moreover have "untouched e h ?s2 ?s3" using untouched_choose untouched_refl by auto
  moreover have "holder_addEvent (eo_holder (get_obj ob ?s3)) d ?s3 = Inr t"
    using assms(1) unfolding link_event_def Let_def by (simp split: if_splits)
  then obtain u where "incRef d ?s3 = Inr u" "push_event (eo_holder (get_obj ob ?s3)) d u = Inr t"
    by (auto simp: holder_addEvent_def)
  with assms(2) have "untouched e h ?s3 t" by (meson untouched_incRef untouched_push untouched_trans)
  ultimately show ?thesis using untouched_put_event [OF assms(2)] by (meson untouched_trans)
qed

lemma untouched_add:
  assumes "addEvent ob cb type time repeats flags s = Inr t" and "e < ev_next s" shows "untouched e h s t"
proof -
  let ?d = "ev_next s"
  let ?s0 = "put_event ?d (new_event ob cb type time repeats flags) (s\<lparr>ev_next := ?d + 1\<rparr>)"
  let ?s1 = "if eo_holder (get_obj ob ?s0) = NULL then choose_holder ob ?s0 else ?s0"
  have d: "?d \<noteq> e" using assms(2) by simp
  obtain u x where u: "incRef ?d ?s1 = Inr u" "link_event ob ?d x u = Inr t"
    using assms(1) unfolding addEvent_def eventAddEvent_def Let_def with_event_def by (auto split: option.splits)
  have "untouched e h s ?s0"
    using d by (auto simp: untouched_def keeps_place_def put_event_def get_obj_def intro!: exI [of _ "[]"])
  moreover have "untouched e h ?s0 ?s1" using untouched_choose untouched_refl by auto
  ultimately show ?thesis using untouched_incRef [OF u(1) d] untouched_link [OF u(2) d] by (meson untouched_trans)
qed

lemma of_type_member: "e \<in> set (of_type_events k m) \<Longrightarrow> (k, e) \<in> set m"
  by (auto simp: of_type_events_def)

lemma untouched_change:
  assumes "change_events f ob' type s = Inr t" and "belongs ob k e s" and "ob' \<noteq> ob \<or> type \<noteq> k"
  shows "untouched e h s t"
proof -
  have "e \<notin> set (of_type_events type (eo_events (get_obj ob' s)))"
    using assms(2,3) of_type_member unfolding belongs_def by blast
  then show ?thesis
    using assms(1) unfolding change_events_def
    by (elim untouched_fold [rotated]) (auto simp: with_event_def split: option.splits intro!: untouched_put_event)
qed

lemma untouched_remove:
  assumes "eventRemoveEvents ob' type s = Inr t" and "belongs ob k e s"
    and "ob' \<noteq> ob \<or> (type \<noteq> k \<and> type \<noteq> EVENT_REMOVAL_FLAG_ALL)"
  shows "untouched e h s t"
proof -
  let ?m = "eo_events (get_obj ob' s)"
  let ?all = "type = EVENT_REMOVAL_FLAG_ALL"
  obtain ds rest where ds: "ds = (if ?all then map snd ?m else of_type_events type ?m)"
    and rest: "rest = (if ?all then [] else filter (\<lambda>(k, _). k \<noteq> type) ?m)" by blast
  have "e \<notin> set ds"
  proof
    assume "e \<in> set ds"
    then obtain k' where k': "(k', e) \<in> set ?m" "\<not> ?all \<Longrightarrow> k' = type"
      using of_type_member unfolding ds by (auto split: if_splits)
    then have "ob' = ob \<and> k' = k" using assms(2) unfolding belongs_def by blast
    with k'(2) assms(3) show False by blast
  qed
  moreover obtain u where u: "fold_result decRef ds s = Inr u" "t = put_obj ob' ((get_obj ob' u)\<lparr>eo_events := rest\<rparr>) u"
    using assms(1) unfolding eventRemoveEvents_def ds rest by (auto simp: Let_def split: if_splits)
  ultimately have s: "untouched e h s u" by (intro untouched_fold [OF _ u(1)]) (metis decRef_touches(1))
  have "fold_result decRef ds s = Inr u \<Longrightarrow> eo_events (get_obj ob' u) = eo_events (get_obj ob' s)" for ds s
  proof (induction ds arbitrary: s)
    case (Cons d ds)
    then obtain v where v: "decRef d s = Inr v" "fold_result decRef ds v = Inr u" by auto
    have "get_obj ob' v = get_obj ob' s"
      using v(1) by (auto simp: decRef_def with_event_def Let_def put_event_def get_obj_def split: option.splits if_splits)
    with Cons.IH [OF v(2)] show ?case by simp
  qed simp
  then have "eo_events (get_obj ob' u) = ?m" using u(1) by blast
  then have "untouched e h u t" unfolding u(2) by (intro untouched_put_obj) (auto simp: rest split: if_splits)
  with s show ?thesis by (rule untouched_trans)
qed

lemma untouched_op:
  assumes "run_op x s = Inr t" and "belongs ob k e s" and "spares ob k x" shows "untouched e h s t"
proof (cases x)
  case (Op_Add ob' cb type time repeats flags)
  with assms show ?thesis using untouched_add by (simp add: belongs_def)
next
  case (Op_Remove ob' type)
  with assms show ?thesis using untouched_remove by simp
qed (use assms untouched_change in \<open>auto simp: eventModifyTimeLeft_def eventModifyTime_def eventModifyTimeAndTimeLeft_def\<close>)

lemma untouched_ops:
  "fold_result run_op xs s = Inr t \<Longrightarrow> belongs ob k e s \<Longrightarrow> list_all (spares ob k) xs \<Longrightarrow> untouched e h s t"
proof (induction xs arbitrary: s)
  case (Cons x xs)
  then obtain u where u: "run_op x s = Inr u" "fold_result run_op xs u = Inr t" by auto
  have su: "untouched e h s u" using untouched_op [OF u(1) Cons.prems(2)] Cons.prems(3) by simp
  then have "belongs ob k e u" using belongs_keeps Cons.prems(2) unfolding untouched_def by blast
  with Cons.IH [OF u(2)] Cons.prems(3) su show ?case using untouched_trans by auto
qed (simp add: untouched_refl)


section \<open>A round of the loop\<close>

abbreviation sparing :: "ptr \<Rightarrow> u32 \<Rightarrow> behaviour \<Rightarrow> bool" where
  "sparing ob k beh \<equiv> \<forall>cb s. list_all (spares ob k) (beh cb s)"

lemma untouched_execute: "execute beh cb s = Inr t \<Longrightarrow> belongs ob k e s \<Longrightarrow> sparing ob k beh \<Longrightarrow> untouched e h s t"
  unfolding execute_def using untouched_ops by blast

lemma untouched_erase: "erase_event d fired s = Inr (v, fired', t) \<Longrightarrow> d \<noteq> e \<Longrightarrow> untouched e h s t"
  unfolding erase_event_def by (cases "decRef d s") (auto dest: decRef_touches(1))

lemma visit_other:
  assumes "visit_event beh inst diff d s = Inr (v, fired, t)" and "belongs ob k e s" and "sparing ob k beh" and "d \<noteq> e"
  shows "untouched e h s t"
proof -
  obtain x where x: "ev_heap s d = Some x"
    using assms(1) by (auto simp: visit_event_def with_event_def split: option.splits)
  note v = assms(1) [unfolded visit_event_def with_event_def x option.case]
  consider (drop) "erase_event d False s = Inr (v, fired, t)"
    | (wait) "t = put_event d (x\<lparr>te_curr := te_curr x - diff\<rparr>) s"
    | (call) cb u where "execute beh cb s = Inr u" "erase_event d True u = Inr (v, fired, t)"
    | (stop) cb u z where "execute beh cb s = Inr u" "erase_event d True (put_event d z u) = Inr (v, fired, t)"
    | (again) cb u z w where "execute beh cb s = Inr u" "t = put_event d z (put_event d w u)"
    using v by (auto simp: Let_def with_event_def split: if_splits option.splits)
  then show ?thesis
    using assms(2,3,4) by cases (meson untouched_erase untouched_put_event untouched_execute untouched_trans)+
qed

lemma visit_once:
  assumes "visit_event beh inst diff e s = Inr (v, fired, t)" and "belongs ob k e s" and "sparing ob k beh"
    and "ev_heap s e = Some x" and "one_shot inst x"
  shows "keeps_place e h s t \<and> v = (if te_curr x \<le> diff then Erase else Keep) \<and> fired = (te_curr x \<le> diff)
    \<and> (\<not> te_curr x \<le> diff \<longrightarrow> ev_heap t e = Some (x\<lparr>te_curr := te_curr x - diff\<rparr>))"
proof (cases "te_curr x \<le> diff")
  case False
  then have "t = put_event e (x\<lparr>te_curr := te_curr x - diff\<rparr>) s" "v = Keep" "\<not> fired"
    using assms(1,4,5) by (auto simp: visit_event_def with_event_def one_shot_def)
  then show ?thesis using False by (auto simp: put_event_def get_obj_def intro!: keeps_place_same)
next
  case True
  obtain cb where cb: "te_cb x = Some cb" using assms(5) by (auto simp: one_shot_def)
  obtain u where u: "execute beh cb s = Inr u"
    using assms(1,4,5) True cb by (auto simp: visit_event_def with_event_def one_shot_def)
  have su: "ev_heap u e = Some x" "keeps_place e h s u"
    using untouched_execute [OF u assms(2,3)] assms(4) by (simp_all add: untouched_def)
  obtain z where z: "erase_event e True z = Inr (v, fired, t)" "keeps_place e h u z"
  proof (cases "te_flag x AND DELETES_OBJECT \<noteq> 0")
    case True': True
    have "erase_event e True u = Inr (v, fired, t)"
      using assms(1,4,5) True True' cb u by (auto simp: visit_event_def with_event_def one_shot_def)
    then show thesis using that keeps_place_same by blast
  next
    case False
    have "erase_event e True (put_event e (x\<lparr>te_repeats := 0\<rparr>) u) = Inr (v, fired, t)"
      using assms(1,4,5) True False cb u su(1) by (auto simp: visit_event_def with_event_def one_shot_def Let_def)
    moreover have "keeps_place e h u (put_event e (x\<lparr>te_repeats := 0\<rparr>) u)"
      by (rule keeps_place_same) (simp_all add: put_event_def get_obj_def)
    ultimately show thesis by (rule that)
  qed
  obtain w where w: "decRef e z = Inr w" "v = Erase" "fired" "t = w"
    using z(1) by (auto simp: erase_event_def)
  have "keeps_place e h z t" using decRef_touches(2) [OF w(1)] w(4) by blast
  then have "keeps_place e h s t" using su(2) z(2) keeps_place_trans by blast
  with w True show ?thesis by simp
qed

section \<open>The loop\<close>

text \<open>How often the holder lists a timer.\<close>

definition in_list :: "ptr \<Rightarrow> ptr \<Rightarrow> int \<Rightarrow> nat \<Rightarrow> ev_state \<Rightarrow> bool" where
  "in_list e h inst n s \<longleftrightarrow>
     (\<exists>y. om_find (ev_holder s) h = Some y \<and> eh_inst y = inst \<and> count_list (eh_events y) e = n)"

lemma count_zero: "e \<notin> set es \<Longrightarrow> count_list es e = 0"
  by simp

lemma in_list_keeps:
  assumes "keeps_place e h s t" and "in_list e h inst n s"
  shows "in_list e h inst n t" and "\<exists>new. list_of h t = list_of h s @ new \<and> e \<notin> set new"
proof -
  obtain y where y: "om_find (ev_holder s) h = Some y" "eh_inst y = inst" "count_list (eh_events y) e = n"
    using assms(2) unfolding in_list_def by blast
  then obtain new where n: "om_find (ev_holder t) h = Some (y\<lparr>eh_events := eh_events y @ new\<rparr>)" "e \<notin> set new"
    using assms(1) unfolding keeps_place_def by blast
  show "in_list e h inst n t"
    using y n unfolding in_list_def by (intro exI [of _ "y\<lparr>eh_events := eh_events y @ new\<rparr>"]) simp
  show "\<exists>new. list_of h t = list_of h s @ new \<and> e \<notin> set new"
    using y(1) n by (auto simp: list_of_def)
qed

lemma count_drop_index: "i < length es \<Longrightarrow> count_list (drop_index i es) e + (if es ! i = e then 1 else 0) = count_list es e"
  using arg_cong [OF id_take_nth_drop [of i es], of "\<lambda>es. count_list es e"] by (auto simp: drop_index_def)

text \<open>What a round leaves: the list of the holder at the next position.\<close>

definition after_round :: "ptr \<Rightarrow> nat \<Rightarrow> verdict \<Rightarrow> ev_state \<Rightarrow> ev_state" where
  "after_round h i v s = (if v = Erase then set_list h (drop_index i (list_of h s)) s else s)"

abbreviation next_index :: "nat \<Rightarrow> verdict \<Rightarrow> nat" where
  "next_index i v \<equiv> (if v = Erase then i else Suc i)"

lemma loop_round:
  assumes "update_loop (Suc n) beh h inst diff i s = Some (Inr (out, t))" and "i < length (list_of h s)"
  obtains v b u out' where "visit_event beh inst diff (list_of h s ! i) s = Inr (v, b, u)"
    and "out = (if b then [list_of h s ! i] else []) @ out'"
    and "(length (list_of h s) = Suc i \<and> out' = [] \<and> t = after_round h i v u)
      \<or> update_loop n beh h inst diff (next_index i v) (after_round h i v u) = Some (Inr (out', t))"
proof -
  obtain v b u where v: "visit_event beh inst diff (list_of h s ! i) s = Inr (v, b, u)"
    using assms by (auto simp: Let_def split: sum.splits prod.splits)
  then have step: "update_loop (Suc n) beh h inst diff i s =
      (if length (list_of h s) = Suc i then Some (Inr ((if b then [list_of h s ! i] else []), after_round h i v u))
       else map_option (\<lambda>r. bind_result r (\<lambda>(out', s'). Inr ((if b then [list_of h s ! i] else []) @ out', s')))
              (update_loop n beh h inst diff (next_index i v) (after_round h i v u)))"
    using assms(2) by (simp add: Let_def after_round_def)
  show thesis
  proof (cases "length (list_of h s) = Suc i")
    case True
    with assms(1) have "out = (if b then [list_of h s ! i] else []) @ []" "t = after_round h i v u"
      unfolding step by simp_all
    with True show thesis by (intro that [OF v]) blast+
  next
    case False
    with assms(1) obtain r where r: "update_loop n beh h inst diff (next_index i v) (after_round h i v u) = Some r"
        "bind_result r (\<lambda>(out', s'). Inr ((if b then [list_of h s ! i] else []) @ out', s')) = Inr (out, t)"
      unfolding step by (simp only: if_False) (elim map_option_eq_Some [THEN iffD1, elim_format] exE conjE, blast)
    then obtain out' where "r = Inr (out', t)" "out = (if b then [list_of h s ! i] else []) @ out'"
      by auto
    with r(1) show thesis by (intro that [OF v]) blast+
  qed
qed

lemma after_round_frame:
  assumes "in_list e h inst n s" and "i < length (list_of h s)"
  shows "ev_heap (after_round h i v s) = ev_heap s" and "belongs ob k e (after_round h i v s) = belongs ob k e s"
    and "in_list e h inst (n - (if v = Erase \<and> list_of h s ! i = e then 1 else 0)) (after_round h i v s)"
    and "list_of h (after_round h i v s) = (if v = Erase then drop_index i (list_of h s) else list_of h s)"
proof -
  obtain y where y: "om_find (ev_holder s) h = Some y" "eh_inst y = inst" "count_list (eh_events y) e = n"
    using assms(1) unfolding in_list_def by blast
  then have l: "list_of h s = eh_events y" by (simp add: list_of_def)
  show "ev_heap (after_round h i v s) = ev_heap s" "belongs ob k e (after_round h i v s) = belongs ob k e s"
    by (simp_all add: after_round_def set_list_def belongs_def get_obj_def y(1))
  show "list_of h (after_round h i v s) = (if v = Erase then drop_index i (list_of h s) else list_of h s)"
    using y(1) by (simp add: after_round_def set_list_def list_of_def)
  have c: "count_list (drop_index i (eh_events y)) e + (if eh_events y ! i = e then 1 else 0) = n"
    using count_drop_index [of i "eh_events y" e] assms(2) y(3) l by simp
  show "in_list e h inst (n - (if v = Erase \<and> list_of h s ! i = e then 1 else 0)) (after_round h i v s)"
    using y c unfolding in_list_def l by (cases v) (auto simp: after_round_def set_list_def l)
qed

text \<open>Behind the position, or nowhere: the rest of the loop does not look at the timer.\<close>

lemma loop_passed:
  "update_loop n beh h inst diff i s = Some (Inr (out, t)) \<Longrightarrow> in_list e h inst c s \<Longrightarrow> belongs ob k e s \<Longrightarrow> sparing ob k beh
   \<Longrightarrow> e \<notin> set (drop i (list_of h s))
   \<Longrightarrow> e \<notin> set out \<and> in_list e h inst c t \<and> belongs ob k e t \<and> ev_heap t e = ev_heap s e"
proof (induction n arbitrary: i s out)
  case (Suc n)
  show ?case
  proof (cases "length (list_of h s) \<le> i")
    case False
    then have i: "i < length (list_of h s)" by simp
    let ?d = "list_of h s ! i"
    obtain v b u out' where u: "visit_event beh inst diff ?d s = Inr (v, b, u)"
      and out: "out = (if b then [?d] else []) @ out'"
      and rest: "(length (list_of h s) = Suc i \<and> out' = [] \<and> t = after_round h i v u)
        \<or> update_loop n beh h inst diff (next_index i v) (after_round h i v u) = Some (Inr (out', t))"
      using loop_round [OF Suc.prems(1) i] by metis
    have d: "?d \<noteq> e" "e \<notin> set (drop (Suc i) (list_of h s))"
      using Suc.prems(5) i by (simp_all add: Cons_nth_drop_Suc [symmetric])
    have un: "untouched e h s u" using visit_other [OF u Suc.prems(3,4) d(1)] .
    then have ku: "keeps_place e h s u" by (simp add: untouched_def)
    note lu = in_list_keeps [OF ku Suc.prems(2)]
    obtain new where new: "list_of h u = list_of h s @ new" "e \<notin> set new" using lu(2) by blast
    have iu: "i < length (list_of h u)" "list_of h u ! i = ?d" using i new(1) by (simp_all add: nth_append)
    note w = after_round_frame [OF lu(1) iu(1), where v = v]
    have gone: "e \<notin> set (drop (next_index i v) (list_of h (after_round h i v u)))"
      using d new i unfolding w(4) by (auto simp: drop_index_def)
    have here: "in_list e h inst c (after_round h i v u)" "belongs ob k e (after_round h i v u)"
        "ev_heap (after_round h i v u) e = ev_heap s e"
      using w(3) iu(2) d(1) belongs_keeps [OF Suc.prems(3) ku] un by (simp_all add: w(1,2) untouched_def)
    from rest show ?thesis
    proof
      assume "length (list_of h s) = Suc i \<and> out' = [] \<and> t = after_round h i v u"
      with here out d(1) show ?thesis by auto
    next
      assume "update_loop n beh h inst diff (next_index i v) (after_round h i v u) = Some (Inr (out', t))"
      with Suc.IH [OF this here(1,2) Suc.prems(4) gone] here(3) out d(1) show ?thesis by auto
    qed
  qed (use Suc.prems in auto)
qed simp

text \<open>Ahead of the position: the loop gets to the timer, and to no other place of it.\<close>

lemma loop_reaches:
  "update_loop n beh h inst diff i s = Some (Inr (out, t)) \<Longrightarrow> in_list e h inst 1 s \<Longrightarrow> belongs ob k e s \<Longrightarrow> sparing ob k beh
   \<Longrightarrow> ev_heap s e = Some x \<Longrightarrow> one_shot inst x \<Longrightarrow> e \<in> set (drop i (list_of h s))
   \<Longrightarrow> belongs ob k e t \<and>
     (if te_curr x \<le> diff then e \<in> set out \<and> in_list e h inst 0 t
      else e \<notin> set out \<and> in_list e h inst 1 t \<and> ev_heap t e = Some (x\<lparr>te_curr := te_curr x - diff\<rparr>))"
proof (induction n arbitrary: i s out)
  case (Suc n)
  have i: "i < length (list_of h s)" using Suc.prems(7) by (cases "i < length (list_of h s)") simp_all
  let ?d = "list_of h s ! i"
  obtain v b u out' where u: "visit_event beh inst diff ?d s = Inr (v, b, u)"
    and out: "out = (if b then [?d] else []) @ out'"
    and rest: "(length (list_of h s) = Suc i \<and> out' = [] \<and> t = after_round h i v u)
      \<or> update_loop n beh h inst diff (next_index i v) (after_round h i v u) = Some (Inr (out', t))"
    using loop_round [OF Suc.prems(1) i] by metis
  have ku: "keeps_place e h s u"
    using visit_other [OF u Suc.prems(3,4)] visit_once [OF _ Suc.prems(3-6)] u unfolding untouched_def by metis
  note lu = in_list_keeps [OF ku Suc.prems(2)]
  obtain new where new: "list_of h u = list_of h s @ new" "e \<notin> set new" using lu(2) by blast
  have iu: "i < length (list_of h u)" "list_of h u ! i = ?d" using i new(1) by (simp_all add: nth_append)
  note w = after_round_frame [OF lu(1) iu(1), where v = v]
  have bw: "belongs ob k e (after_round h i v u)"
    using belongs_keeps [OF Suc.prems(3) ku] by (simp add: w(2))
  show ?case
  proof (cases "?d = e")
    case True
    have "v = (if te_curr x \<le> diff then Erase else Keep) \<and> b = (te_curr x \<le> diff)
        \<and> (\<not> te_curr x \<le> diff \<longrightarrow> ev_heap u e = Some (x\<lparr>te_curr := te_curr x - diff\<rparr>))"
      using visit_once [OF _ Suc.prems(3-6)] u unfolding True by blast
    then have v: "v = (if te_curr x \<le> diff then Erase else Keep)" "b = (te_curr x \<le> diff)"
        "\<not> te_curr x \<le> diff \<Longrightarrow> ev_heap u e = Some (x\<lparr>te_curr := te_curr x - diff\<rparr>)" by simp_all
    have left: "\<not> te_curr x \<le> diff \<Longrightarrow> ev_heap (after_round h i v u) e = Some (x\<lparr>te_curr := te_curr x - diff\<rparr>)"
      using v(3) unfolding w(1) .
    have here: "in_list e h inst (if te_curr x \<le> diff then 0 else 1) (after_round h i v u)"
      using w(3) iu(2) True by (simp add: v(1) split: if_splits)
    obtain y where y: "om_find (ev_holder s) h = Some y" "count_list (eh_events y) e = 1"
      using Suc.prems(2) unfolding in_list_def by blast
    have "count_list (drop_index i (list_of h s)) e = 0"
      using count_drop_index [OF i, of e] True y by (simp add: list_of_def)
    then have ahead: "e \<notin> set (drop (Suc i) (list_of h s))"
      by (simp add: drop_index_def count_list_0_iff)
    have gone: "e \<notin> set (drop (next_index i v) (list_of h (after_round h i v u)))"
      using ahead new i unfolding w(4) by (auto simp: drop_index_def)
    from rest show ?thesis
    proof
      assume "length (list_of h s) = Suc i \<and> out' = [] \<and> t = after_round h i v u"
      with here bw out v(1,2) left True show ?thesis by auto
    next
      assume r: "update_loop n beh h inst diff (next_index i v) (after_round h i v u) = Some (Inr (out', t))"
      from loop_passed [OF r here bw Suc.prems(4) gone] out v(1,2) left True show ?thesis by auto
    qed
  next
    case False
    have un: "untouched e h s u" using visit_other [OF u Suc.prems(3,4) False] .
    have more: "e \<in> set (drop (Suc i) (list_of h s))"
      using Suc.prems(7) False i by (simp add: Cons_nth_drop_Suc [symmetric])
    have here: "in_list e h inst 1 (after_round h i v u)" "ev_heap (after_round h i v u) e = Some x"
        "e \<in> set (drop (next_index i v) (list_of h (after_round h i v u)))"
      using w(3) iu(2) False un more new i Suc.prems(5) unfolding w(1,4)
      by (auto simp: untouched_def drop_index_def)
    have "length (list_of h s) \<noteq> Suc i" using more by auto
    then have r: "update_loop n beh h inst diff (next_index i v) (after_round h i v u) = Some (Inr (out', t))"
      using rest by blast
    show ?thesis using Suc.IH [OF r here(1) bw Suc.prems(4) here(2) Suc.prems(6) here(3)] out False by auto
  qed
qed simp

section \<open>A run of updates\<close>

text \<open>Between two updates the program uses the timers, then the holder gets the milliseconds since the last one.\<close>

fun run_updates :: "nat \<Rightarrow> behaviour \<Rightarrow> ptr \<Rightarrow> (ev_op list \<times> u32) list \<Rightarrow> ev_state \<Rightarrow> (ptr list list \<times> ev_state) result option" where
  "run_updates fuel beh h [] s = Some (Inr ([], s))"
| "run_updates fuel beh h ((ops, d) # steps) s =
     (case fold_result run_op ops s of
        Inl err \<Rightarrow> Some (Inl err)
      | Inr s \<Rightarrow>
          (case update fuel beh h d s of
             None \<Rightarrow> None
           | Some (Inl err) \<Rightarrow> Some (Inl err)
           | Some (Inr (out, s)) \<Rightarrow>
               map_option (\<lambda>r. bind_result r (\<lambda>(outs, s). Inr (out # outs, s))) (run_updates fuel beh h steps s)))"

lemma run_updates_step:
  assumes "run_updates fuel beh h ((ops, d) # steps) s = Some r" and "ev_ok s" and "in_list e h inst c s"
    and "belongs ob k e s" and "list_all (spares ob k) ops"
  obtains s1 out s2 r' where "untouched e h s s1" and "ev_ok s1" and "in_list e h inst c s1" and "belongs ob k e s1"
    and "update_loop fuel beh h inst d 0 s1 = Some (Inr (out, s2))" and "ev_ok s2"
    and "run_updates fuel beh h steps s2 = Some r'" and "r = bind_result r' (\<lambda>(outs, s). Inr (out # outs, s))"
proof -
  obtain s1 where s1: "fold_result run_op ops s = Inr s1" "ev_ok s1"
    using fold_result_safe [of run_op, OF safe_run_op] safeD assms(2) by metis
  have un: "untouched e h s s1" using untouched_ops [OF s1(1) assms(4,5)] .
  then have ks: "keeps_place e h s s1" by (simp add: untouched_def)
  note in1 = in_list_keeps(1) [OF ks assms(3)] and b1 = belongs_keeps [OF assms(4) ks]
  obtain y where y: "om_find (ev_holder s1) h = Some y" "eh_inst y = inst" using in1 unfolding in_list_def by blast
  have up: "update fuel beh h d s1 = update_loop fuel beh h inst d 0 s1" by (simp add: update_def y)
  show thesis
  proof (cases "update_loop fuel beh h inst d 0 s1")
    case None
    with assms(1) s1(1) up show thesis by simp
  next
    case (Some q)
    obtain out s2 where q: "q = Inr (out, s2)" "ev_ok s2" using update_loop_ok [OF s1(2) y(1) Some] by blast
    with assms(1) s1(1) up Some obtain r' where "run_updates fuel beh h steps s2 = Some r'"
        "r = bind_result r' (\<lambda>(outs, s). Inr (out # outs, s))"
      by auto
    with that [OF un s1(2) in1 b1 _ q(2)] Some q(1) show thesis by blast
  qed
qed

lemma run_gone:
  "run_updates fuel beh h steps s = Some r \<Longrightarrow> ev_ok s \<Longrightarrow> in_list e h inst 0 s \<Longrightarrow> belongs ob k e s \<Longrightarrow> sparing ob k beh
   \<Longrightarrow> \<forall>(ops, d)\<in>set steps. list_all (spares ob k) ops
   \<Longrightarrow> \<exists>outs t. r = Inr (outs, t) \<and> length outs = length steps \<and> (\<forall>i < length steps. e \<notin> set (outs ! i))"
proof (induction steps arbitrary: s r)
  case (Cons step steps)
  obtain ops d where sd: "step = (ops, d)" by (cases step)
  have ops: "list_all (spares ob k) ops" using Cons.prems(6) sd by auto
  obtain s1 out s2 r' where s1: "in_list e h inst 0 s1" "belongs ob k e s1"
      "update_loop fuel beh h inst d 0 s1 = Some (Inr (out, s2))" "ev_ok s2"
      "run_updates fuel beh h steps s2 = Some r'" "r = bind_result r' (\<lambda>(outs, s). Inr (out # outs, s))"
    by (rule run_updates_step [OF Cons.prems(1) [unfolded sd] Cons.prems(2-4) ops]) blast
  have "e \<notin> set (drop 0 (list_of h s1))" using s1(1) by (auto simp: in_list_def list_of_def count_list_0_iff)
  from loop_passed [OF s1(3,1,2) Cons.prems(5) this]
  have l: "e \<notin> set out" "in_list e h inst 0 s2" "belongs ob k e s2" by blast+
  obtain outs t where "r' = Inr (outs, t)" "length outs = length steps" "\<forall>i < length steps. e \<notin> set (outs ! i)"
    using Cons.IH [OF s1(5,4) l(2,3) Cons.prems(5)] Cons.prems(6) by auto
  with s1(6) l(1) show ?case by (auto simp: nth_Cons split: nat.split)
qed simp

text \<open>Called in the first update by which its time has been handed out, and in no other.\<close>

definition called_once :: "ptr \<Rightarrow> u32 \<Rightarrow> u32 list \<Rightarrow> ptr list list \<Rightarrow> bool" where
  "called_once e left ds outs \<longleftrightarrow> length outs = length ds
     \<and> (\<forall>i < length ds. e \<in> set (outs ! i) \<longleftrightarrow>
          unat left \<le> sum_list (map unat (take (Suc i) ds)) \<and> (0 < i \<longrightarrow> sum_list (map unat (take i ds)) < unat left))"

lemma called_now:
  assumes "e \<in> set out" and "left \<le> d" and "length outs = length ds" and "\<forall>i < length ds. e \<notin> set (outs ! i)"
  shows "called_once e left (d # ds) (out # outs)"
  using assms by (auto simp: called_once_def word_le_nat_alt nth_Cons split: nat.split)

lemma called_later:
  assumes "e \<notin> set out" and "\<not> left \<le> d" and "called_once e (left - d) ds outs"
  shows "called_once e left (d # ds) (out # outs)"
proof -
  have time: "unat (left - d) = unat left - unat d" "unat d < unat left"
    using assms(2) unat_sub [of d left] by (auto simp: word_le_nat_alt)
  have "e \<in> set ((out # outs) ! i) \<longleftrightarrow>
      unat left \<le> sum_list (map unat (take (Suc i) (d # ds))) \<and> (0 < i \<longrightarrow> sum_list (map unat (take i (d # ds))) < unat left)"
    if i: "i < length (d # ds)" for i
  proof (cases i)
    case 0
    then show ?thesis using assms(1) time(2) by simp
  next
    case (Suc j)
    then show ?thesis using i assms(3) time unfolding called_once_def by (cases "j = 0") auto
  qed
  with assms(3) show ?thesis by (simp add: called_once_def)
qed

lemma run_once:
  "run_updates fuel beh h steps s = Some r \<Longrightarrow> ev_ok s \<Longrightarrow> in_list e h inst 1 s \<Longrightarrow> belongs ob k e s \<Longrightarrow> sparing ob k beh
   \<Longrightarrow> \<forall>(ops, d)\<in>set steps. list_all (spares ob k) ops \<Longrightarrow> ev_heap s e = Some x \<Longrightarrow> one_shot inst x
   \<Longrightarrow> \<exists>outs t. r = Inr (outs, t) \<and> called_once e (te_curr x) (map snd steps) outs"
proof (induction steps arbitrary: s r x)
  case (Cons step steps)
  obtain ops d where sd: "step = (ops, d)" by (cases step)
  have ops: "list_all (spares ob k) ops" "\<forall>(ops, d)\<in>set steps. list_all (spares ob k) ops"
    using Cons.prems(6) sd by auto
  obtain s1 out s2 r' where s1: "untouched e h s s1" "in_list e h inst 1 s1" "belongs ob k e s1"
      "update_loop fuel beh h inst d 0 s1 = Some (Inr (out, s2))" "ev_ok s2"
      "run_updates fuel beh h steps s2 = Some r'" "r = bind_result r' (\<lambda>(outs, s). Inr (out # outs, s))"
    by (rule run_updates_step [OF Cons.prems(1) [unfolded sd] Cons.prems(2-4) ops(1)]) blast
  have x: "ev_heap s1 e = Some x" using s1(1) Cons.prems(7) by (simp add: untouched_def)
  have "e \<in> set (drop 0 (list_of h s1))"
    using s1(2) count_zero unfolding in_list_def list_of_def by fastforce
  note l = loop_reaches [OF s1(4,2,3) Cons.prems(5) x Cons.prems(8) this]
  show ?case
  proof (cases "te_curr x \<le> d")
    case True
    then have "e \<in> set out" "in_list e h inst 0 s2" "belongs ob k e s2" using l by simp_all
    moreover from this obtain outs t where "r' = Inr (outs, t)" "length outs = length steps" "\<forall>i < length steps. e \<notin> set (outs ! i)"
      using run_gone [OF s1(6,5) _ _ Cons.prems(5) ops(2)] by blast
    ultimately show ?thesis using called_now [OF _ True, of e out outs "map snd steps"] s1(7) sd by auto
  next
    case False
    then have m: "e \<notin> set out" "in_list e h inst 1 s2" "belongs ob k e s2" "ev_heap s2 e = Some (x\<lparr>te_curr := te_curr x - d\<rparr>)"
      using l by simp_all
    have "one_shot inst (x\<lparr>te_curr := te_curr x - d\<rparr>)" using one_shot_later [OF Cons.prems(8)] .
    from Cons.IH [OF s1(6,5) m(2,3) Cons.prems(5) ops(2) m(4) this]
    obtain outs t where "r' = Inr (outs, t)" "called_once e (te_curr x - d) (map snd steps) outs" by auto
    with called_later [OF m(1) False] s1(7) sd show ?thesis by auto
  qed
qed (auto simp: called_once_def)

text \<open>The table \<open>shot_timer\<close> of \<^verbatim>\<open>Event\<close> used further: the timer's own callback removes and adds
  timers of its object, and between the updates a second timer of the same object and type is added.\<close>

definition busy :: behaviour where
  "busy cb s = [Op_Remove 5 9, Op_Add 5 (Some 1) 8 500 1 0]"

definition busy_steps :: "(ev_op list \<times> u32) list" where
  "busy_steps = [([], 60), ([Op_Both 6 7 10, Op_Add 5 (Some 2) 7 1000 3 0], 60), ([], 60)]"

lemma busy_runs: "(case run_updates 9 busy 1 busy_steps shot_timer of Some (Inr (outs, t)) \<Rightarrow> outs | _ \<Rightarrow> []) = [[], [1], []]"
  by code_simp

lemma count_distinct: "distinct es \<Longrightarrow> e \<in> set es \<Longrightarrow> count_list es e = 1"
  by (induction es) auto

text \<open>C32: A timer fires on time and once, if nobody removes or changes it. Let the program use the timers between the
  updates, and let the callbacks use them during an update, in any way except removing, or changing the times
  of, the timers of this object with this type; they may add timers, also such ones. Then whenever a run of updates comes
  to an end it has had no fault, and a live one-shot timer with \<open>t\<close> milliseconds left has been called in exactly the first
  update by which \<open>t\<close> milliseconds have been handed to the holder in total, and in no other. If nobody uses
  the timers at all the run does come to an end.\<close>

theorem timer_fires_on_time:
  assumes "ev_ok s" and "om_find (ev_holder s) h = Some y" and "distinct (eh_events y)" and "e \<in> set (eh_events y)"
    and "ev_heap s e = Some x" and "one_shot (eh_inst y) x" and "belongs ob k e s"
    and "\<forall>cb s. list_all (spares ob k) (beh cb s)" and "\<forall>(ops, d)\<in>set steps. list_all (spares ob k) ops"
  shows "(\<forall>fuel r. run_updates fuel beh h steps s = Some r
           \<longrightarrow> (\<exists>outs t. r = Inr (outs, t) \<and> called_once e (te_curr x) (map snd steps) outs))
    \<and> (\<exists>outs t. updates ds h s = Some (Inr (outs, t)) \<and> called_once e (te_curr x) ds outs)"
proof
  have "in_list e h (eh_inst y) 1 s"
    using assms(2) count_distinct [OF assms(3,4)] by (simp add: in_list_def)
  then show "\<forall>fuel r. run_updates fuel beh h steps s = Some r
      \<longrightarrow> (\<exists>outs t. r = Inr (outs, t) \<and> called_once e (te_curr x) (map snd steps) outs)"
    using run_once [OF _ assms(1) _ assms(7-9,5,6)] by blast
  show "\<exists>outs t. updates ds h s = Some (Inr (outs, t)) \<and> called_once e (te_curr x) ds outs"
    using updates_one_shot [OF assms(1-6), of ds] unfolding called_once_def by blast
qed

lemma timer_fires_on_time_witness:
  "(\<exists>outs t. run_updates 9 busy 1 busy_steps shot_timer = Some (Inr (outs, t)) \<and> called_once 1 100 [60, 60, 60] outs)
   \<and> (\<exists>outs t. updates [60, 60, 60] 1 shot_timer = Some (Inr (outs, t)) \<and> called_once 1 100 [60, 60, 60] outs)"
proof -
  have "belongs 5 7 1 shot_timer"
    by (auto simp: belongs_def shot_timer_def get_obj_def new_event_obj_def)
  moreover have "\<forall>cb s. list_all (spares 5 7) (busy cb s)"
    by (simp add: busy_def EVENT_REMOVAL_FLAG_ALL_def)
  moreover have "\<forall>(ops, d)\<in>set busy_steps. list_all (spares 5 7) ops"
    by (simp add: busy_steps_def)
  moreover have "map snd busy_steps = [60, 60, 60]" by (simp add: busy_steps_def)
  ultimately have all: "(\<forall>fuel r. run_updates fuel busy 1 busy_steps shot_timer = Some r
        \<longrightarrow> (\<exists>outs t. r = Inr (outs, t) \<and> called_once 1 100 [60, 60, 60] outs))
      \<and> (\<exists>outs t. updates [60, 60, 60] 1 shot_timer = Some (Inr (outs, t)) \<and> called_once 1 100 [60, 60, 60] outs)"
    using timer_fires_on_time [OF shot_timer_ok(1-6), of 5 7 busy busy_steps "[60, 60, 60]"] shot_timer_ok(7) by simp
  obtain r where "run_updates 9 busy 1 busy_steps shot_timer = Some r"
    using busy_runs by (cases "run_updates 9 busy 1 busy_steps shot_timer") simp_all
  with all show ?thesis by blast
qed

end
