(* ===== verification/Md5.thy ===== *)
theory Md5
  imports Prelude
begin

text \<open>
  The message digest of \<^verbatim>\<open>common/md5.cpp\<close>: the block transformation, the buffering of input
  that arrives in pieces, the finalisation, and the hexadecimal text. The reference definition is the one
  of RFC 1321: pad the whole message, transform its blocks one after the other.
\<close>

section \<open>The block transformation\<close>

definition md5_F :: "u32 \<Rightarrow> u32 \<Rightarrow> u32 \<Rightarrow> u32" where
  "md5_F x y z = (x AND y) OR (NOT x AND z)"

definition md5_G :: "u32 \<Rightarrow> u32 \<Rightarrow> u32 \<Rightarrow> u32" where
  "md5_G x y z = (x AND z) OR (y AND NOT z)"

definition md5_H :: "u32 \<Rightarrow> u32 \<Rightarrow> u32 \<Rightarrow> u32" where
  "md5_H x y z = x XOR y XOR z"

definition md5_I :: "u32 \<Rightarrow> u32 \<Rightarrow> u32 \<Rightarrow> u32" where
  "md5_I x y z = y XOR (x OR NOT z)"

definition ROTATE_LEFT :: "u32 \<Rightarrow> nat \<Rightarrow> u32" where
  "ROTATE_LEFT x n = push_bit n x OR drop_bit (32 - n) x"

datatype md5_round = RF | RG | RH | RI

fun md5_fun :: "md5_round \<Rightarrow> u32 \<Rightarrow> u32 \<Rightarrow> u32 \<Rightarrow> u32" where
  "md5_fun RF = md5_F"
| "md5_fun RG = md5_G"
| "md5_fun RH = md5_H"
| "md5_fun RI = md5_I"

type_synonym md5_state = "u32 \<times> u32 \<times> u32 \<times> u32"

text \<open>One of the macros \<open>FF\<close>, \<open>GG\<close>, \<open>HH\<close>, \<open>II\<close>; the next one names the registers \<open>(d, a, b, c)\<close>.\<close>

fun md5_step :: "u32 list \<Rightarrow> md5_round \<times> nat \<times> nat \<times> u32 \<Rightarrow> md5_state \<Rightarrow> md5_state" where
  "md5_step x (r, k, s, ac) (a, b, c, d) =
     (d, ROTATE_LEFT (a + (md5_fun r b c d + x ! k + ac)) s + b, b, c)"

definition md5_steps :: "(md5_round \<times> nat \<times> nat \<times> u32) list" where
  "md5_steps = [
     (RF, 0, 7, 0xd76aa478), (RF, 1, 12, 0xe8c7b756), (RF, 2, 17, 0x242070db), (RF, 3, 22, 0xc1bdceee),
     (RF, 4, 7, 0xf57c0faf), (RF, 5, 12, 0x4787c62a), (RF, 6, 17, 0xa8304613), (RF, 7, 22, 0xfd469501),
     (RF, 8, 7, 0x698098d8), (RF, 9, 12, 0x8b44f7af), (RF, 10, 17, 0xffff5bb1), (RF, 11, 22, 0x895cd7be),
     (RF, 12, 7, 0x6b901122), (RF, 13, 12, 0xfd987193), (RF, 14, 17, 0xa679438e), (RF, 15, 22, 0x49b40821),
     (RG, 1, 5, 0xf61e2562), (RG, 6, 9, 0xc040b340), (RG, 11, 14, 0x265e5a51), (RG, 0, 20, 0xe9b6c7aa),
     (RG, 5, 5, 0xd62f105d), (RG, 10, 9, 0x2441453), (RG, 15, 14, 0xd8a1e681), (RG, 4, 20, 0xe7d3fbc8),
     (RG, 9, 5, 0x21e1cde6), (RG, 14, 9, 0xc33707d6), (RG, 3, 14, 0xf4d50d87), (RG, 8, 20, 0x455a14ed),
     (RG, 13, 5, 0xa9e3e905), (RG, 2, 9, 0xfcefa3f8), (RG, 7, 14, 0x676f02d9), (RG, 12, 20, 0x8d2a4c8a),
     (RH, 5, 4, 0xfffa3942), (RH, 8, 11, 0x8771f681), (RH, 11, 16, 0x6d9d6122), (RH, 14, 23, 0xfde5380c),
     (RH, 1, 4, 0xa4beea44), (RH, 4, 11, 0x4bdecfa9), (RH, 7, 16, 0xf6bb4b60), (RH, 10, 23, 0xbebfbc70),
     (RH, 13, 4, 0x289b7ec6), (RH, 0, 11, 0xeaa127fa), (RH, 3, 16, 0xd4ef3085), (RH, 6, 23, 0x4881d05),
     (RH, 9, 4, 0xd9d4d039), (RH, 12, 11, 0xe6db99e5), (RH, 15, 16, 0x1fa27cf8), (RH, 2, 23, 0xc4ac5665),
     (RI, 0, 6, 0xf4292244), (RI, 7, 10, 0x432aff97), (RI, 14, 15, 0xab9423a7), (RI, 5, 21, 0xfc93a039),
     (RI, 12, 6, 0x655b59c3), (RI, 3, 10, 0x8f0ccc92), (RI, 10, 15, 0xffeff47d), (RI, 1, 21, 0x85845dd1),
     (RI, 8, 6, 0x6fa87e4f), (RI, 15, 10, 0xfe2ce6e0), (RI, 6, 15, 0xa3014314), (RI, 13, 21, 0x4e0811a1),
     (RI, 4, 6, 0xf7537e82), (RI, 11, 10, 0xbd3af235), (RI, 2, 15, 0x2ad7d2bb), (RI, 9, 21, 0xeb86d391)]"

text \<open>\<open>md5::decode\<close> and \<open>md5::encode\<close>.\<close>

fun md5_decode :: "u8 list \<Rightarrow> u32 list" where
  "md5_decode (b0 # b1 # b2 # b3 # bs) =
     (ucast b0 OR push_bit 8 (ucast b1) OR push_bit 16 (ucast b2) OR push_bit 24 (ucast b3)) # md5_decode bs"
| "md5_decode _ = []"

fun md5_encode :: "u32 list \<Rightarrow> u8 list" where
  "md5_encode [] = []"
| "md5_encode (w # ws) =
     ucast (w AND 0xff) # ucast (drop_bit 8 w AND 0xff) # ucast (drop_bit 16 w AND 0xff)
     # ucast (drop_bit 24 w AND 0xff) # md5_encode ws"

fun add_state :: "md5_state \<Rightarrow> md5_state \<Rightarrow> md5_state" where
  "add_state (a, b, c, d) (a', b', c', d') = (a + a', b + b', c + c', d + d')"

definition md5_transform :: "u8 list \<Rightarrow> md5_state \<Rightarrow> md5_state" where
  "md5_transform block st = add_state st (fold (md5_step (md5_decode block)) md5_steps st)"

section \<open>The digest object\<close>

text \<open>\<open>md5_lo\<close> and \<open>md5_hi\<close> are the two halves of \<open>_count\<close>, the number of bits.\<close>

record md5 =
  md5_state :: md5_state
  md5_lo :: u32
  md5_hi :: u32
  md5_buffer :: "u8 list"
  md5_digest :: "u8 list"
  md5_finished :: bool

definition md5_init :: md5_state where
  "md5_init = (0x67452301, 0xefcdab89, 0x98badcfe, 0x10325476)"

definition md5_reset :: "md5 \<Rightarrow> md5" where
  "md5_reset s = s\<lparr>md5_finished := False, md5_lo := 0, md5_hi := 0, md5_state := md5_init\<rparr>"

definition md5_PADDING :: "u8 list" where
  "md5_PADDING = 0x80 # replicate 63 0"

text \<open>The loop over the whole blocks of the input. The position is an \<^verbatim>\<open>unsigned int\<close>, so \<open>i + 63\<close>
  wraps; \<open>None\<close> when the loop does not end in the rounds given or would read beyond the input.\<close>

fun md5_loop :: "nat \<Rightarrow> u8 list \<Rightarrow> u32 \<Rightarrow> md5_state \<Rightarrow> (u32 \<times> md5_state) option" where
  "md5_loop 0 input i st = None"
| "md5_loop (Suc n) input i st =
     (if unat (i + 63) < length input
      then if unat i + 64 \<le> length input
           then md5_loop n input (i + 64) (md5_transform (take 64 (drop (unat i) input)) st)
           else None
      else Some (i, st))"

definition md5_count :: "u8 list \<Rightarrow> md5 \<Rightarrow> md5" where
  "md5_count input s =
     (let bits = push_bit 3 (word_of_nat (length input)) :: u32;
          lo = md5_lo s + bits
      in s\<lparr>md5_lo := lo, md5_hi := (if lo < bits then md5_hi s + 1 else md5_hi s) + drop_bit 29 (word_of_nat (length input))\<rparr>)"

definition put_bytes :: "nat \<Rightarrow> u8 list \<Rightarrow> u8 list \<Rightarrow> u8 list" where
  "put_bytes k bs buf = take k buf @ bs @ drop (k + length bs) buf"

definition md5_update :: "u8 list \<Rightarrow> md5 \<Rightarrow> md5 option" where
  "md5_update input s =
     (let index = unat (drop_bit 3 (md5_lo s) AND 0x3f);
          s = md5_count input (s\<lparr>md5_finished := False\<rparr>);
          partLen = 64 - index
      in if partLen \<le> length input
         then (let buf = put_bytes index (take partLen input) (md5_buffer s)
               in case md5_loop (Suc (length input div 64)) input (word_of_nat partLen) (md5_transform buf (md5_state s)) of
                    None \<Rightarrow> None
                  | Some (i, st) \<Rightarrow> Some (s\<lparr>md5_state := st, md5_buffer := put_bytes 0 (drop (unat i) input) buf\<rparr>))
         else Some (s\<lparr>md5_buffer := put_bytes index input (md5_buffer s)\<rparr>))"

fun state_words :: "md5_state \<Rightarrow> u32 list" where
  "state_words (a, b, c, d) = [a, b, c, d]"

definition md5_final :: "md5 \<Rightarrow> md5 option" where
  "md5_final s =
     (let bits = md5_encode [md5_lo s, md5_hi s];
          index = unat (drop_bit 3 (md5_lo s) AND 0x3f);
          padLen = (if index < 56 then 56 - index else 120 - index)
      in case md5_update (take padLen md5_PADDING) s of
           None \<Rightarrow> None
         | Some u \<Rightarrow>
             (case md5_update bits u of
                None \<Rightarrow> None
              | Some v \<Rightarrow> Some (v\<lparr>md5_digest := md5_encode (state_words (md5_state v)), md5_state := md5_state s,
                                 md5_lo := md5_lo s, md5_hi := md5_hi s\<rparr>)))"

definition md5_result :: "md5 \<Rightarrow> md5 option" where
  "md5_result s = (if md5_finished s then Some s else md5_final (s\<lparr>md5_finished := True\<rparr>))"

definition bytesToHexString :: "u8 list \<Rightarrow> string" where
  "bytesToHexString bs = concat (map (\<lambda>b. [''0123456789abcdef'' ! (unat b div 16), ''0123456789abcdef'' ! (unat b mod 16)]) bs)"

definition md5_tostring :: "md5 \<Rightarrow> (string \<times> md5) option" where
  "md5_tostring s = map_option (\<lambda>s. (bytesToHexString (md5_digest s), s)) (md5_result s)"

text \<open>The constructors: reset, then update with what they are given. The fields that \<open>reset\<close> does not set are junk.\<close>

definition md5_new :: "md5 \<Rightarrow> u8 list \<Rightarrow> md5 option" where
  "md5_new junk input = md5_update input (md5_reset junk)"

text \<open>\<open>ssl::ssl_md5\<close> of \<^verbatim>\<open>common/crypt.cpp\<close>.\<close>

definition ssl_md5 :: "md5 \<Rightarrow> u8 list \<Rightarrow> string option" where
  "ssl_md5 junk input = Option.bind (md5_new junk input) (\<lambda>s. map_option fst (md5_tostring s))"

fun md5_updates :: "u8 list list \<Rightarrow> md5 \<Rightarrow> md5 option" where
  "md5_updates [] s = Some s"
| "md5_updates (c # cs) s = (case md5_update c s of None \<Rightarrow> None | Some s \<Rightarrow> md5_updates cs s)"

section \<open>RFC 1321\<close>

function fold_blocks :: "u8 list \<Rightarrow> md5_state \<Rightarrow> md5_state" where
  "fold_blocks bs st = (if length bs < 64 then st else fold_blocks (drop 64 bs) (md5_transform (take 64 bs) st))"
  by pat_completeness auto
termination by (relation "measure (\<lambda>(bs, _). length bs)") auto

declare fold_blocks.simps [simp del]

definition md5_pad :: "u8 list \<Rightarrow> u8 list" where
  "md5_pad m = m @ 0x80 # replicate ((119 - length m mod 64) mod 64) 0 @ le_bytes 8 (word_of_nat (8 * length m) :: u64)"

definition md5_spec :: "u8 list \<Rightarrow> u8 list" where
  "md5_spec m = md5_encode (state_words (fold_blocks (md5_pad m) md5_init))"


section \<open>Absorbing the message piece by piece\<close>

text \<open>The object has absorbed the message \<open>m\<close>.\<close>

definition absorbed :: "u8 list \<Rightarrow> md5 \<Rightarrow> bool" where
  "absorbed m s \<longleftrightarrow>
     md5_state s = fold_blocks m md5_init
   \<and> md5_lo s = word_of_nat (8 * length m) \<and> md5_hi s = word_of_nat (8 * length m div 2 ^ 32)
   \<and> length (md5_buffer s) = 64
   \<and> take (length m mod 64) (md5_buffer s) = drop (length m - length m mod 64) m"

lemma fold_blocks_short: "length bs < 64 \<Longrightarrow> fold_blocks bs st = st"
  by (simp add: fold_blocks.simps)

lemma fold_blocks_step: "64 \<le> length bs \<Longrightarrow> fold_blocks bs st = fold_blocks (drop 64 bs) (md5_transform (take 64 bs) st)"
  by (subst fold_blocks.simps) simp

lemma fold_blocks_append:
  "length p mod 64 = 0 \<Longrightarrow> fold_blocks (p @ q) st = fold_blocks q (fold_blocks p st)"
proof (induction p st rule: fold_blocks.induct)
  case (1 p st)
  show ?case
  proof (cases "length p < 64")
    case True
    with 1(2) have "p = []" by simp
    then show ?thesis by (simp add: fold_blocks_short)
  next
    case False
    moreover from this 1(2) have "length (drop 64 p) mod 64 = 0"
      by (simp add: le_mod_geq)
    ultimately show ?thesis
      using 1(1) fold_blocks_step [of "p @ q" st] fold_blocks_step [of p st] by simp
  qed
qed

text \<open>Only the whole blocks count.\<close>

lemma fold_blocks_whole: "fold_blocks (take (length m - length m mod 64) m) st = fold_blocks m st"
proof -
  let ?p = "take (length m - length m mod 64) m" and ?q = "drop (length m - length m mod 64) m"
  have "length ?p mod 64 = 0" by (simp add: minus_mod_eq_mult_div)
  then have "fold_blocks (?p @ ?q) st = fold_blocks ?q (fold_blocks ?p st)"
    by (rule fold_blocks_append)
  moreover have "length ?q < 64" by simp
  ultimately show ?thesis by (simp add: fold_blocks_short)
qed

lemma md5_loop_blocks:
  assumes "length input + 64 \<le> 2 ^ 32"
  shows "i \<le> length input \<Longrightarrow> (length input - i) div 64 < n \<Longrightarrow>
    md5_loop n input (word_of_nat i) st
      = Some (word_of_nat (length input - (length input - i) mod 64), fold_blocks (drop i input) st)"
proof (induction n arbitrary: i st)
  case (Suc n)
  have le: "i + 63 < 2 ^ 32" using Suc.prems(1) assms by simp
  then have u: "unat (word_of_nat i + 63 :: u32) = i + 63" "unat (word_of_nat i :: u32) = i"
    by (simp_all add: unat_word_ariths unat_of_nat take_bit_eq_mod)
  show ?case
  proof (cases "i + 63 < length input")
    case True
    let ?d = "length input - i"
    have d: "64 \<le> ?d" "(?d - 64) div 64 = ?d div 64 - 1" "(?d - 64) mod 64 = ?d mod 64"
      using True by (simp_all add: le_div_geq le_mod_geq)
    then have rest: "i + 64 \<le> length input" "(length input - (i + 64)) div 64 < n" "(length input - (i + 64)) mod 64 = ?d mod 64"
      using Suc.prems(2) True by (auto simp: le_div_geq)
    have "fold_blocks (drop i input) st = fold_blocks (drop (i + 64) input) (md5_transform (take 64 (drop i input)) st)"
      using d(1) fold_blocks_step [of "drop i input" st] by (simp add: add.commute)
    moreover have "word_of_nat (i + 64) = (word_of_nat i + 64 :: u32)" by simp
    ultimately show ?thesis
      using True u rest Suc.IH [OF rest(1,2)] by simp
  next
    case False
    then have "length input - i < 64" by simp
    then show ?thesis using False u Suc.prems(1) by (simp add: fold_blocks_short)
  qed
qed simp

lemma count_step:
  fixes L n :: nat
  assumes "n < 2 ^ 32"
  defines "bits \<equiv> push_bit 3 (word_of_nat n) :: u32"
  defines "lo \<equiv> word_of_nat (8 * L) + bits"
  shows "lo = word_of_nat (8 * (L + n))"
    and "(if lo < bits then word_of_nat (8 * L div 2 ^ 32) + 1 else word_of_nat (8 * L div 2 ^ 32)) + drop_bit 29 (word_of_nat n :: u32)
       = word_of_nat (8 * (L + n) div 2 ^ 32)"
proof -
  have bits: "bits = word_of_nat (8 * n)"
    unfolding bits_def by (simp add: push_bit_eq_mult)
  then show lo: "lo = word_of_nat (8 * (L + n))" unfolding lo_def by simp
  let ?a = "8 * L mod 2 ^ 32" and ?b = "8 * n mod 2 ^ 32"
  have u: "unat bits = ?b" "unat lo = (?a + ?b) mod 2 ^ 32"
    unfolding lo bits by (simp_all only: unat_of_nat distrib_left mod_add_eq) simp_all
  have ab: "?a < 2 ^ 32" "?b < 2 ^ 32" by simp_all
  have carry: "(?a + ?b) div 2 ^ 32 = (if lo < bits then 1 else 0)"
  proof (cases "?a + ?b < 2 ^ 32")
    case True
    then show ?thesis using u by (simp add: word_less_nat_alt)
  next
    case False
    then have "(?a + ?b) mod 2 ^ 32 = ?a + ?b - 2 ^ 32" "(?a + ?b) div 2 ^ 32 = 1"
      using ab by (simp_all add: le_mod_geq le_div_geq)
    moreover have "a + b - N < b" if "a < N" "N \<le> a + b" for a b N :: nat using that by linarith
    ultimately show ?thesis using u ab False by (simp add: word_less_nat_alt del: One_nat_def)
  qed
  have high: "drop_bit 29 (word_of_nat n :: u32) = word_of_nat (8 * n div 2 ^ 32)"
  proof -
    have shift: "unat (drop_bit 29 w) = unat w div 2 ^ 29" for w :: u32
      by (simp add: unat_drop_bit_eq) (simp add: drop_bit_eq_div)
    show ?thesis
    proof -
      have n: "n mod 2 ^ 32 = n" using assms(1) by simp
      have "n div 2 ^ 29 \<le> n" by simp
      then have small: "n div 2 ^ 29 mod 2 ^ 32 = n div 2 ^ 29" using assms(1) by (intro mod_less) simp
      have "8 * n div 2 ^ 32 = n div 2 ^ 29" by (simp add: div_mult2_eq [of _ 8 "2 ^ 29", simplified])
      then show ?thesis
        unfolding word_unat_eq_iff shift unat_of_nat by (simp add: n [simplified] small [simplified])
    qed
  qed
  have "8 * (L + n) div 2 ^ 32 = 8 * L div 2 ^ 32 + 8 * n div 2 ^ 32 + (?a + ?b) div 2 ^ 32"
    using div_add1_eq [of "8 * L" "8 * n" "2 ^ 32"] by (simp only: distrib_left)
  then show "(if lo < bits then word_of_nat (8 * L div 2 ^ 32) + 1 else word_of_nat (8 * L div 2 ^ 32)) + drop_bit 29 (word_of_nat n :: u32)
       = word_of_nat (8 * (L + n) div 2 ^ 32)"
    unfolding high carry by simp
qed

lemma index_of_count: "unat (drop_bit 3 (word_of_nat (8 * L) :: u32) AND 0x3f) = L mod 64"
proof -
  have low: "unat (x AND 0x3f) = unat x mod 64" for x :: u32
  proof -
    have "x AND 0x3f = take_bit 6 x" by (simp add: take_bit_eq_mask mask_eq_exp_minus_1)
    then show ?thesis by (simp add: unsigned_take_bit_eq) (simp add: take_bit_eq_mod)
  qed
  have "unat (drop_bit 3 w) = unat w div 8" for w :: u32
    by (simp add: unat_drop_bit_eq) (simp add: drop_bit_eq_div)
  then have "unat (drop_bit 3 (word_of_nat (8 * L) :: u32) AND 0x3f) = 8 * L mod 2 ^ 32 div 8 mod 64"
    unfolding low by (simp only: unat_of_nat) simp
  also have "8 * L mod 2 ^ 32 div 8 = L mod 2 ^ 29"
    using mult_mod_right [of 8 L "2 ^ 29"] by simp
  also have "L mod 2 ^ 29 mod 64 = L mod 64"
    by (rule mod_mod_cancel) simp
  finally show ?thesis .
qed

lemma absorbed_count:
  assumes "absorbed m s" and "length c < 2 ^ 32"
  shows "md5_lo (md5_count c s) = word_of_nat (8 * length (m @ c))"
    and "md5_hi (md5_count c s) = word_of_nat (8 * length (m @ c) div 2 ^ 32)"
proof -
  have lo: "md5_lo s = word_of_nat (8 * length m)" and hi: "md5_hi s = word_of_nat (8 * length m div 2 ^ 32)"
    using assms(1) by (simp_all only: absorbed_def)
  have fields: "md5_lo (md5_count c s) = md5_lo s + push_bit 3 (word_of_nat (length c))"
    "md5_hi (md5_count c s) = (if md5_lo s + push_bit 3 (word_of_nat (length c)) < push_bit 3 (word_of_nat (length c)) then md5_hi s + 1 else md5_hi s)
       + drop_bit 29 (word_of_nat (length c))"
    by (simp_all add: md5_count_def Let_def)
  show "md5_lo (md5_count c s) = word_of_nat (8 * length (m @ c))"
    "md5_hi (md5_count c s) = word_of_nat (8 * length (m @ c) div 2 ^ 32)"
    using count_step [OF assms(2), of "length m"] unfolding fields lo hi length_append
    by simp_all
qed

lemma count_frame [simp]:
  "md5_state (md5_count c s) = md5_state s" "md5_buffer (md5_count c s) = md5_buffer s"
  "md5_digest (md5_count c s) = md5_digest s" "md5_finished (md5_count c s) = md5_finished s"
  by (simp_all add: md5_count_def Let_def)

lemma absorbed_finished: "absorbed m (s\<lparr>md5_finished := b\<rparr>) = absorbed m s"
  by (simp add: absorbed_def)

lemma absorbed_index: "absorbed m s \<Longrightarrow> unat (drop_bit 3 (md5_lo s) AND 0x3f) = length m mod 64"
  using index_of_count [of "length m"] by (simp only: absorbed_def)

lemma update_eq:
  assumes "absorbed m s"
  defines "r \<equiv> length m mod 64"
  shows "md5_update c s =
      (if 64 - r \<le> length c
       then (let buf = put_bytes r (take (64 - r) c) (md5_buffer s)
             in case md5_loop (Suc (length c div 64)) c (word_of_nat (64 - r)) (md5_transform buf (md5_state s)) of
                  None \<Rightarrow> None
                | Some (i, st) \<Rightarrow>
                    Some (md5_count c (s\<lparr>md5_finished := False\<rparr>)\<lparr>md5_state := st, md5_buffer := put_bytes 0 (drop (unat i) c) buf\<rparr>))
       else Some (md5_count c (s\<lparr>md5_finished := False\<rparr>)\<lparr>md5_buffer := put_bytes r c (md5_buffer s)\<rparr>))"
  unfolding md5_update_def Let_def absorbed_index [OF assms(1)] r_def by (simp del: md5_loop.simps split: option.split)

lemma absorbed_update:
  assumes ok: "absorbed m s" and short: "length c + 64 \<le> 2 ^ 32"
  shows "\<exists>t. md5_update c s = Some t \<and> absorbed (m @ c) t \<and> \<not> md5_finished t"
proof -
  define r where "r = length m mod 64"
  let ?n = "length c" and ?L = "length m" and ?B = "md5_buffer s"
  let ?s = "md5_count c (s\<lparr>md5_finished := False\<rparr>)"
  let ?whole = "take (?L - r) m" and ?tail = "drop (?L - r) m"
  have r: "r < 64" "r \<le> ?L" "r mod 64 = r" by (simp_all add: r_def)
  have B: "length ?B = 64" "take r ?B = ?tail" and st: "md5_state s = fold_blocks m md5_init"
    using ok by (simp_all add: absorbed_def r_def)
  have count: "md5_lo ?s = word_of_nat (8 * length (m @ c))" "md5_hi ?s = word_of_nat (8 * length (m @ c) div 2 ^ 32)"
    using absorbed_count [of m "s\<lparr>md5_finished := False\<rparr>" c] ok short by (simp_all add: absorbed_finished)
  have whole: "length ?whole mod 64 = 0" "m = ?whole @ ?tail" "length ?tail = r"
    using r minus_mod_eq_mult_div [of ?L 64] by (simp_all add: r_def [symmetric])
  note upd = update_eq [OF ok, of c, folded r_def]
  show ?thesis
  proof (cases "64 - r \<le> ?n")
    case False
    then have len: "r + ?n < 64" "(?L + ?n) mod 64 = r + ?n"
      using mod_add_left_eq [of ?L 64 ?n] by (simp_all add: r_def [symmetric])
    have "fold_blocks (m @ c) md5_init = fold_blocks ?whole md5_init"
      using fold_blocks_whole [of "m @ c" md5_init] len r by simp
    also have "\<dots> = fold_blocks m md5_init"
      using fold_blocks_whole [of m md5_init] by (simp add: r_def)
    finally have "absorbed (m @ c) (?s\<lparr>md5_buffer := put_bytes r c ?B\<rparr>)"
      using count st B len r by (simp add: absorbed_def put_bytes_def del: of_nat_mult of_nat_add length_append) simp
    with False upd show ?thesis by simp
  next
    case True
    define q where "q = (?n - (64 - r)) mod 64"
    let ?buf = "put_bytes r (take (64 - r) c) ?B"
    have put0: "put_bytes 0 bs b = bs @ drop (length bs) b" for bs b by (simp add: put_bytes_def)
    have buf: "?buf = ?tail @ take (64 - r) c" "length ?buf = 64"
      using True B r by (simp_all add: put_bytes_def)
    have q: "q < 64" "q \<le> ?n - (64 - r)" "q \<le> ?n" by (simp_all add: q_def)
    have "(?L + ?n) mod 64 = (r + ?n) mod 64" by (simp add: r_def mod_add_left_eq)
    also have "\<dots> = (r + ?n - 64) mod 64" using True by (intro le_mod_geq) simp
    also have "r + ?n - 64 = ?n - (64 - r)" using r True by simp
    finally have lq: "(?L + ?n) mod 64 = q" by (simp add: q_def)
    have loop: "md5_loop (Suc (?n div 64)) c (word_of_nat (64 - r)) (md5_transform ?buf (md5_state s))
        = Some (word_of_nat (?n - q), fold_blocks (drop (64 - r) c) (md5_transform ?buf (md5_state s)))"
      unfolding q_def by (rule md5_loop_blocks [OF short True]) (simp add: div_le_mono less_Suc_eq_le)
    have i: "unat (word_of_nat (?n - q) :: u32) = ?n - q" using short by (simp add: unat_of_nat)
    have "fold_blocks ?buf (fold_blocks ?whole md5_init) = md5_transform ?buf (fold_blocks ?whole md5_init)"
      using fold_blocks_step [of ?buf "fold_blocks ?whole md5_init"] buf(2) by (simp add: fold_blocks_short)
    also have "fold_blocks ?whole md5_init = md5_state s"
      using fold_blocks_whole [of m md5_init] st by (simp add: r_def)
    finally have first: "md5_transform ?buf (md5_state s) = fold_blocks (m @ take (64 - r) c) md5_init"
      using fold_blocks_append [OF whole(1), of ?buf md5_init] st buf whole(2) fold_blocks_whole [of m md5_init]
      by (simp add: r_def append_assoc [symmetric] del: append_assoc)
    have "length (m @ take (64 - r) c) mod 64 = 0"
    proof -
      have "length (m @ take (64 - r) c) = (?L - r) + 64" using True r by simp
      moreover have "(?L - r) mod 64 = 0" using whole(1) by simp
      ultimately show ?thesis by (simp only: mod_add_self2)
    qed
    from fold_blocks_append [OF this, of "drop (64 - r) c" md5_init]
    have st': "fold_blocks (drop (64 - r) c) (md5_transform ?buf (md5_state s)) = fold_blocks (m @ c) md5_init"
      unfolding first by simp
    have "absorbed (m @ c) (?s\<lparr>md5_state := fold_blocks (m @ c) md5_init, md5_buffer := put_bytes 0 (drop (?n - q) c) ?buf\<rparr>)"
      using count buf(2) q lq put0 [of "drop (?n - q) c" ?buf]
      by (simp add: absorbed_def del: of_nat_mult of_nat_add length_append) simp
    then show ?thesis
      unfolding upd if_P [OF True] Let_def loop option.case prod.case unfolding i st' by simp
  qed
qed

text \<open>What a short update leaves in the buffer.\<close>

lemma update_buffer:
  assumes ok: "absorbed m s" and "length c < 128 - length m mod 64" and t: "md5_update c s = Some t"
  defines "r \<equiv> length m mod 64"
  shows "md5_buffer t = (if r + length c < 64 then put_bytes r c (md5_buffer s)
      else put_bytes 0 (drop (64 - r) c) (put_bytes r (take (64 - r) c) (md5_buffer s)))"
proof (cases "64 - r \<le> length c")
  case False
  then show ?thesis using t update_eq [OF ok, of c] by (auto simp: r_def)
next
  case True
  have short: "length c + 64 \<le> 2 ^ 32" and rest: "(length c - (64 - r)) mod 64 = length c - (64 - r)"
    using assms(2) True by (simp_all add: r_def)
  have r: "r < 64" by (simp add: r_def)
  have i: "unat (word_of_nat (64 - r) :: u32) = 64 - r"
    by (simp add: unat_of_nat take_bit_eq_mod)
  have loop: "md5_loop (Suc (length c div 64)) c (word_of_nat (64 - r)) st = Some (word_of_nat (64 - r), fold_blocks (drop (64 - r) c) st)" for st
    using md5_loop_blocks [OF short True, of "Suc (length c div 64)" st] True rest r
    by (simp add: div_le_mono less_Suc_eq_le del: md5_loop.simps)
  have "md5_buffer t = put_bytes 0 (drop (64 - r) c) (put_bytes r (take (64 - r) c) (md5_buffer s))"
    using t unfolding update_eq [OF ok, of c, folded r_def] if_P [OF True] Let_def loop option.case prod.case unfolding i
    by auto
  then show ?thesis using True r by auto
qed

lemma encode_length: "md5_encode [word_of_nat n, word_of_nat (n div 2 ^ 32)] = le_bytes 8 (word_of_nat n :: u64)"
proof -
  let ?w = "word_of_nat n :: u64"
  have lo: "(word_of_nat n :: u32) = ucast ?w"
    by (simp add: unsigned_of_nat word_of_nat_eq_iff)
  have "n div 2 ^ 32 mod 2 ^ 32 = n mod 2 ^ 64 div 2 ^ 32 mod 2 ^ 32"
    using drop_bit_take_bit [of 32 64 n] by (simp add: drop_bit_eq_div take_bit_eq_mod)
  have hi: "(word_of_nat (n div 2 ^ 32) :: u32) = ucast (drop_bit 32 ?w)"
  proof -
    have "unat (drop_bit 32 ?w) = n mod 2 ^ 64 div 2 ^ 32"
      unfolding unat_drop_bit_eq unat_of_nat by (simp add: drop_bit_eq_div)
    then show ?thesis
      using \<open>n div 2 ^ 32 mod 2 ^ 32 = _\<close>
      unfolding word_unat_eq_iff unat_of_nat unsigned_ucast_eq take_bit_eq_mod by simp
  qed
  have byte: "(ucast (drop_bit k w AND 0xff) :: u8) = ucast (drop_bit k w)" for k and w :: u32
  proof -
    have "drop_bit k w AND 0xff = take_bit 8 (drop_bit k w)" by (simp add: take_bit_eq_mask mask_eq_exp_minus_1)
    then show ?thesis by (simp add: bit_eq_iff bit_simps)
  qed
  have low: "(ucast (drop_bit k (ucast ?w :: u32)) :: u8) = ucast (drop_bit k ?w)" if "k \<le> 24" for k
    using that by (simp add: bit_eq_iff bit_simps)
  have high: "(ucast (drop_bit k (ucast (drop_bit 32 ?w) :: u32)) :: u8) = ucast (drop_bit (k + 32) ?w)" if "k \<le> 24" for k
    using that by (simp add: bit_eq_iff bit_simps ac_simps)
  have bytes: "le_bytes 8 ?w = map (\<lambda>k. ucast (drop_bit k ?w)) [0, 8, 16, 24, 0 + 32, 8 + 32, 16 + 32, 24 + 32]"
    by (simp add: le_bytes_def upt_rec numeral_eq_Suc)
  have zero: "(ucast (w AND 0xff) :: u8) = ucast w" for w :: u32
    using byte [of 0 w] by simp
  have low0: "(ucast (ucast ?w :: u32) :: u8) = ucast (drop_bit 0 ?w)"
    and high0: "(ucast (ucast (drop_bit 32 ?w) :: u32) :: u8) = ucast (drop_bit (0 + 32) ?w)"
    using low [of 0] high [of 0] by simp_all
  have le: "(8::nat) \<le> 24" "(16::nat) \<le> 24" by simp_all
  show ?thesis
    unfolding bytes lo hi md5_encode.simps byte zero list.map
    by (simp only: low0 low [OF le(1)] low [OF le(2)] low [OF order_refl]
        high0 high [OF le(1)] high [OF le(2)] high [OF order_refl])
qed

text \<open>What the digest object stands for once its digest has been asked for.\<close>

definition after_digest :: "u8 list \<Rightarrow> u8 list" where
  "after_digest m =
     (if length m mod 64 < 56 then m
      else take (length m - length m mod 64) m
        @ take (length m mod 64) (replicate 56 0 @ le_bytes 8 (word_of_nat (8 * length m) :: u64)))"

lemma absorbed_final:
  assumes ok: "absorbed m s"
  shows "\<exists>t. md5_final s = Some t \<and> md5_digest t = md5_spec m \<and> absorbed (after_digest m) t \<and> \<not> md5_finished t"
proof -
  define r where "r = length m mod 64"
  define p where "p = (if r < 56 then 56 - r else 120 - r)"
  let ?pad = "take p md5_PADDING" and ?bits = "le_bytes 8 (word_of_nat (8 * length m) :: u64)"
  have r: "r < 64" by (simp add: r_def)
  then have p: "0 < p" "p \<le> 64" "length ?pad = p" "p < 128 - r" "(length m + p) mod 64 = 56"
    using mod_add_left_eq [of "length m" 64 p] by (auto simp: p_def md5_PADDING_def r_def [symmetric])
  have pad: "?pad = 0x80 # replicate ((119 - r) mod 64) 0"
    using r p(1) by (cases "r < 56") (auto simp: p_def md5_PADDING_def take_Cons' mod_if min_def)
  obtain u where u: "md5_update ?pad s = Some u" "absorbed (m @ ?pad) u" "\<not> md5_finished u"
    using absorbed_update [OF ok, of ?pad] p by auto
  obtain v where v: "md5_update ?bits u = Some v" "absorbed ((m @ ?pad) @ ?bits) v" "\<not> md5_finished v"
    using absorbed_update [OF u(2), of ?bits] by auto
  let ?t = "v\<lparr>md5_digest := md5_encode (state_words (md5_state v)), md5_state := md5_state s, md5_lo := md5_lo s, md5_hi := md5_hi s\<rparr>"
  have final: "md5_final s = Some ?t"
  proof -
    have "md5_encode [md5_lo s, md5_hi s] = ?bits"
      using encode_length [of "8 * length m"] ok by (simp only: absorbed_def)
    then show ?thesis
      unfolding md5_final_def Let_def absorbed_index [OF ok] r_def [symmetric] p_def [symmetric]
      using u(1) v(1) by simp
  qed
  have "(m @ ?pad) @ ?bits = md5_pad m"
    unfolding pad md5_pad_def by (simp add: r_def)
  then have digest: "md5_digest ?t = md5_spec m"
    using v(2) by (simp add: absorbed_def md5_spec_def)
  let ?B = "md5_buffer s"
  have B: "length ?B = 64" "take r ?B = drop (length m - r) m"
    using ok by (simp_all add: absorbed_def r_def)
  have bu: "md5_buffer u = (if r < 56 then put_bytes r ?pad ?B else put_bytes 0 (replicate 56 0) (put_bytes r (take (64 - r) ?pad) ?B))"
  proof -
    have "drop (64 - r) ?pad = replicate 56 0" if "\<not> r < 56"
    proof -
      have "64 - r = Suc (63 - r)" "(119 - r) mod 64 - (63 - r) = 56" using that r by (simp_all add: mod_if)
      then show ?thesis unfolding pad by simp
    qed
    then show ?thesis
      using update_buffer [OF ok _ u(1)] p r by (auto simp: r_def [symmetric] p_def split: if_splits)
  qed
  have bv: "md5_buffer v = put_bytes 0 [] (put_bytes 56 ?bits (md5_buffer u))"
    using update_buffer [OF u(2) _ v(1)] p(3,5) by simp
  have "take r (md5_buffer v) = (if r < 56 then take r ?B else take r (replicate 56 0 @ ?bits))"
    using r B(1) p(3) unfolding bv bu by (auto simp: put_bytes_def p_def)
  moreover have "length (md5_buffer v) = 64" using v(2) by (simp add: absorbed_def)
  moreover have len: "length (after_digest m) = length m"
    using r mod_less_eq_dividend [of "length m" 64] by (simp add: after_digest_def r_def [symmetric])
  moreover have "drop (length m - r) (after_digest m) = (if r < 56 then take r ?B else take r (replicate 56 0 @ ?bits))"
    using B(2) r by (auto simp: after_digest_def r_def [symmetric])
  moreover have "fold_blocks (after_digest m) md5_init = fold_blocks m md5_init"
  proof -
    have "take (length m - r) (after_digest m) = take (length m - r) m"
      by (simp add: after_digest_def r_def [symmetric])
    then show ?thesis
      using fold_blocks_whole [of m md5_init] fold_blocks_whole [of "after_digest m" md5_init] len by (simp add: r_def)
  qed
  ultimately have "absorbed (after_digest m) ?t"
    using ok by (simp add: absorbed_def r_def [symmetric] del: of_nat_mult)
  then show ?thesis using final digest v(3) by simp
qed


section \<open>Properties\<close>

lemma absorbed_reset: "length (md5_buffer s) = 64 \<Longrightarrow> absorbed [] (md5_reset s) \<and> \<not> md5_finished (md5_reset s)"
  by (simp add: absorbed_def md5_reset_def fold_blocks_short)

lemma absorbed_updates:
  "absorbed m s \<Longrightarrow> \<not> md5_finished s \<Longrightarrow> \<forall>c\<in>set cs. length c + 64 \<le> 2 ^ 32 \<Longrightarrow>
   \<exists>t. md5_updates cs s = Some t \<and> absorbed (m @ concat cs) t \<and> \<not> md5_finished t"
proof (induction cs arbitrary: m s)
  case (Cons c cs)
  obtain t where "md5_update c s = Some t" "absorbed (m @ c) t" "\<not> md5_finished t"
    using absorbed_update [OF Cons.prems(1), of c] Cons.prems(3) by auto
  with Cons.IH [of "m @ c" t] Cons.prems(3) show ?case by simp
qed simp

lemma absorbed_result:
  "absorbed m s \<Longrightarrow> \<not> md5_finished s \<Longrightarrow>
   \<exists>t. md5_result s = Some t \<and> md5_digest t = md5_spec m \<and> absorbed (after_digest m) t \<and> \<not> md5_finished t"
  using absorbed_final [of m "s\<lparr>md5_finished := True\<rparr>"] by (simp add: md5_result_def absorbed_finished)

text \<open>C33: The digest does not depend on how the message arrives. Whatever pieces a message is handed over in,
  each up to 4 GB less 64 bytes, and whatever the object was used for before, the updates end and the digest is
  that of RFC 1321 for the whole message.\<close>

theorem md5_chunks:
  assumes "length (md5_buffer s) = 64" and "\<forall>c\<in>set cs. length c + 64 \<le> 2 ^ 32"
  shows "\<exists>t u. md5_updates cs (md5_reset s) = Some t \<and> md5_result t = Some u \<and> md5_digest u = md5_spec (concat cs)"
proof -
  obtain t where t: "md5_updates cs (md5_reset s) = Some t" "absorbed ([] @ concat cs) t" "\<not> md5_finished t"
    using absorbed_updates [OF conjunct1 conjunct2, OF absorbed_reset absorbed_reset, OF assms(1,1,2)] by blast
  with absorbed_result [OF t(2,3)] show ?thesis by auto
qed

definition md5_junk :: md5 where
  "md5_junk = \<lparr>md5_state = (1, 2, 3, 4), md5_lo = 5, md5_hi = 6, md5_buffer = replicate 64 7, md5_digest = replicate 16 8,
     md5_finished = True\<rparr>"

text \<open>The test vector of RFC 1321 for three letters.\<close>

lemma md5_spec_abc: "bytesToHexString (md5_spec (map of_char ''abc'')) = ''900150983cd24fb0d6963f7d28e17f72''"
  by code_simp

lemma md5_chunks_witness:
  "\<exists>t u. md5_updates [map of_char ''a'', [], map of_char ''bc''] (md5_reset md5_junk) = Some t \<and> md5_result t = Some u
     \<and> bytesToHexString (md5_digest u) = ''900150983cd24fb0d6963f7d28e17f72''"
  using md5_chunks [of md5_junk "[map of_char ''a'', [], map of_char ''bc'']"] md5_spec_abc
  by (auto simp: md5_junk_def)

text \<open>A digest is not to be asked for twice. While the message fills less than 56 bytes of its last block,
  asking for the digest leaves the object as it was, so asking again gives the same text; with 56 bytes or
  more, the second answer is the digest of another message, in which these bytes are overwritten by the padding.\<close>

theorem md5_second_digest:
  assumes "absorbed m s" and "\<not> md5_finished s"
  shows "\<exists>t u. md5_tostring s = Some (bytesToHexString (md5_spec m), t)
    \<and> md5_tostring t = Some (bytesToHexString (md5_spec (after_digest m)), u)"
proof -
  obtain t where t: "md5_result s = Some t" "md5_digest t = md5_spec m" "absorbed (after_digest m) t" "\<not> md5_finished t"
    using absorbed_result [OF assms] by blast
  obtain u where "md5_result t = Some u" "md5_digest u = md5_spec (after_digest m)"
    using absorbed_result [OF t(3,4)] by blast
  with t(1,2) show ?thesis by (simp add: md5_tostring_def)
qed

end
