(* ===== verification/Net_Pool.thy ===== *)
theory Net_Pool
  imports Call_Back
begin

text \<open>
  The worker threads of \<^verbatim>\<open>common/task_thread_pool.cpp\<close> and the network threads of
  \<^verbatim>\<open>common/io_service_pool.cpp\<close>. A worker keeps its tasks in the double-buffered queue of
  \<^verbatim>\<open>Call_Back\<close>, so its order of execution is a second instance of that contract.
\<close>

section \<open>task_thread\<close>

type_synonym 'a task_thread = "'a two_queue"

definition new_task_thread :: "'a task_thread" where
  "new_task_thread = two_queue_empty"

definition task_push :: "'a \<Rightarrow> 'a task_thread \<Rightarrow> 'a task_thread" where
  "task_push p t = enqueue p t"

text \<open>The part of the loop of \<open>run\<close> under the mutex; \<open>None\<close> is the way through \<^verbatim>\<open>continue\<close>.\<close>

definition task_turn :: "'a task_thread \<Rightarrow> (nat \<times> 'a task_thread) option" where
  "task_turn t = turn t"

definition task_next :: "nat \<Rightarrow> 'a task_thread \<Rightarrow> ('a \<times> 'a task_thread) option" where
  "task_next i t = dequeue i t"

lemma task_ops: "task_push = enqueue" "task_turn = turn" "task_next = dequeue"
  by (simp_all add: fun_eq_iff task_push_def task_turn_def task_next_def)

interpretation task: double_buffer slots current task_push task_turn task_next
  unfolding task_ops by (rule two_queue_contract)

section \<open>task_thread_pool\<close>

record 'a task_pool =
  tp_threads :: "'a task_thread list"
  tp_count :: nat

definition no_task_pool :: "'a task_pool" where
  "no_task_pool = \<lparr>tp_threads = [], tp_count = 0\<rparr>"

text \<open>The destructor of a thread lets it finish the queue it is working on and joins it; what waits in the
  queues after that is never executed.\<close>

definition pool_shutdown :: "'a task_pool \<Rightarrow> 'a task_pool" where
  "pool_shutdown p = p\<lparr>tp_threads := []\<rparr>"

definition pool_startup :: "nat \<Rightarrow> 'a task_pool \<Rightarrow> 'a task_pool" where
  "pool_startup n p =
     (let p = (if tp_threads p \<noteq> [] then pool_shutdown p else p)
      in p\<lparr>tp_threads := replicate n new_task_thread, tp_count := n\<rparr>)"

text \<open>After \<open>shutdown\<close> the array is gone but the count is not: a push then goes through a null pointer.\<close>

definition pool_push_task :: "int \<Rightarrow> 'a \<Rightarrow> 'a task_pool \<Rightarrow> 'a task_pool result" where
  "pool_push_task i t p =
     (if i < int (tp_count p) \<and> i \<ge> 0
      then if nat i < length (tp_threads p)
           then Inr (p\<lparr>tp_threads := (tp_threads p)[nat i := task_push t (tp_threads p ! nat i)]\<rparr>)
           else Inl Null_Deref
      else Inr p)"

definition waiting :: "'a task_thread \<Rightarrow> 'a list" where
  "waiting t = slots t ! flip (current t) @ slots t ! current t"

lemma push_task_waiting:
  assumes "tp_count p = length (tp_threads p)" and "\<forall>t\<in>set (tp_threads p). length (slots t) = 2 \<and> current t < 2"
  shows "\<exists>q. pool_push_task i t p = Inr q \<and> map waiting (tp_threads q) =
    (if 0 \<le> i \<and> i < int (tp_count p) then (map waiting (tp_threads p))[nat i := waiting (tp_threads p ! nat i) @ [t]]
     else map waiting (tp_threads p))"
proof (cases "0 \<le> i \<and> i < int (tp_count p)")
  case True
  then have i: "nat i < length (tp_threads p)" using assms(1) by linarith
  have "waiting (task_push t x) = waiting x @ [t]" if "length (slots x) = 2" "current x < 2" for x
    using that by (auto simp: waiting_def task_push_def enqueue_def flip_def less_2_cases_iff)
  with i True assms show ?thesis by (simp add: pool_push_task_def map_update)
qed (auto simp: pool_push_task_def)

section \<open>io_service_pool\<close>

text \<open>\<open>next_update_index\<close> is a global variable of the file; it outlives the pool.\<close>

record io_pool =
  io_services :: "ptr set list"
  next_io_service :: nat
  next_update_index :: nat

definition new_io_pool :: "nat \<Rightarrow> nat \<Rightarrow> io_pool result" where
  "new_io_pool n update_index =
     (if n = 0 then Inl (Runtime_Error ''io_service_pool size is 0'')
      else Inr \<lparr>io_services = replicate n {}, next_io_service = 0, next_update_index = update_index\<rparr>)"

definition get_io_service :: "io_pool \<Rightarrow> (nat \<times> io_pool) result" where
  "get_io_service p =
     (if next_io_service p < length (io_services p)
      then let n = next_io_service p + 1
           in Inr (next_io_service p, p\<lparr>next_io_service := (if n = length (io_services p) then 0 else n)\<rparr>)
      else Inl Out_Of_Range)"

definition io_add_session :: "nat \<Rightarrow> ptr \<Rightarrow> io_pool \<Rightarrow> io_pool" where
  "io_add_session i x p = p\<lparr>io_services := (io_services p)[i := insert x (io_services p ! i)]\<rparr>"

definition io_del_session :: "nat \<Rightarrow> ptr \<Rightarrow> io_pool \<Rightarrow> io_pool" where
  "io_del_session i x p = p\<lparr>io_services := (io_services p)[i := io_services p ! i - {x}]\<rparr>"

text \<open>The sessions whose \<open>run\<close> is called (it does nothing in \<open>tcp_session\<close>).\<close>

definition io_update :: "io_pool \<Rightarrow> (ptr set \<times> io_pool) result" where
  "io_update p =
     (if next_update_index p < length (io_services p)
      then let n = next_update_index p + 1
           in Inr (io_services p ! next_update_index p, p\<lparr>next_update_index := (if n \<ge> length (io_services p) then 0 else n)\<rparr>)
      else Inl Out_Of_Range)"

fun get_io_services :: "nat \<Rightarrow> io_pool \<Rightarrow> (nat list \<times> io_pool) result" where
  "get_io_services 0 p = Inr ([], p)"
| "get_io_services (Suc k) p =
     bind_result (get_io_service p) (\<lambda>(i, p). bind_result (get_io_services k p) (\<lambda>(is, p). Inr (i # is, p)))"

lemma get_io_services_turn:
  "next_io_service p < length (io_services p) \<Longrightarrow>
   \<exists>q. get_io_services k p = Inr (map (\<lambda>j. (next_io_service p + j) mod length (io_services p)) [0..<k], q)"
proof (induction k arbitrary: p)
  case (Suc k)
  let ?n = "length (io_services p)"
  obtain q where q: "get_io_service p = Inr (next_io_service p, q)" "io_services q = io_services p"
      "next_io_service q = Suc (next_io_service p) mod ?n"
    using Suc.prems by (auto simp: get_io_service_def Let_def)
  have "next_io_service q < length (io_services q)"
    unfolding q(2,3) using Suc.prems by (intro mod_less_divisor) linarith
  from Suc.IH [OF this] obtain r where
    "get_io_services k q = Inr (map (\<lambda>j. (Suc (next_io_service p) mod ?n + j) mod ?n) [0..<k], r)"
    unfolding q(2,3) by blast
  moreover have "(Suc (next_io_service p) mod ?n + j) mod ?n = (next_io_service p + Suc j) mod ?n" for j
    by (simp add: mod_add_left_eq)
  moreover have "map (\<lambda>j. (next_io_service p + j) mod ?n) [0..<Suc k]
      = next_io_service p # map (\<lambda>j. (next_io_service p + Suc j) mod ?n) [0..<k]"
    using Suc.prems by (simp add: upt_conv_Cons map_Suc_upt [symmetric] del: upt_Suc)
  ultimately show ?case using q(1) by (simp del: upt_Suc)
qed simp

text \<open>Network threads are used in turn. A pool of \<open>n\<close> services, which must not be 0, hands them out as
  0, 1, ..., \<open>n\<close>-1, 0, ... and never leaves its array; the updates go round in the same way only if the global index
  they start from is below \<open>n\<close>: an index left over from a larger pool is used unchecked.\<close>

theorem io_services_in_turn:
  "new_io_pool 0 u = Inl (Runtime_Error ''io_service_pool size is 0'')
   \<and> (\<exists>p. new_io_pool (Suc m) u = Inr p
        \<and> (\<exists>q. get_io_services k p = Inr (map (\<lambda>j. j mod Suc m) [0..<k], q))
        \<and> (io_update p = Inl Out_Of_Range \<longleftrightarrow> m < u))"
proof -
  define p :: io_pool where "p = \<lparr>io_services = replicate (Suc m) {}, next_io_service = 0, next_update_index = u\<rparr>"
  then have p: "new_io_pool (Suc m) u = Inr p" "length (io_services p) = Suc m" "next_io_service p = 0" "next_update_index p = u"
    by (simp_all add: new_io_pool_def)
  with get_io_services_turn [of p k] show ?thesis
    by (auto simp: io_update_def Let_def new_io_pool_def)
qed

end
