(* ===== verification/Tcp_Server.thy ===== *)
theory Tcp_Server
  imports Tcp_Session Net_Pool "HOL-Library.Multiset"
begin

text \<open>
  \<^verbatim>\<open>common/tcpserver.cpp\<close>: the pool of connection objects, accepting, the list of banned
  addresses, and what the server does with the effects of its connections (\<^verbatim>\<open>Tcp_Session\<close>). Everything that
  can happen between two points where a thread holds no lock is one step, in any order: the main thread's
  accept loop, callbacks and messages, posted jobs of the network threads, completed reads and writes with
  any result, and the worker threads.
\<close>

section \<open>State\<close>

datatype io_job = Job_Accept ptr | Job_Close ptr | Job_Write ptr

datatype srv_cb = On_Accept ptr | On_Close ptr

text \<open>
  \<open>srv_accepting\<close>, \<open>srv_reads\<close>, \<open>srv_writes\<close> and \<open>srv_jobs\<close> are the operations outstanding in the network
  library. The callback manager and the receive queue are lists: what \<^verbatim>\<open>Call_Back\<close> shows of the two
  queues they consist of.
\<close>

record tcp_server =
  srv_father :: father
  srv_sess :: "ptr \<Rightarrow> tcp_session"
  srv_pool :: "ptr list"
  srv_accepting_count :: u32
  srv_accepting :: "ptr list"
  srv_jobs :: "io_job list"
  srv_reads :: "ptr list"
  srv_writes :: "(ptr \<times> nat) list"
  srv_cbs :: "srv_cb list"
  srv_msgs :: "(ptr \<times> message_t) list"
  srv_handled :: "(ptr \<times> message_t) list"
  srv_tasks :: "(ptr \<times> u8 list) task_pool"
  srv_io_sessions :: "ptr set"
  srv_ban :: "(u32, u32 \<times> ban_reason_t) omap"
  srv_time :: u32
  srv_thread_index :: nat

section \<open>Banned addresses\<close>

definition is_ban_ip :: "u32 \<Rightarrow> tcp_server \<Rightarrow> bool \<times> tcp_server" where
  "is_ban_ip addr s =
     (case om_find (srv_ban s) addr of
        Some (until, _) \<Rightarrow>
          if until < srv_time s then (False, s\<lparr>srv_ban := om_erase addr (srv_ban s)\<rparr>) else (True, s)
      | None \<Rightarrow> (False, s))"

definition add_ban_ip :: "u32 \<Rightarrow> u32 \<Rightarrow> ban_reason_t \<Rightarrow> tcp_server \<Rightarrow> tcp_server" where
  "add_ban_ip addr sec br s =
     (case om_find (srv_ban s) addr of
        Some (until, _) \<Rightarrow>
          if until < sec then s\<lparr>srv_ban := om_set addr (sec, br) (srv_ban s)\<rparr> else s
      | None \<Rightarrow> s\<lparr>srv_ban := om_set addr (srv_time s + sec, br) (srv_ban s)\<rparr>)"

definition remove_ban_ip :: "u32 \<Rightarrow> tcp_server \<Rightarrow> tcp_server" where
  "remove_ban_ip addr s = s\<lparr>srv_ban := om_erase addr (srv_ban s)\<rparr>"

section \<open>Connection objects\<close>

definition srv_set :: "ptr \<Rightarrow> tcp_session \<Rightarrow> tcp_server \<Rightarrow> tcp_server" where
  "srv_set p x s = s\<lparr>srv_sess := (srv_sess s)(p := x)\<rparr>"

definition free_session :: "ptr \<Rightarrow> tcp_server \<Rightarrow> tcp_server" where
  "free_session p s =
     (let s = srv_set p ((reset_session (srv_sess s p))\<lparr>m_isvalid := False\<rparr>) s
      in s\<lparr>srv_pool := srv_pool s @ [p]\<rparr>)"

definition generate_thread_index :: "tcp_server \<Rightarrow> nat \<times> tcp_server" where
  "generate_thread_index s =
     (let i = srv_thread_index s; n = task_thread_count (srv_father s)
      in (if i \<ge> n then 0 else i, s\<lparr>srv_thread_index := (if i + 1 \<ge> n then 0 else i + 1)\<rparr>))"

text \<open>What the server does when a connection calls it or starts an operation.\<close>

fun effect_on :: "ptr \<Rightarrow> effect \<Rightarrow> tcp_server \<Rightarrow> tcp_server result" where
  "effect_on p (Push_Message m) s = Inr (s\<lparr>srv_msgs := srv_msgs s @ [(p, m)]\<rparr>)"
| "effect_on p (Add_Ban_Ip addr sec br) s = Inr (add_ban_ip addr sec br s)"
| "effect_on p Post_Handle_Close s = Inr (s\<lparr>srv_jobs := srv_jobs s @ [Job_Close p]\<rparr>)"
| "effect_on p Post_Write s = Inr (s\<lparr>srv_jobs := srv_jobs s @ [Job_Write p]\<rparr>)"
| "effect_on p Async_Read s = Inr (s\<lparr>srv_reads := srv_reads s @ [p]\<rparr>)"
| "effect_on p (Async_Write bs) s = Inr (s\<lparr>srv_writes := srv_writes s @ [(p, length bs)]\<rparr>)"
| "effect_on p Socket_Shutdown s = Inr s"
| "effect_on p Add_Cb_On_Accept s = Inr (s\<lparr>srv_cbs := srv_cbs s @ [On_Accept p]\<rparr>)"
| "effect_on p Add_Cb_On_Close s = Inr (s\<lparr>srv_cbs := srv_cbs s @ [On_Close p]\<rparr>)"
| "effect_on p Add_Session s = Inr (s\<lparr>srv_io_sessions := insert p (srv_io_sessions s)\<rparr>)"
| "effect_on p Free_Session s = Inr (free_session p s)"
| "effect_on p Del_Session s = Inr (s\<lparr>srv_io_sessions := srv_io_sessions s - {p}\<rparr>)"
| "effect_on p (Push_Task d ti) s =
     bind_result (pool_push_task (int ti) (p, d) (srv_tasks s)) (\<lambda>t. Inr (s\<lparr>srv_tasks := t\<rparr>))"
| "effect_on p Write_Close_Log s = Inr s"

fun effects_on :: "ptr \<Rightarrow> effect list \<Rightarrow> tcp_server \<Rightarrow> tcp_server result" where
  "effects_on p [] s = Inr s"
| "effects_on p (e # es) s = bind_result (effect_on p e s) (effects_on p es)"

text \<open>A call of an operation of connection \<open>p\<close>: its effects are carried out in order.\<close>

definition on_session :: "ptr \<Rightarrow> tcp_session \<Rightarrow> tcp_server \<Rightarrow> tcp_server result" where
  "on_session p x s = effects_on p (effects x) (srv_set p (x\<lparr>effects := []\<rparr>) s)"

section \<open>Creating and accepting\<close>

definition new_server :: "father \<Rightarrow> u32 \<Rightarrow> tcp_server" where
  "new_server f now =
     \<lparr>srv_father = f\<lparr>task_thread_count := 0\<rparr>, srv_sess = \<lambda>_. new_session, srv_pool = [], srv_accepting_count = 0, srv_accepting = [],
      srv_jobs = [], srv_reads = [], srv_writes = [], srv_cbs = [], srv_msgs = [], srv_handled = [], srv_tasks = no_task_pool,
      srv_io_sessions = {}, srv_ban = [], srv_time = now, srv_thread_index = 0\<rparr>"

text \<open>\<open>create\<close> with a working acceptor; \<open>ps\<close> are the addresses of the connections it creates, one for each of
  the \<open>poolcount\<close>, or 20 when that is 0.\<close>

definition pool_size :: "nat \<Rightarrow> nat" where
  "pool_size poolcount = (if poolcount = 0 then 20 else poolcount)"

definition create_server :: "ptr list \<Rightarrow> nat \<Rightarrow> tcp_server \<Rightarrow> tcp_server" where
  "create_server ps thread_count s =
     fold free_session ps
       (s\<lparr>srv_tasks := pool_startup thread_count (srv_tasks s), srv_father := (srv_father s)\<lparr>task_thread_count := thread_count\<rparr>\<rparr>)"

definition stop_server :: "tcp_server \<Rightarrow> tcp_server" where
  "stop_server s = s\<lparr>srv_pool := [], srv_tasks := pool_shutdown (srv_tasks s)\<rparr>"

text \<open>The loop at the head of \<open>_real_run\<close>; \<open>limit\<close> is \<^verbatim>\<open>s_io_once_listen_session_count\<close>.\<close>

function accept_loop :: "u32 \<Rightarrow> tcp_server \<Rightarrow> tcp_server" where
  "accept_loop limit s =
     (if srv_accepting_count s < limit
      then case srv_pool s of
             [] \<Rightarrow> s
           | p # ps \<Rightarrow>
               accept_loop limit
                 ((srv_set p ((srv_sess s p)\<lparr>m_isvalid := True\<rparr>) s)
                    \<lparr>srv_accepting := srv_accepting s @ [p], srv_pool := ps, srv_accepting_count := srv_accepting_count s + 1\<rparr>)
      else s)"
  by pat_completeness auto
termination by (relation "measure (\<lambda>(_, s). length (srv_pool s))") (auto simp: srv_set_def)

declare accept_loop.simps [simp del]

text \<open>\<open>tcp_server::handle_accept\<close>; \<open>addr\<close> is the address the socket reports, 0 when it has none.\<close>

definition remote_address :: "u32 \<Rightarrow> tcp_session \<Rightarrow> u32" where
  "remote_address addr x = (if m_remote_ip_ui x \<noteq> 0 then m_remote_ip_ui x else addr)"

definition srv_handle_accept :: "ptr \<Rightarrow> bool \<Rightarrow> u32 \<Rightarrow> tcp_server \<Rightarrow> tcp_server result" where
  "srv_handle_accept p error addr s =
     (let s = s\<lparr>srv_accepting_count := srv_accepting_count s - 1\<rparr>;
          (banned, s) = is_ban_ip (remote_address addr (srv_sess s p)) s
      in if banned \<or> error
         then bind_result (on_session p (handle_close (srv_sess s p)) s) (\<lambda>s. Inr (free_session p s))
         else Inr (s\<lparr>srv_jobs := srv_jobs s @ [Job_Accept p]\<rparr>))"

section \<open>Steps\<close>

text \<open>A posted job. An accepted connection is given its thread and its addresses.\<close>

fun run_job :: "string \<Rightarrow> u32 \<Rightarrow> io_job \<Rightarrow> tcp_server \<Rightarrow> tcp_server result" where
  "run_job name addr (Job_Accept p) s =
     (let (i, s) = generate_thread_index s in on_session p (handle_accept (srv_father s) i name addr (srv_sess s p)) s)"
| "run_job name addr (Job_Close p) s = on_session p (handle_close (srv_sess s p)) s"
| "run_job name addr (Job_Write p) s = on_session p (write_message 0 (srv_sess s p)) s"

fun run_cb :: "srv_cb \<Rightarrow> tcp_server \<Rightarrow> tcp_server result" where
  "run_cb (On_Accept p) s = Inr s"
| "run_cb (On_Close p) s = on_session p (on_close (srv_sess s p)) s"

text \<open>A message is given to its connection if that is valid and connected, and dropped otherwise.\<close>

definition handle_msg :: "ptr \<times> message_t \<Rightarrow> tcp_server \<Rightarrow> tcp_server" where
  "handle_msg pm s =
     (if m_isvalid (srv_sess s (fst pm)) \<and> m_isconnected (srv_sess s (fst pm)) then s\<lparr>srv_handled := srv_handled s @ [pm]\<rparr> else s)"

datatype srv_step =
    Clock u32
  | Accept_Loop u32
  | Accepted nat bool u32
  | Run_Job nat string u32
  | Read_Done nat "u8 list option"
  | Write_Done nat bool
  | Run_Cb
  | Handle_Msg
  | Send ptr "u8 list option" u32
  | Close ptr
  | Task_Turn nat
  | Task_Run nat nat

definition drop_nth :: "nat \<Rightarrow> 'a list \<Rightarrow> 'a list" where
  "drop_nth i xs = take i xs @ drop (Suc i) xs"

text \<open>A worker thread executes a task and ends it; the connection may have changed since the task was pushed.\<close>

definition run_task ::
    "compress_strategy option \<Rightarrow> (nat \<Rightarrow> u8) \<Rightarrow> ptr \<times> u8 list \<Rightarrow> tcp_server \<Rightarrow> tcp_server result" where
  "run_task iface junk t s =
     bind_result (task_execute iface junk (snd t) (srv_sess s (fst t))) (\<lambda>m.
     bind_result (task_end m (srv_sess s (fst t))) (\<lambda>x. on_session (fst t) x s))"

text \<open>What a step does; a step that is not possible in a state leaves it as it is.\<close>

fun srv_exec :: "compress_strategy option \<Rightarrow> (nat \<Rightarrow> u8) \<Rightarrow> srv_step \<Rightarrow> tcp_server \<Rightarrow> tcp_server result" where
  "srv_exec iface junk (Clock now) s = Inr (s\<lparr>srv_time := now\<rparr>)"
| "srv_exec iface junk (Accept_Loop limit) s = Inr (accept_loop limit s)"
| "srv_exec iface junk (Accepted i error addr) s =
     (if i < length (srv_accepting s)
      then srv_handle_accept (srv_accepting s ! i) error addr (s\<lparr>srv_accepting := drop_nth i (srv_accepting s)\<rparr>)
      else Inr s)"
| "srv_exec iface junk (Run_Job i name addr) s =
     (if i < length (srv_jobs s)
      then run_job name addr (srv_jobs s ! i) (s\<lparr>srv_jobs := drop_nth i (srv_jobs s)\<rparr>)
      else Inr s)"
| "srv_exec iface junk (Read_Done i chunk) s =
     (if i < length (srv_reads s)
      then bind_result (handle_read_some iface chunk (srv_sess s (srv_reads s ! i)))
             (\<lambda>x. on_session (srv_reads s ! i) x (s\<lparr>srv_reads := drop_nth i (srv_reads s)\<rparr>))
      else Inr s)"
| "srv_exec iface junk (Write_Done i error) s =
     (if i < length (srv_writes s)
      then let (p, n) = srv_writes s ! i
           in on_session p (handle_write error n (srv_sess s p)) (s\<lparr>srv_writes := drop_nth i (srv_writes s)\<rparr>)
      else Inr s)"
| "srv_exec iface junk Run_Cb s =
     (case srv_cbs s of [] \<Rightarrow> Inr s | cb # cbs \<Rightarrow> run_cb cb (s\<lparr>srv_cbs := cbs\<rparr>))"
| "srv_exec iface junk Handle_Msg s =
     (case srv_msgs s of [] \<Rightarrow> Inr s | m # ms \<Rightarrow> Inr (handle_msg m (s\<lparr>srv_msgs := ms\<rparr>)))"
| "srv_exec iface junk (Send p data len) s =
     bind_result (send_message iface junk data len (srv_sess s p)) (\<lambda>x. on_session p x s)"
| "srv_exec iface junk (Close p) s = on_session p (close_session (srv_sess s p)) s"
| "srv_exec iface junk (Task_Turn k) s =
     (if k < length (tp_threads (srv_tasks s))
      then case task_turn (tp_threads (srv_tasks s) ! k) of
             None \<Rightarrow> Inr s
           | Some (_, t) \<Rightarrow> Inr (s\<lparr>srv_tasks := (srv_tasks s)\<lparr>tp_threads := (tp_threads (srv_tasks s))[k := t]\<rparr>\<rparr>)
      else Inr s)"
| "srv_exec iface junk (Task_Run k q) s =
     (if k < length (tp_threads (srv_tasks s)) \<and> q < 2
      then case task_next q (tp_threads (srv_tasks s) ! k) of
             None \<Rightarrow> Inr s
           | Some (x, t) \<Rightarrow>
               run_task iface junk x (s\<lparr>srv_tasks := (srv_tasks s)\<lparr>tp_threads := (tp_threads (srv_tasks s))[k := t]\<rparr>\<rparr>)
      else Inr s)"

fun srv_run :: "compress_strategy option \<Rightarrow> (nat \<Rightarrow> u8) \<Rightarrow> srv_step list \<Rightarrow> tcp_server \<Rightarrow> tcp_server result" where
  "srv_run iface junk [] s = Inr s"
| "srv_run iface junk (e # es) s = bind_result (srv_exec iface junk e s) (srv_run iface junk es)"


section \<open>Where a connection object is\<close>

fun accept_jobs :: "io_job list \<Rightarrow> ptr list" where
  "accept_jobs [] = []"
| "accept_jobs (Job_Accept p # js) = p # accept_jobs js"
| "accept_jobs (j # js) = accept_jobs js"

lemma accept_jobs_append [simp]: "accept_jobs (xs @ ys) = accept_jobs xs @ accept_jobs ys"
  by (induction xs rule: accept_jobs.induct) simp_all

text \<open>The objects that belong to no connection: in the pool, being accepted, or accepted but not yet started.\<close>

definition places :: "tcp_server \<Rightarrow> ptr list" where
  "places s = srv_pool s @ srv_accepting s @ accept_jobs (srv_jobs s)"

definition srv_ok :: "ptr set \<Rightarrow> tcp_server \<Rightarrow> bool" where
  "srv_ok ps s \<longleftrightarrow>
     distinct (places s) \<and> set (places s) \<subseteq> ps
   \<and> (\<forall>p\<in>ps. p \<in> set (places s) \<longleftrightarrow> m_father (srv_sess s p) = None)
   \<and> (\<forall>p. p \<notin> ps \<longrightarrow> m_father (srv_sess s p) = None)
   \<and> (\<forall>p\<in>set (srv_pool s). \<not> m_isvalid (srv_sess s p) \<and> \<not> m_isconnected (srv_sess s p))
   \<and> srv_accepting_count s = word_of_nat (length (srv_accepting s))
   \<and> (\<forall>p. effects (srv_sess s p) = [])"

text \<open>An operation of a connection that neither opens nor frees it.\<close>

definition tame :: "tcp_session \<Rightarrow> tcp_session \<Rightarrow> bool" where
  "tame x y \<longleftrightarrow> m_father y = m_father x \<and> m_isvalid y = m_isvalid x \<and> (m_isconnected y \<longrightarrow> m_isconnected x)
     \<and> (Free_Session \<in> set (effects y) \<longrightarrow> Free_Session \<in> set (effects x))"

lemma tame_refl: "tame x x" by (simp add: tame_def)

lemma tame_trans: "tame x y \<Longrightarrow> tame y z \<Longrightarrow> tame x z" by (auto simp: tame_def)

lemma tame_emit: "Free_Session \<notin> set es \<Longrightarrow> tame x (emit es x)"
  by (auto simp: tame_def emit_def)

lemmas session_ops = emit_def close_session_def close_and_ban_def handle_close_def clear_send_msg_def on_close_io_def
  push_message_def send_queued_def write_message_def handle_write_def

lemma tame_ops:
  "tame x (close_session x)" "tame x (close_and_ban x)" "tame x (handle_close x)" "tame x (on_close_io x)"
  "tame x (push_message m x)" "tame x (send_queued m x)" "tame x (write_message n x)" "tame x (handle_write e n x)"
  by (auto simp: tame_def session_ops Let_def case_prod_unfold)

lemma tame_read_closed: "read_closed tame"
proof -
  have "tame x (uncompress_failed x)" "tame x (x\<lparr>m_recv_buffer := b, m_recive_buffer_pos := n\<rparr>)" for x b n
    by (auto simp: tame_def uncompress_failed_def close_session_def emit_def)
  then show ?thesis
    unfolding read_closed_def by (auto intro!: reflpI transpI tame_refl tame_ops tame_emit elim: tame_trans)
qed

lemma tame_read: "handle_read_some iface chunk x = Inr y \<Longrightarrow> tame x y"
  by (rule handle_read_closed [OF tame_read_closed])

lemma tame_send: "send_message iface junk data len x = Inr y \<Longrightarrow> tame x y"
  by (auto simp: send_message_def tame_refl tame_ops split: option.splits if_splits) (auto simp: tame_def emit_def)

lemma tame_task: "task_end m x = Inr y \<Longrightarrow> tame x y"
  by (auto simp: task_end_def tame_refl tame_ops split: option.splits if_splits)


text \<open>What the effects of an operation leave alone, other than freeing the object.\<close>

definition kept :: "tcp_server \<Rightarrow> tcp_server \<Rightarrow> bool" where
  "kept s t \<longleftrightarrow> srv_sess t = srv_sess s \<and> srv_pool t = srv_pool s \<and> srv_accepting t = srv_accepting s
     \<and> srv_accepting_count t = srv_accepting_count s \<and> accept_jobs (srv_jobs t) = accept_jobs (srv_jobs s)
     \<and> srv_father t = srv_father s"

lemma kept_refl: "kept s s" by (simp add: kept_def)

lemma kept_trans: "kept s t \<Longrightarrow> kept t u \<Longrightarrow> kept s u" by (simp add: kept_def)

lemma kept_ban: "kept s (add_ban_ip a n r s)" "kept s (snd (is_ban_ip a s))"
  by (auto simp: kept_def add_ban_ip_def is_ban_ip_def split: option.splits)

lemma kept_effect: "effect_on p e s = Inr t \<Longrightarrow> e \<noteq> Free_Session \<Longrightarrow> kept s t"
  by (cases "(p, e, s)" rule: effect_on.cases) (auto simp: kept_ban, auto simp: kept_def)

lemma kept_effects: "effects_on p es s = Inr t \<Longrightarrow> Free_Session \<notin> set es \<Longrightarrow> kept s t"
proof (induction es arbitrary: s)
  case (Cons e es)
  then obtain u where u: "effect_on p e s = Inr u" "effects_on p es u = Inr t" by auto
  have "kept s u" using kept_effect [OF u(1)] Cons.prems(2) by auto
  moreover have "kept u t" using Cons.IH [OF u(2)] Cons.prems(2) by simp
  ultimately show ?case by (rule kept_trans)
qed (simp add: kept_refl)

lemma srv_ok_kept: "kept s t \<Longrightarrow> srv_ok ps t = srv_ok ps s"
  by (simp add: kept_def srv_ok_def places_def)

text \<open>The operations of a connection that neither open nor free it keep the invariant, wherever it is.\<close>

lemma srv_ok_tame:
  assumes ok: "srv_ok ps s" and tame: "tame (srv_sess s p) x" and run: "on_session p x s = Inr t"
  shows "srv_ok ps t"
proof -
  let ?s = "srv_set p (x\<lparr>effects := []\<rparr>) s"
  have "Free_Session \<notin> set (effects x)"
    using tame ok by (auto simp: tame_def srv_ok_def)
  then have "kept ?s t" using kept_effects run unfolding on_session_def by blast
  moreover have "srv_ok ps ?s"
    using ok tame by (auto simp: srv_ok_def srv_set_def places_def tame_def)
  ultimately show ?thesis by (simp add: srv_ok_kept)
qed

lemma sess_free [simp]: "srv_sess (free_session p s) = (srv_sess s)(p := (reset_session (srv_sess s p))\<lparr>m_isvalid := False\<rparr>)"
  by (simp add: free_session_def srv_set_def Let_def)

lemma places_free: "srv_pool (free_session p s) = srv_pool s @ [p]" "srv_accepting (free_session p s) = srv_accepting s"
  "srv_jobs (free_session p s) = srv_jobs s" "srv_accepting_count (free_session p s) = srv_accepting_count s"
  by (simp_all add: free_session_def srv_set_def Let_def)

lemma reset_fields: "m_father (reset_session x) = None" "\<not> m_isconnected (reset_session x)" "effects (reset_session x) = effects x"
  by (simp_all add: reset_session_def clear_send_msg_def)

text \<open>Freeing an object that is in none of the places puts it into the pool.\<close>

lemma srv_ok_free:
  assumes "p \<in> ps" and "p \<notin> set (places s)" and "distinct (places s)" and "set (places s) \<subseteq> ps"
    and "\<forall>q\<in>ps. q \<noteq> p \<longrightarrow> (q \<in> set (places s) \<longleftrightarrow> m_father (srv_sess s q) = None)"
    and "\<forall>q. q \<notin> ps \<longrightarrow> m_father (srv_sess s q) = None"
    and "\<forall>q\<in>set (srv_pool s). \<not> m_isvalid (srv_sess s q) \<and> \<not> m_isconnected (srv_sess s q)"
    and "srv_accepting_count s = word_of_nat (length (srv_accepting s))" and "\<forall>q. effects (srv_sess s q) = []"
  shows "srv_ok ps (free_session p s)"
  using assms by (auto simp: srv_ok_def places_def places_free reset_fields)

lemma srv_ok_on_close:
  assumes ok: "srv_ok ps s" and run: "on_session p (on_close (srv_sess s p)) s = Inr t"
  shows "srv_ok ps t"
proof (cases "m_father (srv_sess s p) = None")
  case True
  then have "on_close (srv_sess s p) = srv_sess s p" by (simp add: on_close_def)
  then show ?thesis using srv_ok_tame [OF ok, of p "srv_sess s p"] run by (simp add: tame_refl)
next
  case False
  let ?s = "srv_set p (srv_sess s p) s"
  have e: "effects (srv_sess s p) = []" using ok by (simp add: srv_ok_def)
  then have clean: "(srv_sess s p)\<lparr>effects := []\<rparr> = srv_sess s p" by (intro tcp_session.equality) simp_all
  have t: "t = (free_session p ?s)\<lparr>srv_io_sessions := srv_io_sessions (free_session p ?s) - {p}\<rparr>"
  proof -
    have free: "t = (free_session p (srv_set p (x\<lparr>effects := []\<rparr>) s))\<lparr>srv_io_sessions :=
            srv_io_sessions (free_session p (srv_set p (x\<lparr>effects := []\<rparr>) s)) - {p}\<rparr>"
      if "effects x = []" "on_session p (emit [Free_Session, Del_Session] x) s = Inr t" for x
      using that by (simp add: on_session_def emit_def)
    have "on_session p (emit [Free_Session, Del_Session] (srv_sess s p)) s = Inr t"
      using run unfolding on_close_def if_P [OF False] .
    from free [OF e this] show ?thesis unfolding clean .
  qed
  have same: "?s = s" by (simp add: srv_set_def)
  have "p \<in> ps" using ok False by (cases "p \<in> ps") (simp_all add: srv_ok_def)
  moreover from this have "p \<notin> set (places s)" using ok False by (simp add: srv_ok_def)
  ultimately have "srv_ok ps (free_session p s)"
    using ok by (intro srv_ok_free) (auto simp: srv_ok_def)
  then show ?thesis unfolding t same by (simp add: srv_ok_def places_def)
qed

lemma srv_ok_accept_loop: "srv_ok ps s \<Longrightarrow> srv_ok ps (accept_loop limit s)"
proof (induction limit s rule: accept_loop.induct)
  case (1 limit s)
  show ?case
  proof (cases "srv_accepting_count s < limit \<and> srv_pool s \<noteq> []")
    case True
    then obtain p qs where p: "srv_pool s = p # qs" by (cases "srv_pool s") auto
    let ?s = "(srv_set p ((srv_sess s p)\<lparr>m_isvalid := True\<rparr>) s)
      \<lparr>srv_accepting := srv_accepting s @ [p], srv_pool := qs, srv_accepting_count := srv_accepting_count s + 1\<rparr>"
    have "srv_ok ps ?s"
      using 1(2) p by (auto simp: srv_ok_def places_def srv_set_def ac_simps)
    with 1(1) [OF _ p] True p show ?thesis by (subst accept_loop.simps) simp
  next
    case False
    then have "accept_loop limit s = s" by (subst accept_loop.simps) auto
    with 1(2) show ?thesis by simp
  qed
qed

lemma drop_nth_split: "i < length xs \<Longrightarrow> mset xs = add_mset (xs ! i) (mset (drop_nth i xs))"
  using arg_cong [OF id_take_nth_drop, of i xs mset] by (simp add: drop_nth_def)

lemma accept_jobs_drop:
  "i < length js \<Longrightarrow> mset (accept_jobs js) = mset (accept_jobs (drop_nth i js)) + mset (accept_jobs [js ! i])"
proof -
  assume i: "i < length js"
  have "accept_jobs js = accept_jobs (take i js) @ accept_jobs [js ! i] @ accept_jobs (drop (Suc i) js)"
    using arg_cong [OF id_take_nth_drop [OF i], of accept_jobs] accept_jobs_append [of "[js ! i]" "drop (Suc i) js"] by simp
  then show ?thesis by (simp add: drop_nth_def)
qed


lemma accept_jobs_keep: "i < length js \<Longrightarrow> accept_jobs [js ! i] = [] \<Longrightarrow> accept_jobs (drop_nth i js) = accept_jobs js"
proof -
  assume i: "i < length js" and none: "accept_jobs [js ! i] = []"
  have "accept_jobs js = accept_jobs (take i js) @ accept_jobs [js ! i] @ accept_jobs (drop (Suc i) js)"
    using arg_cong [OF id_take_nth_drop [OF i], of accept_jobs] accept_jobs_append [of "[js ! i]" "drop (Suc i) js"] by simp
  with none show ?thesis by (simp add: drop_nth_def)
qed

text \<open>An object that has just been taken out of one of the places; its own state is of no concern.\<close>

definition srv_taken :: "ptr set \<Rightarrow> ptr \<Rightarrow> tcp_server \<Rightarrow> bool" where
  "srv_taken ps p s \<longleftrightarrow> p \<in> ps \<and> p \<notin> set (places s) \<and> distinct (places s) \<and> set (places s) \<subseteq> ps
     \<and> (\<forall>q\<in>ps. q \<noteq> p \<longrightarrow> (q \<in> set (places s) \<longleftrightarrow> m_father (srv_sess s q) = None))
     \<and> (\<forall>q. q \<notin> ps \<longrightarrow> m_father (srv_sess s q) = None)
     \<and> (\<forall>q\<in>set (srv_pool s). \<not> m_isvalid (srv_sess s q) \<and> \<not> m_isconnected (srv_sess s q))
     \<and> srv_accepting_count s = word_of_nat (length (srv_accepting s))
     \<and> (\<forall>q. effects (srv_sess s q) = [])"

lemma srv_taken_places:
  assumes ok: "srv_ok ps s" and split: "mset (places s) = add_mset p (mset (places t))"
    and same: "srv_sess t = srv_sess s" "set (srv_pool t) \<subseteq> set (srv_pool s)"
    and count: "srv_accepting_count t = word_of_nat (length (srv_accepting t))"
  shows "srv_taken ps p t"
proof -
  have "distinct (p # places t)"
    using mset_eq_imp_distinct_iff [of "places s" "p # places t"] split ok by (simp add: srv_ok_def)
  moreover have "set (places s) = insert p (set (places t))"
    using arg_cong [OF split, of set_mset] by simp
  ultimately show ?thesis
    using ok same count unfolding srv_ok_def srv_taken_def by auto
qed

lemma srv_taken_free: "srv_taken ps p s \<Longrightarrow> srv_ok ps (free_session p s)"
  unfolding srv_taken_def by (intro srv_ok_free) simp_all

lemma srv_taken_kept: "kept s t \<Longrightarrow> srv_taken ps p t = srv_taken ps p s"
  by (simp add: kept_def srv_taken_def places_def)

lemma srv_ok_accepted:
  assumes ok: "srv_ok ps s" and i: "i < length (srv_accepting s)"
    and run: "srv_handle_accept (srv_accepting s ! i) error addr (s\<lparr>srv_accepting := drop_nth i (srv_accepting s)\<rparr>) = Inr t"
  shows "srv_ok ps t"
proof -
  let ?p = "srv_accepting s ! i"
  let ?s = "s\<lparr>srv_accepting := drop_nth i (srv_accepting s), srv_accepting_count := srv_accepting_count s - 1\<rparr>"
  obtain b u where u: "is_ban_ip (remote_address addr (srv_sess s ?p)) ?s = (b, u)" by fastforce
  have len: "length (srv_accepting s) = Suc (length (drop_nth i (srv_accepting s)))"
    using i by (simp add: drop_nth_def)
  have "srv_taken ps ?p ?s"
  proof (rule srv_taken_places [OF ok])
    show "mset (places s) = add_mset ?p (mset (places ?s))"
      using drop_nth_split [OF i] by (simp add: places_def)
    show "srv_accepting_count ?s = word_of_nat (length (srv_accepting ?s))"
      using ok len by (simp add: srv_ok_def)
  qed simp_all
  moreover have "kept ?s u" using kept_ban(2) [of ?s "remote_address addr (srv_sess s ?p)"] u by simp
  ultimately have taken: "srv_taken ps ?p u" by (simp add: srv_taken_kept)
  have sess: "srv_sess u = srv_sess s" using \<open>kept ?s u\<close> by (simp add: kept_def)
  let ?x = "srv_sess s ?p"
  have e: "effects ?x = []" using ok by (simp add: srv_ok_def)
  show ?thesis
  proof (cases "b \<or> error")
    case True
    have "on_session ?p (handle_close ?x) u = Inr (srv_set ?p ((handle_close ?x)\<lparr>effects := []\<rparr>) u)"
      using e by (simp add: on_session_def handle_close_def emit_def)
    then have "t = free_session ?p (srv_set ?p ((handle_close ?x)\<lparr>effects := []\<rparr>) u)"
      using run True u sess by (simp add: srv_handle_accept_def Let_def)
    moreover have "srv_taken ps ?p (srv_set ?p ((handle_close ?x)\<lparr>effects := []\<rparr>) u)"
      using taken by (auto simp: srv_taken_def srv_set_def places_def)
    ultimately show ?thesis by (simp add: srv_taken_free)
  next
    case False
    then have t: "t = u\<lparr>srv_jobs := srv_jobs u @ [Job_Accept ?p]\<rparr>"
      using run u by (simp add: srv_handle_accept_def Let_def)
    have "m_father ?x = None" using ok i by (auto simp: srv_ok_def places_def)
    with taken sess show ?thesis
      unfolding t by (auto simp: srv_ok_def srv_taken_def places_def)
  qed
qed

lemma srv_ok_job:
  assumes ok: "srv_ok ps s" and i: "i < length (srv_jobs s)"
    and run: "run_job name addr (srv_jobs s ! i) (s\<lparr>srv_jobs := drop_nth i (srv_jobs s)\<rparr>) = Inr t"
  shows "srv_ok ps t"
proof -
  let ?s = "s\<lparr>srv_jobs := drop_nth i (srv_jobs s)\<rparr>"
  have drop: "srv_ok ps ?s" if "accept_jobs [srv_jobs s ! i] = []"
    using ok accept_jobs_keep [OF i that] by (simp add: srv_ok_def places_def)
  show ?thesis
  proof (cases "srv_jobs s ! i")
    case (Job_Close p)
    with run drop show ?thesis
      using srv_ok_tame [of ps ?s p "handle_close (srv_sess s p)" t] by (simp add: tame_ops)
  next
    case (Job_Write p)
    with run drop show ?thesis
      using srv_ok_tame [of ps ?s p "write_message 0 (srv_sess s p)" t] by (simp add: tame_ops)
  next
    case (Job_Accept p)
    obtain k u where u: "generate_thread_index ?s = (k, u)" by fastforce
    then have same: "kept ?s u" by (auto simp: generate_thread_index_def kept_def Let_def)
    have "srv_taken ps p ?s"
      using accept_jobs_drop [OF i] Job_Accept ok
      by (intro srv_taken_places [OF ok]) (auto simp: places_def srv_ok_def)
    with same have taken: "srv_taken ps p u" by (simp add: srv_taken_kept)
    let ?x = "handle_accept (srv_father u) k name addr (srv_sess u p)"
    let ?v = "srv_set p (?x\<lparr>effects := []\<rparr>) u"
    have e: "effects (srv_sess u p) = []" using taken by (simp add: srv_taken_def)
    have "on_session p ?x u = Inr t" using run Job_Accept u same by (simp add: kept_def)
    moreover have "Free_Session \<notin> set (effects ?x)"
      using e by (simp add: handle_accept_def begin_read_message_def emit_def Let_def)
    ultimately have "kept ?v t" using kept_effects unfolding on_session_def by blast
    moreover have "srv_ok ps ?v"
      using taken by (auto simp: srv_taken_def srv_ok_def srv_set_def places_def handle_accept_def begin_read_message_def emit_def Let_def)
    ultimately show ?thesis by (simp add: srv_ok_kept)
  qed
qed

lemma srv_ok_more: "srv_ok ps (s\<lparr>srv_time := a\<rparr>) = srv_ok ps s" "srv_ok ps (s\<lparr>srv_reads := b\<rparr>) = srv_ok ps s"
  "srv_ok ps (s\<lparr>srv_writes := c\<rparr>) = srv_ok ps s" "srv_ok ps (s\<lparr>srv_cbs := d\<rparr>) = srv_ok ps s"
  "srv_ok ps (s\<lparr>srv_msgs := e\<rparr>) = srv_ok ps s" "srv_ok ps (s\<lparr>srv_handled := f\<rparr>) = srv_ok ps s"
  "srv_ok ps (s\<lparr>srv_tasks := g\<rparr>) = srv_ok ps s"
  by (simp_all add: srv_ok_def places_def)

lemma srv_ok_exec:
  assumes ok: "srv_ok ps s" and run: "srv_exec iface junk e s = Inr t"
  shows "srv_ok ps t"
proof (cases e)
  case (Clock now)
  with ok run show ?thesis by (auto simp: srv_ok_more)
next
  case (Accept_Loop l)
  with ok run show ?thesis by (auto simp: srv_ok_accept_loop)
next
  case (Accepted i error addr)
  with ok run show ?thesis by (auto simp: srv_ok_accepted split: if_splits)
next
  case (Run_Job i name addr)
  with ok run show ?thesis by (auto simp: srv_ok_job split: if_splits)
next
  case (Read_Done i chunk)
  show ?thesis
  proof (cases "i < length (srv_reads s)")
    case True
    let ?p = "srv_reads s ! i" and ?s = "s\<lparr>srv_reads := drop_nth i (srv_reads s)\<rparr>"
    obtain x where "handle_read_some iface chunk (srv_sess s ?p) = Inr x" "on_session ?p x ?s = Inr t"
      using run Read_Done True by auto
    with ok show ?thesis using srv_ok_tame [of ps ?s ?p x t] by (simp add: tame_read srv_ok_more)
  qed (use ok run Read_Done in simp)
next
  case (Write_Done i error)
  show ?thesis
  proof (cases "i < length (srv_writes s)")
    case True
    let ?s = "s\<lparr>srv_writes := drop_nth i (srv_writes s)\<rparr>"
    obtain p n where "on_session p (handle_write error n (srv_sess s p)) ?s = Inr t"
      using run Write_Done True by (auto simp: Let_def split: prod.splits)
    with ok show ?thesis using srv_ok_tame [of ps ?s p "handle_write error n (srv_sess s p)" t] by (simp add: tame_ops srv_ok_more)
  qed (use ok run Write_Done in simp)
next
  case Run_Cb
  show ?thesis
  proof (cases "srv_cbs s")
    case (Cons cb cbs)
    let ?s = "s\<lparr>srv_cbs := cbs\<rparr>"
    have "run_cb cb ?s = Inr t" using run Run_Cb Cons by simp
    with ok show ?thesis using srv_ok_on_close [of ps ?s _ t] by (cases cb) (auto simp: srv_ok_more)
  qed (use ok run Run_Cb in simp)
next
  case Handle_Msg
  with ok run show ?thesis by (auto simp: handle_msg_def srv_ok_more split: list.splits)
next
  case (Send p data len)
  then obtain x where "send_message iface junk data len (srv_sess s p) = Inr x" "on_session p x s = Inr t"
    using run by auto
  with ok show ?thesis using srv_ok_tame [of ps s p x t] by (simp add: tame_send)
next
  case (Close p)
  with ok run show ?thesis using srv_ok_tame [of ps s p "close_session (srv_sess s p)" t] by (simp add: tame_ops)
next
  case (Task_Turn k)
  with ok run show ?thesis by (auto simp: srv_ok_more split: if_splits option.splits)
next
  case (Task_Run k q)
  show ?thesis
  proof (cases "k < length (tp_threads (srv_tasks s)) \<and> q < 2 \<and> task_next q (tp_threads (srv_tasks s) ! k) \<noteq> None")
    case True
    then obtain p d th where n: "task_next q (tp_threads (srv_tasks s) ! k) = Some ((p, d), th)" by auto
    let ?s = "s\<lparr>srv_tasks := (srv_tasks s)\<lparr>tp_threads := (tp_threads (srv_tasks s))[k := th]\<rparr>\<rparr>"
    have "run_task iface junk (p, d) ?s = Inr t" using run Task_Run True n by simp
    then obtain m x where "task_end m (srv_sess s p) = Inr x" "on_session p x ?s = Inr t"
      unfolding run_task_def by auto
    with ok show ?thesis using srv_ok_tame [of ps ?s p x t] by (simp add: tame_task srv_ok_more)
  qed (use ok run Task_Run in \<open>auto split: option.splits\<close>)
qed

lemma srv_ok_run: "srv_ok ps s \<Longrightarrow> srv_run iface junk es s = Inr t \<Longrightarrow> srv_ok ps t"
  by (induction es arbitrary: s) (auto dest: srv_ok_exec)


lemma srv_ok_fresh: "srv_ok ps s \<Longrightarrow> p \<notin> ps \<Longrightarrow> srv_ok (insert p ps) (free_session p s)"
  by (rule srv_taken_free) (auto simp: srv_ok_def srv_taken_def)

lemma srv_ok_fold: "srv_ok qs s \<Longrightarrow> distinct ps \<Longrightarrow> set ps \<inter> qs = {} \<Longrightarrow> srv_ok (qs \<union> set ps) (fold free_session ps s)"
proof (induction ps arbitrary: qs s)
  case (Cons p ps)
  then have "srv_ok (insert p qs \<union> set ps) (fold free_session ps (free_session p s))"
    by (intro Cons.IH srv_ok_fresh) auto
  then show ?case by simp
qed simp

lemma srv_ok_create: "distinct ps \<Longrightarrow> srv_ok (set ps) (create_server ps n (new_server f now))"
  using srv_ok_fold [of "{}" _ ps] unfolding create_server_def
  by (simp add: srv_ok_def places_def new_server_def new_session_def)

section \<open>Properties\<close>

text \<open>C36: No connection object is lost or used twice. Whatever the network, the main thread and the workers do and in
  which order, each of the objects created at the start is in exactly one of four places (in the pool, being
  accepted, accepted and waiting for its start, or in use, which it is when it has a server), the objects in the pool are
  closed, and the accept counter is the number of accepts under way.\<close>

theorem sessions_conserved:
  assumes "distinct ps" and "length ps < 2 ^ 32"
    and "srv_run iface junk es (create_server ps n (new_server f now)) = Inr t"
  shows "distinct (places t) \<and> set (places t) = {p \<in> set ps. m_father (srv_sess t p) = None}
    \<and> (\<forall>p. p \<in> set (srv_pool t) \<longrightarrow> \<not> m_isvalid (srv_sess t p) \<and> \<not> m_isconnected (srv_sess t p))
    \<and> unat (srv_accepting_count t) = length (srv_accepting t)"
proof -
  have ok: "srv_ok (set ps) t" by (rule srv_ok_run [OF srv_ok_create [OF assms(1)] assms(3)])
  then have "distinct (srv_accepting t)" "set (srv_accepting t) \<subseteq> set ps"
    by (auto simp: srv_ok_def places_def)
  then have "length (srv_accepting t) \<le> length ps"
    using assms(1) by (metis card_mono distinct_card finite_set)
  with ok assms(2) have "unat (srv_accepting_count t) = length (srv_accepting t)"
    by (simp add: srv_ok_def unat_of_nat)
  with ok show ?thesis by (auto simp: srv_ok_def)
qed

text \<open>A second ban does nothing. The first ban of an address admits it again after the given number of seconds; a
  second one for no more seconds than the end of the first, as a date in seconds since 1970, changes nothing, not even
  after the first has run out.\<close>

theorem second_ban_ignored:
  assumes "om_ok (srv_ban s)" and "om_find (srv_ban s) addr = None"
    and "unat (srv_time s) + unat sec < 2 ^ 32" and "unat sec' \<le> unat (srv_time s) + unat sec"
  shows "fst (is_ban_ip addr ((add_ban_ip addr sec br s)\<lparr>srv_time := now\<rparr>)) = (unat now \<le> unat (srv_time s) + unat sec)
    \<and> add_ban_ip addr sec' br' ((add_ban_ip addr sec br s)\<lparr>srv_time := later\<rparr>) = (add_ban_ip addr sec br s)\<lparr>srv_time := later\<rparr>"
proof -
  have sum: "unat (srv_time s + sec) = unat (srv_time s) + unat sec"
    using assms(3) by (simp add: unat_word_ariths)
  have "\<not> srv_time s + sec < sec'"
    using assms(4) unfolding word_less_nat_alt sum by simp
  then show ?thesis
    using assms(2) by (auto simp: add_ban_ip_def is_ban_ip_def word_less_nat_alt sum)
qed

lemma second_ban_ignored_witness:
  "add_ban_ip 7 120 BAN_REASON_WRONG_CHECK_SUM
     ((add_ban_ip 7 5 BAN_REASON_HACK_PACKET (new_server \<lparr>limit_mode = False, ttti_mode = False, task_thread_count = 1\<rparr> 1000))
        \<lparr>srv_time := 2000\<rparr>)
   = (add_ban_ip 7 5 BAN_REASON_HACK_PACKET (new_server \<lparr>limit_mode = False, ttti_mode = False, task_thread_count = 1\<rparr> 1000))
        \<lparr>srv_time := 2000\<rparr>"
  using second_ban_ignored [of "new_server \<lparr>limit_mode = False, ttti_mode = False, task_thread_count = 1\<rparr> 1000" 7 5 120]
  by (simp add: new_server_def)

text \<open>An object in use that nothing in the network, the queues or the pool refers to any more.\<close>

definition abandoned :: "ptr \<Rightarrow> tcp_server \<Rightarrow> bool" where
  "abandoned p s \<longleftrightarrow> m_father (srv_sess s p) \<noteq> None \<and> \<not> m_isconnected (srv_sess s p) \<and> effects (srv_sess s p) = []
     \<and> p \<notin> set (srv_reads s) \<and> (\<forall>n. (p, n) \<notin> set (srv_writes s)) \<and> On_Close p \<notin> set (srv_cbs s) \<and> p \<notin> set (places s)"

text \<open>What is never added for \<open>p\<close> by an operation of an object that is not \<open>p\<close> or has been closed.\<close>

definition quiet_for :: "ptr \<Rightarrow> tcp_server \<Rightarrow> tcp_server \<Rightarrow> bool" where
  "quiet_for p s t \<longleftrightarrow> srv_sess t p = srv_sess s p
     \<and> (p \<in> set (srv_reads t) \<longrightarrow> p \<in> set (srv_reads s)) \<and> ((\<exists>n. (p, n) \<in> set (srv_writes t)) \<longrightarrow> (\<exists>n. (p, n) \<in> set (srv_writes s)))
     \<and> (On_Close p \<in> set (srv_cbs t) \<longrightarrow> On_Close p \<in> set (srv_cbs s)) \<and> (p \<in> set (places t) \<longrightarrow> p \<in> set (places s))"

lemma quiet_for_refl: "quiet_for p s s" by (simp add: quiet_for_def)

lemma quiet_for_trans: "quiet_for p s t \<Longrightarrow> quiet_for p t u \<Longrightarrow> quiet_for p s u"
  by (simp add: quiet_for_def)

lemma quiet_abandoned: "quiet_for p s t \<Longrightarrow> abandoned p s \<Longrightarrow> abandoned p t"
  by (auto simp: quiet_for_def abandoned_def)

definition closing_effect :: "effect \<Rightarrow> bool" where
  "closing_effect e \<longleftrightarrow> e = Post_Handle_Close \<or> e = Socket_Shutdown \<or> e = Write_Close_Log \<or> e = Post_Write"

lemma quiet_effect: "effect_on q e s = Inr t \<Longrightarrow> q \<noteq> p \<or> closing_effect e \<Longrightarrow> quiet_for p s t"
  by (cases "(q, e, s)" rule: effect_on.cases)
    (auto simp: quiet_for_def closing_effect_def places_def places_free free_session_def srv_set_def Let_def add_ban_ip_def split: option.splits if_splits)

lemma quiet_effects: "effects_on q es s = Inr t \<Longrightarrow> q \<noteq> p \<or> (\<forall>e\<in>set es. closing_effect e) \<Longrightarrow> quiet_for p s t"
proof (induction es arbitrary: s)
  case (Cons e es)
  then obtain u where u: "effect_on q e s = Inr u" "effects_on q es u = Inr t" by auto
  have "quiet_for p s u" using quiet_effect [OF u(1)] Cons.prems(2) by auto
  moreover have "quiet_for p u t" using Cons.IH [OF u(2)] Cons.prems(2) by auto
  ultimately show ?case by (rule quiet_for_trans)
qed (simp add: quiet_for_refl)

text \<open>A closed object stays closed under an operation with closing effects only.\<close>

lemma abandoned_on_session:
  assumes a: "abandoned p s" and run: "on_session q x s = Inr t"
    and own: "q = p \<Longrightarrow> m_father x \<noteq> None \<and> \<not> m_isconnected x \<and> (\<forall>e\<in>set (effects x). closing_effect e)"
  shows "abandoned p t"
proof -
  let ?s = "srv_set q (x\<lparr>effects := []\<rparr>) s"
  have "abandoned p ?s" using a own by (auto simp: abandoned_def srv_set_def places_def)
  moreover have "quiet_for p ?s t" using quiet_effects run own unfolding on_session_def by blast
  ultimately show ?thesis by (rule quiet_abandoned [rotated])
qed


lemma set_drop_nth: "set (drop_nth i xs) \<subseteq> set xs"
  by (auto simp: drop_nth_def dest: in_set_takeD in_set_dropD)

lemma accept_jobs_subset: "i < length js \<Longrightarrow> set (accept_jobs (drop_nth i js)) \<subseteq> set (accept_jobs js)"
  using arg_cong [OF accept_jobs_drop, of i js set_mset] by auto

lemma accept_jobs_nth: "i < length js \<Longrightarrow> js ! i = Job_Accept q \<Longrightarrow> q \<in> set (accept_jobs js)"
  using arg_cong [OF accept_jobs_drop, of i js set_mset] by auto

lemma abandoned_accept_loop: "abandoned p s \<Longrightarrow> abandoned p (accept_loop limit s)"
proof (induction limit s rule: accept_loop.induct)
  case (1 limit s)
  show ?case
  proof (cases "srv_accepting_count s < limit \<and> srv_pool s \<noteq> []")
    case True
    then obtain q qs where q: "srv_pool s = q # qs" by (cases "srv_pool s") auto
    have "q \<noteq> p" using 1(2) q by (auto simp: abandoned_def places_def)
    with 1(2) q have "abandoned p ((srv_set q ((srv_sess s q)\<lparr>m_isvalid := True\<rparr>) s)
        \<lparr>srv_accepting := srv_accepting s @ [q], srv_pool := qs, srv_accepting_count := srv_accepting_count s + 1\<rparr>)"
      by (auto simp: abandoned_def places_def srv_set_def)
    with 1(1) [OF _ q] True q show ?thesis by (subst accept_loop.simps) simp
  next
    case False
    then have "accept_loop limit s = s" by (subst accept_loop.simps) auto
    with 1(2) show ?thesis by simp
  qed
qed

lemma abandoned_free: "abandoned p s \<Longrightarrow> q \<noteq> p \<Longrightarrow> abandoned p (free_session q s)"
  by (auto simp: abandoned_def places_def places_free) (simp_all add: free_session_def srv_set_def Let_def)

lemma abandoned_accepted:
  assumes a: "abandoned p s" and q: "q \<noteq> p" and run: "srv_handle_accept q error addr s = Inr t"
  shows "abandoned p t"
proof -
  let ?s = "s\<lparr>srv_accepting_count := srv_accepting_count s - 1\<rparr>"
  obtain b u where u: "is_ban_ip (remote_address addr (srv_sess s q)) ?s = (b, u)" by fastforce
  have au: "abandoned p u"
    using a u by (auto simp: is_ban_ip_def abandoned_def places_def split: option.splits if_splits)
  show ?thesis
  proof (cases "b \<or> error")
    case True
    then obtain v where "on_session q (handle_close (srv_sess u q)) u = Inr v" "t = free_session q v"
      using run u by (auto simp: srv_handle_accept_def Let_def)
    then show ?thesis using abandoned_free abandoned_on_session [OF au] q by blast
  next
    case False
    with run u au q show ?thesis by (auto simp: srv_handle_accept_def Let_def abandoned_def places_def)
  qed
qed

lemma abandoned_ops:
  assumes "\<not> m_isconnected x" and "m_father x \<noteq> None" and "effects x = []"
  shows "m_father (handle_close x) \<noteq> None \<and> \<not> m_isconnected (handle_close x) \<and> (\<forall>e\<in>set (effects (handle_close x)). closing_effect e)"
    and "m_father (write_message n x) \<noteq> None \<and> \<not> m_isconnected (write_message n x) \<and> (\<forall>e\<in>set (effects (write_message n x)). closing_effect e)"
    and "m_father (close_session x) \<noteq> None \<and> \<not> m_isconnected (close_session x) \<and> (\<forall>e\<in>set (effects (close_session x)). closing_effect e)"
    and "send_message iface junk data len x = Inr y \<Longrightarrow> y = x"
    and "task_end m x = Inr y \<Longrightarrow> y = x"
  using assms by (auto simp: session_ops Let_def closing_effect_def send_message_def task_end_def split: option.splits)

lemma abandoned_job:
  assumes a: "abandoned p s" and i: "i < length (srv_jobs s)"
    and run: "run_job name addr (srv_jobs s ! i) (s\<lparr>srv_jobs := drop_nth i (srv_jobs s)\<rparr>) = Inr t"
  shows "abandoned p t"
proof -
  let ?s = "s\<lparr>srv_jobs := drop_nth i (srv_jobs s)\<rparr>"
  have as: "abandoned p ?s" using a accept_jobs_subset [OF i] by (auto simp: abandoned_def places_def)
  show ?thesis
  proof (cases "srv_jobs s ! i")
    case (Job_Accept q)
    then have q: "q \<noteq> p" using a accept_jobs_nth [OF i] by (auto simp: abandoned_def places_def)
    obtain k u where u: "generate_thread_index ?s = (k, u)" by fastforce
    then have "abandoned p u" using as by (auto simp: generate_thread_index_def abandoned_def places_def Let_def)
    moreover have "on_session q (handle_accept (srv_father u) k name addr (srv_sess u q)) u = Inr t"
      using run Job_Accept u by (auto simp: generate_thread_index_def Let_def)
    ultimately show ?thesis using abandoned_on_session q by blast
  next
    case (Job_Close q)
    with run have "on_session q (handle_close (srv_sess s q)) ?s = Inr t" by simp
    from abandoned_on_session [OF as this] show ?thesis
      using a abandoned_ops(1) [of "srv_sess s p"] by (auto simp: abandoned_def)
  next
    case (Job_Write q)
    with run have "on_session q (write_message 0 (srv_sess s q)) ?s = Inr t" by simp
    from abandoned_on_session [OF as this] show ?thesis
      using a abandoned_ops(2) [of "srv_sess s p"] by (auto simp: abandoned_def)
  qed
qed

lemma abandoned_other: "abandoned p (s\<lparr>srv_time := a\<rparr>) = abandoned p s"
  "abandoned p (s\<lparr>srv_msgs := e\<rparr>) = abandoned p s" "abandoned p (s\<lparr>srv_handled := f\<rparr>) = abandoned p s"
  "abandoned p (s\<lparr>srv_tasks := g\<rparr>) = abandoned p s"
  by (simp_all add: abandoned_def places_def)

lemma abandoned_exec:
  assumes a: "abandoned p s" and run: "srv_exec iface junk e s = Inr t"
  shows "abandoned p t"
proof (cases e)
  case (Clock now)
  with a run show ?thesis by (auto simp: abandoned_other)
next
  case (Accept_Loop l)
  with a run show ?thesis by (auto simp: abandoned_accept_loop)
next
  case (Accepted i error addr)
  show ?thesis
  proof (cases "i < length (srv_accepting s)")
    case True
    let ?s = "s\<lparr>srv_accepting := drop_nth i (srv_accepting s)\<rparr>"
    have "abandoned p ?s" using a set_drop_nth [of i "srv_accepting s"] by (auto simp: abandoned_def places_def)
    moreover have "srv_accepting s ! i \<noteq> p" using a nth_mem [OF True] by (auto simp: abandoned_def places_def)
    ultimately show ?thesis using abandoned_accepted run Accepted True by auto
  qed (use a run Accepted in simp)
next
  case (Run_Job i name addr)
  with a run show ?thesis by (auto simp: abandoned_job split: if_splits)
next
  case (Read_Done i chunk)
  show ?thesis
  proof (cases "i < length (srv_reads s)")
    case True
    let ?q = "srv_reads s ! i" and ?s = "s\<lparr>srv_reads := drop_nth i (srv_reads s)\<rparr>"
    obtain x where "on_session ?q x ?s = Inr t" using run Read_Done True by auto
    moreover have "abandoned p ?s" using a set_drop_nth [of i "srv_reads s"] by (auto simp: abandoned_def places_def)
    moreover have "?q \<noteq> p" using a nth_mem [OF True] by (auto simp: abandoned_def)
    ultimately show ?thesis using abandoned_on_session by blast
  qed (use a run Read_Done in simp)
next
  case (Write_Done i error)
  show ?thesis
  proof (cases "i < length (srv_writes s)")
    case True
    let ?s = "s\<lparr>srv_writes := drop_nth i (srv_writes s)\<rparr>"
    obtain q n where w: "srv_writes s ! i = (q, n)" by fastforce
    then have "on_session q (handle_write error n (srv_sess s q)) ?s = Inr t"
      using run Write_Done True by simp
    moreover have "abandoned p ?s" using a set_drop_nth [of i "srv_writes s"] by (auto simp: abandoned_def places_def)
    moreover have "q \<noteq> p" using a nth_mem [OF True] w by (force simp: abandoned_def)
    ultimately show ?thesis using abandoned_on_session by blast
  qed (use a run Write_Done in simp)
next
  case Run_Cb
  show ?thesis
  proof (cases "srv_cbs s")
    case (Cons cb cbs)
    let ?s = "s\<lparr>srv_cbs := cbs\<rparr>"
    have as: "abandoned p ?s" using a Cons by (auto simp: abandoned_def places_def)
    show ?thesis
    proof (cases cb)
      case (On_Close q)
      then have "q \<noteq> p" using a Cons by (auto simp: abandoned_def)
      moreover have "on_session q (on_close (srv_sess s q)) ?s = Inr t" using run Run_Cb Cons On_Close by simp
      ultimately show ?thesis using abandoned_on_session [OF as] by blast
    qed (use as run Run_Cb Cons in simp)
  qed (use a run Run_Cb in simp)
next
  case Handle_Msg
  with a run show ?thesis by (auto simp: handle_msg_def abandoned_other split: list.splits)
next
  case (Send q data len)
  then obtain x where x: "send_message iface junk data len (srv_sess s q) = Inr x" "on_session q x s = Inr t"
    using run by auto
  have "q = p \<Longrightarrow> x = srv_sess s p"
    using abandoned_ops(4) [of "srv_sess s p" iface junk data len x] x(1) a by (simp add: abandoned_def)
  then show ?thesis
    using a by (intro abandoned_on_session [OF a x(2)]) (auto simp: abandoned_def)
next
  case (Close q)
  then have "on_session q (close_session (srv_sess s q)) s = Inr t" using run by simp
  from abandoned_on_session [OF a this] show ?thesis
    using abandoned_ops(3) [of "srv_sess s p"] a by (auto simp: abandoned_def)
next
  case (Task_Turn k)
  with a run show ?thesis by (auto simp: abandoned_other split: if_splits option.splits)
next
  case (Task_Run k i)
  show ?thesis
  proof (cases "k < length (tp_threads (srv_tasks s)) \<and> i < 2 \<and> task_next i (tp_threads (srv_tasks s) ! k) \<noteq> None")
    case True
    then obtain q d th where n: "task_next i (tp_threads (srv_tasks s) ! k) = Some ((q, d), th)" by auto
    let ?s = "s\<lparr>srv_tasks := (srv_tasks s)\<lparr>tp_threads := (tp_threads (srv_tasks s))[k := th]\<rparr>\<rparr>"
    have "run_task iface junk (q, d) ?s = Inr t" using run Task_Run True n by simp
    then obtain m x where x: "task_end m (srv_sess s q) = Inr x" "on_session q x ?s = Inr t"
      unfolding run_task_def by auto
    have "q = p \<Longrightarrow> x = srv_sess s p"
      using abandoned_ops(5) [of "srv_sess s p" m x] x(1) a by (simp add: abandoned_def)
    then show ?thesis
      using a by (intro abandoned_on_session [OF _ x(2)]) (auto simp: abandoned_def places_def)
  qed (use a run Task_Run in \<open>auto split: option.splits\<close>)
qed

lemma abandoned_run: "abandoned p s \<Longrightarrow> srv_run iface junk es s = Inr t \<Longrightarrow> abandoned p t"
  by (induction es arbitrary: s) (auto dest: abandoned_exec)


text \<open>A connection in use with one read outstanding, an empty receive buffer and nothing else under way.\<close>

definition reading :: "nat \<Rightarrow> ptr \<Rightarrow> tcp_server \<Rightarrow> bool" where
  "reading i p s \<longleftrightarrow> i < length (srv_reads s) \<and> srv_reads s ! i = p \<and> p \<notin> set (drop_nth i (srv_reads s))
     \<and> (\<forall>n. (p, n) \<notin> set (srv_writes s)) \<and> On_Close p \<notin> set (srv_cbs s) \<and> p \<notin> set (places s)
     \<and> m_father (srv_sess s p) \<noteq> None \<and> m_isvalid (srv_sess s p) \<and> effects (srv_sess s p) = []
     \<and> m_recive_buffer_pos (srv_sess s p) = 0"

definition bad_length :: "u8 list \<Rightarrow> bool" where
  "bad_length bytes \<longleftrightarrow> MESSAGE_HEAD_LEN \<le> length bytes \<and> \<not> good_length (frame_length bytes)"

lemma handle_read_bad:
  assumes "m_isvalid x" and "m_recive_buffer_pos x = 0" and "bad_length bytes" and "length bytes \<le> length (m_recv_buffer x)"
  shows "handle_read_some iface (Some bytes) x
    = Inr (close_and_ban (x\<lparr>m_recv_buffer := bytes @ drop (length bytes) (m_recv_buffer x), m_recive_buffer_pos := length bytes\<rparr>))"
proof -
  let ?x = "x\<lparr>m_recv_buffer := bytes @ drop (length bytes) (m_recv_buffer x), m_recive_buffer_pos := length bytes\<rparr>"
  have len: "frame_length (m_recv_buffer ?x) = frame_length bytes"
    using assms(3) by (simp add: bad_length_def)
  have "read_loop iface (length bytes) 0 ?x = Inr (Banned, close_and_ban ?x)"
    using assms(3) len by (subst read_loop.simps) (auto simp: Let_def bad_length_def good_length_def)
  moreover have "poke 0 bytes (m_recv_buffer x) = Inr (bytes @ drop (length bytes) (m_recv_buffer x))"
    using assms(4) by (simp add: poke_def)
  ultimately show ?thesis
    using assms(1,2) by (simp add: handle_read_some_def finish_read_def Let_def)
qed

lemma drop_nth_last: "drop_nth (length xs) (xs @ [x]) = xs"
  by (simp add: drop_nth_def)

lemma bad_length_abandons:
  assumes r: "reading i p s" and b: "bad_length bytes" and l: "length bytes \<le> length (m_recv_buffer (srv_sess s p))"
  shows "\<exists>t. srv_run iface junk [Read_Done i (Some bytes), Run_Job (length (srv_jobs s)) name addr] s = Inr t \<and> abandoned p t"
proof -
  let ?x = "(srv_sess s p)\<lparr>m_recv_buffer := bytes @ drop (length bytes) (m_recv_buffer (srv_sess s p)), m_recive_buffer_pos := length bytes\<rparr>"
  have facts: "i < length (srv_reads s)" "srv_reads s ! i = p" "m_father (srv_sess s p) \<noteq> None" "effects (srv_sess s p) = []"
    using r by (simp_all add: reading_def)
  have read: "handle_read_some iface (Some bytes) (srv_sess s p) = Inr (close_and_ban ?x)"
    using r b l by (intro handle_read_bad) (simp_all add: reading_def)
  let ?s = "srv_set p (?x\<lparr>effects := []\<rparr>) (s\<lparr>srv_reads := drop_nth i (srv_reads s)\<rparr>)"
  let ?u = "(add_ban_ip (m_remote_ip_ui (srv_sess s p)) 5 BAN_REASON_HACK_PACKET ?s)\<lparr>srv_jobs := srv_jobs s @ [Job_Close p]\<rparr>"
  have jobs: "srv_jobs (add_ban_ip a n br v) = srv_jobs v" "srv_sess (add_ban_ip a n br v) = srv_sess v"
      "srv_reads (add_ban_ip a n br v) = srv_reads v" "srv_writes (add_ban_ip a n br v) = srv_writes v"
      "srv_cbs (add_ban_ip a n br v) = srv_cbs v" "srv_pool (add_ban_ip a n br v) = srv_pool v"
      "srv_accepting (add_ban_ip a n br v) = srv_accepting v" for a n br v
    by (simp_all add: add_ban_ip_def split: option.split)
  have eff: "effects (close_and_ban ?x) =
        [Add_Ban_Ip (m_remote_ip_ui (srv_sess s p)) 5 BAN_REASON_HACK_PACKET, Post_Handle_Close, Write_Close_Log]"
      "(close_and_ban ?x)\<lparr>effects := []\<rparr> = ?x\<lparr>effects := []\<rparr>"
    using facts(3,4) by (auto simp: close_and_ban_def close_session_def emit_def Let_def)
  have "on_session p (close_and_ban ?x) (s\<lparr>srv_reads := drop_nth i (srv_reads s)\<rparr>) = Inr ?u"
    unfolding on_session_def eff by (simp add: jobs srv_set_def)
  with facts read have step1: "srv_exec iface junk (Read_Done i (Some bytes)) s = Inr ?u" by simp
  let ?y = "handle_close (?x\<lparr>effects := []\<rparr>)"
  let ?t = "srv_set p (?y\<lparr>effects := []\<rparr>) (?u\<lparr>srv_jobs := srv_jobs s\<rparr>)"
  have "srv_sess ?u p = ?x\<lparr>effects := []\<rparr>" by (simp add: jobs srv_set_def)
  then have "run_job name addr (Job_Close p) (?u\<lparr>srv_jobs := srv_jobs s\<rparr>) = Inr ?t"
    by (simp add: on_session_def handle_close_def emit_def)
  then have step2: "srv_exec iface junk (Run_Job (length (srv_jobs s)) name addr) ?u = Inr ?t"
    by (simp add: drop_nth_last)
  have "abandoned p ?t"
    using r by (auto simp: abandoned_def reading_def srv_set_def handle_close_def emit_def places_def jobs)
  with step1 step2 show ?thesis by (auto simp del: srv_exec.simps)
qed

lemma srv_run_append: "srv_run iface junk (es @ fs) s = bind_result (srv_run iface junk es s) (srv_run iface junk fs)"
proof (induction es arbitrary: s)
  case (Cons e es)
  show ?case by (cases "srv_exec iface junk e s") (simp_all add: Cons.IH del: srv_exec.simps)
qed simp

text \<open>C37: A frame with a bad length costs the server a connection object. When such a frame arrives on a connection with
  nothing to send, the connection is closed but its object never gets back into the pool, whatever happens afterwards.\<close>

theorem bad_length_leaks_session:
  assumes "reading i p s" and "bad_length bytes" and "length bytes \<le> length (m_recv_buffer (srv_sess s p))"
    and "srv_run iface junk ([Read_Done i (Some bytes), Run_Job (length (srv_jobs s)) name addr] @ es) s = Inr t"
  shows "p \<notin> set (srv_pool t) \<and> m_father (srv_sess t p) \<noteq> None \<and> \<not> m_isconnected (srv_sess t p)"
proof -
  obtain u where u: "srv_run iface junk [Read_Done i (Some bytes), Run_Job (length (srv_jobs s)) name addr] s = Inr u" "abandoned p u"
    using bad_length_abandons [OF assms(1-3)] by blast
  from assms(4) have "srv_run iface junk es u = Inr t" unfolding srv_run_append u(1) bind_result.simps .
  with abandoned_run [OF u(2)] show ?thesis by (auto simp: abandoned_def places_def)
qed

definition demo_father :: father where
  "demo_father = \<lparr>limit_mode = False, ttti_mode = False, task_thread_count = 1\<rparr>"

text \<open>A server with one connection object that a client has just connected to.\<close>

definition accept_steps :: "srv_step list" where
  "accept_steps = [Accept_Loop 1, Accepted 0 False 7, Run_Job 0 ''10.0.0.7'' 7, Run_Cb]"

lemma accept_one:
  "\<exists>s. srv_run iface junk accept_steps (create_server [1] 1 (new_server demo_father 0)) = Inr s
     \<and> reading 0 1 s \<and> srv_pool s = [] \<and> srv_jobs s = [] \<and> srv_reads s = [1] \<and> srv_cbs s = [] \<and> srv_accepting s = []
     \<and> srv_accepting_count s = 0 \<and> srv_ban s = [] \<and> m_recv_buffer (srv_sess s 1) = replicate (MAX_MESSAGE_LEN * 2) 0"
proof -
  have field: "m_recv_buffer new_session = replicate (MAX_MESSAGE_LEN * 2) 0" "effects new_session = []"
    by (simp_all add: new_session_def)
  show ?thesis
    unfolding accept_steps_def
    by (simp add: create_server_def new_server_def free_session_def srv_set_def accept_loop.simps srv_handle_accept_def is_ban_ip_def
        drop_nth_def handle_accept_def begin_read_message_def emit_def generate_thread_index_def on_session_def reset_session_def
        clear_send_msg_def field reading_def places_def pool_startup_def no_task_pool_def Let_def demo_father_def)
qed


lemma sessions_conserved_witness:
  "\<exists>t. srv_run None (\<lambda>_. 0) accept_steps (create_server [1] 1 (new_server demo_father 0)) = Inr t \<and> distinct (places t)
     \<and> {p \<in> {1}. m_father (srv_sess t p) = None} = set (places t) \<and> unat (srv_accepting_count t) = length (srv_accepting t)"
proof -
  obtain t where t: "srv_run None (\<lambda>_. 0) accept_steps (create_server [1] 1 (new_server demo_father 0)) = Inr t"
    using accept_one by blast
  with sessions_conserved [OF _ _ t] show ?thesis by simp
qed

lemma bad_length_leaks_session_witness:
  "\<exists>t. srv_run None (\<lambda>_. 0) (accept_steps @ [Read_Done 0 (Some (replicate 10 0)), Run_Job 0 '''' 0, Accept_Loop 1])
         (create_server [1] 1 (new_server demo_father 0)) = Inr t
     \<and> 1 \<notin> set (srv_pool t) \<and> m_father (srv_sess t 1) \<noteq> None"
proof -
  obtain s where s: "srv_run None (\<lambda>_. 0) accept_steps (create_server [1] 1 (new_server demo_father 0)) = Inr s"
      "reading 0 1 s" "srv_jobs s = []" "m_recv_buffer (srv_sess s 1) = replicate (MAX_MESSAGE_LEN * 2) 0"
    using accept_one by blast
  have bad: "bad_length (replicate 10 0)"
    by (simp add: bad_length_def good_length_def frame_length_def MESSAGE_HEAD_LEN_def le_word_def numeral_eq_Suc)
  have len: "length (replicate 10 (0 :: u8)) \<le> length (m_recv_buffer (srv_sess s 1))"
    unfolding s(4) length_replicate MAX_MESSAGE_LEN_def by simp
  obtain u where u: "srv_run None (\<lambda>_. 0) [Read_Done 0 (Some (replicate 10 0)), Run_Job (length (srv_jobs s)) '''' 0] s = Inr u"
    using bad_length_abandons [OF s(2) bad len] by blast
  have "srv_run None (\<lambda>_. 0) ([Read_Done 0 (Some (replicate 10 0)), Run_Job (length (srv_jobs s)) '''' 0] @ [Accept_Loop 1]) s = Inr (accept_loop 1 u)"
    unfolding srv_run_append u bind_result.simps by simp
  from bad_length_leaks_session [OF s(2) bad len this] this s(1,3) show ?thesis
    by (auto simp: srv_run_append simp del: srv_run.simps)
qed

text \<open>C38: A late close takes a new connection down. When both the read and the write of a connection fail, two close
  callbacks are queued; if the object is back in use before the second one runs, that frees the object of the new
  connection while its read is outstanding, without any error on the new connection.\<close>

theorem late_close_frees_new_connection:
  assumes "srv_reads s = [p]" and "srv_writes s = [(p, n)]" and "srv_cbs s = []" and "srv_jobs s = []"
    and "srv_accepting s = []" and "srv_pool s = []" and "srv_accepting_count s = 0" and "srv_ban s = []"
    and "m_father (srv_sess s p) \<noteq> None" and "m_isvalid (srv_sess s p)" and "effects (srv_sess s p) = []"
  shows "\<exists>t. srv_run iface junk [Read_Done 0 None, Write_Done 0 True, Run_Cb, Accept_Loop 1, Accepted 0 False addr,
        Run_Job 0 name addr] s = Inr t
    \<and> m_isconnected (srv_sess t p) \<and> srv_reads t = [p] \<and> srv_cbs t = [On_Close p, On_Accept p]
    \<and> (\<exists>u. srv_exec iface junk Run_Cb t = Inr u \<and> srv_pool u = [p] \<and> srv_reads u = [p]
        \<and> \<not> m_isvalid (srv_sess u p) \<and> m_father (srv_sess u p) = None)"
proof -
  obtain f where f: "m_father (srv_sess s p) = Some f" using assms(9) by blast
  show ?thesis
    by (simp add: assms f handle_read_some_def on_close_io_def clear_send_msg_def emit_def on_session_def srv_set_def drop_nth_def
        handle_write_def on_close_def free_session_def reset_session_def accept_loop.simps srv_handle_accept_def is_ban_ip_def
        generate_thread_index_def handle_accept_def begin_read_message_def Let_def)
qed

lemma late_close_frees_new_connection_witness:
  "\<exists>s t u. srv_run None (\<lambda>_. 0) accept_steps (create_server [1] 1 (new_server demo_father 0)) = Inr s
     \<and> srv_run None (\<lambda>_. 0) [Read_Done 0 None, Write_Done 0 True, Run_Cb, Accept_Loop 1, Accepted 0 False 7,
        Run_Job 0 '''' 7] (s\<lparr>srv_writes := [(1, 5)]\<rparr>) = Inr t
     \<and> srv_cbs t = [On_Close 1, On_Accept 1] \<and> srv_exec None (\<lambda>_. 0) Run_Cb t = Inr u \<and> srv_pool u = [1]"
proof -
  obtain s where s: "srv_run None (\<lambda>_. 0) accept_steps (create_server [1] 1 (new_server demo_father 0)) = Inr s"
      "reading 0 1 s" "srv_pool s = []" "srv_jobs s = []" "srv_reads s = [1]" "srv_cbs s = []" "srv_accepting s = []"
      "srv_accepting_count s = 0" "srv_ban s = []"
    using accept_one by blast
  have x: "m_father (srv_sess s 1) \<noteq> None" "m_isvalid (srv_sess s 1)" "effects (srv_sess s 1) = []"
    using s(2) by (simp_all add: reading_def)
  show ?thesis
    using late_close_frees_new_connection [of "s\<lparr>srv_writes := [(1, 5)]\<rparr>" 1 5 None "\<lambda>_. 0" 7 "[]"] s x
    by (simp del: srv_run.simps srv_exec.simps One_nat_def) blast
qed

end
