(* ===== verification/Packet.thy ===== *)
theory Packet
  imports Prelude
begin

text \<open>
  The hand-written wire format of \<^verbatim>\<open>common/packet_interface.h\<close> over the send and receive buffers of
  \<^verbatim>\<open>common/thread_buffer.h\<close>. The overloaded operators write and read a value by its static type; a type is
  a \<open>wt\<close> here, a value a \<open>wv\<close>. A class with \<open>Sn\<close> and \<open>Usn\<close> is the sequence of its members. The lemmas show
  that what is written is read back, and that what is read has its type and stays within the buffer.
\<close>

section \<open>Types and values\<close>

datatype wt =
    WInt nat
  | WStr
  | WSeq wt
  | WSet wt
  | WMap wt wt
  | WRec "wt list"

datatype wv =
    VInt u64
  | VStr "u8 list"
  | VSeq "wv list"
  | VSet "wv list"
  | VMap "(wv \<times> wv) list"
  | VRec "wv list"

text \<open>The order of the elements of sets and of the keys of maps is the type's own and a parameter, \<open>lt\<close>.\<close>

type_synonym wless = "wv \<Rightarrow> wv \<Rightarrow> bool"

definition ascending :: "wless \<Rightarrow> wv list \<Rightarrow> bool" where
  "ascending lt xs \<longleftrightarrow> sorted_wrt (\<lambda>x y. lt x y \<and> \<not> lt y x) xs"

text \<open>Numbers of one, two, four and eight bytes; \<open>VInt\<close> holds the bits. Sizes are sent in 32 bits.\<close>

fun has_type :: "wless \<Rightarrow> wt \<Rightarrow> wv \<Rightarrow> bool"
  and has_types :: "wless \<Rightarrow> wt list \<Rightarrow> wv list \<Rightarrow> bool" where
  "has_type lt (WInt n) (VInt w) \<longleftrightarrow> n \<in> {1, 2, 4, 8} \<and> unat w < 256 ^ n"
| "has_type lt WStr (VStr bs) \<longleftrightarrow> length bs < 2 ^ 32"
| "has_type lt (WSeq t) (VSeq vs) \<longleftrightarrow> length vs < 2 ^ 32 \<and> (\<forall>v\<in>set vs. has_type lt t v)"
| "has_type lt (WSet t) (VSet vs) \<longleftrightarrow> length vs < 2 ^ 32 \<and> (\<forall>v\<in>set vs. has_type lt t v) \<and> ascending lt vs"
| "has_type lt (WMap k t) (VMap kvs) \<longleftrightarrow>
     length kvs < 2 ^ 32 \<and> (\<forall>kv\<in>set kvs. has_type lt k (fst kv) \<and> has_type lt t (snd kv)) \<and> ascending lt (map fst kvs)"
| "has_type lt (WRec ts) (VRec vs) \<longleftrightarrow> has_types lt ts vs"
| "has_type lt _ _ \<longleftrightarrow> False"
| "has_types lt [] [] \<longleftrightarrow> True"
| "has_types lt (t # ts) (v # vs) \<longleftrightarrow> has_type lt t v \<and> has_types lt ts vs"
| "has_types lt _ _ \<longleftrightarrow> False"

section \<open>The send buffer\<close>

record send_buf =
  sb_mem :: "u8 list"
  sb_pos :: nat
  sb_max :: nat

text \<open>\<open>write\<close>: the position is an \<^verbatim>\<open>unsigned int\<close>; a write that would fill the buffer exactly is refused.\<close>

definition sb_write :: "u8 list \<Rightarrow> send_buf \<Rightarrow> send_buf result" where
  "sb_write bs b =
     (if (sb_pos b + length bs) mod 2 ^ 32 \<ge> sb_max b then Inl (Buff_Exception ''send_buff out of rang'')
      else if sb_pos b + length bs > length (sb_mem b) then Inl Out_Of_Range
      else Inr (b\<lparr>sb_mem := take (sb_pos b) (sb_mem b) @ bs @ drop (sb_pos b + length bs) (sb_mem b),
                  sb_pos := (sb_pos b + length bs) mod 2 ^ 32\<rparr>))"

definition sb_data :: "send_buf \<Rightarrow> u8 list" where
  "sb_data b = take (sb_pos b) (sb_mem b)"

text \<open>\<open>PacketSn::operator <<\<close>: the pieces that are written, one by one.\<close>

fun sn :: "wt \<Rightarrow> wv \<Rightarrow> u8 list list"
  and sns :: "wt list \<Rightarrow> wv list \<Rightarrow> u8 list list" where
  "sn (WInt n) (VInt w) = [le_bytes n w]"
| "sn WStr (VStr bs) = [le_bytes 4 (word_of_nat (length bs) :: u32), bs]"
| "sn (WSeq t) (VSeq vs) = le_bytes 4 (word_of_nat (length vs) :: u32) # concat (map (sn t) vs)"
| "sn (WSet t) (VSet vs) = le_bytes 4 (word_of_nat (length vs) :: u32) # concat (map (sn t) vs)"
| "sn (WMap k t) (VMap kvs) =
     le_bytes 4 (word_of_nat (length kvs) :: u32) # concat (map (\<lambda>kv. sn k (fst kv) @ sn t (snd kv)) kvs)"
| "sn (WRec ts) (VRec vs) = sns ts vs"
| "sn _ _ = []"
| "sns [] [] = []"
| "sns (t # ts) (v # vs) = sn t v @ sns ts vs"
| "sns _ _ = []"

fun sb_writes :: "u8 list list \<Rightarrow> send_buf \<Rightarrow> send_buf result" where
  "sb_writes [] b = Inr b"
| "sb_writes (p # ps) b = bind_result (sb_write p b) (sb_writes ps)"

section \<open>The receive buffer\<close>

text \<open>\<open>rb_mem\<close> is the whole thread buffer: behind the \<open>rb_len\<close> bytes received lies what earlier packets have left.\<close>

record recv_buf =
  rb_mem :: "u8 list"
  rb_len :: nat
  rb_pos :: nat

definition new_recv_buf :: "u8 list \<Rightarrow> u8 list \<Rightarrow> recv_buf" where
  "new_recv_buf data stale = \<lparr>rb_mem = data @ stale, rb_len = length data, rb_pos = 0\<rparr>"

text \<open>\<open>read\<close>: having read the last byte, the position goes back to the start.\<close>

definition rb_read :: "nat \<Rightarrow> recv_buf \<Rightarrow> (u8 list \<times> recv_buf) result" where
  "rb_read n b =
     (if (rb_pos b + n) mod 2 ^ 32 > rb_len b then Inl (Buff_Exception ''recv_buff out of rang'')
      else if rb_pos b + n > length (rb_mem b) then Inl Out_Of_Range
      else Inr (take n (drop (rb_pos b) (rb_mem b)),
                b\<lparr>rb_pos := (if (rb_pos b + n) mod 2 ^ 32 = rb_len b then 0 else (rb_pos b + n) mod 2 ^ 32)\<rparr>))"

text \<open>Reading a string: the characters are taken from the buffer before the position is checked.\<close>

definition rb_string :: "nat \<Rightarrow> recv_buf \<Rightarrow> (u8 list \<times> recv_buf) result" where
  "rb_string n b =
     (if rb_pos b + n > length (rb_mem b) then Inl Out_Of_Range
      else if (rb_pos b + n) mod 2 ^ 32 \<le> rb_len b
      then Inr (take n (drop (rb_pos b) (rb_mem b)), b\<lparr>rb_pos := (rb_pos b + n) mod 2 ^ 32\<rparr>)
      else Inl Assert_Failed)"

definition read_size :: "recv_buf \<Rightarrow> (nat \<times> recv_buf) result" where
  "read_size b = bind_result (rb_read 4 b) (\<lambda>(bs, b). Inr (unat (le_word bs :: u32), b))"

text \<open>\<^verbatim>\<open>std::set::insert\<close> keeps an equivalent element, \<^verbatim>\<open>operator []\<close> of a map assigns to it.\<close>

fun wset_insert :: "wless \<Rightarrow> wv \<Rightarrow> wv list \<Rightarrow> wv list" where
  "wset_insert lt x [] = [x]"
| "wset_insert lt x (y # ys) =
     (if lt x y then x # y # ys else if lt y x then y # wset_insert lt x ys else y # ys)"

fun wmap_set :: "wless \<Rightarrow> wv \<Rightarrow> wv \<Rightarrow> (wv \<times> wv) list \<Rightarrow> (wv \<times> wv) list" where
  "wmap_set lt k v [] = [(k, v)]"
| "wmap_set lt k v (e # m) =
     (if lt k (fst e) then (k, v) # e # m
      else if lt (fst e) k then e # wmap_set lt k v m else (fst e, v) # m)"

text \<open>\<open>PacketUsn::operator >>\<close>, with its loops.\<close>

function usn :: "wless \<Rightarrow> wt \<Rightarrow> recv_buf \<Rightarrow> (wv \<times> recv_buf) result"
  and usn_list :: "wless \<Rightarrow> wt \<Rightarrow> nat \<Rightarrow> recv_buf \<Rightarrow> (wv list \<times> recv_buf) result"
  and usn_map :: "wless \<Rightarrow> wt \<Rightarrow> wt \<Rightarrow> nat \<Rightarrow> recv_buf \<Rightarrow> ((wv \<times> wv) list \<times> recv_buf) result"
  and usns :: "wless \<Rightarrow> wt list \<Rightarrow> recv_buf \<Rightarrow> (wv list \<times> recv_buf) result" where
  "usn lt (WInt n) b = bind_result (rb_read n b) (\<lambda>(bs, b). Inr (VInt (le_word bs), b))"
| "usn lt WStr b = bind_result (read_size b) (\<lambda>(n, b). bind_result (rb_string n b) (\<lambda>(bs, b). Inr (VStr bs, b)))"
| "usn lt (WSeq t) b = bind_result (read_size b) (\<lambda>(n, b). bind_result (usn_list lt t n b) (\<lambda>(vs, b). Inr (VSeq vs, b)))"
| "usn lt (WSet t) b =
     bind_result (read_size b) (\<lambda>(n, b). bind_result (usn_list lt t n b) (\<lambda>(vs, b). Inr (VSet (fold (wset_insert lt) vs []), b)))"
| "usn lt (WMap k t) b =
     bind_result (read_size b) (\<lambda>(n, b). bind_result (usn_map lt k t n b) (\<lambda>(kvs, b).
       Inr (VMap (fold (\<lambda>kv. wmap_set lt (fst kv) (snd kv)) kvs []), b)))"
| "usn lt (WRec ts) b = bind_result (usns lt ts b) (\<lambda>(vs, b). Inr (VRec vs, b))"
| "usn_list lt t 0 b = Inr ([], b)"
| "usn_list lt t (Suc n) b =
     bind_result (usn lt t b) (\<lambda>(v, b). bind_result (usn_list lt t n b) (\<lambda>(vs, b). Inr (v # vs, b)))"
| "usn_map lt k t 0 b = Inr ([], b)"
| "usn_map lt k t (Suc n) b =
     bind_result (usn lt k b) (\<lambda>(x, b). bind_result (usn lt t b) (\<lambda>(v, b).
     bind_result (usn_map lt k t n b) (\<lambda>(kvs, b). Inr ((x, v) # kvs, b))))"
| "usns lt [] b = Inr ([], b)"
| "usns lt (t # ts) b = bind_result (usn lt t b) (\<lambda>(v, b). bind_result (usns lt ts b) (\<lambda>(vs, b). Inr (v # vs, b)))"
  by pat_completeness auto
termination
  by (relation "measures [\<lambda>x. case x of Inl (Inl (lt, t, b)) \<Rightarrow> size t | Inl (Inr (lt, t, n, b)) \<Rightarrow> size t
        | Inr (Inl (lt, k, t, n, b)) \<Rightarrow> size k + size t | Inr (Inr (lt, ts, b)) \<Rightarrow> size_list size ts,
      \<lambda>x. case x of Inl (Inl (lt, t, b)) \<Rightarrow> 0 | Inl (Inr (lt, t, n, b)) \<Rightarrow> Suc n
        | Inr (Inl (lt, k, t, n, b)) \<Rightarrow> Suc n | Inr (Inr (lt, ts, b)) \<Rightarrow> 0]") auto

lemma usn_list_numeral:
  "usn_list lt t (numeral n) b =
     bind_result (usn lt t b) (\<lambda>(v, b). bind_result (usn_list lt t (pred_numeral n) b) (\<lambda>(vs, b). Inr (v # vs, b)))"
  by (simp add: numeral_eq_Suc)

section \<open>Packets\<close>

text \<open>Every message starts with the members of \<open>PacketHead\<close>: its number, transaction and flags.\<close>

definition packet_head :: "wt list" where
  "packet_head = [WInt 2, WInt 4, WInt 4]"

definition new_send_buf :: "u8 list \<Rightarrow> send_buf" where
  "new_send_buf mem = \<lparr>sb_mem = mem, sb_pos = 0, sb_max = length mem\<rparr>"

definition send_packet :: "wt list \<Rightarrow> wv list \<Rightarrow> send_buf \<Rightarrow> send_buf result" where
  "send_packet ts vs b = sb_writes (sns (packet_head @ ts) vs) b"

text \<open>The constructor of \<open>PacketUsn\<close> reads the head and goes back to the start; the message then reads it again.\<close>

definition receive_packet :: "wless \<Rightarrow> wt list \<Rightarrow> u8 list \<Rightarrow> u8 list \<Rightarrow> (wv list \<times> wv list \<times> recv_buf) result" where
  "receive_packet lt ts data stale =
     bind_result (usns lt packet_head (new_recv_buf data stale)) (\<lambda>(head, b).
     bind_result (usns lt (packet_head @ ts) (b\<lparr>rb_pos := 0\<rparr>)) (\<lambda>(vs, b). Inr (head, vs, b)))"


section \<open>What is sent is received\<close>

definition wire :: "wt \<Rightarrow> wv \<Rightarrow> u8 list" where
  "wire t v = concat (sn t v)"

definition wires :: "wt list \<Rightarrow> wv list \<Rightarrow> u8 list" where
  "wires ts vs = concat (sns ts vs)"

lemma sb_write_ok:
  assumes "sb_pos b + length bs < sb_max b" and "sb_max b \<le> length (sb_mem b)" and "sb_max b < 2 ^ 32"
  shows "\<exists>c. sb_write bs b = Inr c \<and> sb_data c = sb_data b @ bs \<and> sb_pos c = sb_pos b + length bs
    \<and> sb_max c = sb_max b \<and> length (sb_mem c) = length (sb_mem b)"
  using assms by (auto simp: sb_write_def sb_data_def min_def)

lemma sb_writes_ok:
  "sb_pos b + length (concat ps) < sb_max b \<Longrightarrow> sb_max b \<le> length (sb_mem b) \<Longrightarrow> sb_max b < 2 ^ 32 \<Longrightarrow>
   \<exists>c. sb_writes ps b = Inr c \<and> sb_data c = sb_data b @ concat ps"
proof (induction ps arbitrary: b)
  case (Cons p ps)
  obtain c where c: "sb_write p b = Inr c" "sb_data c = sb_data b @ p" "sb_pos c = sb_pos b + length p"
      "sb_max c = sb_max b" "length (sb_mem c) = length (sb_mem b)"
    using sb_write_ok [of b p] Cons.prems by auto
  then obtain d where "sb_writes ps c = Inr d" "sb_data d = sb_data c @ concat ps"
    using Cons.IH [of c] Cons.prems by auto
  with c show ?case by simp
qed simp

text \<open>The bytes still to be read; when there are none, the position is of no concern.\<close>

definition rb_at :: "recv_buf \<Rightarrow> u8 list \<Rightarrow> bool" where
  "rb_at b xs \<longleftrightarrow> rb_len b < 2 ^ 32 \<and> rb_len b \<le> length (rb_mem b) \<and> rb_pos b \<le> rb_len b
     \<and> (xs \<noteq> [] \<longrightarrow> rb_pos b + length xs = rb_len b \<and> take (length xs) (drop (rb_pos b) (rb_mem b)) = xs)"

lemma take_append_drop:
  "take (length xs + length ys) zs = xs @ ys \<Longrightarrow> take (length xs) zs = xs \<and> take (length ys) (drop (length xs) zs) = ys"
proof -
  assume a: "take (length xs + length ys) zs = xs @ ys"
  then have "take (length xs) zs @ take (length ys) (drop (length xs) zs) = xs @ ys"
    by (simp add: take_add)
  moreover have "length (take (length xs) zs) = length xs"
    using arg_cong [OF a, of length] by simp
  ultimately show ?thesis by simp
qed

lemma rb_read_at:
  assumes at: "rb_at b (xs @ rest)" and n: "length xs = n" "0 < n"
  shows "\<exists>c. rb_read n b = Inr (xs, c) \<and> rb_at c rest"
proof -
  let ?p = "rb_pos b"
  have ne: "xs @ rest \<noteq> []" using n by auto
  have len: "?p + (length xs + length rest) = rb_len b" "rb_len b < 2 ^ 32" "rb_len b \<le> length (rb_mem b)"
    and bytes: "take (length xs + length rest) (drop ?p (rb_mem b)) = xs @ rest"
    using at ne unfolding rb_at_def by simp_all
  note parts = take_append_drop [OF bytes]
  have "(?p + n) mod 2 ^ 32 = ?p + n" using len n(1) by (intro mod_less) linarith
  then have "rb_read n b = Inr (xs, b\<lparr>rb_pos := (if ?p + n = rb_len b then 0 else ?p + n)\<rparr>)"
    using len n parts by (simp add: rb_read_def)
  moreover have "rb_at (b\<lparr>rb_pos := (if ?p + n = rb_len b then 0 else ?p + n)\<rparr>) rest"
    using len n parts by (auto simp: rb_at_def ac_simps)
  ultimately show ?thesis by blast
qed

lemma rb_string_at:
  assumes at: "rb_at b (xs @ rest)"
  shows "\<exists>c. rb_string (length xs) b = Inr (xs, c) \<and> rb_at c rest"
proof (cases "xs = []")
  case True
  have "rb_pos b mod 2 ^ 32 = rb_pos b" using at by (intro mod_less) (auto simp: rb_at_def)
  with True at show ?thesis by (simp add: rb_string_def rb_at_def)
next
  case False
  let ?p = "rb_pos b"
  have len: "?p + (length xs + length rest) = rb_len b" "rb_len b < 2 ^ 32" "rb_len b \<le> length (rb_mem b)"
    and bytes: "take (length xs + length rest) (drop ?p (rb_mem b)) = xs @ rest"
    using at False unfolding rb_at_def by simp_all
  note parts = take_append_drop [OF bytes]
  have "(?p + length xs) mod 2 ^ 32 = ?p + length xs" using len by (intro mod_less) linarith
  then have "rb_string (length xs) b = Inr (xs, b\<lparr>rb_pos := ?p + length xs\<rparr>)"
    using len parts by (simp add: rb_string_def)
  moreover have "rb_at (b\<lparr>rb_pos := ?p + length xs\<rparr>) rest"
    using len parts by (auto simp: rb_at_def ac_simps)
  ultimately show ?thesis by blast
qed

lemma read_size_at:
  assumes "rb_at b (le_bytes 4 (word_of_nat n :: u32) @ rest)" and "n < 2 ^ 32"
  shows "\<exists>c. read_size b = Inr (n, c) \<and> rb_at c rest"
proof -
  obtain c where "rb_read 4 b = Inr (le_bytes 4 (word_of_nat n :: u32), c)" "rb_at c rest"
    using rb_read_at [OF assms(1)] by auto
  then show ?thesis using assms(2) by (simp add: read_size_def unat_of_nat)
qed

lemma le_word_le_bytes_small:
  fixes w :: u64
  assumes "unat w < 256 ^ n"
  shows "le_word (le_bytes n w) = w"
  using assms by (simp add: le_word_def le_nat_le_bytes)

lemma fold_wset:
  "ascending lt (xs @ ys) \<Longrightarrow> fold (wset_insert lt) ys xs = xs @ ys"
proof (induction ys arbitrary: xs)
  case (Cons y ys)
  have "\<forall>x\<in>set xs. lt x y \<and> \<not> lt y x" using Cons.prems by (auto simp: ascending_def sorted_wrt_append)
  then have "wset_insert lt y xs = xs @ [y]" by (induction xs) auto
  with Cons.IH [of "xs @ [y]"] Cons.prems show ?case by simp
qed simp

lemma fold_wmap:
  "ascending lt (map fst (xs @ ys)) \<Longrightarrow> fold (\<lambda>kv. wmap_set lt (fst kv) (snd kv)) ys xs = xs @ ys"
proof (induction ys arbitrary: xs)
  case (Cons y ys)
  have "\<forall>x\<in>set xs. lt (fst x) (fst y) \<and> \<not> lt (fst y) (fst x)"
    using Cons.prems by (auto simp: ascending_def sorted_wrt_append)
  then have "wmap_set lt (fst y) (snd y) xs = xs @ [y]" by (induction xs) auto
  with Cons.IH [of "xs @ [y]"] Cons.prems show ?case by simp
qed simp

lemma wire_simps:
  "wire (WInt n) (VInt w) = le_bytes n w" "wire WStr (VStr bs) = le_bytes 4 (word_of_nat (length bs) :: u32) @ bs"
  "wire (WSeq t) (VSeq vs) = le_bytes 4 (word_of_nat (length vs) :: u32) @ concat (map (wire t) vs)"
  "wire (WSet t) (VSet vs) = le_bytes 4 (word_of_nat (length vs) :: u32) @ concat (map (wire t) vs)"
  "wire (WMap k t) (VMap kvs) =
     le_bytes 4 (word_of_nat (length kvs) :: u32) @ concat (map (\<lambda>kv. wire k (fst kv) @ wire t (snd kv)) kvs)"
  "wire (WRec ts) (VRec vs) = wires ts vs" "wires (t # ts) (v # vs) = wire t v @ wires ts vs"
proof -
  have cc: "concat (concat (map f xs)) = concat (map (\<lambda>x. concat (f x)) xs)" for f :: "'x \<Rightarrow> u8 list list" and xs
    by (induction xs) simp_all
  show "wire (WSeq t) (VSeq vs) = le_bytes 4 (word_of_nat (length vs) :: u32) @ concat (map (wire t) vs)"
    "wire (WSet t) (VSet vs) = le_bytes 4 (word_of_nat (length vs) :: u32) @ concat (map (wire t) vs)"
    "wire (WMap k t) (VMap kvs) =
     le_bytes 4 (word_of_nat (length kvs) :: u32) @ concat (map (\<lambda>kv. wire k (fst kv) @ wire t (snd kv)) kvs)"
    by (simp_all add: wire_def [abs_def] cc)
qed (simp_all add: wire_def wires_def)

lemma sized_wire:
  assumes "rb_at b (le_bytes 4 (word_of_nat (length xs) :: u32) @ ys)" and "length xs < 2 ^ 32"
    and "\<And>c. rb_at c ys \<Longrightarrow> \<exists>d. f (length xs) c = Inr (zs, d) \<and> rb_at d rest"
  shows "\<exists>d. bind_result (read_size b) (\<lambda>(n, b). bind_result (f n b) (\<lambda>(vs, b). Inr (g vs, b))) = Inr (g zs, d) \<and> rb_at d rest"
proof -
  obtain c where c: "read_size b = Inr (length xs, c)" "rb_at c ys" using read_size_at [OF assms(1,2)] by blast
  with assms(3) [OF c(2)] show ?thesis by auto
qed

lemma usn_wire:
  "has_type lt t v \<Longrightarrow> rb_at b (wire t v @ rest) \<Longrightarrow> \<exists>c. usn lt t b = Inr (v, c) \<and> rb_at c rest"
  "(\<forall>v\<in>set vs. has_type lt t v) \<Longrightarrow> length vs = n \<Longrightarrow> rb_at b (concat (map (wire t) vs) @ rest) \<Longrightarrow>
     \<exists>c. usn_list lt t n b = Inr (vs, c) \<and> rb_at c rest"
  "(\<forall>kv\<in>set kvs. has_type lt k (fst kv) \<and> has_type lt t (snd kv)) \<Longrightarrow> length kvs = n \<Longrightarrow>
     rb_at b (concat (map (\<lambda>kv. wire k (fst kv) @ wire t (snd kv)) kvs) @ rest) \<Longrightarrow>
     \<exists>c. usn_map lt k t n b = Inr (kvs, c) \<and> rb_at c rest"
  "has_types lt ts vs \<Longrightarrow> rb_at b (wires ts vs @ rest) \<Longrightarrow> \<exists>c. usns lt ts b = Inr (vs, c) \<and> rb_at c rest"
proof (induction lt t b and lt t n b and lt k t n b and lt ts b arbitrary: v rest and vs rest and kvs rest and vs rest
    rule: usn_usn_list_usn_map_usns.induct)
  case (1 lt n b)
  then obtain w where v: "v = VInt w" "unat w < 256 ^ n" "0 < n" by (cases v) auto
  obtain c where "rb_read n b = Inr (le_bytes n w, c)" "rb_at c rest"
    using rb_read_at [of b "le_bytes n w" rest n] 1(2) v by (auto simp: wire_simps)
  then show ?case using v by (simp add: le_word_le_bytes_small)
next
  case (2 lt b)
  then obtain bs where v: "v = VStr bs" "length bs < 2 ^ 32" by (cases v) auto
  show ?case
    using sized_wire [of b bs "bs @ rest" rb_string bs rest VStr] 2(2) v rb_string_at by (simp add: wire_simps)
next
  case (3 lt t b)
  then obtain vs where v: "v = VSeq vs" "length vs < 2 ^ 32" "\<forall>v\<in>set vs. has_type lt t v" by (cases v) auto
  show ?case
    using sized_wire [of b vs "concat (map (wire t) vs) @ rest" "usn_list lt t" vs rest VSeq] 3(3) v 3(1) [OF v(3) refl]
    by (simp add: wire_simps)
next
  case (4 lt t b)
  then obtain vs where v: "v = VSet vs" "length vs < 2 ^ 32" "\<forall>v\<in>set vs. has_type lt t v" "ascending lt vs" by (cases v) auto
  show ?case
    using sized_wire [of b vs "concat (map (wire t) vs) @ rest" "usn_list lt t" vs rest "\<lambda>vs. VSet (fold (wset_insert lt) vs [])"]
      4(3) v 4(1) [OF v(3) refl] fold_wset [of lt "[]" vs] by (simp add: wire_simps)
next
  case (5 lt k t b)
  then obtain kvs where v: "v = VMap kvs" "length kvs < 2 ^ 32"
      "\<forall>kv\<in>set kvs. has_type lt k (fst kv) \<and> has_type lt t (snd kv)" "ascending lt (map fst kvs)" by (cases v) auto
  show ?case
    using sized_wire [of b kvs "concat (map (\<lambda>kv. wire k (fst kv) @ wire t (snd kv)) kvs) @ rest" "usn_map lt k t" kvs rest
        "\<lambda>kvs. VMap (fold (\<lambda>kv. wmap_set lt (fst kv) (snd kv)) kvs [])"]
      5(3) v 5(1) [OF v(3) refl] fold_wmap [of lt "[]" kvs] by (simp add: wire_simps)
next
  case (6 lt ts b)
  then obtain vs where v: "v = VRec vs" "has_types lt ts vs" by (cases v) auto
  with 6(1) [OF v(2)] 6(3) show ?case by (auto simp: wire_simps)
next
  case (8 lt t n b)
  then obtain w ws where vs: "vs = w # ws" "has_type lt t w" "\<forall>v\<in>set ws. has_type lt t v" "length ws = n"
    by (cases vs) auto
  obtain c where c: "usn lt t b = Inr (w, c)" "rb_at c (concat (map (wire t) ws) @ rest)"
    using 8(1) [OF vs(2), of "concat (map (wire t) ws) @ rest"] 8(5) vs(1) by auto
  then show ?case using 8(2) [OF vs(3,4) c(2)] vs(1) by auto
next
  case (10 lt k t n b)
  then obtain x y ws where vs: "kvs = (x, y) # ws" "has_type lt k x" "has_type lt t y"
      "\<forall>kv\<in>set ws. has_type lt k (fst kv) \<and> has_type lt t (snd kv)" "length ws = n"
    by (cases kvs) auto
  let ?ws = "concat (map (\<lambda>kv. wire k (fst kv) @ wire t (snd kv)) ws) @ rest"
  obtain c where c: "usn lt k b = Inr (x, c)" "rb_at c (wire t y @ ?ws)"
    using 10(1) [OF vs(2), of "wire t y @ ?ws"] 10(6) vs(1) by auto
  obtain d where d: "usn lt t c = Inr (y, d)" "rb_at d ?ws"
    using 10(2) [OF vs(3) c(2)] by auto
  then show ?case using 10(3) [OF vs(4,5) d(2)] c vs(1) by auto
next
  case (12 lt t ts b)
  then obtain w ws where vs: "vs = w # ws" "has_type lt t w" "has_types lt ts ws" by (cases vs) auto
  obtain c where c: "usn lt t b = Inr (w, c)" "rb_at c (wires ts ws @ rest)"
    using 12(1) [OF vs(2), of "wires ts ws @ rest"] 12(4) vs(1) by (auto simp: wire_simps)
  then show ?case using 12(2) [OF vs(3) c(2)] vs(1) by auto
next
  case (11 lt b)
  then show ?case by (cases vs) (auto simp: wires_def)
qed auto


lemma bind_result_Inr [simp]: "bind_result r Inr = r"
  by (cases r) simp_all

lemma usns_append:
  "usns lt (ts @ us) b = bind_result (usns lt ts b) (\<lambda>(vs, b). bind_result (usns lt us b) (\<lambda>(ws, b). Inr (vs @ ws, b)))"
proof (induction ts arbitrary: b)
  case (Cons t ts)
  show ?case
    by (cases "usn lt t b") (auto simp: Cons.IH bind_result_assoc split_def intro!: arg_cong2 [where f = bind_result])
qed (simp add: split_def)

text \<open>Reading moves the position only, and never beyond the bytes received.\<close>

definition rb_bounds :: "recv_buf \<Rightarrow> bool" where
  "rb_bounds b \<longleftrightarrow> rb_pos b \<le> rb_len b \<and> rb_len b < 2 ^ 32 \<and> rb_len b \<le> length (rb_mem b)"

definition rb_moved :: "recv_buf \<Rightarrow> recv_buf \<Rightarrow> bool" where
  "rb_moved b c \<longleftrightarrow> rb_mem c = rb_mem b \<and> rb_len c = rb_len b \<and> (rb_bounds b \<longrightarrow> rb_bounds c)"

lemma rb_moved_trans: "rb_moved b c \<Longrightarrow> rb_moved c d \<Longrightarrow> rb_moved b d"
  by (simp add: rb_moved_def)

lemma rb_moved_refl [simp]: "rb_moved b b"
  by (simp add: rb_moved_def)

lemma rb_read_moved: "rb_read n b = Inr (bs, c) \<Longrightarrow> rb_moved b c \<and> length bs = n"
  by (auto simp: rb_read_def rb_moved_def rb_bounds_def split: if_splits)

lemma rb_string_moved: "rb_string n b = Inr (bs, c) \<Longrightarrow> rb_moved b c \<and> length bs = n"
  by (auto simp: rb_string_def rb_moved_def rb_bounds_def split: if_splits)

lemma read_size_moved: "read_size b = Inr (n, c) \<Longrightarrow> rb_moved b c \<and> n < 2 ^ 32"
  using unsigned_less [where ?'a = nat and ?'b = 32]
  by (auto simp: read_size_def dest: rb_read_moved)

lemma usn_moved:
  "usn lt t b = Inr (v, c) \<Longrightarrow> rb_moved b c"
  "usn_list lt t n b = Inr (vs, c) \<Longrightarrow> rb_moved b c"
  "usn_map lt k t n b = Inr (kvs, c) \<Longrightarrow> rb_moved b c"
  "usns lt ts b = Inr (ws, c) \<Longrightarrow> rb_moved b c"
proof (induction lt t b and lt t n b and lt k t n b and lt ts b arbitrary: v c and vs c and kvs c and ws c
    rule: usn_usn_list_usn_map_usns.induct)
  case (10 lt k t n b)
  then obtain x d y e us where r: "usn lt k b = Inr (x, d)" "usn lt t d = Inr (y, e)" "usn_map lt k t n e = Inr (us, c)" by auto
  show ?case using 10(1) [OF r(1)] 10(2) [OF r(2)] 10(3) [OF r(3)] by (auto intro: rb_moved_trans)
qed (auto dest!: rb_read_moved rb_string_moved read_size_moved intro: rb_moved_trans)

lemma wset_insert_keeps:
  "asymp lt \<Longrightarrow> transp lt \<Longrightarrow> ascending lt xs \<Longrightarrow>
   ascending lt (wset_insert lt x xs) \<and> set (wset_insert lt x xs) \<subseteq> insert x (set xs) \<and> length (wset_insert lt x xs) \<le> Suc (length xs)"
proof (induction xs)
  case (Cons y ys)
  then have ih: "ascending lt (wset_insert lt x ys)" "set (wset_insert lt x ys) \<subseteq> insert x (set ys)"
      "length (wset_insert lt x ys) \<le> Suc (length ys)" and y: "\<forall>z\<in>set ys. lt y z \<and> \<not> lt z y"
    by (auto simp: ascending_def)
  have no: "\<not> lt z x" if "lt x z" for x z using that Cons.prems(1) by (auto dest: asympD)
  show ?case
    using ih y Cons.prems(2,3) no by (auto simp: ascending_def dest: transpD)
qed (simp add: ascending_def)


lemma wmap_set_elems:
  "e \<in> set (wmap_set lt k v m) \<Longrightarrow> fst e \<in> insert k (fst ` set m) \<and> snd e \<in> insert v (snd ` set m)"
  by (induction m) (auto split: if_splits)

lemma length_wmap_set: "length (wmap_set lt k v m) \<le> Suc (length m)"
  by (induction m) auto

lemma wmap_set_ascending:
  assumes lt: "asymp lt" "transp lt"
  shows "ascending lt (map fst m) \<Longrightarrow> ascending lt (map fst (wmap_set lt k v m))"
proof (induction m)
  case (Cons e m)
  have e: "\<forall>z\<in>fst ` set m. lt (fst e) z \<and> \<not> lt z (fst e)" and m: "ascending lt (map fst m)"
    using Cons.prems by (auto simp: ascending_def)
  have no: "\<not> lt z x" if "lt x z" for x z using that lt(1) by (auto dest: asympD)
  have tr: "lt x z" if "lt x y" "lt y z" for x y z using that lt(2) by (auto dest: transpD)
  consider "lt k (fst e)" | "\<not> lt k (fst e)" "lt (fst e) k" | "\<not> lt k (fst e)" "\<not> lt (fst e) k" by blast
  then show ?case
  proof cases
    case 1
    then show ?thesis using Cons.prems no tr [OF 1] e by (simp add: ascending_def)
  next
    case 2
    have "lt (fst e) z" if "z \<in> fst ` set (wmap_set lt k v m)" for z
      using that e 2 wmap_set_elems [of _ lt k v m] by fastforce
    with 2 Cons.IH [OF m] no show ?thesis by (simp add: ascending_def)
  next
    case 3
    then show ?thesis using Cons.prems by (simp add: ascending_def)
  qed
qed (simp add: ascending_def)

lemma fold_wset_typed:
  assumes lt: "asymp lt" "transp lt"
  shows "ascending lt xs \<Longrightarrow> \<forall>v\<in>set xs \<union> set vs. has_type lt t v \<Longrightarrow> length xs + length vs < 2 ^ 32 \<Longrightarrow>
    has_type lt (WSet t) (VSet (fold (wset_insert lt) vs xs))"
proof (induction vs arbitrary: xs)
  case (Cons v vs)
  note k = wset_insert_keeps [OF lt Cons.prems(1), of v]
  show ?case using Cons.IH [of "wset_insert lt v xs"] k Cons.prems by auto
qed simp

lemma fold_wmap_typed:
  assumes lt: "asymp lt" "transp lt"
  shows "ascending lt (map fst xs) \<Longrightarrow> \<forall>e\<in>set xs \<union> set vs. has_type lt k (fst e) \<and> has_type lt t (snd e) \<Longrightarrow>
    length xs + length vs < 2 ^ 32 \<Longrightarrow> has_type lt (WMap k t) (VMap (fold (\<lambda>kv. wmap_set lt (fst kv) (snd kv)) vs xs))"
proof (induction vs arbitrary: xs)
  case (Cons v vs)
  have "\<forall>e\<in>set (wmap_set lt (fst v) (snd v) xs). has_type lt k (fst e) \<and> has_type lt t (snd e)"
    using wmap_set_elems [of _ lt "fst v" "snd v" xs] Cons.prems(2) by fastforce
  then have "\<forall>e\<in>set (wmap_set lt (fst v) (snd v) xs) \<union> set vs. has_type lt k (fst e) \<and> has_type lt t (snd e)"
    using Cons.prems(2) by (simp add: ball_Un)
  moreover have "length (wmap_set lt (fst v) (snd v) xs) + length vs < 2 ^ 32"
    using Cons.prems(3) length_wmap_set [of lt "fst v" "snd v" xs] by simp
  ultimately show ?case
    using Cons.IH [OF wmap_set_ascending [OF lt Cons.prems(1), of "fst v" "snd v"]] by simp
qed auto

text \<open>The widths that occur.\<close>

fun wt_ok :: "wt \<Rightarrow> bool" where
  "wt_ok (WInt n) \<longleftrightarrow> n \<in> {1, 2, 4, 8}"
| "wt_ok WStr \<longleftrightarrow> True"
| "wt_ok (WSeq t) \<longleftrightarrow> wt_ok t"
| "wt_ok (WSet t) \<longleftrightarrow> wt_ok t"
| "wt_ok (WMap k t) \<longleftrightarrow> wt_ok k \<and> wt_ok t"
| "wt_ok (WRec ts) \<longleftrightarrow> (\<forall>t\<in>set ts. wt_ok t)"

lemma unat_le_word: "length bs \<le> 8 \<Longrightarrow> unat (le_word bs :: u64) = le_nat bs"
proof -
  assume "length bs \<le> 8"
  then have "(256 :: nat) ^ length bs \<le> 256 ^ 8" by (intro power_increasing) auto
  with le_nat_bound [of bs] show ?thesis by (simp add: le_word_def unat_of_nat)
qed

lemma usn_typed:
  assumes lt: "asymp lt" "transp lt"
  shows "wt_ok t \<Longrightarrow> usn lt t b = Inr (v, c) \<Longrightarrow> has_type lt t v \<and> rb_moved b c"
  "wt_ok t \<Longrightarrow> usn_list lt t n b = Inr (vs, c) \<Longrightarrow> (\<forall>v\<in>set vs. has_type lt t v) \<and> length vs = n \<and> rb_moved b c"
  "wt_ok k \<Longrightarrow> wt_ok t \<Longrightarrow> usn_map lt k t n b = Inr (kvs, c) \<Longrightarrow>
     (\<forall>kv\<in>set kvs. has_type lt k (fst kv) \<and> has_type lt t (snd kv)) \<and> length kvs = n \<and> rb_moved b c"
  "\<forall>t\<in>set ts. wt_ok t \<Longrightarrow> usns lt ts b = Inr (vs, c) \<Longrightarrow> has_types lt ts vs \<and> rb_moved b c"
  using lt
proof (induction lt t b and lt t n b and lt k t n b and lt ts b arbitrary: v c and vs c and kvs c and vs c
    rule: usn_usn_list_usn_map_usns.induct)
  case (1 lt n b)
  then obtain bs where bs: "rb_read n b = Inr (bs, c)" "v = VInt (le_word bs)" by auto
  from rb_read_moved [OF bs(1)] have len: "rb_moved b c" "length bs = n" by auto
  have "unat (le_word bs :: u64) < 256 ^ n" using 1(1) len(2) le_nat_bound [of bs] by (subst unat_le_word) auto
  then show ?case using 1(1) bs(2) len by simp
next
  case (2 lt b)
  then obtain n d bs where r: "read_size b = Inr (n, d)" "rb_string n d = Inr (bs, c)" "v = VStr bs" by auto
  show ?case using read_size_moved [OF r(1)] rb_string_moved [OF r(2)] r(3) by (auto intro: rb_moved_trans)
next
  case (3 lt t b)
  then obtain n d vs where r: "read_size b = Inr (n, d)" "usn_list lt t n d = Inr (vs, c)" "v = VSeq vs" by auto
  show ?case using read_size_moved [OF r(1)] 3(1) [OF _ r(2)] 3(2,4,5) r by (auto intro: rb_moved_trans)
next
  case (4 lt t b)
  then obtain n d vs where r: "read_size b = Inr (n, d)" "usn_list lt t n d = Inr (vs, c)"
      "v = VSet (fold (wset_insert lt) vs [])" by auto
  then have vs: "\<forall>v\<in>set vs. has_type lt t v" "length vs = n" "rb_moved d c" using 4(1) [OF _ r(2)] 4(2,4,5) by auto
  have "has_type lt (WSet t) v"
    unfolding r(3) using fold_wset_typed [OF 4(4,5), of "[]" vs t] vs read_size_moved [OF r(1)]
    by (simp add: ascending_def)
  then show ?case using vs(3) read_size_moved [OF r(1)] by (auto intro: rb_moved_trans)
next
  case (5 lt k t b)
  then obtain n d kvs where r: "read_size b = Inr (n, d)" "usn_map lt k t n d = Inr (kvs, c)"
      "v = VMap (fold (\<lambda>kv. wmap_set lt (fst kv) (snd kv)) kvs [])" by auto
  then have kvs: "\<forall>e\<in>set kvs. has_type lt k (fst e) \<and> has_type lt t (snd e)" "length kvs = n" "rb_moved d c"
    using 5(1) [OF _ _ r(2)] 5(2,4,5) by auto
  have "has_type lt (WMap k t) v"
    unfolding r(3) using fold_wmap_typed [OF 5(4,5), of "[]" kvs k t] kvs read_size_moved [OF r(1)]
    by (simp add: ascending_def)
  then show ?case using kvs(3) read_size_moved [OF r(1)] by (auto intro: rb_moved_trans)
next
  case (6 lt ts b)
  then show ?case by auto
next
  case (8 lt t n b)
  then show ?case by (auto intro: rb_moved_trans)
next
  case (10 lt k t n b)
  then obtain x d y e ws where r: "usn lt k b = Inr (x, d)" "usn lt t d = Inr (y, e)" "usn_map lt k t n e = Inr (ws, c)"
      "kvs = (x, y) # ws" by auto
  have "has_type lt k x \<and> rb_moved b d" by (rule 10(1) [OF 10(4) r(1) 10(7,8)])
  moreover have "has_type lt t y \<and> rb_moved d e" by (rule 10(2) [OF 10(5) r(2) 10(7,8)])
  moreover have "(\<forall>kv\<in>set ws. has_type lt k (fst kv) \<and> has_type lt t (snd kv)) \<and> length ws = n \<and> rb_moved e c"
    by (rule 10(3) [OF 10(4,5) r(3) 10(7,8)])
  ultimately show ?case using r(4) by (auto intro: rb_moved_trans)
next
  case (12 lt t ts b)
  then show ?case by (auto intro: rb_moved_trans)
qed auto


lemma rb_at_new: "length data < 2 ^ 32 \<Longrightarrow> rb_at (new_recv_buf data stale) data"
  by (simp add: rb_at_def new_recv_buf_def)

lemma packet_head_ok: "\<forall>t\<in>set packet_head. wt_ok t"
  by (simp add: packet_head_def)

lemma has_types_append:
  "has_types lt (ts @ us) vs \<longleftrightarrow>
   has_types lt ts (take (length ts) vs) \<and> has_types lt us (drop (length ts) vs) \<and> length ts \<le> length vs"
proof (induction ts arbitrary: vs)
  case (Cons t ts)
  then show ?case by (cases vs) auto
qed (cases vs; simp)

lemma wires_append:
  "length ts \<le> length vs \<Longrightarrow> wires (ts @ us) vs = wires ts (take (length ts) vs) @ wires us (drop (length ts) vs)"
proof (induction ts arbitrary: vs)
  case (Cons t ts)
  then show ?case by (cases vs) (auto simp: wire_simps)
qed (simp add: wires_def)

text \<open>
  A message written into a send buffer that is larger than it is read back by the receiver: the packet's
  head has its number, transaction and flags, and the message every member as it was, whatever earlier packets have left in the receive buffer.
\<close>

theorem packet_roundtrip:
  assumes "has_types lt (packet_head @ ts) vs" and "length (wires (packet_head @ ts) vs) < length mem" and "length mem < 2 ^ 32"
  shows "\<exists>c b. send_packet ts vs (new_send_buf mem) = Inr c
    \<and> receive_packet lt ts (sb_data c) stale = Inr (take 3 vs, vs, b)"
proof -
  obtain c where c: "send_packet ts vs (new_send_buf mem) = Inr c" "sb_data c = wires (packet_head @ ts) vs"
    using sb_writes_ok [of "new_send_buf mem" "sns (packet_head @ ts) vs"] assms(2,3)
    by (auto simp: send_packet_def new_send_buf_def wires_def sb_data_def)
  let ?b = "new_recv_buf (sb_data c) stale"
  have b: "rb_at ?b (wires (packet_head @ ts) vs)"
    using rb_at_new [of "sb_data c" stale] c(2) assms(2,3) by simp
  have len: "length packet_head = 3" by (simp add: packet_head_def)
  have head: "has_types lt packet_head (take 3 vs)" "3 \<le> length vs"
    using assms(1) len by (simp_all only: has_types_append)
  have at: "rb_at ?b (wires packet_head (take 3 vs) @ wires ts (drop 3 vs))"
    using b len head(2) by (simp add: wires_append)
  obtain d where d: "usns lt packet_head ?b = Inr (take 3 vs, d)" using usn_wire(4) [OF head(1) at] by blast
  then have "d\<lparr>rb_pos := 0\<rparr> = ?b"
    using usn_moved(4) [OF d] by (simp add: rb_moved_def new_recv_buf_def)
  moreover obtain e where "usns lt (packet_head @ ts) ?b = Inr (vs, e)"
    using usn_wire(4) [OF assms(1), of ?b "[]"] b by auto
  ultimately show ?thesis using c(1) d by (auto simp: receive_packet_def)
qed

theorem packet_roundtrip_witness:
  "\<exists>c b. send_packet [WStr, WSeq (WInt 2)] [VInt 7, VInt 1, VInt 0, VStr [104, 105], VSeq [VInt 258, VInt 3]]
       (new_send_buf (replicate 40 0)) = Inr c
    \<and> receive_packet (\<lambda>_ _. False) [WStr, WSeq (WInt 2)] (sb_data c) [99]
      = Inr ([VInt 7, VInt 1, VInt 0], [VInt 7, VInt 1, VInt 0, VStr [104, 105], VSeq [VInt 258, VInt 3]], b)"
  using packet_roundtrip [of "\<lambda>_ _. False" "[WStr, WSeq (WInt 2)]"
      "[VInt 7, VInt 1, VInt 0, VStr [104, 105], VSeq [VInt 258, VInt 3]]" "replicate 40 0" "[99]"]
  by (simp add: packet_head_def wires_def)

text \<open>C21: whatever bytes arrive, a message that is read without an exception consists of values of its members' types:
  numbers in range, sets and map keys in ascending order without duplicates, and the position stays within the packet.
\<close>

theorem decoded_values_typed:
  assumes "asymp lt" and "transp lt" and "\<forall>t\<in>set ts. wt_ok t" and "length data < 2 ^ 32"
    and "receive_packet lt ts data stale = Inr (head, vs, b)"
  shows "has_types lt packet_head head \<and> has_types lt (packet_head @ ts) vs \<and> rb_pos b \<le> length data"
proof -
  obtain d where d: "usns lt packet_head (new_recv_buf data stale) = Inr (head, d)"
      "usns lt (packet_head @ ts) (d\<lparr>rb_pos := 0\<rparr>) = Inr (vs, b)"
    using assms(5) by (auto simp: receive_packet_def)
  have all: "\<forall>t\<in>set (packet_head @ ts). wt_ok t" using packet_head_ok assms(3) by auto
  have 1: "has_types lt packet_head head" "rb_moved (new_recv_buf data stale) d"
    using usn_typed(4) [OF assms(1,2) packet_head_ok d(1)] by auto
  have 2: "has_types lt (packet_head @ ts) vs" "rb_moved (d\<lparr>rb_pos := 0\<rparr>) b"
    using usn_typed(4) [OF assms(1,2) all d(2)] by auto
  have "rb_pos b \<le> length data"
    using 1(2) 2(2) assms(4) by (simp add: rb_moved_def rb_bounds_def new_recv_buf_def)
  with 1(1) 2(1) show ?thesis by simp
qed

theorem decoded_values_typed_witness:
  "has_types (\<lambda>x y. case (x, y) of (VInt m, VInt n) \<Rightarrow> m < n | _ \<Rightarrow> False) (packet_head @ [WSet (WInt 1)])
     [VInt 1, VInt 2, VInt 3, VSet [VInt 5, VInt 9]]"
proof -
  let ?lt = "\<lambda>x y. case (x, y) of (VInt m, VInt n) \<Rightarrow> m < n | _ \<Rightarrow> False"
  let ?d = "[1, 0, 2, 0, 0, 0, 3, 0, 0, 0, 3, 0, 0, 0, 9, 5, 9]"
  have "asymp ?lt" "transp ?lt"
    by (auto simp: asymp_on_def transp_def split: wv.splits)
  moreover have "\<exists>b. receive_packet ?lt [WSet (WInt 1)] ?d [] = Inr ([VInt 1, VInt 2, VInt 3], [VInt 1, VInt 2, VInt 3, VSet [VInt 5, VInt 9]], b)"
    by (simp add: receive_packet_def packet_head_def new_recv_buf_def rb_read_def read_size_def le_word_def usn_list_numeral)
  ultimately show ?thesis
    using decoded_values_typed [of ?lt "[WSet (WInt 1)]" ?d "[]" "[VInt 1, VInt 2, VInt 3]"] by fastforce
qed

lemma rb_read_last:
  assumes "rb_at b xs" and n: "length xs = n" "0 < n"
  shows "rb_read n b = Inr (xs, b\<lparr>rb_pos := 0\<rparr>)"
proof -
  have len: "rb_pos b + n = rb_len b" "rb_len b < 2 ^ 32" "rb_len b \<le> length (rb_mem b)" "take n (drop (rb_pos b) (rb_mem b)) = xs"
    using assms unfolding rb_at_def by auto
  then have "(rb_pos b + n) mod 2 ^ 32 = rb_len b" by simp
  with len show ?thesis by (simp add: rb_read_def)
qed

text \<open>
  Having read the last byte of a packet, the buffer starts again at the first. A message that has one member
  more than was sent, a 16-bit number, is accepted, and the missing member is the packet's own number.
\<close>

theorem truncated_packet_accepted:
  assumes "has_types lt (packet_head @ ts @ [WInt n]) vs" and "length (wires (packet_head @ ts @ [WInt n]) vs) < 2 ^ 32"
  shows "\<exists>b. receive_packet lt (ts @ [WInt n, WInt 2]) (wires (packet_head @ ts @ [WInt n]) vs) stale = Inr (take 3 vs, vs @ [vs ! 0], b)"
proof -
  let ?b = "new_recv_buf (wires (packet_head @ ts @ [WInt n]) vs) stale" and ?m = "3 + length ts"
  have len: "length packet_head = 3" by (simp add: packet_head_def)
  have types: "has_types lt packet_head (take 3 vs)" "3 \<le> length vs"
      "has_types lt (packet_head @ ts) (take ?m vs)" "has_types lt [WInt n] (drop ?m vs)"
    using assms(1) len has_types_append [of lt packet_head "ts @ [WInt n]" vs]
      has_types_append [of lt "packet_head @ ts" "[WInt n]" vs] by auto
  obtain w where w: "drop ?m vs = [VInt w]" "unat w < 256 ^ n" "0 < n"
    using types(4) by (cases "drop ?m vs" rule: list.exhaust; cases "hd (drop ?m vs)") (auto elim: has_types.elims)
  have ln: "3 + length ts \<le> length vs"
    using arg_cong [OF w(1), of length] by simp
  have at: "rb_at ?b (wires (packet_head @ ts @ [WInt n]) vs)" by (rule rb_at_new [OF assms(2)])
  have at1: "rb_at ?b (wires packet_head (take 3 vs) @ wires (ts @ [WInt n]) (drop 3 vs))"
    using at wires_append [of packet_head vs "ts @ [WInt n]"] len types(2) by simp
  have at2: "rb_at ?b (wires (packet_head @ ts) (take ?m vs) @ le_bytes n w)"
    using at wires_append [of "packet_head @ ts" vs "[WInt n]"] len ln w(1) by (simp add: wires_def)
  obtain d where d: "usns lt packet_head ?b = Inr (take 3 vs, d)" using usn_wire(4) [OF types(1) at1] by blast
  have again: "d\<lparr>rb_pos := 0\<rparr> = ?b" using usn_moved(4) [OF d] by (simp add: rb_moved_def new_recv_buf_def)
  obtain e where e: "usns lt (packet_head @ ts) ?b = Inr (take ?m vs, e)" "rb_at e (le_bytes n w)"
    using usn_wire(4) [OF types(3) at2] by blast
  have start: "e\<lparr>rb_pos := 0\<rparr> = ?b" using usn_moved(4) [OF e(1)] by (simp add: rb_moved_def new_recv_buf_def)
  have body: "usns lt (packet_head @ ts @ [WInt n]) ?b = Inr (vs, ?b)"
    using e(1) rb_read_last [OF e(2), of n] w start append_take_drop_id [of ?m vs]
    by (simp add: usns_append [of lt "packet_head @ ts" "[WInt n]", simplified] le_word_le_bytes_small)
  obtain x xs where x: "vs = x # xs" "has_type lt (WInt 2) x" using assms(1) by (cases vs) (auto simp: packet_head_def)
  obtain k where k: "x = VInt k" "unat k < 256 ^ 2" using x(2) by (cases x) auto
  have at3: "rb_at ?b (wire (WInt 2) x @ wires ([WInt 4, WInt 4] @ ts @ [WInt n]) xs)"
    using at x(1) by (simp add: packet_head_def wire_simps)
  obtain f where f: "usn lt (WInt 2) ?b = Inr (x, f)" using usn_wire(1) [OF x(2) at3] by blast
  have "usns lt (packet_head @ ts @ [WInt n, WInt 2]) ?b = Inr (vs @ [x], f)"
    using body f usns_append [of lt "packet_head @ ts @ [WInt n]" "[WInt 2]" ?b] by (simp del: usn.simps)
  then show ?thesis using d again x(1) by (auto simp: receive_packet_def)
qed

theorem truncated_packet_accepted_witness:
  "\<exists>b. receive_packet (\<lambda>_ _. False) [WInt 4, WInt 2] (wires (packet_head @ [] @ [WInt 4]) [VInt 513, VInt 0, VInt 0, VInt 9]) []
    = Inr ([VInt 513, VInt 0, VInt 0], [VInt 513, VInt 0, VInt 0, VInt 9, VInt 513], b)"
  using truncated_packet_accepted [of "\<lambda>_ _. False" "[]" 4 "[VInt 513, VInt 0, VInt 0, VInt 9]" "[]"]
  by (simp add: packet_head_def wires_def)

end
