(* ===== verification/Thread_Buffer.thy ===== *)
theory Thread_Buffer
  imports Packet
begin

text \<open>
  The registry of \<^verbatim>\<open>common/thread_buffer.h\<close>, which is to give each thread send, receive and compression buffers of
  its own, and the life of a \<open>PacketSn\<close> over such a buffer. Objects and blocks are in an explicit heap, as the point
  is who shares what with whom.
\<close>

section \<open>The buffers of a thread\<close>

datatype buffer_kind = packet_send_buffer | packet_recv_buffer | packet_compress_buffer

record thread_packet_buffer =
  tp_thread_id :: u32
  tp_buffer_array :: "buffer_kind \<Rightarrow> ptr"
  tp_buffer_length :: "buffer_kind \<Rightarrow> u32"

definition new_thread_packet_buffer :: "u32 \<Rightarrow> thread_packet_buffer" where
  "new_thread_packet_buffer tid = \<lparr>tp_thread_id = tid, tp_buffer_array = (\<lambda>_. NULL), tp_buffer_length = (\<lambda>_. 0)\<rparr>"

text \<open>The registry and the heap: objects, blocks, and the next address the allocator returns.\<close>

record buffer_manager =
  thread_buffer_vector :: "ptr list"
  bm_objects :: "ptr \<Rightarrow> thread_packet_buffer option"
  bm_blocks :: "ptr \<Rightarrow> u8 list option"
  bm_next :: ptr

definition new_buffer_manager :: buffer_manager where
  "new_buffer_manager = \<lparr>thread_buffer_vector = [], bm_objects = (\<lambda>_. None), bm_blocks = (\<lambda>_. None), bm_next = 1\<rparr>"

text \<open>The length of a new block; the product is taken in 32 bits.\<close>

definition grown_length :: "u32 \<Rightarrow> u32" where
  "grown_length maxlen = (if maxlen < 65000 then 65000 else maxlen * 150 div 100)"

text \<open>\<open>thread_packet_buffer::getThreadBuffer\<close> of the object at \<open>p\<close>.\<close>

definition tp_getThreadBuffer :: "ptr \<Rightarrow> buffer_kind \<Rightarrow> u32 \<Rightarrow> buffer_manager \<Rightarrow> (ptr \<times> u32 \<times> buffer_manager) result" where
  "tp_getThreadBuffer p ntype maxlen m =
     (case bm_objects m p of
        None \<Rightarrow> Inl Use_After_Free
      | Some t \<Rightarrow>
          (if maxlen > tp_buffer_length t ntype
           then let blocks = (bm_blocks m)(tp_buffer_array t ntype := None);
                    len = grown_length maxlen;
                    t' = t\<lparr>tp_buffer_array := (tp_buffer_array t)(ntype := bm_next m),
                           tp_buffer_length := (tp_buffer_length t)(ntype := len)\<rparr>
                in Inr (bm_next m, len,
                        m\<lparr>bm_objects := (bm_objects m)(p \<mapsto> t'),
                          bm_blocks := blocks(bm_next m \<mapsto> replicate (unat len) 0), bm_next := bm_next m + 1\<rparr>)
           else Inr (tp_buffer_array t ntype, tp_buffer_length t ntype, m)))"

section \<open>The registry\<close>

text \<open>
  Both loops over the vector test \<^verbatim>\<open>thread_id = p->_thread_id\<close>, an assignment: the first object with an id other
  than 0 is taken, and without one the thread goes on with the last id.
\<close>

fun find_assign :: "buffer_manager \<Rightarrow> ptr list \<Rightarrow> u32 \<Rightarrow> (ptr \<times> u32) result" where
  "find_assign m [] tid = Inr (NULL, tid)"
| "find_assign m (p # ps) tid =
     (case bm_objects m p of
        None \<Rightarrow> Inl Use_After_Free
      | Some t \<Rightarrow> if tp_thread_id t \<noteq> 0 then Inr (p, tp_thread_id t) else find_assign m ps (tp_thread_id t))"

definition getThreadBuffer :: "u32 \<Rightarrow> buffer_kind \<Rightarrow> u32 \<Rightarrow> buffer_manager \<Rightarrow> (ptr \<times> u32 \<times> buffer_manager) result" where
  "getThreadBuffer self ntype maxlen m =
     bind_result (find_assign m (thread_buffer_vector m) self) (\<lambda>(p, tid).
       if p = NULL
       then tp_getThreadBuffer (bm_next m) ntype maxlen
              (m\<lparr>thread_buffer_vector := thread_buffer_vector m @ [bm_next m],
                 bm_objects := (bm_objects m)(bm_next m \<mapsto> new_thread_packet_buffer tid), bm_next := bm_next m + 1\<rparr>)
       else tp_getThreadBuffer p ntype maxlen m)"

text \<open>\<open>releaseThreadBuffer\<close>, with the destructor of the object.\<close>

definition releaseThreadBuffer :: "u32 \<Rightarrow> buffer_manager \<Rightarrow> buffer_manager result" where
  "releaseThreadBuffer self m =
     bind_result (find_assign m (thread_buffer_vector m) self) (\<lambda>(p, tid).
       if p = NULL then Inr m else
       case bm_objects m p of
         None \<Rightarrow> Inl Use_After_Free
       | Some t \<Rightarrow> Inr (m\<lparr>thread_buffer_vector := remove1 p (thread_buffer_vector m), bm_objects := (bm_objects m)(p := None),
                         bm_blocks := (\<lambda>a. if a \<in> tp_buffer_array t ` {packet_send_buffer, packet_recv_buffer, packet_compress_buffer}
                                          then None else bm_blocks m a)\<rparr>))"

section \<open>A packet being written\<close>

record thread_send_buffer =
  ts_buff :: ptr
  ts_buff_pos :: nat
  ts_max_length :: u32

definition new_thread_send_buffer :: "u32 \<Rightarrow> u32 \<Rightarrow> buffer_manager \<Rightarrow> (thread_send_buffer \<times> buffer_manager) result" where
  "new_thread_send_buffer self max_len m =
     bind_result (getThreadBuffer self packet_send_buffer max_len m) (\<lambda>(a, len, m).
       Inr (\<lparr>ts_buff = a, ts_buff_pos = 0, ts_max_length = len\<rparr>, m))"

text \<open>\<open>addBuf\<close> for each piece, by \<open>sb_write\<close> on the block.\<close>

definition send_buffer_write :: "u8 list list \<Rightarrow> thread_send_buffer \<Rightarrow> buffer_manager \<Rightarrow> (thread_send_buffer \<times> buffer_manager) result" where
  "send_buffer_write pieces ps m =
     (case bm_blocks m (ts_buff ps) of
        None \<Rightarrow> Inl Use_After_Free
      | Some mem \<Rightarrow>
          bind_result (sb_writes pieces \<lparr>sb_mem = mem, sb_pos = ts_buff_pos ps, sb_max = unat (ts_max_length ps)\<rparr>) (\<lambda>b.
            Inr (ps\<lparr>ts_buff_pos := sb_pos b\<rparr>, m\<lparr>bm_blocks := (bm_blocks m)(ts_buff ps \<mapsto> sb_mem b)\<rparr>)))"

text \<open>The bytes handed to the connection: \<open>getLenth\<close> bytes from \<open>getData\<close>.\<close>

definition send_buffer_bytes :: "thread_send_buffer \<Rightarrow> buffer_manager \<Rightarrow> u8 list result" where
  "send_buffer_bytes ps m =
     (case bm_blocks m (ts_buff ps) of None \<Rightarrow> Inl Use_After_Free | Some mem \<Rightarrow> Inr (take (ts_buff_pos ps) mem))"

section \<open>Lemmas\<close>

text \<open>
  Everything in the registry is live, a block has the length noted for it, and no two buffers are the same block.
\<close>

definition buffer_ok :: "buffer_manager \<Rightarrow> thread_packet_buffer \<Rightarrow> buffer_kind \<Rightarrow> bool" where
  "buffer_ok m t k \<longleftrightarrow> tp_buffer_array t k < bm_next m \<and> tp_buffer_length t k \<le> 42949672
     \<and> (if tp_buffer_array t k = NULL then tp_buffer_length t k = 0
        else \<exists>b. bm_blocks m (tp_buffer_array t k) = Some b \<and> length b = unat (tp_buffer_length t k))"

definition bm_ok :: "buffer_manager \<Rightarrow> bool" where
  "bm_ok m \<longleftrightarrow> 0 < bm_next m \<and> distinct (thread_buffer_vector m) \<and> (\<forall>p\<in>set (thread_buffer_vector m). bm_objects m p \<noteq> None)
     \<and> (\<forall>p t. bm_objects m p = Some t \<longrightarrow> p \<noteq> NULL \<and> p < bm_next m \<and> (\<forall>k. buffer_ok m t k))
     \<and> (\<forall>p t k q u l. bm_objects m p = Some t \<longrightarrow> bm_objects m q = Some u \<longrightarrow> tp_buffer_array t k = tp_buffer_array u l
          \<longrightarrow> tp_buffer_array t k \<noteq> NULL \<longrightarrow> p = q \<and> k = l)"

lemma bm_okD:
  assumes "bm_ok m"
  shows "0 < bm_next m" and "distinct (thread_buffer_vector m)"
    and "p \<in> set (thread_buffer_vector m) \<Longrightarrow> bm_objects m p \<noteq> None"
    and "bm_objects m p = Some t \<Longrightarrow> p \<noteq> NULL \<and> p < bm_next m" and "bm_objects m p = Some t \<Longrightarrow> buffer_ok m t k"
    and "bm_objects m p = Some t \<Longrightarrow> bm_objects m q = Some u \<Longrightarrow> tp_buffer_array t k = tp_buffer_array u l
      \<Longrightarrow> tp_buffer_array t k \<noteq> NULL \<Longrightarrow> p = q \<and> k = l"
  using assms unfolding bm_ok_def by blast+

lemma new_buffer_manager_ok: "bm_ok new_buffer_manager"
  by (simp add: bm_ok_def new_buffer_manager_def)

lemma grown_length_bound: "grown_length n \<le> 42949672"
proof -
  have "unat (n * 150) div 100 \<le> (2 ^ 32 - 1) div 100"
    using unsigned_less [of "n * 150", where ?'a = nat] by (intro div_le_mono) simp
  then show ?thesis by (simp add: grown_length_def word_le_nat_alt unat_div del: unat_mult_lem)
qed

lemma tp_getThreadBuffer_ok:
  assumes ok: "bm_ok m" and p: "bm_objects m p = Some t" and r: "tp_getThreadBuffer p k n m = Inr (a, len, m')"
  shows "bm_ok m' \<and> len \<le> 42949672 \<and> (n \<noteq> 0 \<longrightarrow> (\<exists>b. bm_blocks m' a = Some b \<and> length b = unat len))"
proof (cases "tp_buffer_length t k < n")
  case False
  with p r have "m' = m" "a = tp_buffer_array t k" "len = tp_buffer_length t k" by (auto simp: tp_getThreadBuffer_def)
  then show ?thesis
    using ok bm_okD(5) [OF ok p, of k] False by (auto simp: buffer_ok_def word_gt_0 split: if_splits)
next
  case True
  let ?len = "grown_length n" and ?t = "t\<lparr>tp_buffer_array := (tp_buffer_array t)(k := bm_next m), tp_buffer_length := (tp_buffer_length t)(k := grown_length n)\<rparr>"
  from True p r have m': "a = bm_next m" "len = ?len" "m' = m\<lparr>bm_objects := (bm_objects m)(p \<mapsto> ?t),
      bm_blocks := (bm_blocks m)(tp_buffer_array t k := None, bm_next m \<mapsto> replicate (unat ?len) 0), bm_next := bm_next m + 1\<rparr>"
    by (auto simp: tp_getThreadBuffer_def Let_def)
  have other: "buffer_ok m' u l" if u: "bm_objects m q = Some u" and ne: "q \<noteq> p \<or> l \<noteq> k" for q u l
  proof -
    have "tp_buffer_array u l \<noteq> tp_buffer_array t k \<or> tp_buffer_array u l = NULL"
      using bm_okD(6) [OF ok u p, of l k] ne by blast
    then show ?thesis using bm_okD(5) [OF ok u, of l] m'(3) by (auto simp: buffer_ok_def)
  qed
  have own: "buffer_ok m' ?t l" for l
  proof (cases "l = k")
    case True
    then show ?thesis using m'(3) bm_okD(1) [OF ok] grown_length_bound [of n] by (simp add: buffer_ok_def)
  next
    case False
    then show ?thesis using other [OF p, of l] by (simp add: buffer_ok_def)
  qed
  have obj: "bm_objects m' q = (if q = p then Some ?t else bm_objects m q)" for q using m'(3) by simp
  have fresh: "tp_buffer_array u l < bm_next m" if "bm_objects m q = Some u" for q u l
    using bm_okD(5) [OF ok that, of l] by (simp add: buffer_ok_def)
  have inj: "q = r \<and> i = l" if q: "bm_objects m' q = Some u" and r: "bm_objects m' r = Some v"
    and eq: "tp_buffer_array u i = tp_buffer_array v l" and nn: "tp_buffer_array u i \<noteq> NULL" for q u i r v l
  proof -
    obtain u0 where u0: "bm_objects m q = Some u0" "tp_buffer_array u i = (if q = p \<and> i = k then bm_next m else tp_buffer_array u0 i)"
      using q p obj by (cases "q = p") auto
    obtain v0 where v0: "bm_objects m r = Some v0" "tp_buffer_array v l = (if r = p \<and> l = k then bm_next m else tp_buffer_array v0 l)"
      using r p obj by (cases "r = p") auto
    show ?thesis
      using bm_okD(6) [OF ok u0(1) v0(1), of i l] eq nn u0(2) v0(2) fresh [OF u0(1), of i] fresh [OF v0(1), of l]
      by (auto split: if_splits)
  qed
  have "bm_ok m'"
    unfolding bm_ok_def
  proof (intro conjI)
    show "\<forall>q u. bm_objects m' q = Some u \<longrightarrow> q \<noteq> NULL \<and> q < bm_next m' \<and> (\<forall>l. buffer_ok m' u l)"
    proof (intro allI impI)
      fix q u assume u: "bm_objects m' q = Some u"
      show "q \<noteq> NULL \<and> q < bm_next m' \<and> (\<forall>l. buffer_ok m' u l)"
      proof (cases "q = p")
        case True
        then show ?thesis using own u obj bm_okD(4) [OF ok p] m'(3) by auto
      next
        case False
        then have "bm_objects m q = Some u" using u obj by simp
        then show ?thesis using other [of q u] bm_okD(4) [OF ok, of q u] False by (simp add: m'(3))
      qed
    qed
    show "\<forall>p t k q u l. bm_objects m' p = Some t \<longrightarrow> bm_objects m' q = Some u \<longrightarrow> tp_buffer_array t k = tp_buffer_array u l
          \<longrightarrow> tp_buffer_array t k \<noteq> NULL \<longrightarrow> p = q \<and> k = l" using inj by blast
  qed (use bm_okD(1-3) [OF ok] m'(3) in auto)
  then show ?thesis using m' grown_length_bound [of n] by simp
qed

lemma find_assign_cases:
  assumes "\<forall>p\<in>set ps. bm_objects m p \<noteq> None"
  shows "\<exists>p tid. find_assign m ps self = Inr (p, tid) \<and> (p \<noteq> NULL \<longrightarrow> p \<in> set ps)"
  using assms
proof (induction ps arbitrary: self)
  case (Cons a ps)
  then obtain t where t: "bm_objects m a = Some t" by auto
  obtain p tid where "find_assign m ps 0 = Inr (p, tid)" "p \<noteq> NULL \<longrightarrow> p \<in> set ps"
    using Cons.IH [of 0] Cons.prems by auto
  with t show ?case by auto
qed simp

lemma getThreadBuffer_ok [invs]:
  assumes ok: "bm_ok m"
  shows "\<exists>a len m'. getThreadBuffer self k n m = Inr (a, len, m') \<and> bm_ok m' \<and> len \<le> 42949672
    \<and> (n \<noteq> 0 \<longrightarrow> (\<exists>b. bm_blocks m' a = Some b \<and> length b = unat len))"
proof -
  obtain p tid where p: "find_assign m (thread_buffer_vector m) self = Inr (p, tid)" "p \<noteq> NULL \<longrightarrow> p \<in> set (thread_buffer_vector m)"
    using find_assign_cases bm_okD(3) [OF ok] by blast
  have got: "\<exists>a len m''. tp_getThreadBuffer q k n m' = Inr (a, len, m'') \<and> bm_ok m'' \<and> len \<le> 42949672
      \<and> (n \<noteq> 0 \<longrightarrow> (\<exists>b. bm_blocks m'' a = Some b \<and> length b = unat len))"
    if m': "bm_ok m'" and q: "bm_objects m' q = Some t" for q m' t
  proof -
    obtain a len m'' where "tp_getThreadBuffer q k n m' = Inr (a, len, m'')"
      using q by (cases "n > tp_buffer_length t k") (auto simp: tp_getThreadBuffer_def Let_def)
    with tp_getThreadBuffer_ok [OF m' q this] show ?thesis by blast
  qed
  show ?thesis
  proof (cases "p = NULL")
    case False
    with p bm_okD(3) [OF ok] obtain t where "bm_objects m p = Some t" by blast
    from got [OF ok this] p(1) False show ?thesis by (simp add: getThreadBuffer_def)
  next
    case True
    let ?m = "m\<lparr>thread_buffer_vector := thread_buffer_vector m @ [bm_next m],
                 bm_objects := (bm_objects m)(bm_next m \<mapsto> new_thread_packet_buffer tid), bm_next := bm_next m + 1\<rparr>"
    have old: "q < bm_next m \<and> q \<noteq> NULL" "buffer_ok m u l" if "bm_objects m q = Some u" for q u l
      using bm_okD(4,5) [OF ok that] by auto
    have "buffer_ok ?m u l" if "bm_objects ?m q = Some u" for q u l
      using that old(2) [of q u l] by (auto simp: buffer_ok_def new_thread_packet_buffer_def split: if_splits)
    moreover have "bm_next m \<notin> set (thread_buffer_vector m)" using bm_okD(3) [OF ok, of "bm_next m"] old by blast
    moreover have "q = r \<and> i = l" if q: "bm_objects ?m q = Some u" and r: "bm_objects ?m r = Some v"
      and eq: "tp_buffer_array u i = tp_buffer_array v l" and nn: "tp_buffer_array u i \<noteq> NULL" for q u i r v l
      using that bm_okD(6) [OF ok, of q u r v i l] by (auto simp: new_thread_packet_buffer_def split: if_splits)
    moreover have "q \<noteq> NULL \<and> q < bm_next ?m" if "bm_objects ?m q = Some u" for q u
      using that old(1) [of q u] bm_okD(1) [OF ok] by (auto split: if_splits)
    moreover have "\<forall>q\<in>set (thread_buffer_vector ?m). bm_objects ?m q \<noteq> None" using bm_okD(3) [OF ok] by simp
    moreover have "0 < bm_next ?m" "distinct (thread_buffer_vector ?m) \<longleftrightarrow> bm_next m \<notin> set (thread_buffer_vector m)"
      using bm_okD(2) [OF ok] by simp_all
    ultimately have "bm_ok ?m" unfolding bm_ok_def by blast
    from got [OF this, of "bm_next m" "new_thread_packet_buffer tid"] p(1) True show ?thesis
      by (simp add: getThreadBuffer_def)
  qed
qed

lemma buffer_kinds: "tp_buffer_array t k \<in> tp_buffer_array t ` {packet_send_buffer, packet_recv_buffer, packet_compress_buffer}"
  by (cases k) auto

lemma releaseThreadBuffer_ok [invs]:
  assumes ok: "bm_ok m"
  shows "\<exists>m'. releaseThreadBuffer self m = Inr m' \<and> bm_ok m'"
proof -
  obtain p tid where p: "find_assign m (thread_buffer_vector m) self = Inr (p, tid)" "p \<noteq> NULL \<longrightarrow> p \<in> set (thread_buffer_vector m)"
    using find_assign_cases bm_okD(3) [OF ok] by blast
  show ?thesis
  proof (cases "p = NULL")
    case True
    with p(1) ok show ?thesis by (simp add: releaseThreadBuffer_def)
  next
    case False
    with p bm_okD(3) [OF ok] obtain t where t: "bm_objects m p = Some t" by blast
    let ?freed = "tp_buffer_array t ` {packet_send_buffer, packet_recv_buffer, packet_compress_buffer}"
    let ?m = "m\<lparr>thread_buffer_vector := remove1 p (thread_buffer_vector m), bm_objects := (bm_objects m)(p := None),
      bm_blocks := (\<lambda>a. if a \<in> ?freed then None else bm_blocks m a)\<rparr>"
    have "releaseThreadBuffer self m = Inr ?m"
      using p(1) False t by (simp add: releaseThreadBuffer_def)
    moreover have old: "bm_objects m q = Some u \<and> q \<noteq> p" if "bm_objects ?m q = Some u" for q u
      using that by (simp split: if_splits)
    moreover have "buffer_ok ?m u l" if "bm_objects ?m q = Some u" for q u l
    proof -
      have "tp_buffer_array u l \<notin> ?freed \<or> tp_buffer_array u l = NULL"
        using bm_okD(6) [OF ok _ t, of q u l] old [OF that] by fastforce
      then show ?thesis using bm_okD(5) [OF ok, of q u l] old [OF that] by (auto simp: buffer_ok_def)
    qed
    moreover have "\<forall>q\<in>set (thread_buffer_vector ?m). bm_objects ?m q \<noteq> None" "distinct (thread_buffer_vector ?m)" "0 < bm_next ?m"
      using bm_okD(1-3) [OF ok] by (auto dest: notin_set_remove1)
    moreover have "q \<noteq> NULL \<and> q < bm_next ?m" if "bm_objects ?m q = Some u" for q u
      using old [OF that] bm_okD(4) [OF ok] by simp
    moreover have "q = r \<and> i = l" if "bm_objects ?m q = Some u" "bm_objects ?m r = Some v"
      "tp_buffer_array u i = tp_buffer_array v l" "tp_buffer_array u i \<noteq> NULL" for q u i r v l
      using old [OF that(1)] old [OF that(2)] bm_okD(6) [OF ok _ _ that(3,4)] by blast
    ultimately have "releaseThreadBuffer self m = Inr ?m \<and> bm_ok ?m" unfolding bm_ok_def by blast
    then show ?thesis by blast
  qed
qed

lemma sb_writes_exact:
  "sb_writes ps b = Inr c \<Longrightarrow> sb_max b < 2 ^ 32 \<Longrightarrow> sb_max b \<le> length (sb_mem b) \<Longrightarrow>
   sb_pos b + length (concat ps) < sb_max b \<Longrightarrow>
   sb_pos c = sb_pos b + length (concat ps) \<and> length (sb_mem c) = length (sb_mem b)"
proof (induction ps arbitrary: b)
  case (Cons p ps)
  then obtain d where d: "sb_write p b = Inr d" "sb_writes ps d = Inr c" by auto
  obtain e where "sb_write p b = Inr e" "sb_pos e = sb_pos b + length p" "sb_max e = sb_max b" "length (sb_mem e) = length (sb_mem b)"
    using sb_write_ok [of b p] Cons.prems by auto
  then show ?case using Cons.IH [OF d(2)] d(1) Cons.prems by auto
qed simp

text \<open>A write that went through had room.\<close>

lemma sb_writes_room:
  "sb_writes ps b = Inr c \<Longrightarrow> sb_max b \<le> length (sb_mem b) \<Longrightarrow> sb_pos b < sb_max b \<Longrightarrow>
   length (concat ps) + sb_max b < 2 ^ 32 \<Longrightarrow> sb_pos b + length (concat ps) < sb_max b"
proof (induction ps arbitrary: b)
  case (Cons p ps)
  then obtain d where d: "sb_write p b = Inr d" "sb_writes ps d = Inr c" by auto
  have len: "sb_pos b + length p < sb_max b"
  proof -
    have "sb_pos b + length p < 2 ^ 32" using Cons.prems(3,4) by auto
    with d(1) show ?thesis by (simp add: sb_write_def split: if_splits)
  qed
  obtain e where "sb_write p b = Inr e" "sb_pos e = sb_pos b + length p" "sb_max e = sb_max b" "length (sb_mem e) = length (sb_mem b)"
    using sb_write_ok [OF len Cons.prems(2)] Cons.prems(4) by auto
  then show ?case using Cons.IH [OF d(2)] d(1) Cons.prems len by auto
qed simp

lemma unat_grown_length:
  assumes "unat n * 150 < 2 ^ 32"
  shows "unat (grown_length n) = (if unat n < 65000 then 65000 else unat n * 150 div 100)"
proof -
  have "unat (n * 150 div 100) = unat n * 150 div 100"
    using assms by (simp add: unat_div unat_word_ariths)
  then show ?thesis by (simp add: grown_length_def word_less_nat_alt)
qed

lemma grown_length_enough:
  "unat n * 150 < 2 ^ 32 \<Longrightarrow> n \<le> grown_length n"
  by (simp add: word_le_nat_alt unat_grown_length) arith

text \<open>A larger request gets a block that is too small.\<close>

lemma grown_length_wraps: "grown_length 28633116 < 28633116"
  by (simp add: grown_length_def)

text \<open>The first object is everybody's.\<close>

lemma find_assign_first:
  "bm_objects m p = Some t \<Longrightarrow> tp_thread_id t \<noteq> 0 \<Longrightarrow> find_assign m (p # ps) self = Inr (p, tp_thread_id t)"
  by simp

lemma getThreadBuffer_first:
  assumes "thread_buffer_vector m = p # ps" and "bm_objects m p = Some t" and "tp_thread_id t \<noteq> 0" and "p \<noteq> NULL"
  shows "getThreadBuffer self k n m = tp_getThreadBuffer p k n m"
  using assms by (simp add: getThreadBuffer_def)

text \<open>C20: the buffers are not the threads' own. After a first thread has begun a packet in a fresh registry, any other
  thread that begins one of up to 65000 bytes gets the same buffer, and what it writes is what the first thread then
  sends; one that needs more has the first thread's buffer freed.
\<close>

theorem threads_share_buffer:
  assumes "self \<noteq> 0" and "0 < n" and "n < 65000" and "length (concat p1) < 65000" and "length (concat p2) = length (concat p1)"
  shows "\<exists>a m1 a1 m2 b m3 b1 m4. new_thread_send_buffer self n new_buffer_manager = Inr (a, m1) \<and> send_buffer_write p1 a m1 = Inr (a1, m2)
    \<and> send_buffer_bytes a1 m2 = Inr (concat p1)
    \<and> new_thread_send_buffer other 65000 m2 = Inr (b, m3) \<and> send_buffer_write p2 b m3 = Inr (b1, m4)
    \<and> send_buffer_bytes a1 m4 = Inr (concat p2)
    \<and> (\<exists>c m5. new_thread_send_buffer other 65001 m2 = Inr (c, m5) \<and> send_buffer_bytes a1 m5 = Inl Use_After_Free)"
proof -
  let ?t = "\<lparr>tp_thread_id = self, tp_buffer_array = (\<lambda>_. NULL)(packet_send_buffer := Suc (Suc 0)), tp_buffer_length = (\<lambda>_. 0)(packet_send_buffer := 65000)\<rparr>"
  let ?m = "\<lambda>mem. \<lparr>thread_buffer_vector = [1], bm_objects = [1 \<mapsto> ?t], bm_blocks = [Suc (Suc 0) \<mapsto> mem], bm_next = 3\<rparr>"
  let ?z = "replicate 65000 0 :: u8 list" and ?s = "\<lambda>n. \<lparr>ts_buff = Suc (Suc 0), ts_buff_pos = n, ts_max_length = 65000\<rparr>"
  have new: "new_thread_send_buffer self n new_buffer_manager = Inr (?s 0, ?m ?z)"
    using assms(1-3) by (simp add: new_thread_send_buffer_def getThreadBuffer_def new_buffer_manager_def tp_getThreadBuffer_def
      new_thread_packet_buffer_def grown_length_def)
  have writes: "\<exists>mem'. send_buffer_write ps (?s 0) (?m mem) = Inr (?s (length (concat ps)), ?m mem')
      \<and> take (length (concat ps)) mem' = concat ps \<and> length mem' = 65000"
    if "length (concat ps) < 65000" "length mem = 65000" for ps and mem :: "u8 list"
    using sb_writes_ok [of "\<lparr>sb_mem = mem, sb_pos = 0, sb_max = 65000\<rparr>" ps]
      sb_writes_exact [of ps "\<lparr>sb_mem = mem, sb_pos = 0, sb_max = 65000\<rparr>"] that
    by (fastforce simp: send_buffer_write_def sb_data_def)
  have bytes: "send_buffer_bytes (?s i) (?m mem) = Inr (take i mem)" for i mem
    by (simp add: send_buffer_bytes_def)
  have same: "new_thread_send_buffer other 65000 (?m mem) = Inr (?s 0, ?m mem)" for mem
    using assms(1) by (simp add: new_thread_send_buffer_def getThreadBuffer_def tp_getThreadBuffer_def)
  have bigger: "\<exists>c m5. new_thread_send_buffer other 65001 (?m mem) = Inr (c, m5) \<and> send_buffer_bytes (?s i) m5 = Inl Use_After_Free" for i mem
    using assms(1) by (simp add: new_thread_send_buffer_def getThreadBuffer_def tp_getThreadBuffer_def send_buffer_bytes_def Let_def)
  obtain m1 where m1: "send_buffer_write p1 (?s 0) (?m ?z) = Inr (?s (length (concat p1)), ?m m1)"
      "take (length (concat p1)) m1 = concat p1" "length m1 = 65000"
    using writes [of p1 ?z] assms(4) by auto
  obtain m2 where m2: "send_buffer_write p2 (?s 0) (?m m1) = Inr (?s (length (concat p2)), ?m m2)"
      "take (length (concat p2)) m2 = concat p2"
    using writes [of p2 m1] assms(4,5) m1(3) by auto
  show ?thesis
    using new m1(1,2) m2 same [of m1] bigger [of m1 "length (concat p1)"] bytes assms(5)
    by (intro exI [of _ "?s 0"] exI [of _ "?m ?z"] exI [of _ "?s (length (concat p1))"] exI [of _ "?m m1"] exI [of _ "?m m2"]
        exI [of _ "?s (length (concat p2))"]) simp
qed

theorem threads_share_buffer_witness:
  "\<exists>a m1 a1 m2 b m3 b1 m4. new_thread_send_buffer 17 100 new_buffer_manager = Inr (a, m1) \<and> send_buffer_write [[1, 2], [3]] a m1 = Inr (a1, m2)
    \<and> send_buffer_bytes a1 m2 = Inr (concat [[1, 2], [3]])
    \<and> new_thread_send_buffer 23 65000 m2 = Inr (b, m3) \<and> send_buffer_write [[9, 9, 9]] b m3 = Inr (b1, m4)
    \<and> send_buffer_bytes a1 m4 = Inr (concat [[9, 9, 9]])
    \<and> (\<exists>c m5. new_thread_send_buffer 23 65001 m2 = Inr (c, m5) \<and> send_buffer_bytes a1 m5 = Inl Use_After_Free)"
  by (rule threads_share_buffer) simp_all

end
