(* ===== verification/Protoc_Common.thy ===== *)
theory Protoc_Common
  imports Thread_Buffer
begin

text \<open>
  Packing a protobuf message for the network and unpacking it (\<^verbatim>\<open>common/protoc_common.h\<close>): a flag, the name of
  the message type with its length, and the message as protobuf serialises it, in the thread's send buffer and out
  of its receive buffer. The generated message classes are not part of the sources read here. \<open>name\<close>, \<open>ser\<close> and
  \<open>types\<close> are what the code uses of them: \<^verbatim>\<open>GetTypeName\<close>, \<^verbatim>\<open>SerializeToArray\<close>, and the lookup of a type by its name
  followed by \<^verbatim>\<open>ParseFromArray\<close>.
\<close>

section \<open>Sending\<close>

text \<open>\<open>SerializeToArray\<close> to \<open>getBegin\<close>, then \<open>addWriteLen\<close> with its assertion.\<close>

definition send_buffer_append :: "u8 list \<Rightarrow> thread_send_buffer \<Rightarrow> buffer_manager \<Rightarrow> (thread_send_buffer \<times> buffer_manager) result" where
  "send_buffer_append bs p m =
     (case bm_blocks m (ts_buff p) of
        None \<Rightarrow> Inl Use_After_Free
      | Some mem \<Rightarrow>
          if ts_buff_pos p + length bs \<ge> unat (ts_max_length p) then Inl Assert_Failed
          else Inr (p\<lparr>ts_buff_pos := ts_buff_pos p + length bs\<rparr>,
                    m\<lparr>bm_blocks := (bm_blocks m)(ts_buff p \<mapsto>
                        take (ts_buff_pos p) mem @ bs @ drop (ts_buff_pos p + length bs) mem)\<rparr>))"

text \<open>
  \<open>pushProtocMessage\<close>: what is handed to the send method, if anything. The space asked for leaves out the flag.
\<close>

definition pushProtocMessage ::
  "('m \<Rightarrow> u8 list) \<Rightarrow> ('m \<Rightarrow> u8 list) \<Rightarrow> u32 \<Rightarrow> 'm option \<Rightarrow> u32 \<Rightarrow> buffer_manager \<Rightarrow> (u8 list option \<times> buffer_manager) result" where
  "pushProtocMessage name ser self msg flag m =
     (case msg of
        None \<Rightarrow> Inr (None, m)
      | Some msg \<Rightarrow>
          let name_len = word_of_nat (length (name msg)) :: u32;
              max_len = 4 + name_len + word_of_nat (length (ser msg))
          in bind_result (new_thread_send_buffer self max_len m) (\<lambda>(p, m).
             bind_result (send_buffer_write [le_bytes 4 flag, le_bytes 4 name_len, name msg] p m) (\<lambda>(p, m).
               if length (ser msg) > unat (ts_max_length p) - ts_buff_pos p then Inr (None, m)
               else bind_result (send_buffer_append (ser msg) p m) (\<lambda>(p, m).
                    bind_result (send_buffer_bytes p m) (\<lambda>bytes. Inr (Some bytes, m))))))"

section \<open>Receiving\<close>

text \<open>The constructor of \<open>thread_recv_buffer\<close> copies the bytes into the thread's block.\<close>

definition new_thread_recv_buffer :: "u32 \<Rightarrow> u8 list \<Rightarrow> buffer_manager \<Rightarrow> (recv_buf \<times> buffer_manager) result" where
  "new_thread_recv_buffer self data m =
     bind_result (getThreadBuffer self packet_recv_buffer (word_of_nat (length data) + 1) m) (\<lambda>(a, len, m).
       case bm_blocks m a of
         None \<Rightarrow> Inl Use_After_Free
       | Some mem \<Rightarrow>
           if length data > length mem then Inl Out_Of_Range
           else let b = new_recv_buf data (drop (length data) mem)
                in Inr (b, m\<lparr>bm_blocks := (bm_blocks m)(a \<mapsto> rb_mem b)\<rparr>))"

type_synonym 'm finder = "u8 list \<Rightarrow> (u8 list \<Rightarrow> 'm option) option"

text \<open>\<open>parseProtocmessage\<close>: the message and flag the callback is called with, if it is.\<close>

definition read_message :: "'m finder \<Rightarrow> recv_buf \<Rightarrow> ('m \<times> u32) option result" where
  "read_message types b =
     bind_result (rb_read 4 b) (\<lambda>(flag, b).
     bind_result (read_size b) (\<lambda>(name_len, b).
       if name_len > rb_len b \<or> name_len = 0 then Inr None
       else bind_result (rb_string name_len b) (\<lambda>(name, b).
         case types name of
           None \<Rightarrow> Inr None
         | Some parse \<Rightarrow>
             (case parse (take (rb_len b - rb_pos b) (drop (rb_pos b) (rb_mem b))) of
                None \<Rightarrow> Inr None
              | Some msg \<Rightarrow> Inr (Some (msg, le_word flag))))))"

definition parseProtocmessage ::
  "'m finder \<Rightarrow> u32 \<Rightarrow> u8 list \<Rightarrow> buffer_manager \<Rightarrow> (('m \<times> u32) option \<times> buffer_manager) result" where
  "parseProtocmessage types self data m =
     (if data = [] then Inr (None, m)
      else bind_result (new_thread_recv_buffer self data m) (\<lambda>(b, m).
           bind_result (read_message types b) (\<lambda>r. Inr (r, m))))"

section \<open>Dispatch\<close>

text \<open>
  \<open>ProtocMsgBase\<close>: the static tables of a class that receives messages, and the object's pointer to its user. The
  handlers are of a type of their own, \<^typ>\<open>'f\<close>; what is called is the result.
\<close>

record 'f protoc_table =
  static_call_back_funs :: "(u8 list, 'f option) omap"
  static_default_pb_function :: "'f option"
  static_send_function :: bool

definition registerCBFun :: "u8 list \<Rightarrow> 'f option \<Rightarrow> 'f protoc_table \<Rightarrow> 'f protoc_table" where
  "registerCBFun str fun t = t\<lparr>static_call_back_funs := om_insert str fun (static_call_back_funs t)\<rparr>"

definition registerSDFun :: "bool \<Rightarrow> 'f option \<Rightarrow> 'f protoc_table \<Rightarrow> 'f protoc_table" where
  "registerSDFun fun defFun t = t\<lparr>static_send_function := fun, static_default_pb_function := defFun\<rparr>"

definition callPBCBFun :: "bool \<Rightarrow> u8 list \<Rightarrow> 'f protoc_table \<Rightarrow> 'f option" where
  "callPBCBFun user name t =
     (if \<not> user then None
      else case om_find (static_call_back_funs t) name of
             Some (Some f) \<Rightarrow> Some f
           | _ \<Rightarrow> static_default_pb_function t)"

definition sendPBMessage ::
  "('m \<Rightarrow> u8 list) \<Rightarrow> ('m \<Rightarrow> u8 list) \<Rightarrow> bool \<Rightarrow> 'f protoc_table \<Rightarrow> u32 \<Rightarrow> 'm option \<Rightarrow> u32 \<Rightarrow> buffer_manager
   \<Rightarrow> (bool \<times> u8 list option \<times> buffer_manager) result" where
  "sendPBMessage name ser user t self msg flag m =
     bind_result (pushProtocMessage name ser self msg flag m) (\<lambda>(sent, m).
       Inr (sent \<noteq> None, if user \<and> static_send_function t then sent else None, m))"

definition parsePBMessage ::
  "('m \<Rightarrow> u8 list) \<Rightarrow> 'm finder \<Rightarrow> bool \<Rightarrow> 'f protoc_table \<Rightarrow> u32 \<Rightarrow> u8 list \<Rightarrow> buffer_manager
   \<Rightarrow> (bool \<times> ('f \<times> 'm \<times> u32) option \<times> buffer_manager) result" where
  "parsePBMessage name types user t self data m =
     bind_result (parseProtocmessage types self data m) (\<lambda>(r, m).
       Inr (case r of
              None \<Rightarrow> (False, None, m)
            | Some (msg, flag) \<Rightarrow> (True, map_option (\<lambda>f. (f, msg, flag)) (callPBCBFun user (name msg) t), m)))"

section \<open>Lemmas\<close>

lemma grown_length_pos: "0 < n \<Longrightarrow> unat n * 150 < 2 ^ 32 \<Longrightarrow> 0 < grown_length n"
  using grown_length_enough [of n] by (simp add: word_le_nat_alt word_less_nat_alt)

lemma getThreadBuffer_len:
  assumes "getThreadBuffer self k n m = Inr (a, len, m')" and "unat n * 150 < 2 ^ 32"
  shows "n \<le> len"
proof -
  have tp: "n \<le> len" if "tp_getThreadBuffer p k n m1 = Inr (a, len, m')" for p m1
    using that grown_length_enough [OF assms(2)]
    by (auto simp: tp_getThreadBuffer_def Let_def split: option.splits if_splits)
  show ?thesis using assms(1) by (auto simp: getThreadBuffer_def split: if_splits intro: tp)
qed

lemma rb_string_rest:
  assumes at: "rb_at b (xs @ rest)" and "xs \<noteq> []"
  shows "\<exists>c. rb_string (length xs) b = Inr (xs, c) \<and> take (rb_len c - rb_pos c) (drop (rb_pos c) (rb_mem c)) = rest"
proof -
  let ?p = "rb_pos b"
  have len: "?p + (length xs + length rest) = rb_len b" "rb_len b < 2 ^ 32" "rb_len b \<le> length (rb_mem b)"
    and bytes: "take (length xs + length rest) (drop ?p (rb_mem b)) = xs @ rest"
    using at assms(2) unfolding rb_at_def by simp_all
  note parts = take_append_drop [OF bytes]
  have "(?p + length xs) mod 2 ^ 32 = ?p + length xs" using len by (intro mod_less) linarith
  then have "rb_string (length xs) b = Inr (xs, b\<lparr>rb_pos := ?p + length xs\<rparr>)"
    using len parts by (simp add: rb_string_def)
  moreover have "rb_len b - (?p + length xs) = length rest" using len(1) by linarith
  ultimately show ?thesis using parts by (simp add: ac_simps)
qed

text \<open>The bytes of a message on the connection.\<close>

definition pb_frame :: "u32 \<Rightarrow> u8 list \<Rightarrow> u8 list \<Rightarrow> u8 list" where
  "pb_frame flag name body = le_bytes 4 flag @ le_bytes 4 (word_of_nat (length name) :: u32) @ name @ body"

lemma send_buffer_write_ok:
  assumes "bm_blocks m (ts_buff p) = Some mem" and "length mem = unat (ts_max_length p)"
    and "ts_buff_pos p + length (concat ps) < unat (ts_max_length p)"
  shows "\<exists>mem'. send_buffer_write ps p m =
      Inr (p\<lparr>ts_buff_pos := ts_buff_pos p + length (concat ps)\<rparr>, m\<lparr>bm_blocks := (bm_blocks m)(ts_buff p \<mapsto> mem')\<rparr>)
    \<and> length mem' = length mem \<and> take (ts_buff_pos p + length (concat ps)) mem' = take (ts_buff_pos p) mem @ concat ps"
proof -
  let ?b = "\<lparr>sb_mem = mem, sb_pos = ts_buff_pos p, sb_max = unat (ts_max_length p)\<rparr>"
  have L: "unat (ts_max_length p) < 2 ^ 32" using unsigned_less [of "ts_max_length p"] by simp
  obtain c where c: "sb_writes ps ?b = Inr c" "sb_data c = sb_data ?b @ concat ps"
    using sb_writes_ok [of ?b ps] assms L by auto
  have "sb_pos c = ts_buff_pos p + length (concat ps) \<and> length (sb_mem c) = length mem"
    using sb_writes_exact [OF c(1)] assms L by simp
  with c assms(1) show ?thesis by (auto simp: send_buffer_write_def sb_data_def)
qed

text \<open>What becomes of a message depends on its length \<open>t\<close> with the flag and on the length of the buffer.\<close>

abbreviation push_request :: "('m \<Rightarrow> u8 list) \<Rightarrow> ('m \<Rightarrow> u8 list) \<Rightarrow> 'm \<Rightarrow> u32" where
  "push_request name ser msg \<equiv> 4 + word_of_nat (length (name msg)) + word_of_nat (length (ser msg))"

lemma push_by_length:
  assumes p: "new_thread_send_buffer self (push_request name ser msg) m = Inr (p, m1)"
    and mem: "bm_blocks m1 (ts_buff p) = Some mem" "length mem = unat (ts_max_length p)" "ts_buff_pos p = 0"
    and len: "t = 8 + length (name msg) + length (ser msg)" "L = unat (ts_max_length p)" "8 + length (name msg) < L"
  shows "map_sum id fst (pushProtocMessage name ser self (Some msg) flag m) =
    (if t = L then Inl Assert_Failed else if t > L then Inr None else Inr (Some (pb_frame flag (name msg) (ser msg))))"
proof -
  let ?n = "name msg" and ?s = "ser msg"
  let ?nl = "word_of_nat (length ?n) :: u32"
  let ?head = "[le_bytes 4 flag, le_bytes 4 ?nl, ?n]"
  let ?q = "p\<lparr>ts_buff_pos := 8 + length ?n\<rparr>"
  obtain mem' where w: "send_buffer_write ?head p m1 = Inr (?q, m1\<lparr>bm_blocks := (bm_blocks m1)(ts_buff p \<mapsto> mem')\<rparr>)"
      "length mem' = length mem" "take (8 + length ?n) mem' = concat ?head"
    using send_buffer_write_ok [OF mem(1,2), of ?head] mem(3) len(2,3) by auto
  have bytes: "take (8 + length ?n) mem' @ ?s = pb_frame flag ?n ?s" using w(3) by (simp add: pb_frame_def)
  have lm: "length mem' = L" using w(2) mem(2) len(2) by simp
  show ?thesis
    using p w(1) len lm bytes
    by (auto simp: pushProtocMessage_def Let_def send_buffer_append_def send_buffer_bytes_def)
qed

lemma unat_push_request:
  "4 + length (name msg) + length (ser msg) < 2 ^ 32 \<Longrightarrow>
   unat (push_request name ser msg) = 4 + length (name msg) + length (ser msg)"
proof -
  assume a: "4 + length (name msg) + length (ser msg) < 2 ^ 32"
  have "push_request name ser msg = word_of_nat (4 + length (name msg) + length (ser msg))" by simp
  moreover have "unat (word_of_nat (4 + length (name msg) + length (ser msg)) :: u32) = 4 + length (name msg) + length (ser msg)"
    by (subst unat_of_nat) (use a in simp)
  ultimately show ?thesis by simp
qed

lemma new_send_buffer_ok:
  assumes "bm_ok m" and "n \<noteq> 0"
  shows "\<exists>p m1 mem. new_thread_send_buffer self n m = Inr (p, m1) \<and> bm_ok m1 \<and> bm_blocks m1 (ts_buff p) = Some mem
    \<and> length mem = unat (ts_max_length p) \<and> ts_buff_pos p = 0 \<and> ts_max_length p \<le> 42949672"
  using getThreadBuffer_ok [OF assms(1), of self packet_send_buffer n] assms(2)
  by (auto simp: new_thread_send_buffer_def)

lemma push_fresh:
  assumes "n = 4 + length (name msg) + length (ser msg)" and "n < 28633115" and "length (name msg) < 60000"
  shows "map_sum id fst (pushProtocMessage name ser self (Some msg) flag new_buffer_manager) =
    (if n = 64996 then Inl Assert_Failed
     else if n \<in> {64997, 64998, 64999} then Inr None
     else Inr (Some (pb_frame flag (name msg) (ser msg))))"
proof -
  let ?r = "push_request name ser msg"
  have r: "unat ?r = n" using unat_push_request [of name msg ser] assms(1,2) by simp
  then have "?r \<noteq> 0" using assms(1) by (metis unat_0 add_is_0 zero_neq_numeral)
  then obtain p m1 mem where p: "new_thread_send_buffer self ?r new_buffer_manager = Inr (p, m1)"
      "bm_blocks m1 (ts_buff p) = Some mem" "length mem = unat (ts_max_length p)" "ts_buff_pos p = 0"
    using new_send_buffer_ok [OF new_buffer_manager_ok] by blast
  have "ts_max_length p = grown_length ?r"
    using p(1) \<open>?r \<noteq> 0\<close>
    by (auto simp: new_thread_send_buffer_def getThreadBuffer_def new_buffer_manager_def tp_getThreadBuffer_def
        new_thread_packet_buffer_def Let_def word_gt_0)
  then have L: "unat (ts_max_length p) = (if n < 65000 then 65000 else n * 150 div 100)"
    using unat_grown_length [of ?r] r assms(2) by simp
  have "65000 \<le> unat (ts_max_length p)" unfolding L by simp arith
  then have "8 + length (name msg) < unat (ts_max_length p)" using assms(3) by simp
  from push_by_length [where name = name and ser = ser and msg = msg, OF p refl refl this, of flag] show ?thesis
    using assms(1) L by auto
qed


text \<open>C11: the space asked for leaves out the four bytes of the flag. In a fresh registry the messages whose length with
  name and name length is 64997 to 64999 are not sent, the one of 64996 fails the assertion in \<open>addWriteLen\<close>, and
  all others up to 28 million bytes are handed to the send method as flag, length, name and body.
\<close>

theorem push_skips_gap:
  assumes "n = 4 + length (name msg) + length (ser msg)" and "n < 28633115" and "length (name msg) < 60000"
  shows "map_sum id fst (pushProtocMessage name ser self (Some msg) flag new_buffer_manager) =
    (if n = 64996 then Inl Assert_Failed
     else if n \<in> {64997, 64998, 64999} then Inr None
     else Inr (Some (pb_frame flag (name msg) (ser msg))))"
  by (rule push_fresh [where name = name and msg = msg and ser = ser, OF assms])

theorem push_skips_gap_witness:
  "map_sum id fst (pushProtocMessage (\<lambda>_. [65]) (\<lambda>_. replicate 64992 0) 17 (Some ()) 5 new_buffer_manager) = Inr None"
  using push_skips_gap [of 64997 "\<lambda>_. [65]" "()" "\<lambda>_. replicate 64992 0" 17 5] by simp

lemma send_buffer_write_room:
  assumes "send_buffer_write ps p m = Inr (q, m')" and "bm_blocks m (ts_buff p) = Some mem"
    and "length mem = unat (ts_max_length p)" and "ts_buff_pos p < unat (ts_max_length p)" and "ts_max_length p \<le> 42949672"
    and "length (concat ps) < 2 ^ 31"
  shows "ts_buff_pos p + length (concat ps) < unat (ts_max_length p)"
proof -
  let ?b = "\<lparr>sb_mem = mem, sb_pos = ts_buff_pos p, sb_max = unat (ts_max_length p)\<rparr>"
  obtain c where "sb_writes ps ?b = Inr c" using assms(1,2) by (auto simp: send_buffer_write_def)
  then show ?thesis using sb_writes_room [of ps ?b c] assms(3-6) by (simp add: word_le_nat_alt)
qed

lemma push_frame:
  assumes ok: "bm_ok m" and len: "4 + length (name msg) + length (ser msg) < 28633115"
    and sent: "pushProtocMessage name ser self (Some msg) flag m = Inr (Some bytes, m')"
  shows "bytes = pb_frame flag (name msg) (ser msg)"
proof -
  let ?r = "push_request name ser msg"
  have r: "unat ?r = 4 + length (name msg) + length (ser msg)" using unat_push_request [of name msg ser] len by simp
  then have "?r \<noteq> 0" by (metis unat_0 add_is_0 zero_neq_numeral)
  then obtain p m1 mem where p: "new_thread_send_buffer self ?r m = Inr (p, m1)"
      "bm_blocks m1 (ts_buff p) = Some mem" "length mem = unat (ts_max_length p)" "ts_buff_pos p = 0" "ts_max_length p \<le> 42949672"
    using new_send_buffer_ok [OF ok] by blast
  let ?head = "[le_bytes 4 flag, le_bytes 4 (word_of_nat (length (name msg)) :: u32), name msg]"
  obtain q m2 where "send_buffer_write ?head p m1 = Inr (q, m2)"
    using sent p(1) by (auto simp: pushProtocMessage_def Let_def)
  moreover have "?r \<le> ts_max_length p"
    using p(1) getThreadBuffer_len [of self packet_send_buffer ?r m] r len by (auto simp: new_thread_send_buffer_def)
  then have "0 < unat (ts_max_length p)" using r by (simp add: word_le_nat_alt)
  ultimately have "8 + length (name msg) < unat (ts_max_length p)"
    using send_buffer_write_room [of ?head p m1 q m2, OF _ p(2,3) _ p(5)] p(4) len by simp
  from push_by_length [where name = name and ser = ser and msg = msg, OF p(1-4) refl refl this, of flag]
  show ?thesis using sent by (auto split: if_splits)
qed

text \<open>Writing to a block leaves the registry as it is.\<close>

lemma write_block_ok:
  assumes "bm_ok m" and "bm_blocks m a = Some b" and "length b' = length b"
  shows "bm_ok (m\<lparr>bm_blocks := (bm_blocks m)(a \<mapsto> b')\<rparr>)"
proof -
  have "buffer_ok (m\<lparr>bm_blocks := (bm_blocks m)(a \<mapsto> b')\<rparr>) t k" if "bm_objects m p = Some t" for p t k
    using bm_okD(5) [OF assms(1) that, of k] assms(2,3) by (auto simp: buffer_ok_def)
  then show ?thesis using assms(1) unfolding bm_ok_def by auto
qed

lemma recv_buffer_ok:
  assumes ok: "bm_ok m" and len: "length data + 1 < 28633115"
  shows "\<exists>stale m'. new_thread_recv_buffer self data m = Inr (new_recv_buf data stale, m') \<and> bm_ok m'"
proof -
  let ?n = "word_of_nat (length data) + 1 :: u32"
  have "?n = word_of_nat (length data + 1)" by simp
  then have n: "unat ?n = length data + 1" by (simp only: unat_of_nat) (use len in simp)
  then have "?n \<noteq> 0" by (metis unat_0 add_is_0 one_neq_zero)
  obtain a L m1 mem where g: "getThreadBuffer self packet_recv_buffer ?n m = Inr (a, L, m1)" "bm_ok m1"
      "bm_blocks m1 a = Some mem" "length mem = unat L"
    using getThreadBuffer_ok [OF ok, of self packet_recv_buffer ?n] \<open>?n \<noteq> 0\<close> by blast
  have "?n \<le> L" using getThreadBuffer_len [OF g(1)] n len by simp
  then have fits: "length data \<le> length mem" using n g(4) by (simp add: word_le_nat_alt)
  let ?b = "new_recv_buf data (drop (length data) mem)"
  have "length (rb_mem ?b) = length mem" using fits by (simp add: new_recv_buf_def)
  from write_block_ok [OF g(2,3) this] g fits show ?thesis by (auto simp: new_thread_recv_buffer_def Let_def)
qed

lemma parse_pb_frame:
  assumes "bm_ok m" and "name msg \<noteq> []" and "8 + length (name msg) + length (ser msg) < 28633114"
    and "types (name msg) = Some parse" and "parse (ser msg) = Some msg"
  shows "\<exists>m'. parseProtocmessage types self (pb_frame flag (name msg) (ser msg)) m = Inr (Some (msg, flag), m') \<and> bm_ok m'"
proof -
  let ?d = "pb_frame flag (name msg) (ser msg)" and ?nl = "word_of_nat (length (name msg)) :: u32"
  have ln: "length ?d = 8 + length (name msg) + length (ser msg)" by (simp add: pb_frame_def)
  obtain stale m' where b: "new_thread_recv_buffer self ?d m = Inr (new_recv_buf ?d stale, m')" "bm_ok m'"
    using recv_buffer_ok [OF assms(1), of ?d self] ln assms(3) by auto
  have at: "rb_at (new_recv_buf ?d stale) (le_bytes 4 flag @ le_bytes 4 ?nl @ name msg @ ser msg)"
    using rb_at_new [of ?d stale] ln assms(3) by (simp add: pb_frame_def)
  obtain c where c: "rb_read 4 (new_recv_buf ?d stale) = Inr (le_bytes 4 flag, c)" "rb_at c (le_bytes 4 ?nl @ name msg @ ser msg)"
    using rb_read_at [OF at] by auto
  obtain e where e: "read_size c = Inr (length (name msg), e)" "rb_at e (name msg @ ser msg)"
    using read_size_at [OF c(2)] assms(3) by auto
  obtain f where f: "rb_string (length (name msg)) e = Inr (name msg, f)" "take (rb_len f - rb_pos f) (drop (rb_pos f) (rb_mem f)) = ser msg"
    using rb_string_rest [OF e(2) assms(2)] by blast
  have "rb_len e = length ?d"
    using read_size_moved [OF e(1)] rb_read_moved [OF c(1)] by (simp add: rb_moved_def new_recv_buf_def)
  then have "read_message types (new_recv_buf ?d stale) = Inr (Some (msg, flag))"
    using c(1) e(1) f assms(2,4,5) ln by (simp add: read_message_def)
  moreover have "?d \<noteq> []" using ln by auto
  ultimately show ?thesis using b by (simp add: parseProtocmessage_def)
qed

text \<open>a message that is sent is received: the bytes handed to the send method, arriving at any process in one piece,
  give its callback the same message and the same flag, provided that protobuf knows the type and parses what it
  serialises, whatever both processes have sent and received before.
\<close>

theorem protoc_roundtrip:
  assumes "bm_ok m" and "name msg \<noteq> []" and "8 + length (name msg) + length (ser msg) < 28633114"
    and "types (name msg) = Some parse" and "parse (ser msg) = Some msg"
    and "bm_ok s" and "pushProtocMessage name ser sender (Some msg) flag s = Inr (Some bytes, s')"
  shows "\<exists>m'. parseProtocmessage types self bytes m = Inr (Some (msg, flag), m')"
proof -
  have "bytes = pb_frame flag (name msg) (ser msg)" using push_frame [OF assms(6) _ assms(7)] assms(3) by simp
  with parse_pb_frame [where name = name and ser = ser and msg = msg and types = types and parse = parse, OF assms(1-5)] show ?thesis by blast
qed

theorem protoc_roundtrip_witness:
  "\<exists>bytes s' m'. pushProtocMessage (\<lambda>_. [65]) (\<lambda>n. [n, 0]) 17 (Some 7) 5 new_buffer_manager = Inr (Some bytes, s')
    \<and> parseProtocmessage (\<lambda>t. if t = [65] then Some (\<lambda>b. if length b = 2 then Some (b ! 0) else None) else None)
        23 bytes new_buffer_manager = Inr (Some (7, 5), m')"
proof -
  have "map_sum id fst (pushProtocMessage (\<lambda>_. [65]) (\<lambda>n. [n, 0]) 17 (Some 7) 5 new_buffer_manager)
      = Inr (Some (pb_frame 5 [65] [7, 0]))"
    using push_fresh [of 7 "\<lambda>_. [65]" 7 "\<lambda>n. [n, 0]" 17 5] by simp
  then obtain bytes s' where "pushProtocMessage (\<lambda>_. [65]) (\<lambda>n. [n, 0]) 17 (Some 7) 5 new_buffer_manager = Inr (Some bytes, s')"
    by (cases "pushProtocMessage (\<lambda>_. [65]) (\<lambda>n. [n, 0]) 17 (Some (7 :: u8)) 5 new_buffer_manager") auto
  with protoc_roundtrip [OF new_buffer_manager_ok _ _ _ _ new_buffer_manager_ok this,
      of "\<lambda>t. if t = [65] then Some (\<lambda>b. if length b = 2 then Some (b ! 0) else None) else None"
         "\<lambda>b. if length b = 2 then Some (b ! 0) else None" 23]
  show ?thesis by auto
qed

text \<open>C12: the length of the name is checked against the whole packet only. When it exceeds the bytes that are left, the receiving process
  fails an assertion or reads outside its buffer, before anything about the message is known, provided that there are any bytes left. When
  none are left, as in a packet of 8 bytes, reading has gone back to the beginning of the packet: nothing fails, and the flag and the
  length are read once more, as the name and the body of a message.
\<close>

theorem long_name_faults:
  assumes "bm_ok m" and "data = le_bytes 4 (flag :: u32) @ le_bytes 4 (n :: u32) @ rest"
    and "length rest < unat n" and "unat n \<le> length data" and "length data < 28633114"
  shows "if rest = []
    then \<exists>m'. parseProtocmessage types self data m
        = Inr (case types (take (unat n) data) of
                 None \<Rightarrow> None | Some parse \<Rightarrow> map_option (\<lambda>msg. (msg, flag)) (parse (drop (unat n) data)), m')
    else \<exists>e. parseProtocmessage types self data m = Inl e \<and> e \<in> {Assert_Failed, Out_Of_Range}"
proof -
  obtain stale m' where b: "new_thread_recv_buffer self data m = Inr (new_recv_buf data stale, m')"
    using recv_buffer_ok [OF assms(1), of data self] assms(5) by auto
  let ?b = "new_recv_buf data stale"
  have ln: "length data = 8 + length rest" using assms(2) by simp
  have flag: "rb_read 4 ?b = Inr (le_bytes 4 flag, ?b\<lparr>rb_pos := 4\<rparr>)"
    using assms(2,5) by (simp add: rb_read_def new_recv_buf_def)
  have nm: "read_size (?b\<lparr>rb_pos := 4\<rparr>) = Inr (unat n, ?b\<lparr>rb_pos := if rest = [] then 0 else 8\<rparr>)"
    using assms(2,5) by (simp add: read_size_def rb_read_def new_recv_buf_def)
  have len: "rb_len (?b\<lparr>rb_pos := p\<rparr>) = length data" for p by (simp add: new_recv_buf_def)
  have data: "data \<noteq> []" using ln by auto
  show ?thesis
  proof (cases "rest = []")
    case True
    then have "rb_string (unat n) (?b\<lparr>rb_pos := 0\<rparr>) = Inr (take (unat n) data, ?b\<lparr>rb_pos := unat n\<rparr>)"
      using assms(4) ln by (simp add: rb_string_def new_recv_buf_def)
    moreover have "take (length data - unat n) (drop (unat n) (data @ stale)) = drop (unat n) data" using assms(4) by simp
    ultimately have "read_message types ?b = Inr (case types (take (unat n) data) of
        None \<Rightarrow> None | Some parse \<Rightarrow> map_option (\<lambda>msg. (msg, flag)) (parse (drop (unat n) data)))"
      using flag nm True assms(3,4) len [of 0]
      by (simp add: read_message_def new_recv_buf_def split: option.split)
    with True b data show ?thesis by (simp add: parseProtocmessage_def)
  next
    case False
    have "(8 + unat n) mod 2 ^ 32 = 8 + unat n" using assms(4,5) by (intro mod_less) simp
    then have "\<exists>e. rb_string (unat n) (?b\<lparr>rb_pos := 8\<rparr>) = Inl e \<and> e \<in> {Assert_Failed, Out_Of_Range}"
      using assms(3) ln by (simp add: rb_string_def new_recv_buf_def)
    then obtain e where "rb_string (unat n) (?b\<lparr>rb_pos := 8\<rparr>) = Inl e" "e \<in> {Assert_Failed, Out_Of_Range}" by blast
    with False flag nm len [of 8] b data assms(3,4) show ?thesis by (auto simp: parseProtocmessage_def read_message_def)
  qed
qed

theorem long_name_faults_witness:
  "(\<exists>e. parseProtocmessage (\<lambda>_. Some Some) 23 [5, 0, 0, 0, 9, 0, 0, 0, 65] new_buffer_manager = Inl e
      \<and> e \<in> {Assert_Failed, Out_Of_Range})
   \<and> (\<exists>m'. parseProtocmessage (\<lambda>_. Some Some) 23 [5, 0, 0, 0, 3, 0, 0, 0] new_buffer_manager = Inr (Some ([0, 3, 0, 0, 0], 5), m'))"
proof -
  have four: "[0..<4] = [0, 1, 2, 3]" by (simp add: upt_rec)
  have le: "le_bytes 4 (5 :: u32) = [5, 0, 0, 0]" "le_bytes 4 (9 :: u32) = [9, 0, 0, 0]" "le_bytes 4 (3 :: u32) = [3, 0, 0, 0]"
    by (simp_all add: le_bytes_def four)
  have "\<exists>e. parseProtocmessage (\<lambda>_. Some Some) 23 [5, 0, 0, 0, 9, 0, 0, 0, 65] new_buffer_manager = Inl e
      \<and> e \<in> {Assert_Failed, Out_Of_Range}"
    using long_name_faults [OF new_buffer_manager_ok, of "[5, 0, 0, 0, 9, 0, 0, 0, 65]" 5 9 "[65]" "\<lambda>_. Some Some" 23] le by simp
  moreover have "\<exists>m'. parseProtocmessage (\<lambda>_. Some Some) 23 [5, 0, 0, 0, 3, 0, 0, 0] new_buffer_manager = Inr (Some ([0, 3, 0, 0, 0], 5), m')"
    using long_name_faults [OF new_buffer_manager_ok, of "[5, 0, 0, 0, 3, 0, 0, 0]" 5 3 "[]" "\<lambda>_. Some Some" 23] le by simp
  ultimately show ?thesis by blast
qed

text \<open>The handler called for a message is the first one registered for its name, or else the default.\<close>

lemma callPBCBFun_spec:
  "callPBCBFun True name (registerCBFun name (Some f) t) =
     (case om_find (static_call_back_funs t) name of
        None \<Rightarrow> Some f | Some (Some g) \<Rightarrow> Some g | Some None \<Rightarrow> static_default_pb_function t)"
  "other \<noteq> name \<Longrightarrow> callPBCBFun True other (registerCBFun name h t) = callPBCBFun True other t"
  by (auto simp: callPBCBFun_def registerCBFun_def om_find_insert dom_def split: option.splits)

lemma parsePBMessage_dispatch:
  assumes "parseProtocmessage types self data m = Inr (Some (msg, flag), m')"
  shows "parsePBMessage name types True t self data m = Inr (True, map_option (\<lambda>f. (f, msg, flag)) (callPBCBFun True (name msg) t), m')"
  using assms by (simp add: parsePBMessage_def)

end
