(* ===== verification/Tcp_Client.thy ===== *)
theory Tcp_Client
  imports Tcp_Session Call_Back
begin

text \<open>
  \<^verbatim>\<open>common/tcpclient.cpp\<close>: a connection the server itself opens and opens again when it is lost (gates to the
  login and the game servers, game servers to the database server). It is a \<^verbatim>\<open>Tcp_Session\<close> without an owning
  server. The steps of the network thread and of \<open>run\<close> in the main thread interleave in any order; completed
  operations have any result.
\<close>

section \<open>State\<close>

type_synonym endpoint = "string \<times> u16"

datatype client_job = Job_Connect endpoint | Job_Handle_Close | Job_Write_Message

datatype client_cb = Cb_Connect | Cb_Connect_Failed | Cb_Close

text \<open>
  \<open>cl_jobs\<close>, \<open>cl_connects\<close>, \<open>cl_reads\<close> and \<open>cl_writes\<close> are outstanding in the network library, \<open>cl_sent\<close> are the bytes
  given to it so far, \<open>cl_called\<close> and \<open>cl_handled\<close> the virtual functions called and the messages processed.
\<close>

record tcp_client =
  cl_session :: tcp_session
  cl_isreconnect :: bool
  cl_reconnect_time :: u32
  cl_isinitconnected :: bool
  cl_endpoint :: "endpoint option"
  cl_last_reconnect_time :: u32
  cl_isconnecting :: bool
  cl_queue_recv_msg :: "message_t two_queue"
  cl_cbs :: "client_cb list"
  cl_jobs :: "client_job list"
  cl_connects :: nat
  cl_reads :: nat
  cl_writes :: "nat list"
  cl_sent :: "u8 list"
  cl_called :: "client_cb list"
  cl_handled :: "message_t list"
  cl_time :: u32

definition new_client :: "u32 \<Rightarrow> tcp_client" where
  "new_client now =
     \<lparr>cl_session = (reset_session (new_session\<lparr>m_is_client := True\<rparr>))\<lparr>m_isvalid := True\<rparr>, cl_isreconnect = False,
      cl_reconnect_time = 5, cl_isinitconnected = False, cl_endpoint = None, cl_last_reconnect_time = 0, cl_isconnecting = False,
      cl_queue_recv_msg = two_queue_empty, cl_cbs = [], cl_jobs = [], cl_connects = 0, cl_reads = 0, cl_writes = [],
      cl_sent = [], cl_called = [], cl_handled = [], cl_time = now\<rparr>"

section \<open>The queue of received messages\<close>

definition client_push_message :: "message_t \<Rightarrow> message_t two_queue \<Rightarrow> message_t two_queue" where
  "client_push_message m q = enqueue m q"

text \<open>The part of \<open>run\<close> under \<^verbatim>\<open>m_msg_mutex\<close>, and one turn of the loop behind it.\<close>

definition client_turn :: "message_t two_queue \<Rightarrow> (nat \<times> message_t two_queue) option" where
  "client_turn q = turn q"

definition client_next :: "nat \<Rightarrow> message_t two_queue \<Rightarrow> (message_t \<times> message_t two_queue) option" where
  "client_next i q = dequeue i q"

lemma client_queue_ops: "client_push_message = enqueue" "client_turn = turn" "client_next = dequeue"
  by (simp_all add: fun_eq_iff client_push_message_def client_turn_def client_next_def)

interpretation client_queue: double_buffer slots current client_push_message client_turn client_next
  unfolding client_queue_ops by (rule two_queue_contract)

text \<open>Received messages are processed in the order they arrived, whatever the interleaving of the two threads.\<close>

lemma client_messages_fifo:
  assumes "queue_reach client_push_message client_turn client_next two_queue_empty c"
  shows "pushed c = handled c @ slots (store c) ! flip (current (store c)) @ slots (store c) ! current (store c)"
  using assms by (rule client_queue.fifo) (simp_all add: two_queue_empty_def)

section \<open>What the session asks for\<close>

fun client_effect :: "effect \<Rightarrow> tcp_client \<Rightarrow> tcp_client" where
  "client_effect (Push_Message m) c = c\<lparr>cl_queue_recv_msg := client_push_message m (cl_queue_recv_msg c)\<rparr>"
| "client_effect Post_Handle_Close c = c\<lparr>cl_jobs := cl_jobs c @ [Job_Handle_Close]\<rparr>"
| "client_effect Post_Write c = c\<lparr>cl_jobs := cl_jobs c @ [Job_Write_Message]\<rparr>"
| "client_effect Async_Read c = c\<lparr>cl_reads := cl_reads c + 1\<rparr>"
| "client_effect (Async_Write bs) c = c\<lparr>cl_writes := cl_writes c @ [length bs], cl_sent := cl_sent c @ bs\<rparr>"
| "client_effect Add_Cb_On_Close c = c\<lparr>cl_cbs := cl_cbs c @ [Cb_Close]\<rparr>"
| "client_effect _ c = c"

definition on_client :: "tcp_session \<Rightarrow> tcp_client \<Rightarrow> tcp_client" where
  "on_client x c = fold client_effect (effects x) (c\<lparr>cl_session := x\<lparr>effects := []\<rparr>\<rparr>)"

section \<open>Connecting\<close>

definition reconnect :: "tcp_client \<Rightarrow> tcp_client" where
  "reconnect c =
     (if m_isconnected (cl_session c) then c
      else if cl_isconnecting c then c
      else c\<lparr>cl_isconnecting := True, cl_connects := cl_connects c + 1\<rparr>)"

text \<open>\<open>connect\<close>: \<open>addr\<close> is what the host name resolves to, if it does.\<close>

definition client_connect :: "string option \<Rightarrow> u16 \<Rightarrow> tcp_client \<Rightarrow> tcp_client" where
  "client_connect addr port c =
     (case addr of None \<Rightarrow> c | Some ip \<Rightarrow> c\<lparr>cl_jobs := cl_jobs c @ [Job_Connect (ip, port)]\<rparr>)"

definition do_connect :: "endpoint \<Rightarrow> tcp_client \<Rightarrow> tcp_client" where
  "do_connect ep c = (reconnect (c\<lparr>cl_endpoint := Some ep\<rparr>))\<lparr>cl_isinitconnected := True\<rparr>"

definition handle_connect :: "bool \<Rightarrow> tcp_client \<Rightarrow> tcp_client" where
  "handle_connect error c =
     (let c = c\<lparr>cl_isconnecting := False\<rparr> in
      if m_isconnected (cl_session c) then c
      else
        let c = c\<lparr>cl_last_reconnect_time := cl_time c\<rparr> in
        if \<not> error
        then c\<lparr>cl_session := (cl_session c)\<lparr>m_isconnected := True\<rparr>, cl_cbs := cl_cbs c @ [Cb_Connect]\<rparr>
        else c\<lparr>cl_session := (cl_session c)\<lparr>m_isconnected := False\<rparr>, cl_cbs := cl_cbs c @ [Cb_Connect_Failed]\<rparr>)"

text \<open>The part of \<open>run\<close> that opens the connection again; the difference of the times is taken in 32 bits.\<close>

definition run_reconnect :: "tcp_client \<Rightarrow> tcp_client" where
  "run_reconnect c =
     (if \<not> m_isconnected (cl_session c) \<and> cl_isreconnect c \<and> \<not> cl_isconnecting c \<and> cl_isinitconnected c
      then if cl_time c - cl_last_reconnect_time c > cl_reconnect_time c then reconnect c else c
      else c)"

text \<open>
  A callback. \<open>on_connect\<close> starts reading, \<open>on_close\<close> does nothing without an owning server; the classes built on
  \<open>tcp_client\<close> call these and do more, which \<open>cl_called\<close> stands for.
\<close>

fun client_run_cb :: "client_cb \<Rightarrow> tcp_client \<Rightarrow> tcp_client" where
  "client_run_cb Cb_Connect c = on_client (begin_read_message (cl_session c)) c"
| "client_run_cb Cb_Connect_Failed c = c"
| "client_run_cb Cb_Close c = on_client (on_close (cl_session c)) c"

fun run_client_job :: "client_job \<Rightarrow> tcp_client \<Rightarrow> tcp_client" where
  "run_client_job (Job_Connect ep) c = do_connect ep c"
| "run_client_job Job_Handle_Close c = on_client (handle_close (cl_session c)) c"
| "run_client_job Job_Write_Message c = on_client (write_message 0 (cl_session c)) c"

section \<open>Steps\<close>

datatype client_step =
    Cl_Clock u32
  | Cl_Set_Reconnect bool
  | Cl_Connect "string option" u16
  | Cl_Job nat
  | Cl_Connected bool
  | Cl_Read "u8 list option"
  | Cl_Written nat bool
  | Cl_Run_Reconnect
  | Cl_Run_Cb
  | Cl_Turn
  | Cl_Message nat
  | Cl_Send "u8 list option" u32
  | Cl_Close

text \<open>A step that is not possible in a state leaves it as it is.\<close>

fun client_exec :: "compress_strategy option \<Rightarrow> (nat \<Rightarrow> u8) \<Rightarrow> client_step \<Rightarrow> tcp_client \<Rightarrow> tcp_client result" where
  "client_exec iface junk (Cl_Clock now) c = Inr (c\<lparr>cl_time := now\<rparr>)"
| "client_exec iface junk (Cl_Set_Reconnect b) c = Inr (c\<lparr>cl_isreconnect := b\<rparr>)"
| "client_exec iface junk (Cl_Connect addr port) c = Inr (client_connect addr port c)"
| "client_exec iface junk (Cl_Job i) c =
     (if i < length (cl_jobs c)
      then Inr (run_client_job (cl_jobs c ! i) (c\<lparr>cl_jobs := take i (cl_jobs c) @ drop (Suc i) (cl_jobs c)\<rparr>))
      else Inr c)"
| "client_exec iface junk (Cl_Connected error) c =
     (if 0 < cl_connects c then Inr (handle_connect error (c\<lparr>cl_connects := cl_connects c - 1\<rparr>)) else Inr c)"
| "client_exec iface junk (Cl_Read chunk) c =
     (if 0 < cl_reads c
      then bind_result (handle_read_some iface chunk (cl_session c)) (\<lambda>x. Inr (on_client x (c\<lparr>cl_reads := cl_reads c - 1\<rparr>)))
      else Inr c)"
| "client_exec iface junk (Cl_Written i error) c =
     (if i < length (cl_writes c)
      then Inr (on_client (handle_write error (cl_writes c ! i) (cl_session c))
                  (c\<lparr>cl_writes := take i (cl_writes c) @ drop (Suc i) (cl_writes c)\<rparr>))
      else Inr c)"
| "client_exec iface junk Cl_Run_Reconnect c = Inr (run_reconnect c)"
| "client_exec iface junk Cl_Run_Cb c =
     (case cl_cbs c of [] \<Rightarrow> Inr c | cb # cbs \<Rightarrow> Inr (client_run_cb cb (c\<lparr>cl_cbs := cbs, cl_called := cl_called c @ [cb]\<rparr>)))"
| "client_exec iface junk Cl_Turn c =
     (case client_turn (cl_queue_recv_msg c) of None \<Rightarrow> Inr c | Some (_, q) \<Rightarrow> Inr (c\<lparr>cl_queue_recv_msg := q\<rparr>))"
| "client_exec iface junk (Cl_Message i) c =
     (if i < 2
      then case client_next i (cl_queue_recv_msg c) of
             None \<Rightarrow> Inr c
           | Some (m, q) \<Rightarrow> Inr (c\<lparr>cl_queue_recv_msg := q, cl_handled := cl_handled c @ [m]\<rparr>)
      else Inr c)"
| "client_exec iface junk (Cl_Send data len) c =
     bind_result (send_message iface junk data len (cl_session c)) (\<lambda>x. Inr (on_client x c))"
| "client_exec iface junk Cl_Close c = Inr (on_client (close_session (cl_session c)) c)"

fun client_exec_all :: "compress_strategy option \<Rightarrow> (nat \<Rightarrow> u8) \<Rightarrow> client_step list \<Rightarrow> tcp_client \<Rightarrow> tcp_client result" where
  "client_exec_all iface junk [] c = Inr c"
| "client_exec_all iface junk (e # es) c = bind_result (client_exec iface junk e c) (client_exec_all iface junk es)"

section \<open>One connect at a time\<close>

lemma client_effect_fields [simp]:
  "cl_connects (client_effect e c) = cl_connects c" "cl_isconnecting (client_effect e c) = cl_isconnecting c"
  "cl_session (client_effect e c) = cl_session c" "cl_isreconnect (client_effect e c) = cl_isreconnect c"
  "cl_isinitconnected (client_effect e c) = cl_isinitconnected c"
  by (cases e; simp)+

lemma fold_client_effect [simp]:
  "cl_connects (fold client_effect es c) = cl_connects c" "cl_isconnecting (fold client_effect es c) = cl_isconnecting c"
  "cl_session (fold client_effect es c) = cl_session c" "cl_isreconnect (fold client_effect es c) = cl_isreconnect c"
  "cl_isinitconnected (fold client_effect es c) = cl_isinitconnected c"
  by (induction es arbitrary: c) simp_all

lemma on_client_fields [simp]:
  "cl_connects (on_client x c) = cl_connects c" "cl_isconnecting (on_client x c) = cl_isconnecting c"
  "cl_session (on_client x c) = x\<lparr>effects := []\<rparr>" "cl_isreconnect (on_client x c) = cl_isreconnect c"
  "cl_isinitconnected (on_client x c) = cl_isinitconnected c"
  by (simp_all add: on_client_def)

definition client_ok :: "tcp_client \<Rightarrow> bool" where
  "client_ok c \<longleftrightarrow> effects (cl_session c) = [] \<and> cl_connects c = (if cl_isconnecting c then 1 else 0)"

lemma client_ok_job [invs]: "client_ok c \<Longrightarrow> client_ok (run_client_job j c)"
  by (cases j) (auto simp: client_ok_def do_connect_def reconnect_def)

lemma client_ok_cb [invs]: "client_ok c \<Longrightarrow> client_ok (client_run_cb cb c)"
  by (cases cb) (auto simp: client_ok_def)

lemma client_ok_on_client [invs]: "client_ok c \<Longrightarrow> client_ok (on_client x c)"
  by (simp add: client_ok_def)

lemma client_ok_connected [invs]:
  "client_ok c \<Longrightarrow> 0 < cl_connects c \<Longrightarrow> client_ok (handle_connect e (c\<lparr>cl_connects := cl_connects c - 1\<rparr>))"
  by (auto simp: client_ok_def handle_connect_def Let_def split: if_splits)

lemma client_ok_fields:
  "client_ok (c\<lparr>cl_jobs := js\<rparr>) = client_ok c" "client_ok (c\<lparr>cl_reads := n\<rparr>) = client_ok c" "client_ok (c\<lparr>cl_writes := ws\<rparr>) = client_ok c"
  "client_ok (c\<lparr>cl_cbs := cbs, cl_called := cs\<rparr>) = client_ok c" "client_ok (c\<lparr>cl_queue_recv_msg := q\<rparr>) = client_ok c"
  "client_ok (c\<lparr>cl_queue_recv_msg := q, cl_handled := ms\<rparr>) = client_ok c" "client_ok (c\<lparr>cl_time := t\<rparr>) = client_ok c"
  "client_ok (c\<lparr>cl_isreconnect := b\<rparr>) = client_ok c"
  by (simp_all add: client_ok_def)

lemma client_ok_exec [invs]:
  assumes "client_ok c" and "client_exec iface junk e c = Inr d"
  shows "client_ok d"
proof -
  have "client_ok (run_reconnect c)" using assms(1) by (auto simp: run_reconnect_def reconnect_def client_ok_def)
  moreover have "client_ok (client_connect a p c)" for a p
    using assms(1) by (simp add: client_connect_def client_ok_fields split: option.split)
  ultimately show ?thesis
    using assms
    by (cases e) (auto simp: client_ok_fields split: if_splits option.splits list.splits
        intro!: client_ok_job client_ok_cb client_ok_on_client client_ok_connected [unfolded One_nat_def])
qed

lemma client_ok_exec_all: "client_ok c \<Longrightarrow> client_exec_all iface junk es c = Inr d \<Longrightarrow> client_ok d"
  by (induction es arbitrary: c) (auto intro: client_ok_exec)

lemma new_client_ok: "client_ok (new_client now)"
  by (simp add: client_ok_def new_client_def new_session_def reset_session_def clear_send_msg_def)

section \<open>Silence\<close>

text \<open>A session that takes a write to be outstanding and does not write.\<close>

definition writes_of :: "effect list \<Rightarrow> u8 list list" where
  "writes_of es = concat (map (\<lambda>e. case e of Async_Write bs \<Rightarrow> [bs] | _ \<Rightarrow> []) es)"

definition silent :: "tcp_session \<Rightarrow> tcp_session \<Rightarrow> bool" where
  "silent x y \<longleftrightarrow> (m_is_sending_data x \<longrightarrow> m_is_sending_data y \<and> writes_of (effects y) = writes_of (effects x))"

lemma silent_refl [simp]: "silent x x" by (simp add: silent_def)

lemma silent_trans: "silent x y \<Longrightarrow> silent y z \<Longrightarrow> silent x z" by (simp add: silent_def)

lemma silent_ops [simp]:
  "silent x (close_session x)" "silent x (close_and_ban x)" "silent x (handle_close x)" "silent x (on_close_io x)"
  "silent x (push_message m x)" "silent x (send_queued m x)" "silent x (write_message n x)" "silent x (handle_write True n x)"
  "silent x (uncompress_failed x)" "silent x (begin_read_message x)" "silent x (on_close x)" "silent x (emit [Async_Read] x)"
  "silent x (x\<lparr>m_recv_buffer := b, m_recive_buffer_pos := k\<rparr>)"
  by (auto simp: silent_def writes_of_def emit_def close_session_def close_and_ban_def handle_close_def clear_send_msg_def on_close_io_def
      push_message_def send_queued_def write_message_def handle_write_def uncompress_failed_def begin_read_message_def on_close_def Let_def)

lemma silent_read: "handle_read_some iface chunk x = Inr y \<Longrightarrow> silent x y"
proof (rule handle_read_closed)
  show "read_closed silent"
    unfolding read_closed_def by (auto intro!: reflpI transpI elim: silent_trans)
qed

lemma silent_send: "send_message iface junk data len x = Inr y \<Longrightarrow> silent x y"
proof -
  assume "send_message iface junk data len x = Inr y"
  then have "y = x \<or> (\<exists>d ti. y = emit [Push_Task d ti] x) \<or> (\<exists>m. y = send_queued m x)"
    by (auto simp: send_message_def split: option.splits if_splits)
  moreover have "silent x (emit [Push_Task d ti] x)" for d ti by (simp add: silent_def writes_of_def emit_def)
  ultimately show ?thesis by auto
qed

lemma client_effect_writes:
  "cl_writes (fold client_effect es c) = cl_writes c @ map length (writes_of es)"
  "cl_sent (fold client_effect es c) = cl_sent c @ concat (writes_of es)"
proof (induction es arbitrary: c)
  case (Cons e es)
  {
    case 1
    then show ?case by (cases e) (simp_all add: Cons.IH writes_of_def)
  next
    case 2
    then show ?case by (cases e) (simp_all add: Cons.IH writes_of_def)
  }
qed (simp_all add: writes_of_def)

text \<open>Nothing is being written, but the session believes so.\<close>

definition muted :: "tcp_client \<Rightarrow> bool" where
  "muted c \<longleftrightarrow> m_is_sending_data (cl_session c) \<and> effects (cl_session c) = [] \<and> cl_writes c = []"

lemma muted_on_client:
  "muted c \<Longrightarrow> silent (cl_session c) x \<Longrightarrow> muted (on_client x c) \<and> cl_sent (on_client x c) = cl_sent c"
  by (simp add: muted_def silent_def on_client_def client_effect_writes writes_of_def)

lemma muted_fields:
  "muted (c\<lparr>cl_jobs := js\<rparr>) = muted c" "muted (c\<lparr>cl_reads := n\<rparr>) = muted c" "muted (c\<lparr>cl_connects := n\<rparr>) = muted c"
  "muted (c\<lparr>cl_cbs := cbs, cl_called := cs\<rparr>) = muted c" "muted (c\<lparr>cl_queue_recv_msg := q\<rparr>) = muted c"
  "muted (c\<lparr>cl_queue_recv_msg := q, cl_handled := ms\<rparr>) = muted c" "muted (c\<lparr>cl_time := t\<rparr>) = muted c"
  "muted (c\<lparr>cl_isreconnect := b\<rparr>) = muted c"
  by (simp_all add: muted_def)

lemma muted_job: "muted c \<Longrightarrow> muted (run_client_job j c) \<and> cl_sent (run_client_job j c) = cl_sent c"
  by (cases j) (simp_all add: muted_on_client, simp add: do_connect_def reconnect_def muted_def)

lemma muted_cb: "muted c \<Longrightarrow> muted (client_run_cb cb c) \<and> cl_sent (client_run_cb cb c) = cl_sent c"
  by (cases cb) (simp_all add: muted_on_client)

lemma muted_exec:
  assumes "muted c" and "client_exec iface junk e c = Inr d"
  shows "muted d \<and> cl_sent d = cl_sent c"
proof -
  have 1: "muted (run_reconnect c) \<and> cl_sent (run_reconnect c) = cl_sent c"
    using assms(1) by (simp add: run_reconnect_def reconnect_def muted_def)
  have 2: "muted (client_connect a p c) \<and> cl_sent (client_connect a p c) = cl_sent c" for a p
    using assms(1) by (simp add: client_connect_def muted_def split: option.split)
  have 3: "muted (handle_connect b (c\<lparr>cl_connects := n\<rparr>)) \<and> cl_sent (handle_connect b (c\<lparr>cl_connects := n\<rparr>)) = cl_sent c" for b n
    using assms(1) by (simp add: handle_connect_def muted_def Let_def)
  have nw: "cl_writes c = []" using assms(1) by (simp add: muted_def)
  show ?thesis
  proof (cases e)
    case (Cl_Job i)
    with assms show ?thesis using muted_job [of "c\<lparr>cl_jobs := take i (cl_jobs c) @ drop (Suc i) (cl_jobs c)\<rparr>" "cl_jobs c ! i"]
      by (auto simp: muted_fields split: if_splits)
  next
    case (Cl_Read chunk)
    with assms show ?thesis
      using muted_on_client [of "c\<lparr>cl_reads := cl_reads c - 1\<rparr>"] silent_read [of iface chunk "cl_session c"]
      by (auto simp: muted_fields split: if_splits)
  next
    case (Cl_Send data len)
    with assms show ?thesis using muted_on_client [OF assms(1)] silent_send [of iface junk data len "cl_session c"] by auto
  next
    case Cl_Run_Cb
    with assms show ?thesis using muted_cb by (auto simp: muted_fields split: list.splits)
  next
    case Cl_Close
    with assms show ?thesis using muted_on_client [OF assms(1), of "close_session (cl_session c)"] by auto
  qed (use assms 1 2 3 nw in \<open>auto simp: muted_fields split: if_splits option.splits\<close>)
qed

lemma muted_exec_all: "muted c \<Longrightarrow> client_exec_all iface junk es c = Inr d \<Longrightarrow> muted d \<and> cl_sent d = cl_sent c"
  by (induction es arbitrary: c) (auto dest: muted_exec)

text \<open>C8: when a write fails, the session is not told that no write is outstanding any more, and nothing resets it when
  the connection is opened again: whatever happens from then on, the client never sends another byte.
\<close>

theorem client_mute_after_write_error:
  assumes "m_isvalid (cl_session c)" and "m_is_sending_data (cl_session c)" and "effects (cl_session c) = []" and "cl_writes c = [n]"
    and "client_exec_all iface junk (Cl_Written 0 True # es) c = Inr d"
  shows "cl_sent d = cl_sent c \<and> cl_writes d = [] \<and> m_is_sending_data (cl_session d)"
proof -
  let ?c = "c\<lparr>cl_writes := []\<rparr>"
  have "muted ?c" using assms(2,3) by (simp add: muted_def)
  from muted_on_client [OF this, of "handle_write True n (cl_session c)"]
  have "muted (on_client (handle_write True n (cl_session c)) ?c)" "cl_sent (on_client (handle_write True n (cl_session c)) ?c) = cl_sent c"
    by simp_all
  moreover have "client_exec_all iface junk es (on_client (handle_write True n (cl_session c)) ?c) = Inr d"
    using assms(4,5) by simp
  ultimately show ?thesis using muted_exec_all [of "on_client (handle_write True n (cl_session c)) ?c"] by (simp add: muted_def)
qed

lemma on_client_more:
  assumes "effects (cl_session c) = []"
  shows
  "cl_cbs (on_client (begin_read_message (cl_session c)) c) = cl_cbs c"
  "cl_called (on_client (begin_read_message (cl_session c)) c) = cl_called c"
  "cl_reads (on_client (begin_read_message (cl_session c)) c) = cl_reads c + 1"
  "cl_cbs (on_client (on_close (cl_session c)) c) = cl_cbs c"
  "cl_called (on_client (on_close (cl_session c)) c) = cl_called c"
  "cl_reads (on_client (on_close (cl_session c)) c) = cl_reads c"
  using assms by (simp_all add: on_client_def begin_read_message_def on_close_def emit_def)

lemma run_cb_facts:
  assumes "client_ok c"
  shows "cl_cbs (client_run_cb cb c) = cl_cbs c" "cl_called (client_run_cb cb c) = cl_called c"
    "m_isconnected (cl_session (client_run_cb cb c)) = m_isconnected (cl_session c)"
    "cl_reads (client_run_cb cb c) = cl_reads c + (if cb = Cb_Connect then 1 else 0)"
    "cb = Cb_Connect \<Longrightarrow> m_recive_buffer_pos (cl_session (client_run_cb cb c)) = 0"
  using assms by (cases cb; simp add: client_ok_def on_client_more; simp add: begin_read_message_def on_close_def emit_def)+

lemma run_cbs:
  "client_ok c \<Longrightarrow> cl_cbs c = cbs @ [Cb_Connect] \<Longrightarrow>
   \<exists>d. client_exec_all iface junk (replicate (length cbs + 1) Cl_Run_Cb) c = Inr d \<and> client_ok d \<and> cl_cbs d = []
     \<and> m_isconnected (cl_session d) = m_isconnected (cl_session c) \<and> cl_called d = cl_called c @ cbs @ [Cb_Connect]
     \<and> cl_reads c < cl_reads d \<and> m_recive_buffer_pos (cl_session d) = 0"
proof (induction cbs arbitrary: c)
  case Nil
  let ?c = "c\<lparr>cl_cbs := [], cl_called := cl_called c @ [Cb_Connect]\<rparr>"
  have "client_ok ?c" using Nil.prems(1) by (simp add: client_ok_fields)
  with Nil.prems(2) run_cb_facts [OF this, of Cb_Connect] client_ok_cb [OF this, of Cb_Connect] show ?case
    by (simp del: client_run_cb.simps)
next
  case (Cons cb cbs)
  let ?c = "c\<lparr>cl_cbs := cbs @ [Cb_Connect], cl_called := cl_called c @ [cb]\<rparr>"
  have ok: "client_ok ?c" using Cons.prems(1) by (simp add: client_ok_fields)
  note facts = run_cb_facts [OF ok, of cb]
  obtain d where "client_exec_all iface junk (replicate (length cbs + 1) Cl_Run_Cb) (client_run_cb cb ?c) = Inr d" "client_ok d" "cl_cbs d = []"
      "m_isconnected (cl_session d) = m_isconnected (cl_session (client_run_cb cb ?c))"
      "cl_called d = cl_called (client_run_cb cb ?c) @ cbs @ [Cb_Connect]"
      "cl_reads (client_run_cb cb ?c) < cl_reads d" "m_recive_buffer_pos (cl_session d) = 0"
    using Cons.IH [OF client_ok_cb [OF ok, of cb]] facts(1) by auto
  then show ?case using Cons.prems(2) facts by (auto simp del: client_run_cb.simps)
qed

lemma client_exec_all_append:
  "client_exec_all iface junk (xs @ ys) c = bind_result (client_exec_all iface junk xs c) (client_exec_all iface junk ys)"
proof (induction xs arbitrary: c)
  case (Cons x xs)
  then have "client_exec_all iface junk (xs @ ys) = (\<lambda>c. bind_result (client_exec_all iface junk xs c) (client_exec_all iface junk ys))"
    by (rule ext)
  then show ?case by (simp add: bind_result_assoc)
qed simp

text \<open>C9: a client that has lost its connection opens it again: once the time since the last attempt exceeds the
  reconnect time, one turn of \<open>run\<close> and an answer from the peer make it connected, and its callback starts reading
  with an empty receive buffer.
\<close>

theorem client_reconnects:
  assumes "client_ok c" and "\<not> m_isconnected (cl_session c)" and "cl_isreconnect c" and "cl_isinitconnected c"
    and "\<not> cl_isconnecting c" and "cl_time c - cl_last_reconnect_time c > cl_reconnect_time c"
  shows "\<exists>d. client_exec_all iface junk ([Cl_Run_Reconnect, Cl_Connected False] @ replicate (length (cl_cbs c) + 1) Cl_Run_Cb) c = Inr d
    \<and> m_isconnected (cl_session d) \<and> last (cl_called d) = Cb_Connect \<and> cl_reads d > cl_reads c
    \<and> m_recive_buffer_pos (cl_session d) = 0 \<and> cl_cbs d = [] \<and> client_ok d"
proof -
  let ?c = "c\<lparr>cl_isconnecting := False, cl_last_reconnect_time := cl_time c, cl_session := (cl_session c)\<lparr>m_isconnected := True\<rparr>,
    cl_cbs := cl_cbs c @ [Cb_Connect]\<rparr>"
  have n: "cl_connects c = 0" using assms(1,5) by (simp add: client_ok_def)
  have ok: "client_ok ?c" using assms(1,5) by (simp add: client_ok_def)
  have "client_exec_all iface junk [Cl_Run_Reconnect, Cl_Connected False] c = Inr (?c\<lparr>cl_connects := 0\<rparr>)"
    using assms(2-6) n by (simp add: run_reconnect_def reconnect_def handle_connect_def Let_def)
  moreover have "?c\<lparr>cl_connects := 0\<rparr> = ?c" using n by simp
  ultimately have go: "client_exec_all iface junk [Cl_Run_Reconnect, Cl_Connected False] c = Inr ?c" by (simp only:)
  show ?thesis
    using run_cbs [OF ok, of "cl_cbs c" iface junk] go
    by (simp add: client_exec_all_append del: client_exec_all.simps client_exec.simps) auto
qed

text \<open>A client on its first connection, with the given number of writes under way.\<close>

definition connected_client :: "nat list \<Rightarrow> tcp_client" where
  "connected_client ws = (new_client 100)\<lparr>cl_session := (cl_session (new_client 100))\<lparr>m_isconnected := True, m_is_sending_data := True\<rparr>,
     cl_isreconnect := True, cl_isinitconnected := True, cl_reads := 1, cl_writes := ws\<rparr>"

theorem client_mute_after_write_error_witness:
  "\<exists>d. client_exec_all None (\<lambda>_. 0) [Cl_Written 0 True, Cl_Clock 200, Cl_Run_Reconnect, Cl_Connected False, Cl_Run_Cb, Cl_Run_Cb,
      Cl_Send (Some [1, 2, 3]) 3, Cl_Job 0] (connected_client [12]) = Inr d
    \<and> m_isconnected (cl_session d) \<and> length (m_queue_send_msg (cl_session d)) = 1 \<and> cl_sent d = [] \<and> cl_writes d = []"
proof -
  let ?es = "[Cl_Clock 200, Cl_Run_Reconnect, Cl_Connected False, Cl_Run_Cb, Cl_Run_Cb, Cl_Send (Some [1, 2, 3]) 3, Cl_Job 0]"
  have run: "\<exists>d. client_exec_all None (\<lambda>_. 0) (Cl_Written 0 True # ?es) (connected_client [12]) = Inr d
      \<and> m_isconnected (cl_session d) \<and> length (m_queue_send_msg (cl_session d)) = 1"
    using makeMessage_frame' [of "[1, 2, 3]" "\<lambda>_. 0" 0 False]
    by (simp add: connected_client_def new_client_def new_session_def reset_session_def clear_send_msg_def handle_write_def on_close_io_def
        emit_def on_client_def run_reconnect_def reconnect_def handle_connect_def begin_read_message_def on_close_def send_message_def
        send_queued_def compress_def write_message_def MAX_MESSAGE_LEN_def)
  then obtain d where d: "client_exec_all None (\<lambda>_. 0) (Cl_Written 0 True # ?es) (connected_client [12]) = Inr d"
      "m_isconnected (cl_session d)" "length (m_queue_send_msg (cl_session d)) = 1" by blast
  have "cl_sent (connected_client [12]) = []" by (simp add: connected_client_def new_client_def)
  with client_mute_after_write_error [OF _ _ _ _ d(1), of 12] d show ?thesis
    by (simp add: connected_client_def new_client_def new_session_def reset_session_def clear_send_msg_def
        del: client_exec_all.simps client_exec.simps)
qed

theorem client_reconnects_witness:
  "\<exists>d. client_exec_all None (\<lambda>_. 0) ([Cl_Run_Reconnect, Cl_Connected False] @ replicate 1 Cl_Run_Cb)
      ((new_client 100)\<lparr>cl_isreconnect := True, cl_isinitconnected := True\<rparr>) = Inr d
    \<and> m_isconnected (cl_session d) \<and> last (cl_called d) = Cb_Connect"
proof -
  let ?c = "(new_client 100)\<lparr>cl_isreconnect := True, cl_isinitconnected := True\<rparr>"
  have "client_ok ?c" using new_client_ok [of 100] by (simp add: client_ok_def)
  moreover have "\<not> m_isconnected (cl_session ?c)" "cl_isreconnect ?c" "cl_isinitconnected ?c" "\<not> cl_isconnecting ?c"
      "cl_time ?c - cl_last_reconnect_time ?c > cl_reconnect_time ?c" "length (cl_cbs ?c) + 1 = 1"
    by (simp_all add: new_client_def reset_session_def clear_send_msg_def)
  ultimately show ?thesis using client_reconnects [of ?c None "\<lambda>_. 0"] by metis
qed

end
