(* ===== verification/Server_Frame.thy ===== *)
theory Server_Frame
  imports Game_Manager Database Db_Quest
begin

text \<open>
  \<^verbatim>\<open>common/server_frame.cpp\<close>: the main loop of all four servers and what each of them does when it is told to stop. A
  server is its frame and its own state; the virtual functions are arguments. A round of the loop is what happened before
  it (a signal) and what \<open>runOnce\<close> does to the state: network, database and timers. The last part follows the stop
  of a game server through the database server and back.
\<close>

section \<open>The frame\<close>

text \<open>\<open>fr_signal\<close> is the process-wide \<^verbatim>\<open>g_wait_stop\<close>, which only the signal handler sets.\<close>

record frame =
  fr_stop :: bool
  fr_wait_stop :: bool
  fr_service_stop_state :: u32
  fr_print :: bool
  fr_signal :: bool

definition frame_init :: "frame \<Rightarrow> frame" where
  "frame_init f = f\<lparr>fr_stop := False, fr_wait_stop := False, fr_service_stop_state := 0, fr_print := False\<rparr>"

definition signal_handle :: "nat \<Rightarrow> frame \<Rightarrow> frame" where
  "signal_handle n f = (if n = 3 then if \<not> fr_signal f then f\<lparr>fr_signal := True\<rparr> else f else f)"

type_synonym 's server = "frame \<times> 's"

record 's frame_ops =
  setStop :: "'s server \<Rightarrow> 's server result"
  checkStop :: "'s server \<Rightarrow> 's server result"
  signalStop :: "'s server \<Rightarrow> 's server result"

text \<open>\<open>ServerFrame::signalStop\<close>, which three of the servers inherit.\<close>

definition base_signalStop :: "('s server \<Rightarrow> 's server result) \<Rightarrow> 's server \<Rightarrow> 's server result" where
  "base_signalStop set_stop s =
     (if fr_signal (fst s)
      then if fr_signal (fst s) \<noteq> fr_wait_stop (fst s)
           then bind_result (set_stop s) (\<lambda>(f, x). Inr (f\<lparr>fr_wait_stop := True\<rparr>, x))
           else Inr s
      else Inr s)"

text \<open>The body of the loop in \<open>run\<close>; \<open>onKey\<close> does nothing in all servers.\<close>

type_synonym 's round = "nat option \<times> ('s \<Rightarrow> 's result)"

definition frame_round :: "'s frame_ops \<Rightarrow> 's round \<Rightarrow> 's server \<Rightarrow> 's server result" where
  "frame_round ops r s =
     (let s = (case fst r of None \<Rightarrow> s | Some n \<Rightarrow> (signal_handle n (fst s), snd s))
      in bind_result (snd r (snd s)) (\<lambda>x.
         bind_result (if fr_wait_stop (fst s) then checkStop ops (fst s, x) else Inr (fst s, x)) (signalStop ops)))"

text \<open>\<open>run\<close>, for as long as the given rounds last.\<close>

fun frame_run :: "'s frame_ops \<Rightarrow> 's round list \<Rightarrow> 's server \<Rightarrow> 's server result" where
  "frame_run ops [] s = Inr s"
| "frame_run ops (r # rs) s = (if fr_stop (fst s) then Inr s else bind_result (frame_round ops r s) (frame_run ops rs))"

section \<open>Reading the configuration\<close>

record net_info =
  ni_id :: u8
  ni_ip :: string
  ni_port :: u16
  ni_time_out :: u32
  ni_max_connect :: u32
  ni_thread_count :: u16

text \<open>The row of the first server; \<open>resolve\<close> is \<^verbatim>\<open>gethostbyname\<close>. When the name is not found the other fields are set all the same.\<close>

definition getIpByname :: "(string \<Rightarrow> string option) \<Rightarrow> string \<Rightarrow> string \<Rightarrow> bool \<times> string" where
  "getIpByname resolve address ip = (case resolve address of None \<Rightarrow> (False, ip) | Some a \<Rightarrow> (True, a))"

definition getNetConfig :: "(string \<Rightarrow> string option) \<Rightarrow> net_info list \<Rightarrow> net_info \<Rightarrow> bool \<times> net_info" where
  "getNetConfig resolve rows conf =
     (case rows of
        [] \<Rightarrow> (False, conf)
      | row # _ \<Rightarrow>
          (let (ok, ip) = getIpByname resolve (ni_ip row) (ni_ip conf)
           in (ok, conf\<lparr>ni_id := ni_id row, ni_port := ni_port row, ni_max_connect := ni_max_connect row,
                        ni_thread_count := ni_thread_count row, ni_time_out := ni_time_out row, ni_ip := ip\<rparr>)))"

section \<open>The servers\<close>

definition wait_to_stop :: "'s server \<Rightarrow> 's server result" where
  "wait_to_stop s = Inr ((fst s)\<lparr>fr_wait_stop := True\<rparr>, snd s)"

definition login_ops :: "'s frame_ops" where
  "login_ops = \<lparr>setStop = wait_to_stop, checkStop = (\<lambda>(f, x). Inr (f\<lparr>fr_stop := True\<rparr>, x)), signalStop = base_signalStop wait_to_stop\<rparr>"

text \<open>The gate closes its connections again in every round; \<^verbatim>\<open>_stop = true\<close> is commented out.\<close>

definition gate_ops :: "('s \<Rightarrow> 's) \<Rightarrow> 's frame_ops" where
  "gate_ops shut_down =
     \<lparr>setStop = wait_to_stop, checkStop = (\<lambda>(f, x). Inr (f, shut_down x)), signalStop = base_signalStop wait_to_stop\<rparr>"

text \<open>The game server, with the messages it has sent.\<close>

type_synonym game_run = "game_state \<times> game_out list"

definition game_frame_setStop :: "(u64 \<Rightarrow> string) \<Rightarrow> game_run server \<Rightarrow> game_run server result" where
  "game_frame_setStop time s =
     bind_result (game_setStop time (fst (snd s))) (\<lambda>out. Inr (fst s, fst (snd s), snd (snd s) @ out))"

definition game_frame_checkStop :: "(u64 \<Rightarrow> string) \<Rightarrow> game_run server \<Rightarrow> game_run server result" where
  "game_frame_checkStop time s =
     bind_result (game_checkStop time (fst (snd s))) (\<lambda>(out, g).
       Inr ((fst s)\<lparr>fr_stop := fr_stop (fst s) \<or> gs_stop g\<rparr>, g, snd (snd s) @ out))"

definition game_ops :: "(u64 \<Rightarrow> string) \<Rightarrow> game_run frame_ops" where
  "game_ops time =
     \<lparr>setStop = game_frame_setStop time, checkStop = game_frame_checkStop time, signalStop = base_signalStop (game_frame_setStop time)\<rparr>"

text \<open>A round in which the game server handles one event, or none.\<close>

definition game_once :: "game_event option \<Rightarrow> game_run \<Rightarrow> game_run result" where
  "game_once e s =
     (case e of
        None \<Rightarrow> Inr s
      | Some e \<Rightarrow> bind_result (game_handle e (fst s)) (\<lambda>(out, g). Inr (g, snd s @ out)))"

text \<open>The database server: \<open>signalStop\<close> is overridden and needs no signal.\<close>

definition db_ops :: "database frame_ops" where
  "db_ops =
     \<lparr>setStop = Inr,
      checkStop = (\<lambda>(f, d). if isObjStop d then Inr (f\<lparr>fr_stop := True\<rparr>, db_shutDown d) else Inr (f, d)),
      signalStop = wait_to_stop\<rparr>"

text \<open>A round of the database server in which its other threads do nothing.\<close>

definition db_once :: "database \<Rightarrow> database result" where
  "db_once d = Inr (snd (db_run d))"

section \<open>Who stops\<close>

lemma signal_stop_fields: "fr_stop (signal_handle n f) = fr_stop f" "fr_wait_stop (signal_handle n f) = fr_wait_stop f"
  by (simp_all add: signal_handle_def)

lemma wait_to_stop_keeps: "base_signalStop wait_to_stop s = Inr t \<Longrightarrow> fr_stop (fst t) = fr_stop (fst s)"
  by (auto simp: base_signalStop_def wait_to_stop_def split: if_splits)

text \<open>The gate server never leaves its loop.\<close>

lemma gate_round_runs:
  assumes "\<not> fr_stop (fst s)" and "frame_round (gate_ops down) r s = Inr t"
  shows "\<not> fr_stop (fst t)"
proof -
  let ?f = "case fst r of None \<Rightarrow> fst s | Some n \<Rightarrow> signal_handle n (fst s)"
  obtain x where "base_signalStop wait_to_stop (?f, x) = Inr t"
    using assms(2) by (auto simp: frame_round_def gate_ops_def Let_def split: option.splits if_splits)
  from wait_to_stop_keeps [OF this] assms(1) show ?thesis by (simp add: signal_stop_fields split: option.splits)
qed

lemma gate_never_stops:
  "\<not> fr_stop (fst s) \<Longrightarrow> frame_run (gate_ops down) rs s = Inr t \<Longrightarrow> \<not> fr_stop (fst t)"
  by (induction rs arbitrary: s) (auto dest: gate_round_runs)

text \<open>The login server does so in the second round after the signal.\<close>

lemma login_stops:
  assumes "\<not> fr_stop f" and "\<not> fr_wait_stop f" and "step1 x = Inr y" and "step2 y = Inr z"
  shows "\<exists>f'. frame_run login_ops [(Some 3, step1), (None, step2)] (f, x) = Inr (f', z) \<and> fr_stop f'"
  using assms
  by (simp add: frame_round_def login_ops_def Let_def signal_handle_def base_signalStop_def wait_to_stop_def)

text \<open>The database server does once its database has stopped.\<close>

lemma db_stops:
  assumes "\<not> fr_stop f" and "isObjStop d"
  shows "\<exists>f' d'. frame_run db_ops [(None, db_once), (None, db_once)] (f, d) = Inr (f', d') \<and> fr_stop f'"
proof -
  have "db_run d = ([], d)"
    using assms(2) by (simp add: db_run_def db_checkStop_def isObjState_def isObjStop_def)
  with assms show ?thesis
    by (cases "fr_wait_stop f") (auto simp: frame_round_def db_ops_def db_once_def Let_def wait_to_stop_def isObjStop_def db_shutDown_def)
qed

section \<open>Stopping the game\<close>

lemma save_all_asks: "SaveDreamHeroes time g = Inr out \<Longrightarrow> \<exists>saves. out = saves @ [Db_Msg 0 SaveAllHeroesGS2DB]"
  by (auto simp: SaveDreamHeroes_def)

text \<open>The game server asks in the round of the signal.\<close>

lemma game_asks:
  assumes "\<not> fr_stop f" and "\<not> fr_wait_stop f" and "SaveDreamHeroes time g = Inr out"
  shows "frame_run (game_ops time) [(Some 3, game_once None)] (f, g, sent)
    = Inr (f\<lparr>fr_signal := True, fr_wait_stop := True\<rparr>, g, sent @ out)"
  using assms
  by (simp add: frame_round_def game_ops_def game_once_def Let_def signal_handle_def base_signalStop_def game_frame_setStop_def game_setStop_def)

text \<open>It stops in the round of the answer.\<close>

lemma game_stops:
  assumes "\<not> fr_stop f" and "fr_wait_stop f" and "SaveDreamHeroes time (save_all_heroes_ok g) = Inr out"
  shows "\<exists>f' g'. frame_run (game_ops time) [(None, game_once (Some Ev_Save_Ok))] (f, g, sent) = Inr (f', g', sent @ out) \<and> fr_stop f'"
  using assms
  by (simp add: frame_round_def game_ops_def game_once_def Let_def base_signalStop_def game_frame_checkStop_def game_checkStop_def
      save_all_heroes_ok_def)

lemma deliver_save_ok: "deliver_all (g\<lparr>gs_save_ok := b\<rparr>) = deliver_all g"
proof -
  have "session_sendPBMessage (g\<lparr>gs_save_ok := b\<rparr>) s m = session_sendPBMessage g s m" for s m
    by (simp add: session_sendPBMessage_def gate_send_def)
  then have "deliver_effect (g\<lparr>gs_save_ok := b\<rparr>) e = deliver_effect g e" for e
    by (cases e) (simp_all split: option.split)
  then have "deliver_effect (g\<lparr>gs_save_ok := b\<rparr>) = deliver_effect g" by (rule ext)
  then show ?thesis unfolding deliver_all_def [abs_def] by (rule arg_cong)
qed

lemma save_ok_same [simp]: "SaveDreamHeroes time (save_all_heroes_ok g) = SaveDreamHeroes time g"
  by (simp add: SaveDreamHeroes_def save_all_heroes_ok_def save_hero_event_def deliver_save_ok)

lemma db_stops_when_idle:
  assumes "\<not> fr_stop h" and "list_all (\<lambda>(n, works). works = []) (db_tasks d)" and "list_all isDone (db_threads d)"
  shows "\<exists>h' d'. frame_run db_ops [(None, db_once), (None, db_once)] (h, setObjState Wait_Stop d) = Inr (h', d') \<and> fr_stop h'"
proof -
  let ?d = "setObjState Stop_Obj (d\<lparr>db_threads := snd (stop_threads (db_threads d))\<rparr>)"
  have "db_checkStop (setObjState Wait_Stop d) = ?d"
    using assms(2,3) stop_threads_idle [OF assms(3)]
    by (simp add: db_checkStop_def getTaskCount_def case_prod_unfold Let_def isObjState_def setObjState_def)
  then have run: "db_run (setObjState Wait_Stop d) = ([], ?d)"
    by (simp add: db_run_def isObjState_def setObjState_def)
  have again: "db_run ?d = ([], ?d)"
    by (simp add: db_run_def db_checkStop_def isObjState_def setObjState_def)
  have stop: "isObjStop ?d" by (simp add: isObjStop_def setObjState_def)
  show ?thesis
    using assms(1) run again stop
    by (cases "fr_wait_stop h") (simp_all add: frame_round_def db_ops_def db_once_def Let_def wait_to_stop_def)
qed

text \<open>Without the answer it never stops.\<close>

definition unanswered :: "game_run server \<Rightarrow> bool" where
  "unanswered s \<longleftrightarrow> \<not> fr_stop (fst s) \<and> \<not> gs_save_ok (fst (snd s)) \<and> \<not> gs_stop (fst (snd s))"

lemma stop_fields:
  "gs_save_ok (put_hero a h g) = gs_save_ok g" "gs_stop (put_hero a h g) = gs_stop g"
  "gs_save_ok (set_ss p x g) = gs_save_ok g" "gs_stop (set_ss p x g) = gs_stop g"
  "gs_save_ok (release_session p g) = gs_save_ok g" "gs_stop (release_session p g) = gs_stop g"
  "gs_save_ok (modifyToyAccount a k g) = gs_save_ok g" "gs_stop (modifyToyAccount a k g) = gs_stop g"
  by (simp_all add: put_hero_def set_ss_def release_session_def modifyToyAccount_def)

lemma create_fields:
  "gs_save_ok (CreateHero_config a p g) = gs_save_ok g" "gs_stop (CreateHero_config a p g) = gs_stop g"
  "gs_save_ok (CreateHero_db m a p g) = gs_save_ok g" "gs_stop (CreateHero_db m a p g) = gs_stop g"
  by (simp_all add: CreateHero_config_def CreateHero_db_def stop_fields Let_def split: option.split prod.split)

lemma hero_call_save_ok: "hero_call f p g = Inr (out, g') \<Longrightarrow> gs_save_ok g' = gs_save_ok g \<and> gs_stop g' = gs_stop g"
  by (auto simp: hero_call_def stop_fields Let_def split: option.splits)

lemma send_init_save_ok: "send_init a g = Inr (out, g') \<Longrightarrow> gs_save_ok g' = gs_save_ok g \<and> gs_stop g' = gs_stop g"
  by (auto simp: send_init_def stop_fields Let_def split: option.splits prod.splits)

lemma reconnect_save_ok:
  "setReconnet p g = Inr g' \<Longrightarrow> gs_save_ok g' = gs_save_ok g \<and> gs_stop g' = gs_stop g"
  "setWaitReconnet p g = Inr g' \<Longrightarrow> gs_save_ok g' = gs_save_ok g \<and> gs_stop g' = gs_stop g"
  by (auto simp: setReconnet_def setWaitReconnet_def stop_fields Let_def split: option.splits)

lemma create_session_save_ok: "create_session p t a n g = Inr (out, g') \<Longrightarrow> gs_save_ok g' = gs_save_ok g \<and> gs_stop g' = gs_stop g"
  by (auto simp: create_session_def stop_fields Let_def split: option.splits dest!: send_init_save_ok)

lemma addUser_save_ok: "addUser fresh t a n g = Inr (p, out, g') \<Longrightarrow> gs_save_ok g' = gs_save_ok g \<and> gs_stop g' = gs_stop g"
  by (auto simp: addUser_def Let_def split: option.splits if_splits dest!: create_session_save_ok reconnect_save_ok)

lemma remove_by_gate_save_ok:
  "remove_by_gate_loop n m g = Inr (m', g') \<Longrightarrow> gs_save_ok g' = gs_save_ok g \<and> gs_stop g' = gs_stop g"
  by (induction n m g arbitrary: m' rule: remove_by_gate_loop.induct) (auto simp: stop_fields split: if_splits option.splits)

lemma VerifyToy_save_ok: "VerifyToy t w a g = Inr (out, g') \<Longrightarrow> gs_save_ok g' = gs_save_ok g \<and> gs_stop g' = gs_stop g"
  by (auto simp: VerifyToy_def stop_fields Let_def split: option.splits prod.splits)

lemma user_msg_save_ok: "session_parsePBMessage m p g = Inr (out, g') \<Longrightarrow> gs_save_ok g' = gs_save_ok g \<and> gs_stop g' = gs_stop g"
  by (cases m) (auto dest: hero_call_save_ok)

lemma game_handle_save_ok:
  assumes "game_handle e g = Inr (out, g')" and "e \<noteq> Ev_Save_Ok" and "\<nexists>time. e = Ev_Check_Stop time"
  shows "gs_save_ok g' = gs_save_ok g \<and> gs_stop g' = gs_stop g"
  using assms
  by (cases e)
    (auto simp: quiet_def parseGateRegister_def addGate_def parseAddUser_def removeUser_def offlineUser_def parseUserMsg_def removeGate_def
      removeUserByGate_def parseNeedCreateHero_def parseDBQueryNeedCreateHero_def parseQueryHeroInfo_def praseDBQueryHeroInfo_def
      parseMsgVerifyToy_def MsgVerifyToyError_def stop_fields create_fields Let_def split: if_splits option.splits prod.splits
      dest!: addUser_save_ok user_msg_save_ok reconnect_save_ok remove_by_gate_save_ok send_init_save_ok VerifyToy_save_ok hero_call_save_ok)

lemma unanswered_round:
  assumes "unanswered s" and "fst r = None \<or> fst r = Some n" and "snd r = game_once e"
    and "e \<noteq> Some Ev_Save_Ok" and "\<nexists>time. e = Some (Ev_Check_Stop time)" and "frame_round (game_ops time) r s = Inr t"
  shows "unanswered t"
proof -
  let ?f = "case fst r of None \<Rightarrow> fst s | Some n \<Rightarrow> signal_handle n (fst s)"
  have f: "\<not> fr_stop ?f" using assms(1) by (simp add: unanswered_def signal_stop_fields split: option.split)
  obtain g out where x: "game_once e (snd s) = Inr (g, out)" "\<not> gs_save_ok g" "\<not> gs_stop g"
  proof (cases e)
    case None
    then show ?thesis using that [of "fst (snd s)" "snd (snd s)"] assms(1) by (simp add: game_once_def unanswered_def)
  next
    case (Some ev)
    with assms(3,6) obtain o' g where g: "game_handle ev (fst (snd s)) = Inr (o', g)"
      by (auto simp: frame_round_def game_once_def Let_def split: option.splits)
    moreover have "ev \<noteq> Ev_Save_Ok" "\<nexists>time. ev = Ev_Check_Stop time" using assms(4,5) Some by auto
    ultimately show ?thesis
      using that [of g "snd (snd s) @ o'"] game_handle_save_ok [OF g] Some assms(1) by (auto simp: game_once_def unanswered_def)
  qed
  have check: "checkStop (game_ops time) (?f, g, out) = Inr (?f, g, out)"
    using x(2,3) by (simp add: game_ops_def game_frame_checkStop_def game_checkStop_def)
  have "signalStop (game_ops time) (?f, g, out) = Inr t"
    using assms(3,6) x(1) check by (auto simp: frame_round_def Let_def split: option.splits if_splits)
  then show ?thesis
    using f x(2,3) by (auto simp: game_ops_def base_signalStop_def game_frame_setStop_def unanswered_def split: if_splits)
qed

lemma unanswered_run:
  "unanswered s \<Longrightarrow> \<forall>r\<in>set rs. \<exists>e. snd r = game_once e \<and> e \<noteq> Some Ev_Save_Ok \<and> (\<nexists>time. e = Some (Ev_Check_Stop time)) \<Longrightarrow>
   frame_run (game_ops time) rs s = Inr t \<Longrightarrow> unanswered t"
proof (induction rs arbitrary: s)
  case (Cons r rs)
  show ?case
  proof (cases "fr_stop (fst s)")
    case False
    with Cons.prems(3) obtain u where u: "frame_round (game_ops time) r s = Inr u" "frame_run (game_ops time) rs u = Inr t" by auto
    obtain e where "snd r = game_once e" "e \<noteq> Some Ev_Save_Ok" "\<nexists>time. e = Some (Ev_Check_Stop time)" using Cons.prems(2) by auto
    from unanswered_round [OF Cons.prems(1) _ this u(1)] have "unanswered u" by (cases "fst r") auto
    from Cons.IH [OF this _ u(2)] Cons.prems(2) show ?thesis by simp
  qed (use Cons.prems in simp)
qed simp

text \<open>C26: the orderly stop. After the signal the game server saves all heroes, in order, and asks the database server
  last, over the connection its statements have gone through; the database server answers it and plans to stop its
  database; in the round of the answer the game server saves all heroes once more and leaves its loop, and once the
  database has written everything the database server leaves its own.\<close>

theorem orderly_shutdown:
  assumes "\<not> fr_stop f" and "\<not> fr_wait_stop f" and "SaveDreamHeroes time g = Inr out"
    and "p \<noteq> NULL" and "slot_get (qs_games q) (qs_game_id q p) = p" and "\<not> qs_receive_close q"
    and "\<not> fr_stop h" and "list_all (\<lambda>(n, works). works = []) (db_tasks d)" and "list_all isDone (db_threads d)"
  shows "\<exists>f1 f2 g2 q' h' d' saves.
      frame_run (game_ops time) [(Some 3, game_once None)] (f, g, []) = Inr (f1, g, saves @ [Db_Msg 0 SaveAllHeroesGS2DB])
    \<and> parseMsgSaveAllHeroesGS2DB p q = ([To_Game p 0 SaveAllHeroesDB2GS], q') \<and> qs_save_timer q' \<and> onSaveToClose = [Stop_Database]
    \<and> frame_run (game_ops time) [(None, game_once (Some Ev_Save_Ok))] (f1, g, out) = Inr (f2, g2, out @ out) \<and> fr_stop f2
    \<and> frame_run db_ops [(None, db_once), (None, db_once)] (h, setObjState Wait_Stop d) = Inr (h', d') \<and> fr_stop h'"
proof -
  let ?f = "f\<lparr>fr_signal := True, fr_wait_stop := True\<rparr>"
  obtain saves where saves: "out = saves @ [Db_Msg 0 SaveAllHeroesGS2DB]" using save_all_asks [OF assms(3)] by blast
  have ask: "frame_run (game_ops time) [(Some 3, game_once None)] (f, g, []) = Inr (?f, g, saves @ [Db_Msg 0 SaveAllHeroesGS2DB])"
    using game_asks [OF assms(1-3), of "[]"] saves by simp
  obtain q' where answer: "parseMsgSaveAllHeroesGS2DB p q = ([To_Game p 0 SaveAllHeroesDB2GS], q')" "qs_save_timer q'"
    using assms(4-6) by (auto simp: parseMsgSaveAllHeroesGS2DB_def saveToClose_def quest_sendMessage_def set_close_gs_id_def Let_def)
  obtain f2 g2 where stop: "frame_run (game_ops time) [(None, game_once (Some Ev_Save_Ok))] (?f, g, out) = Inr (f2, g2, out @ out)" "fr_stop f2"
    using game_stops [of ?f time g out out] assms(1,3) by auto
  obtain h' d' where "frame_run db_ops [(None, db_once), (None, db_once)] (h, setObjState Wait_Stop d) = Inr (h', d')" "fr_stop h'"
    using db_stops_when_idle [OF assms(7-9)] by blast
  with ask answer stop show ?thesis using onSaveToClose_def by blast
qed

text \<open>C27: only one game server is answered. When the database server has answered a game server, a second one gets
  nothing, and a game server without the answer never leaves its loop, whatever signals and events come.\<close>

theorem second_game_server_never_stops:
  assumes "qs_receive_close q" and "\<not> fr_stop f" and "\<not> gs_save_ok g" and "\<not> gs_stop g"
    and "\<forall>r\<in>set rs. \<exists>e. snd r = game_once e \<and> e \<noteq> Some Ev_Save_Ok \<and> (\<nexists>time. e = Some (Ev_Check_Stop time))"
    and "frame_run (game_ops time) rs (f, g, sent) = Inr (f', s')"
  shows "parseMsgSaveAllHeroesGS2DB p q = ([], q) \<and> \<not> fr_stop f'"
  using unanswered_run [OF _ assms(5,6)] assms(1-4)
  by (simp add: parseMsgSaveAllHeroesGS2DB_def saveToClose_def unanswered_def)

text \<open>A database server with game server 3 on connection 9.\<close>

definition quest_with_game :: quest_state where
  "quest_with_game = snd (quest_parseGameRegister this_version 3 (1, 0, 0, 0) 9 new_quest)"

lemma quest_with_game:
  "slot_get (qs_games quest_with_game) (qs_game_id quest_with_game 9) = 9" "\<not> qs_receive_close quest_with_game"
  by (simp_all add: quest_with_game_def quest_parseGameRegister_def addGame_def valid_slot_def MAX_GATE_ID_def new_quest_def slot_get_add Let_def)

definition idle_frame :: frame where
  "idle_frame = \<lparr>fr_stop = False, fr_wait_stop = False, fr_service_stop_state = 0, fr_print = False, fr_signal = False\<rparr>"

theorem orderly_shutdown_witness:
  "\<exists>out f2 g2 h' d'. SaveDreamHeroes (\<lambda>_. []) playing = Inr out \<and> 1 < length out
    \<and> frame_run (game_ops (\<lambda>_. [])) [(None, game_once (Some Ev_Save_Ok))]
        (idle_frame\<lparr>fr_signal := True, fr_wait_stop := True\<rparr>, playing, out) = Inr (f2, g2, out @ out) \<and> fr_stop f2
    \<and> frame_run db_ops [(None, db_once), (None, db_once)] (idle_frame, setObjState Wait_Stop new_database) = Inr (h', d') \<and> fr_stop h'"
proof -
  have "\<exists>es. SaveHero (\<lambda>_. []) (set_account 9 (new_hero\<lparr>h_session := 1\<rparr>)) = Inr es \<and> es \<noteq> [] \<and> (\<exists>out. deliver_all playing es = Inr out \<and> out \<noteq> [])"
    by (simp add: SaveHero_def set_account_def new_hero_def send_db_def character_sql_def
        sprintf_to_def c_str_def quoted_def show_u64_def show_i32_def show_int_def
        equip_statements_def toy_statements_def show_nat.simps deliver_all_def playing_def)
  then have "\<exists>out. SaveDreamHeroes (\<lambda>_. []) playing = Inr out \<and> 1 < length out"
    by (auto simp: SaveDreamHeroes_def save_hero_event_def playing_def)
  then obtain out where out: "SaveDreamHeroes (\<lambda>_. []) playing = Inr out" "1 < length out" by blast
  have "\<not> fr_stop idle_frame" "\<not> fr_wait_stop idle_frame" "(9 :: ptr) \<noteq> NULL" "db_tasks new_database = []" "db_threads new_database = []"
    by (simp_all add: idle_frame_def new_database_def)
  then obtain f1 f2 g2 q' h' d' saves where
    r: "frame_run (game_ops (\<lambda>_. [])) [(Some 3, game_once None)] (idle_frame, playing, []) = Inr (f1, playing, saves @ [Db_Msg 0 SaveAllHeroesGS2DB])"
      "frame_run (game_ops (\<lambda>_. [])) [(None, game_once (Some Ev_Save_Ok))] (f1, playing, out) = Inr (f2, g2, out @ out)" "fr_stop f2"
      "frame_run db_ops [(None, db_once), (None, db_once)] (idle_frame, setObjState Wait_Stop new_database) = Inr (h', d')" "fr_stop h'"
    using orderly_shutdown [OF _ _ out(1) _ quest_with_game, of idle_frame idle_frame new_database]
    by (simp del: frame_run.simps) blast
  moreover have "f1 = idle_frame\<lparr>fr_signal := True, fr_wait_stop := True\<rparr>"
    using game_asks [of idle_frame "\<lambda>_. []" playing out "[]"] out(1) r(1) by (simp add: idle_frame_def del: frame_run.simps)
  ultimately show ?thesis using out by blast
qed

theorem second_game_server_never_stops_witness:
  "\<exists>f' s'. frame_run (game_ops (\<lambda>_. [])) [(Some 3, game_once None), (None, game_once None)] (idle_frame, new_game empty_config, [])
      = Inr (f', s') \<and> fr_signal f' \<and> fr_wait_stop f' \<and> \<not> fr_stop f'
    \<and> parseMsgSaveAllHeroesGS2DB 9 (snd (parseMsgSaveAllHeroesGS2DB 9 quest_with_game)) = ([], snd (parseMsgSaveAllHeroesGS2DB 9 quest_with_game))"
proof -
  let ?rs = "[(Some 3, game_once None), (None, game_once None)]"
  have run: "\<exists>f' s'. frame_run (game_ops (\<lambda>_. [])) ?rs (idle_frame, new_game empty_config, []) = Inr (f', s') \<and> fr_signal f' \<and> fr_wait_stop f'"
    by (simp add: frame_round_def game_ops_def game_once_def Let_def signal_handle_def base_signalStop_def game_frame_setStop_def
        game_frame_checkStop_def game_setStop_def game_checkStop_def SaveDreamHeroes_def new_game_def idle_frame_def)
  then obtain f' s' where r: "frame_run (game_ops (\<lambda>_. [])) ?rs (idle_frame, new_game empty_config, []) = Inr (f', s')" "fr_signal f'" "fr_wait_stop f'"
    by blast
  have "qs_receive_close (snd (parseMsgSaveAllHeroesGS2DB 9 quest_with_game))"
    using quest_with_game(2) by (simp add: parseMsgSaveAllHeroesGS2DB_def saveToClose_def Let_def)
  moreover have "\<not> fr_stop idle_frame" "\<not> gs_save_ok (new_game empty_config)" "\<not> gs_stop (new_game empty_config)"
    by (simp_all add: idle_frame_def new_game_def)
  moreover have "\<exists>e. game_once None = game_once e \<and> e \<noteq> Some Ev_Save_Ok \<and> (\<forall>time. e \<noteq> Some (Ev_Check_Stop time))"
    by (rule exI [of _ None]) simp
  ultimately have "parseMsgSaveAllHeroesGS2DB 9 (snd (parseMsgSaveAllHeroesGS2DB 9 quest_with_game))
      = ([], snd (parseMsgSaveAllHeroesGS2DB 9 quest_with_game)) \<and> \<not> fr_stop f'"
    using second_game_server_never_stops [OF _ _ _ _ _ r(1), of "snd (parseMsgSaveAllHeroesGS2DB 9 quest_with_game)" 9]
    by (simp del: frame_run.simps)
  with r show ?thesis by blast
qed

end
