(* ===== verification/Delivery.thy ===== *)
theory Delivery
  imports Protoc_Common Tcp_Session "HOL-Library.Sublist"
begin

text \<open>
  Two processes and a connection between them: the sender packs its messages in its thread buffer
  (\<^verbatim>\<open>Protoc_Common\<close>), gives them to its connection (\<^verbatim>\<open>Tcp_Session\<close>, with the frames of \<^verbatim>\<open>Message\<close>), which writes
  them as the network allows; the receiver's connection cuts the stream back into packets, and each is unpacked for
  the callback. The connection carries plain frames, as between the servers.
\<close>

section \<open>The two ends\<close>

text \<open>What happens at the sender, in any order: a message is sent, a posted write runs, a write completes. \<open>junk\<close> is the
  content of the memory the frame is built in.\<close>

datatype 'm link_op = Send_Pb 'm u32 "nat \<Rightarrow> u8" | Posted | Completed

fun link_exec ::
  "('m \<Rightarrow> u8 list) \<Rightarrow> ('m \<Rightarrow> u8 list) \<Rightarrow> u32 \<Rightarrow> 'm link_op \<Rightarrow> buffer_manager \<times> tcp_session
   \<Rightarrow> (buffer_manager \<times> tcp_session) result" where
  "link_exec name ser self (Send_Pb msg flag junk) (m, s) =
     bind_result (pushProtocMessage name ser self (Some msg) flag m) (\<lambda>(sent, m).
       case sent of
         None \<Rightarrow> Inr (m, s)
       | Some bytes \<Rightarrow>
           bind_result (send_message None junk (Some bytes) (word_of_nat (length bytes)) s) (\<lambda>s. Inr (m, s)))"
| "link_exec name ser self Posted (m, s) = Inr (m, send_exec Run_Posted s)"
| "link_exec name ser self Completed (m, s) = Inr (m, send_exec Write_Done s)"

fun link_run ::
  "('m \<Rightarrow> u8 list) \<Rightarrow> ('m \<Rightarrow> u8 list) \<Rightarrow> u32 \<Rightarrow> 'm link_op list \<Rightarrow> buffer_manager \<times> tcp_session
   \<Rightarrow> (buffer_manager \<times> tcp_session) result" where
  "link_run name ser self [] st = Inr st"
| "link_run name ser self (op # ops) st = bind_result (link_exec name ser self op st) (link_run name ser self ops)"

fun link_sent :: "'m link_op list \<Rightarrow> ('m \<times> u32) list" where
  "link_sent [] = []"
| "link_sent (Send_Pb msg flag junk # ops) = (msg, flag) # link_sent ops"
| "link_sent (op # ops) = link_sent ops"

text \<open>The receiver: the packets its connection has delivered go through \<open>parseProtocmessage\<close> one by one; the result is what
  the callback has been called with.\<close>

fun receive_all ::
  "'m finder \<Rightarrow> u32 \<Rightarrow> message_t list \<Rightarrow> buffer_manager \<Rightarrow> (('m \<times> u32) list \<times> buffer_manager) result" where
  "receive_all types self [] m = Inr ([], m)"
| "receive_all types self (p # ps) m =
     bind_result (parseProtocmessage types self (msg_data p) m) (\<lambda>(r, m).
     bind_result (receive_all types self ps m) (\<lambda>(rs, m).
       Inr ((case r of None \<Rightarrow> rs | Some x \<Rightarrow> x # rs), m)))"

section \<open>Buffers with room\<close>

text \<open>All buffers of a process that has only handled small messages have at least 65000 bytes.\<close>

definition roomy :: "buffer_manager \<Rightarrow> bool" where
  "roomy m \<longleftrightarrow> bm_ok m
     \<and> (\<forall>p t k. bm_objects m p = Some t \<longrightarrow> tp_buffer_length t k = 0 \<or> 65000 \<le> tp_buffer_length t k)"

lemma new_buffer_manager_roomy: "roomy new_buffer_manager"
  using new_buffer_manager_ok by (simp add: roomy_def new_buffer_manager_def)

lemma roomyD:
  assumes "roomy m"
  shows "bm_ok m" "bm_objects m p = Some t \<Longrightarrow> tp_buffer_length t k = 0 \<or> 65000 \<le> tp_buffer_length t k"
  using assms unfolding roomy_def by blast+

lemma grown_length_room: "unat n * 150 < 2 ^ 32 \<Longrightarrow> 65000 \<le> grown_length n"
  by (simp add: word_le_nat_alt unat_grown_length) arith

lemma tp_getThreadBuffer_room:
  assumes "tp_getThreadBuffer p k n m = Inr (a, len, m')" and "unat n * 150 < 2 ^ 32" and "n \<noteq> 0"
    and lens: "\<forall>p t k. bm_objects m p = Some t \<longrightarrow> tp_buffer_length t k = 0 \<or> 65000 \<le> tp_buffer_length t k"
  shows "65000 \<le> len \<and> (bm_objects m' q = Some u \<longrightarrow> tp_buffer_length u l = 0 \<or> 65000 \<le> tp_buffer_length u l)"
proof -
  obtain t where t: "bm_objects m p = Some t" using assms(1) by (auto simp: tp_getThreadBuffer_def split: option.splits)
  show ?thesis
  proof (cases "tp_buffer_length t k < n")
    case True
    with assms(1) t grown_length_room [OF assms(2)] lens [rule_format, of q u l] lens [rule_format, OF t, of l] show ?thesis
      by (auto simp: tp_getThreadBuffer_def Let_def split: if_splits)
  next
    case False
    with assms(3) have "tp_buffer_length t k \<noteq> 0" by (auto simp: word_gt_0)
    with False assms(1) t lens [rule_format, of q u l] lens [rule_format, OF t, of k] show ?thesis by (auto simp: tp_getThreadBuffer_def)
  qed
qed

lemma getThreadBuffer_room:
  assumes "roomy m" and "unat n * 150 < 2 ^ 32" and "n \<noteq> 0"
  shows "\<exists>a len m' b. getThreadBuffer self k n m = Inr (a, len, m') \<and> roomy m' \<and> 65000 \<le> len
    \<and> bm_blocks m' a = Some b \<and> length b = unat len"
proof -
  note lens = roomyD(2) [OF assms(1)]
  obtain a len m' b where g: "getThreadBuffer self k n m = Inr (a, len, m')" "bm_ok m'" "bm_blocks m' a = Some b" "length b = unat len"
    using getThreadBuffer_ok [OF roomyD(1) [OF assms(1)], of self k n] assms(3) by blast
  obtain p tid where find: "find_assign m (thread_buffer_vector m) self = Inr (p, tid)"
    using g(1) by (auto simp: getThreadBuffer_def)
  let ?m = "m\<lparr>thread_buffer_vector := thread_buffer_vector m @ [bm_next m],
    bm_objects := (bm_objects m)(bm_next m \<mapsto> new_thread_packet_buffer tid), bm_next := bm_next m + 1\<rparr>"
  have "tp_getThreadBuffer (if p = NULL then bm_next m else p) k n (if p = NULL then ?m else m) = Inr (a, len, m')"
    using g(1) find by (simp add: getThreadBuffer_def split: if_splits)
  moreover have "tp_buffer_length t k = 0 \<or> 65000 \<le> tp_buffer_length t k"
    if "bm_objects (if p = NULL then ?m else m) q = Some t" for q t k
    using that lens [of q t k] by (auto simp: new_thread_packet_buffer_def split: if_splits)
  ultimately obtain p m1 where p: "tp_getThreadBuffer p k n m1 = Inr (a, len, m')"
      "\<forall>p t k. bm_objects m1 p = Some t \<longrightarrow> tp_buffer_length t k = 0 \<or> 65000 \<le> tp_buffer_length t k"
    by blast
  have "65000 \<le> len" "roomy m'"
    using tp_getThreadBuffer_room [OF p(1) assms(2,3) p(2)] g(2) unfolding roomy_def by blast+
  with g show ?thesis by blast
qed

lemma write_block_roomy:
  "roomy m \<Longrightarrow> bm_blocks m a = Some b \<Longrightarrow> length b' = length b \<Longrightarrow> roomy (m\<lparr>bm_blocks := (bm_blocks m)(a \<mapsto> b')\<rparr>)"
  using write_block_ok unfolding roomy_def by simp


text \<open>A message that fits into one frame is always sent, and always received.\<close>

definition deliverable :: "('m \<Rightarrow> u8 list) \<Rightarrow> ('m \<Rightarrow> u8 list) \<Rightarrow> 'm finder \<Rightarrow> 'm \<Rightarrow> bool" where
  "deliverable name ser types msg \<longleftrightarrow> name msg \<noteq> [] \<and> 8 + length (name msg) + length (ser msg) \<le> MAX_MESSAGE_LEN - MESSAGE_HEAD_LEN
     \<and> (case types (name msg) of None \<Rightarrow> False | Some dec \<Rightarrow> dec (ser msg) = Some msg)"

lemma deliverableD:
  assumes "deliverable name ser types msg"
  shows "name msg \<noteq> []" "8 + length (name msg) + length (ser msg) \<le> 64990"
    "\<exists>dec. types (name msg) = Some dec \<and> dec (ser msg) = Some msg"
  using assms by (auto simp: deliverable_def MAX_MESSAGE_LEN_def MESSAGE_HEAD_LEN_def split: option.splits)

lemma push_roomy:
  assumes room: "roomy m" and len: "8 + length (name msg) + length (ser msg) \<le> 64990"
  shows "\<exists>m'. pushProtocMessage name ser self (Some msg) flag m = Inr (Some (pb_frame flag (name msg) (ser msg)), m') \<and> roomy m'"
proof -
  let ?n = "name msg" and ?s = "ser msg"
  let ?r = "push_request name ser msg" and ?nl = "word_of_nat (length ?n) :: u32"
  have r: "unat ?r = 4 + length ?n + length ?s" using unat_push_request [of name msg ser] len by simp
  then have "?r \<noteq> 0" by (metis unat_0 add_is_0 zero_neq_numeral)
  then obtain a L m1 mem where g: "getThreadBuffer self packet_send_buffer ?r m = Inr (a, L, m1)" "roomy m1" "65000 \<le> L"
      "bm_blocks m1 a = Some mem" "length mem = unat L"
    using getThreadBuffer_room [OF room, of ?r self packet_send_buffer] r len by auto
  have L: "65000 \<le> unat L" using g(3) by (simp add: word_le_nat_alt)
  let ?p = "\<lparr>ts_buff = a, ts_buff_pos = 0, ts_max_length = L\<rparr>"
  let ?head = "[le_bytes 4 flag, le_bytes 4 ?nl, ?n]"
  obtain mem1 where w: "send_buffer_write ?head ?p m1 =
        Inr (?p\<lparr>ts_buff_pos := 8 + length ?n\<rparr>, m1\<lparr>bm_blocks := (bm_blocks m1)(a \<mapsto> mem1)\<rparr>)"
      "length mem1 = length mem" "take (8 + length ?n) mem1 = concat ?head"
    using send_buffer_write_ok [of m1 ?p mem ?head] g(4,5) L len by auto
  let ?mem2 = "take (8 + length ?n) mem1 @ ?s @ drop (8 + length ?n + length ?s) mem1"
  have len2: "length ?mem2 = length mem" using w(2) g(5) L len by simp
  have "roomy (m1\<lparr>bm_blocks := (bm_blocks m1)(a \<mapsto> ?mem2)\<rparr>)"
    by (rule write_block_roomy [OF g(2,4) len2])
  moreover have "take (8 + length ?n + length ?s) ?mem2 = pb_frame flag ?n ?s"
    using w g(5) L len by (simp add: pb_frame_def)
  ultimately show ?thesis
    using g w L len
    by (auto simp: pushProtocMessage_def new_thread_send_buffer_def send_buffer_append_def send_buffer_bytes_def Let_def)
qed

section \<open>The sender is a queue of frames\<close>

definition pb_message :: "'m link_op \<Rightarrow> ('m \<Rightarrow> u8 list) \<Rightarrow> ('m \<Rightarrow> u8 list) \<Rightarrow> send_op" where
  "pb_message op name ser =
     (case op of
        Send_Pb msg flag junk \<Rightarrow> Enqueue \<lparr>msg_data = frame junk False (pb_frame flag (name msg) (ser msg)), msg_from = 0\<rparr>
      | Posted \<Rightarrow> Run_Posted
      | Completed \<Rightarrow> Write_Done)"

lemma send_exec_fields:
  "m_iscompress (send_exec op s) = m_iscompress s"
  by (cases op) (auto simp: send_queued_def write_message_def handle_write_def on_close_io_def clear_send_msg_def
      close_session_def emit_def Let_def split: prod.splits)

lemma send_message_plain:
  assumes "m_isvalid s" and "m_isconnected s" and "\<not> m_iscompress s" and "1 < length bytes" and "length bytes \<le> 64990"
  shows "send_message None junk (Some bytes) (word_of_nat (length bytes)) s
    = Inr (send_exec (Enqueue \<lparr>msg_data = frame junk False bytes, msg_from = 0\<rparr>) s)"
proof -
  obtain L :: u32 where L: "L = word_of_nat (length bytes)" by blast
  have len: "unat L = length bytes" unfolding L by (subst unat_of_nat) (use assms(5) in simp)
  have pos: "L \<noteq> 0" using len assms(4) by auto
  have mk: "makeMessage junk 0 bytes L False = Inr \<lparr>msg_data = frame junk False bytes, msg_from = 0\<rparr>"
    unfolding L by (rule makeMessage_frame') (use assms(4,5) in simp_all)
  show ?thesis
    unfolding L [symmetric]
    using assms len pos mk by (simp add: send_message_def compress_def MAX_MESSAGE_LEN_def split: option.split)
qed

lemma link_exec_queue:
  assumes "roomy m" and "send_inv x s" and "\<not> m_iscompress s"
    and "\<forall>(msg, flag) \<in> set (link_sent [op]). deliverable name ser types msg"
  shows "\<exists>m'. link_exec name ser self op (m, s) = Inr (m', send_exec (pb_message op name ser) s) \<and> roomy m'"
proof (cases op)
  case (Send_Pb msg flag junk)
  with assms(4) have d: "deliverable name ser types msg" by simp
  let ?f = "pb_frame flag (name msg) (ser msg)"
  obtain m' where "pushProtocMessage name ser self (Some msg) flag m = Inr (Some ?f, m')" "roomy m'"
    using push_roomy [of m name msg ser self flag] assms(1) deliverableD(2) [OF d] by blast
  moreover have "send_message None junk (Some ?f) (word_of_nat (length ?f)) s
      = Inr (send_exec (Enqueue \<lparr>msg_data = frame junk False ?f, msg_from = 0\<rparr>) s)"
    using send_message_plain [of s ?f junk] assms(2,3) deliverableD(2) [OF d] by (simp add: send_inv_def pb_frame_def)
  ultimately show ?thesis using Send_Pb by (simp add: pb_message_def)
qed (use assms(1) in \<open>auto simp: pb_message_def\<close>)

lemma link_run_queue:
  assumes "roomy m" and "send_inv x s" and "\<not> m_iscompress s"
    and "\<forall>(msg, flag) \<in> set (link_sent ops). deliverable name ser types msg"
  shows "\<exists>m'. link_run name ser self ops (m, s) = Inr (m', fold send_exec (map (\<lambda>op. pb_message op name ser) ops) s)"
  using assms
proof (induction ops arbitrary: m s x)
  case (Cons op ops)
  have split: "set (link_sent (op # ops)) = set (link_sent [op]) \<union> set (link_sent ops)"
    by (cases op) auto
  obtain m' where m': "link_exec name ser self op (m, s) = Inr (m', send_exec (pb_message op name ser) s)" "roomy m'"
    using link_exec_queue [where name = name and ser = ser and types = types and op = op, OF Cons.prems(1-3)] Cons.prems(4) split by blast
  from Cons.IH [OF m'(2) send_exec_inv [OF Cons.prems(2)], of "pb_message op name ser"] Cons.prems(3,4) split m'(1)
  show ?case by (simp add: send_exec_fields)
qed simp

text \<open>The junk is only part of the frames.\<close>

fun link_frames :: "('m \<Rightarrow> u8 list) \<Rightarrow> ('m \<Rightarrow> u8 list) \<Rightarrow> 'm link_op list \<Rightarrow> ((nat \<Rightarrow> u8) \<times> u8 list) list" where
  "link_frames name ser [] = []"
| "link_frames name ser (Send_Pb msg flag junk # ops) = (junk, pb_frame flag (name msg) (ser msg)) # link_frames name ser ops"
| "link_frames name ser (op # ops) = link_frames name ser ops"

lemma enqueued_frames:
  "enqueued (map (\<lambda>op. pb_message op name ser) ops) = concat (map (\<lambda>(junk, p). frame junk False p) (link_frames name ser ops))"
  by (induction ops rule: link_sent.induct) (simp_all add: pb_message_def)

lemma link_frames_sent:
  "map (\<lambda>(junk, p). \<lparr>msg_data = p, msg_from = 0\<rparr>) (link_frames name ser ops)
     = map (\<lambda>(msg, flag). \<lparr>msg_data = pb_frame flag (name msg) (ser msg), msg_from = 0\<rparr>) (link_sent ops)"
  by (induction ops rule: link_sent.induct) simp_all

lemma link_frames_fit:
  "\<forall>(msg, flag) \<in> set (link_sent ops). deliverable name ser types msg \<Longrightarrow>
   \<forall>(junk, p) \<in> set (link_frames name ser ops). length p + 10 \<le> MAX_MESSAGE_LEN"
  by (induction ops rule: link_sent.induct) (auto simp: pb_frame_def MAX_MESSAGE_LEN_def dest!: deliverableD(2))

section \<open>The receiver gets a prefix\<close>

lemma parse_prefix:
  assumes "parse iface ys = (ms, More r)" and "prefix xs ys"
  shows "prefix (fst (parse iface xs)) ms"
proof -
  obtain zs where "ys = xs @ zs" using assms(2) by (auto simp: prefix_def)
  with assms(1) parse_append [of iface xs zs] show ?thesis
    by (cases "snd (parse iface xs)") (auto simp: prefix_def)
qed

lemma prefix_map_take: "prefix xs (map f ys) \<Longrightarrow> \<exists>k. xs = map f (take k ys)"
  by (rule exI [of _ "length xs"]) (auto simp: prefix_def append_eq_conv_conj take_map [symmetric])

lemma receive_all_sent:
  assumes "bm_ok m" and "\<forall>(msg, flag) \<in> set L. deliverable name ser types msg"
  shows "\<exists>m'. receive_all types self (map (\<lambda>(msg, flag). \<lparr>msg_data = pb_frame flag (name msg) (ser msg), msg_from = 0\<rparr>) L) m
    = Inr (L, m')"
  using assms
proof (induction L arbitrary: m)
  case (Cons x L)
  obtain msg flag where x: "x = (msg, flag)" by (cases x)
  with Cons.prems(2) have d: "deliverable name ser types msg" by simp
  obtain dec where dec: "types (name msg) = Some dec" "dec (ser msg) = Some msg"
    using deliverableD(3) [OF d] by (elim exE conjE)
  have len: "8 + length (name msg) + length (ser msg) < 28633114" using deliverableD(2) [OF d] by simp
  obtain m' where m': "parseProtocmessage types self (pb_frame flag (name msg) (ser msg)) m = Inr (Some (msg, flag), m')" "bm_ok m'"
    using parse_pb_frame [where name = name and ser = ser and msg = msg and types = types and parse = dec,
        OF Cons.prems(1) deliverableD(1) [OF d] len dec] by blast
  from Cons.IH [OF m'(2)] Cons.prems(2) m'(1) x show ?case by auto
qed simp

section \<open>From end to end\<close>

text \<open>C2: What one process sends the other receives. For every order of sends, posted writes and completed writes on a fresh
  connection, nothing fails at the sender; and whatever part of the bytes it has written has reached the other side, in
  whatever pieces, the callback there has been called with the messages and flags sent, in order, from the first one
  on, and with all of them once everything is written and has arrived. The messages fit into a frame, their types
  have names that the receiver knows, and protobuf parses what it serialises.
\<close>

theorem messages_delivered:
  assumes "roomy m" and "m_isvalid s" and "m_isconnected s" and "\<not> m_iscompress s" and "m_queue_send_msg s = []"
    and "\<not> m_is_sending_data s" and "m_not_sent_size s = 0" and "written (effects s) = []"
    and "list_all (\<lambda>(msg, flag). deliverable name ser types msg) (link_sent ops)"
    and "receiving r" and "live r = []" and "delivered (effects r) = []" and "bm_ok w"
  shows "\<exists>m' s'. link_run name ser self ops (m, s) = Inr (m', s')
    \<and> (\<forall>cs. list_all (\<lambda>c. length c \<le> MAX_MESSAGE_LEN) cs \<and> prefix (concat cs) (written (effects s')) \<longrightarrow>
         (\<exists>r' got w'. feed None cs r = Inr r' \<and> receive_all types other (delivered (effects r')) w = Inr (got, w')
            \<and> prefix got (link_sent ops)
            \<and> (concat cs = written (effects s') \<and> m_queue_send_msg s' = [] \<longrightarrow> got = link_sent ops)))"
proof -
  have fit: "\<forall>(msg, flag) \<in> set (link_sent ops). deliverable name ser types msg"
    using assms(9) by (simp add: list_all_iff)
  let ?s' = "fold send_exec (map (\<lambda>op. pb_message op name ser) ops) s"
  let ?sent = "concat (map (\<lambda>(junk, p). frame junk False p) (link_frames name ser ops))"
  let ?msgs = "map (\<lambda>(msg, flag). \<lparr>msg_data = pb_frame flag (name msg) (ser msg), msg_from = 0\<rparr>)"
  have inv: "send_inv [] s" using assms(2,3,5-8) by (simp add: send_inv_def outstanding_def queued_bytes_def)
  obtain m' where run: "link_run name ser self ops (m, s) = Inr (m', ?s')"
    using link_run_queue [OF assms(1) inv assms(4) fit] by blast
  have "written (effects ?s') @ queued_bytes ?s' = ?sent"
    using fold_send_inv [OF inv, of "map (\<lambda>op. pb_message op name ser) ops"] by (simp add: send_inv_def enqueued_frames)
  then have pre: "prefix (written (effects ?s')) ?sent" and all: "m_queue_send_msg ?s' = [] \<Longrightarrow> written (effects ?s') = ?sent"
    by (metis prefixI, simp add: queued_bytes_def)
  have parse: "parse None ?sent = (?msgs (link_sent ops), More [])"
    using parse_frames [OF link_frames_fit [OF fit]] by (simp add: link_frames_sent)
  have "\<exists>r' got w'. feed None cs r = Inr r' \<and> receive_all types other (delivered (effects r')) w = Inr (got, w')
      \<and> prefix got (link_sent ops) \<and> (concat cs = written (effects ?s') \<and> m_queue_send_msg ?s' = [] \<longrightarrow> got = link_sent ops)"
    if cs: "list_all (\<lambda>c. length c \<le> MAX_MESSAGE_LEN) cs" "prefix (concat cs) (written (effects ?s'))" for cs
  proof -
    let ?ms = "fst (parse None (concat cs))"
    obtain r' where r': "feed None cs r = Inr r'" "delivered (effects r') = ?ms"
      using feed_parse [OF assms(10), of cs None] assms(11,12) cs(1) by (auto simp: parse_short MESSAGE_HEAD_LEN_def list_all_iff)
    have "prefix ?ms (?msgs (link_sent ops))"
      using parse_prefix [OF parse] cs(2) pre prefix_order.trans by blast
    then obtain k where k: "?ms = ?msgs (take k (link_sent ops))" by (auto dest: prefix_map_take)
    have "\<forall>(msg, flag) \<in> set (take k (link_sent ops)). deliverable name ser types msg"
      using fit by (auto dest: in_set_takeD)
    from receive_all_sent [OF assms(13) this] obtain w'
      where w': "receive_all types other ?ms w = Inr (take k (link_sent ops), w')" unfolding k by blast
    have "concat cs = written (effects ?s') \<and> m_queue_send_msg ?s' = [] \<longrightarrow> take k (link_sent ops) = link_sent ops"
    proof
      assume that: "concat cs = written (effects ?s') \<and> m_queue_send_msg ?s' = []"
      have "?msgs (take k (link_sent ops)) = ?msgs (link_sent ops)" using that all parse k by (simp only: fst_conv)
      then have "length (take k (link_sent ops)) = length (link_sent ops)" by (rule map_eq_imp_length_eq)
      then show "take k (link_sent ops) = link_sent ops" by (simp add: take_all_iff)
    qed
    moreover have "prefix (take k (link_sent ops)) (link_sent ops)" by (rule take_is_prefix)
    ultimately show ?thesis using r'(1) w' unfolding r'(2) [symmetric] by blast
  qed
  with run show ?thesis by blast
qed

text \<open>Two messages, one write, and a network that delivers byte by byte.\<close>

theorem messages_delivered_witness:
  "\<exists>m' s' r' w'. link_run (\<lambda>_. [65]) (\<lambda>n. [n]) 17
        [Send_Pb 7 5 (\<lambda>_. 0), Posted, Send_Pb 8 6 (\<lambda>_. 1), Completed] (new_buffer_manager, accepted) = Inr (m', s')
    \<and> feed None (map (\<lambda>b. [b]) (written (effects s'))) accepted = Inr r'
    \<and> receive_all (\<lambda>t. if t = [65] then Some (\<lambda>b. if length b = 1 then Some (b ! 0) else None) else None) 23
        (delivered (effects r')) new_buffer_manager = Inr ([(7, 5), (8, 6)], w')"
proof -
  let ?ops = "[Send_Pb 7 5 (\<lambda>_. 0), Posted, Send_Pb 8 6 (\<lambda>_. 1), Completed] :: u8 link_op list"
  let ?name = "\<lambda>_ :: u8. [65] :: u8 list" and ?ser = "\<lambda>n :: u8. [n]"
  let ?types = "\<lambda>t :: u8 list. if t = [65] then Some (\<lambda>b :: u8 list. if length b = 1 then Some (b ! 0) else None) else None"
  have acc: "m_isvalid accepted" "m_isconnected accepted" "\<not> m_iscompress accepted" "m_queue_send_msg accepted = []"
      "\<not> m_is_sending_data accepted" "m_not_sent_size accepted = 0" "written (effects accepted) = []"
      "delivered (effects accepted) = []" "m_father accepted = Some \<lparr>limit_mode = False, ttti_mode = False, task_thread_count = 1\<rparr>"
    by (simp_all add: accepted_def handle_accept_def begin_read_message_def new_session_def emit_def Let_def)
  have d: "list_all (\<lambda>(msg, flag). deliverable ?name ?ser ?types msg) (link_sent ?ops)"
    by (simp add: deliverable_def MAX_MESSAGE_LEN_def MESSAGE_HEAD_LEN_def)
  have inv: "send_inv [] accepted" using acc by (simp add: send_inv_def outstanding_def queued_bytes_def)
  obtain m' where run: "link_run ?name ?ser 17 ?ops (new_buffer_manager, accepted)
      = Inr (m', fold send_exec (map (\<lambda>op. pb_message op ?name ?ser) ?ops) accepted)"
    using link_run_queue [where name = ?name and ser = ?ser and types = ?types and ops = ?ops, OF new_buffer_manager_roomy inv acc(3)] d
    by (auto simp: list_all_iff simp del: link_run.simps)
  let ?s' = "fold send_exec (map (\<lambda>op. pb_message op ?name ?ser) ?ops) accepted"
  have queue: "m_queue_send_msg ?s' = []"
    using acc by (simp add: pb_message_def send_queued_def write_message_def handle_write_def emit_def Let_def pb_frame_def
        MAX_MESSAGE_LEN_def)
  note deliv = messages_delivered [where name = ?name and ser = ?ser and types = ?types and ops = ?ops and r = accepted
      and other = 23 and self = 17, OF new_buffer_manager_roomy acc(1-7) d _ _ acc(8) new_buffer_manager_ok]
  from deliv [OF conjunct1 [OF accepted_receiving] conjunct2 [OF accepted_receiving]] obtain m1 s1 where
      s1: "link_run ?name ?ser 17 ?ops (new_buffer_manager, accepted) = Inr (m1, s1)"
    and got: "\<forall>cs. list_all (\<lambda>c. length c \<le> MAX_MESSAGE_LEN) cs \<and> prefix (concat cs) (written (effects s1)) \<longrightarrow>
         (\<exists>r' got w'. feed None cs accepted = Inr r' \<and> receive_all ?types 23 (delivered (effects r')) new_buffer_manager = Inr (got, w')
            \<and> prefix got (link_sent ?ops)
            \<and> (concat cs = written (effects s1) \<and> m_queue_send_msg s1 = [] \<longrightarrow> got = link_sent ?ops))"
    by (elim exE conjE)
  have "s1 = ?s'" using trans [OF s1 [symmetric] run] by (simp only: sum.inject prod.inject)
  with queue have q: "m_queue_send_msg s1 = []" by (simp only:)
  let ?cs = "map (\<lambda>b. [b]) (written (effects s1))"
  have cs: "concat ?cs = written (effects s1)" by simp
  then have "list_all (\<lambda>c. length c \<le> MAX_MESSAGE_LEN) ?cs \<and> prefix (concat ?cs) (written (effects s1))"
    by (simp only: prefix_order.refl) (simp add: list_all_iff MAX_MESSAGE_LEN_def)
  from mp [OF spec [OF got] this] obtain r' gs w' where r': "feed None ?cs accepted = Inr r'"
      "receive_all ?types 23 (delivered (effects r')) new_buffer_manager = Inr (gs, w')"
      "concat ?cs = written (effects s1) \<and> m_queue_send_msg s1 = [] \<longrightarrow> gs = link_sent ?ops"
    by (elim exE conjE)
  have "gs = link_sent ?ops" by (rule mp [OF r'(3) conjI [OF cs q]])
  with r'(2) have "receive_all ?types 23 (delivered (effects r')) new_buffer_manager = Inr ([(7, 5), (8, 6)], w')"
    by (simp only: link_sent.simps)
  with s1 r'(1) show ?thesis by (intro exI conjI)
qed

end
