(* ===== verification/Virtual_Client.thy ===== *)
theory Virtual_Client
  imports Tcp_Client Utilities "HOL-Library.Sublist"
begin

text \<open>
  The test program \<^verbatim>\<open>virtualclient\<close> (\<^verbatim>\<open>client.cpp\<close>, \<^verbatim>\<open>client_manager.cpp\<close>, \<^verbatim>\<open>VirtualConfig.cpp\<close>): robots that log in at
  the login server, go on to the gate they are given, and enter the game, a number of them at a time. Each is a
  \<open>tcp_client\<close> whose virtual functions are overridden; the manager keeps who waits, who is connecting, and two lists of who
  is offline and online, which the dialog shows.
\<close>

section \<open>State\<close>

datatype client_state =
    client_init | client_wait_login | client_conn_login | client_wait_gate | client_connet_gate | client_close

text \<open>The messages a robot sends, and those it gets: all the handlers but two have no effect.\<close>

datatype robot_msg = Login_Request string string | Login_Game u32

datatype robot_in = Login_Response bool u32 string u32 | Msg_Hero_Init | Msg_Other

record robot =
  rb_tcp :: tcp_client
  rb_testIndex :: u32
  rb_state :: client_state
  rb_transid :: u32
  rb_ip :: string
  rb_port :: u16
  rb_acc :: string
  rb_ready_connect_gate :: bool
  rb_move_state_enable :: bool
  rb_sent :: "robot_msg list"

text \<open>\<open>ct_list_offline\<close> and \<open>ct_list_online\<close> are the list boxes of the dialog, \<open>ct_events\<close> the intervals of the timers started,
  \<open>ct_next\<close> the address of the next robot. Robots are never deleted.\<close>

record robot_test =
  ct_maxCount :: u32
  ct_curCount :: u32
  ct_onceCount :: u32
  ct_Online :: u32
  ct_onceTime :: u32
  ct_TransCount :: u32
  ct_accountBegin :: u32
  ct_client_init :: bool
  ct_Clients :: "ptr list"
  ct_WaitReconnet :: "ptr list"
  ct_Reconns :: "ptr set"
  ct_offline :: "(string, ptr) omap"
  ct_online :: "(string, ptr) omap"
  ct_ip :: string
  ct_port :: u16
  ct_list_offline :: "string list"
  ct_list_online :: "string list"
  ct_events :: "u32 list"
  ct_robots :: "ptr \<Rightarrow> robot"
  ct_next :: ptr
  ct_time :: u32

text \<open>What the code uses of the libraries: the compression strategy and fresh memory of the connection, a message packed by
  \<open>sendPBMessage\<close> and unpacked by \<open>parsePBMessage\<close>, and the resolution of host names.\<close>

record robot_env =
  re_iface :: "compress_strategy option"
  re_junk :: "nat \<Rightarrow> u8"
  re_enc :: "robot_msg \<Rightarrow> u8 list option"
  re_dec :: "message_t \<Rightarrow> robot_in option"
  re_resolve :: "string \<Rightarrow> string option"

definition upd_robot :: "ptr \<Rightarrow> (robot \<Rightarrow> robot) \<Rightarrow> robot_test \<Rightarrow> robot_test" where
  "upd_robot p f w = w\<lparr>ct_robots := (ct_robots w)(p := f (ct_robots w p))\<rparr>"

section \<open>The lists\<close>

text \<open>\<open>ClientListModify\<close> of the dialog: the first equal line is taken out.\<close>

definition ClientListModify :: "string \<Rightarrow> bool \<Rightarrow> bool \<Rightarrow> robot_test \<Rightarrow> robot_test" where
  "ClientListModify name online add w =
     (let change = (\<lambda>xs. if add then xs @ [name] else remove1 name xs)
      in if online then w\<lparr>ct_list_online := change (ct_list_online w)\<rparr>
         else w\<lparr>ct_list_offline := change (ct_list_offline w)\<rparr>)"

definition addOnlineClient :: "ptr \<Rightarrow> robot_test \<Rightarrow> robot_test" where
  "addOnlineClient p w =
     (let acc = rb_acc (ct_robots w p);
          w = (if om_find (ct_offline w) acc \<noteq> None
               then ClientListModify acc False False (w\<lparr>ct_offline := om_erase acc (ct_offline w)\<rparr>) else w)
      in if om_find (ct_online w) acc = None
         then ClientListModify acc True True (w\<lparr>ct_online := om_set acc p (ct_online w)\<rparr>) else w)"

definition addOfflineClient :: "ptr \<Rightarrow> robot_test \<Rightarrow> robot_test" where
  "addOfflineClient p w =
     (let acc = rb_acc (ct_robots w p);
          w = (if om_find (ct_online w) acc \<noteq> None
               then ClientListModify acc True False (w\<lparr>ct_online := om_erase acc (ct_online w)\<rparr>) else w)
      in if om_find (ct_offline w) acc = None
         then ClientListModify acc False True (w\<lparr>ct_offline := om_set acc p (ct_offline w)\<rparr>) else w)"

definition addToReconn :: "ptr \<Rightarrow> robot_test \<Rightarrow> robot_test" where
  "addToReconn p w = w\<lparr>ct_WaitReconnet := ct_WaitReconnet w @ [p]\<rparr>"

definition removeFromReconn :: "ptr \<Rightarrow> robot_test \<Rightarrow> robot_test" where
  "removeFromReconn p w = w\<lparr>ct_Reconns := ct_Reconns w - {p}\<rparr>"

section \<open>Robots\<close>

text \<open>The constructor. The account is printed into 128 bytes.\<close>

definition robot_account :: "u32 \<Rightarrow> string result" where
  "robot_account index = sprintf_to 128 (''virtual_count'' @ ''_'' @ show_nat (unat index))"

definition new_robot :: "u32 \<Rightarrow> robot_test \<Rightarrow> (ptr \<times> robot_test) result" where
  "new_robot index w =
     bind_result (robot_account index) (\<lambda>acc.
       let p = ct_next w;
           r = \<lparr>rb_tcp = new_client (ct_time w), rb_testIndex = index, rb_state = client_init, rb_transid = 0,
                rb_ip = ct_ip w, rb_port = ct_port w, rb_acc = acc, rb_ready_connect_gate = False,
                rb_move_state_enable = False, rb_sent = []\<rparr>
       in Inr (p, addOfflineClient p (w\<lparr>ct_robots := (ct_robots w)(p := r), ct_next := p + 1\<rparr>)))"

definition robot_connect :: "robot_env \<Rightarrow> robot \<Rightarrow> robot" where
  "robot_connect env r = r\<lparr>rb_tcp := client_connect (re_resolve env (rb_ip r)) (rb_port r) (rb_tcp r)\<rparr>"

definition robot_send :: "robot_env \<Rightarrow> robot_msg \<Rightarrow> robot \<Rightarrow> robot result" where
  "robot_send env msg r =
     (let r = r\<lparr>rb_sent := rb_sent r @ [msg]\<rparr> in
      case re_enc env msg of
        None \<Rightarrow> Inr r
      | Some bytes \<Rightarrow>
          bind_result (client_exec (re_iface env) (re_junk env) (Cl_Send (Some bytes) (word_of_nat (length bytes))) (rb_tcp r)) (\<lambda>c.
            Inr (r\<lparr>rb_tcp := c\<rparr>)))"

text \<open>The overridden functions. What the base class does comes first.\<close>

definition robot_on_connect :: "robot_env \<Rightarrow> ptr \<Rightarrow> robot_test \<Rightarrow> robot_test result" where
  "robot_on_connect env p w =
     (let w = removeFromReconn p w;
          w = upd_robot p (\<lambda>r. r\<lparr>rb_tcp := client_run_cb Cb_Connect (rb_tcp r)\<rparr>) w;
          r = ct_robots w p
      in if rb_state r \<in> {client_init, client_wait_login}
         then bind_result (robot_send env (Login_Request (rb_acc r) ''123456'') (r\<lparr>rb_state := client_conn_login\<rparr>)) (\<lambda>r.
                Inr (upd_robot p (\<lambda>_. r) w))
         else if rb_state r = client_wait_gate
         then bind_result (robot_send env (Login_Game (rb_transid r)) (r\<lparr>rb_state := client_connet_gate\<rparr>)) (\<lambda>r.
                Inr (upd_robot p (\<lambda>_. r) w))
         else Inr w)"

definition robot_on_close :: "robot_env \<Rightarrow> ptr \<Rightarrow> robot_test \<Rightarrow> robot_test" where
  "robot_on_close env p w =
     (let w = upd_robot p (\<lambda>r. r\<lparr>rb_tcp := client_run_cb Cb_Close (rb_tcp r)\<rparr>) w;
          w = addOfflineClient p w;
          w = (if rb_state (ct_robots w p) = client_conn_login \<and> rb_ready_connect_gate (ct_robots w p)
               then upd_robot p (\<lambda>r. robot_connect env (r\<lparr>rb_state := client_wait_gate\<rparr>)) w else w)
      in addOfflineClient p w)"

definition robot_on_connect_failed :: "ptr \<Rightarrow> robot_test \<Rightarrow> robot_test" where
  "robot_on_connect_failed p w =
     (if rb_state (ct_robots w p) = client_connet_gate then addToReconn p w else w)"

text \<open>\<open>proc_message\<close>, with the two handlers that do something.\<close>

definition parseLoginResult :: "bool \<Rightarrow> u32 \<Rightarrow> string \<Rightarrow> u32 \<Rightarrow> robot \<Rightarrow> robot" where
  "parseLoginResult success account ip port r =
     (if success
      then let r = r\<lparr>rb_transid := account, rb_ip := ip, rb_port := ucast port, rb_ready_connect_gate := True\<rparr>
           in r\<lparr>rb_tcp := on_client (close_session (cl_session (rb_tcp r))) (rb_tcp r)\<rparr>
      else r)"

definition robot_proc_message :: "robot_env \<Rightarrow> ptr \<Rightarrow> message_t \<Rightarrow> robot_test \<Rightarrow> robot_test" where
  "robot_proc_message env p m w =
     (case re_dec env m of
        Some (Login_Response success account ip port) \<Rightarrow> upd_robot p (parseLoginResult success account ip port) w
      | Some Msg_Hero_Init \<Rightarrow> addOnlineClient p w
      | _ \<Rightarrow> w)"

section \<open>A robot's turn\<close>

text \<open>\<open>update\<close> is \<open>run_no_wait\<close> with these functions: reconnect, the callbacks that have collected, the messages that have
  collected.\<close>

definition robot_callback :: "robot_env \<Rightarrow> ptr \<Rightarrow> client_cb \<Rightarrow> robot_test \<Rightarrow> robot_test result" where
  "robot_callback env p cb w =
     (let w = upd_robot p (\<lambda>r. r\<lparr>rb_tcp := (rb_tcp r)\<lparr>cl_called := cl_called (rb_tcp r) @ [cb]\<rparr>\<rparr>) w in
      case cb of
        Cb_Connect \<Rightarrow> robot_on_connect env p w
      | Cb_Connect_Failed \<Rightarrow> Inr (robot_on_connect_failed p w)
      | Cb_Close \<Rightarrow> Inr (robot_on_close env p w))"

fun robot_callbacks :: "robot_env \<Rightarrow> ptr \<Rightarrow> client_cb list \<Rightarrow> robot_test \<Rightarrow> robot_test result" where
  "robot_callbacks env p [] w = Inr w"
| "robot_callbacks env p (cb # cbs) w = bind_result (robot_callback env p cb w) (robot_callbacks env p cbs)"

definition robot_messages :: "robot_env \<Rightarrow> ptr \<Rightarrow> robot_test \<Rightarrow> robot_test" where
  "robot_messages env p w =
     (case client_turn (cl_queue_recv_msg (rb_tcp (ct_robots w p))) of
        None \<Rightarrow> w
      | Some (i, q) \<Rightarrow>
          let ms = slots q ! i;
              w = upd_robot p (\<lambda>r. r\<lparr>rb_tcp := (rb_tcp r)\<lparr>cl_queue_recv_msg := q\<lparr>slots := (slots q)[i := []]\<rparr>,
                                                       cl_handled := cl_handled (rb_tcp r) @ ms\<rparr>\<rparr>) w
          in fold (robot_proc_message env p) ms w)"

definition robot_update :: "robot_env \<Rightarrow> ptr \<Rightarrow> robot_test \<Rightarrow> robot_test result" where
  "robot_update env p w =
     (let w = upd_robot p (\<lambda>r. r\<lparr>rb_tcp := run_reconnect (rb_tcp r)\<rparr>) w;
          cbs = cl_cbs (rb_tcp (ct_robots w p));
          w = upd_robot p (\<lambda>r. r\<lparr>rb_tcp := (rb_tcp r)\<lparr>cl_cbs := []\<rparr>\<rparr>) w
      in bind_result (robot_callbacks env p cbs w) (\<lambda>w. Inr (robot_messages env p w)))"

definition robot_IsOK :: "robot \<Rightarrow> bool" where
  "robot_IsOK r = rb_move_state_enable r"

definition robot_IsGetTrans :: "robot \<Rightarrow> bool" where
  "robot_IsGetTrans r \<longleftrightarrow> rb_transid r > 0"

section \<open>The manager\<close>

definition new_robot_test :: "u32 \<Rightarrow> robot_test" where
  "new_robot_test now =
     \<lparr>ct_maxCount = 0, ct_curCount = 0, ct_onceCount = 0, ct_Online = 0, ct_onceTime = 1000, ct_TransCount = 0,
      ct_accountBegin = 1, ct_client_init = False, ct_Clients = [], ct_WaitReconnet = [], ct_Reconns = {}, ct_offline = [],
      ct_online = [], ct_ip = ''10.1.1.115'', ct_port = 10104, ct_list_offline = [], ct_list_online = [], ct_events = [],
      ct_robots = (\<lambda>_. undefined), ct_next = 1, ct_time = now\<rparr>"

fun add_robots :: "u32 list \<Rightarrow> robot_test \<Rightarrow> robot_test result" where
  "add_robots [] w = Inr w"
| "add_robots (i # is) w =
     bind_result (new_robot i w) (\<lambda>(p, w).
       add_robots is (addToReconn p (w\<lparr>ct_Clients := ct_Clients w @ [p]\<rparr>)))"

definition addRobot :: "robot_test \<Rightarrow> robot_test result" where
  "addRobot w = add_robots (map (\<lambda>i. word_of_nat i + ct_accountBegin w) [0..<unat (ct_maxCount w)]) w"

text \<open>\<open>init\<close>: \<open>conf\<close> are the four values in \<^verbatim>\<open>conf/robot.json\<close>, if it can be read.\<close>

definition robot_test_init ::
  "int \<Rightarrow> int \<Rightarrow> (u32 \<times> u32 \<times> u32 \<times> string) option \<Rightarrow> robot_test \<Rightarrow> (bool \<times> robot_test) result" where
  "robot_test_init accountBegin accountEnd conf w =
     (if ct_client_init w then Inr (True, w)
      else
        let w = w\<lparr>ct_accountBegin := word_of_int accountBegin,
                  ct_maxCount := word_of_int (max 0 (accountEnd - accountBegin))\<rparr>
        in case conf of
             None \<Rightarrow> Inr (False, w)
           | Some (once_count, port, once_time, ip) \<Rightarrow>
               bind_result (addRobot (w\<lparr>ct_onceCount := once_count, ct_port := ucast port,
                                         ct_onceTime := (if once_time < 10 then 100 else once_time), ct_ip := ip\<rparr>)) (\<lambda>w.
                 Inr (True, w\<lparr>ct_events := ct_events w @ [ct_onceTime w], ct_client_init := True\<rparr>)))"

text \<open>The loop of \<open>reConnetClient\<close>; a null pointer at the front would keep it running for ever.\<close>

fun reconnect_loop :: "robot_env \<Rightarrow> ptr list \<Rightarrow> robot_test \<Rightarrow> robot_test result" where
  "reconnect_loop env [] w = Inr (w\<lparr>ct_WaitReconnet := []\<rparr>)"
| "reconnect_loop env (p # ps) w =
     (if \<not> card (ct_Reconns w) < unat (ct_onceCount w) then Inr (w\<lparr>ct_WaitReconnet := p # ps\<rparr>)
      else if p = NULL then Inl (Runtime_Error ''endless loop'')
      else reconnect_loop env ps ((upd_robot p (robot_connect env) w)\<lparr>ct_Reconns := insert p (ct_Reconns w)\<rparr>))"

definition reConnetClient :: "robot_env \<Rightarrow> robot_test \<Rightarrow> robot_test result" where
  "reConnetClient env w = reconnect_loop env (ct_WaitReconnet w) (w\<lparr>ct_curCount := ct_curCount w + 1\<rparr>)"

text \<open>\<open>runOnce\<close>, without the timers, which run on their own here.\<close>

fun update_robots :: "robot_env \<Rightarrow> ptr list \<Rightarrow> robot_test \<Rightarrow> robot_test result" where
  "update_robots env [] w = Inr w"
| "update_robots env (p # ps) w =
     (if p = NULL then update_robots env ps w
      else bind_result (robot_update env p w) (\<lambda>w.
             update_robots env ps
               (w\<lparr>ct_Online := ct_Online w + (if robot_IsOK (ct_robots w p) then 1 else 0),
                  ct_TransCount := ct_TransCount w + (if robot_IsGetTrans (ct_robots w p) then 1 else 0)\<rparr>)))"

definition robot_runOnce :: "robot_env \<Rightarrow> robot_test \<Rightarrow> robot_test result" where
  "robot_runOnce env w =
     (let w = w\<lparr>ct_Online := 0, ct_TransCount := 0\<rparr>
      in if ct_client_init w then update_robots env (ct_Clients w) w else Inr w)"

text \<open>\<open>GenerateAccount\<close>: the names of the accounts; the string is not emptied between two of them.\<close>

fun generate_accounts :: "int list \<Rightarrow> string \<Rightarrow> string list \<Rightarrow> string list result" where
  "generate_accounts [] str accounts = Inr accounts"
| "generate_accounts (i # is) str accounts =
     bind_result (sprintf_to 512 (''_'' @ show_int i)) (\<lambda>t. generate_accounts is (str @ t) (accounts @ [str @ t]))"

section \<open>Steps\<close>

text \<open>The network thread serves the connection of one robot, the main thread runs all robots or the timer, the clock moves.\<close>

datatype robot_step = Rs_Net ptr client_step | Rs_Run | Rs_Timer | Rs_Clock u32

fun net_step :: "client_step \<Rightarrow> bool" where
  "net_step (Cl_Job i) = True"
| "net_step (Cl_Connected e) = True"
| "net_step (Cl_Read c) = True"
| "net_step (Cl_Written i e) = True"
| "net_step _ = False"

fun robot_exec :: "robot_env \<Rightarrow> robot_step \<Rightarrow> robot_test \<Rightarrow> robot_test result" where
  "robot_exec env (Rs_Net p e) w =
     (if net_step e \<and> p \<in> set (ct_Clients w)
      then bind_result (client_exec (re_iface env) (re_junk env) e (rb_tcp (ct_robots w p))) (\<lambda>c.
             Inr (upd_robot p (\<lambda>r. r\<lparr>rb_tcp := c\<rparr>) w))
      else Inr w)"
| "robot_exec env Rs_Run w = robot_runOnce env w"
| "robot_exec env Rs_Timer w = (if ct_client_init w then reConnetClient env w else Inr w)"
| "robot_exec env (Rs_Clock now) w =
     Inr (w\<lparr>ct_time := now, ct_robots := (\<lambda>p. (ct_robots w p)\<lparr>rb_tcp := (rb_tcp (ct_robots w p))\<lparr>cl_time := now\<rparr>\<rparr>)\<rparr>)"

fun robot_exec_all :: "robot_env \<Rightarrow> robot_step list \<Rightarrow> robot_test \<Rightarrow> robot_test result" where
  "robot_exec_all env [] w = Inr w"
| "robot_exec_all env (e # es) w = bind_result (robot_exec env e w) (robot_exec_all env es)"

section \<open>What a robot's turn leaves alone\<close>

text \<open>Everything robot \<open>q\<close> does concerns \<open>q\<close> only: the other robots, their places among those that are connecting, and
  the queue of those that wait.\<close>

definition only :: "ptr \<Rightarrow> robot_test \<Rightarrow> robot_test \<Rightarrow> bool" where
  "only q w w' \<longleftrightarrow> (\<forall>p. p \<noteq> q \<longrightarrow> ct_robots w' p = ct_robots w p)
     \<and> rb_acc (ct_robots w' q) = rb_acc (ct_robots w q)
     \<and> rb_move_state_enable (ct_robots w' q) = rb_move_state_enable (ct_robots w q)
     \<and> ct_Reconns w - {q} \<subseteq> ct_Reconns w' \<and> ct_Reconns w' \<subseteq> ct_Reconns w
     \<and> prefix (ct_WaitReconnet w) (ct_WaitReconnet w') \<and> ct_Clients w' = ct_Clients w
     \<and> ct_onceCount w' = ct_onceCount w \<and> ct_client_init w' = ct_client_init w \<and> ct_Online w' = ct_Online w"

lemma only_refl: "only q w w"
  by (simp add: only_def)

lemma only_trans: "only q u v \<Longrightarrow> only q v w \<Longrightarrow> only q u w"
  unfolding only_def by (auto intro: prefix_order.trans)

lemma only_upd:
  "rb_acc (f (ct_robots w q)) = rb_acc (ct_robots w q) \<Longrightarrow>
   rb_move_state_enable (f (ct_robots w q)) = rb_move_state_enable (ct_robots w q) \<Longrightarrow> only q w (upd_robot q f w)"
  by (simp add: only_def upd_robot_def)

lemma only_lists:
  "only q w (addOnlineClient p w)" "only q w (addOfflineClient p w)" "only q w (addToReconn p w)" "only q w (removeFromReconn q w)"
  by (auto simp: only_def addOnlineClient_def addOfflineClient_def addToReconn_def removeFromReconn_def ClientListModify_def Let_def)

lemma robot_send_fields:
  assumes "robot_send env msg r = Inr r'"
  shows "rb_acc r' = rb_acc r" "rb_move_state_enable r' = rb_move_state_enable r" "rb_state r' = rb_state r"
    "rb_sent r' = rb_sent r @ [msg]" "rb_transid r' = rb_transid r"
  using assms by (auto simp: robot_send_def Let_def simp del: client_exec.simps split: option.splits)

lemma robot_send_spec:
  "robot_send env msg r = Inr r' \<Longrightarrow> rb_state r' = rb_state r \<and> rb_sent r' = rb_sent r @ [msg] \<and> rb_transid r' = rb_transid r"
  by (simp add: robot_send_fields)

lemma only_on_connect:
  assumes "robot_on_connect env q w = Inr w'" shows "only q w w'"
proof -
  obtain v where v: "v = upd_robot q (\<lambda>r. r\<lparr>rb_tcp := client_run_cb Cb_Connect (rb_tcp r)\<rparr>) (removeFromReconn q w)" by blast
  have w: "only q w v" unfolding v by (rule only_trans [OF only_lists(4) only_upd]) simp_all
  have "w' = v \<or> (\<exists>r msg st. robot_send env msg ((ct_robots v q)\<lparr>rb_state := st\<rparr>) = Inr r \<and> w' = upd_robot q (\<lambda>_. r) v)"
    using assms unfolding robot_on_connect_def Let_def v [symmetric] by (auto split: if_splits)
  then show ?thesis
  proof (elim disjE exE conjE)
    fix r msg st assume r: "robot_send env msg ((ct_robots v q)\<lparr>rb_state := st\<rparr>) = Inr r" "w' = upd_robot q (\<lambda>_. r) v"
    have "only q v w'" unfolding r(2) by (rule only_upd) (simp_all add: robot_send_fields [OF r(1)])
    with w show ?thesis by (rule only_trans)
  qed (use w in simp)
qed

lemma only_on_close: "only q w (robot_on_close env q w)"
proof -
  let ?w = "addOfflineClient q (upd_robot q (\<lambda>r. r\<lparr>rb_tcp := client_run_cb Cb_Close (rb_tcp r)\<rparr>) w)"
  have w: "only q w ?w" by (rule only_trans [OF only_upd only_lists(2)]) simp_all
  moreover have "only q ?w (upd_robot q (\<lambda>r. robot_connect env (r\<lparr>rb_state := client_wait_gate\<rparr>)) ?w)"
    by (rule only_upd) (simp_all add: robot_connect_def)
  ultimately show ?thesis
    by (cases "rb_state (ct_robots ?w q) = client_conn_login \<and> rb_ready_connect_gate (ct_robots ?w q)")
       (auto simp: robot_on_close_def Let_def intro: only_trans [OF _ only_lists(2)] only_trans [OF only_trans [OF _ _] only_lists(2)]
        simp del: client_run_cb.simps)
qed

lemma only_connect_failed: "only q w (robot_on_connect_failed q w)"
  by (auto simp: only_def robot_on_connect_failed_def addToReconn_def removeFromReconn_def)

lemma only_callback: "robot_callback env q cb w = Inr w' \<Longrightarrow> only q w w'"
proof -
  assume run: "robot_callback env q cb w = Inr w'"
  let ?w = "upd_robot q (\<lambda>r. r\<lparr>rb_tcp := (rb_tcp r)\<lparr>cl_called := cl_called (rb_tcp r) @ [cb]\<rparr>\<rparr>) w"
  have "only q w ?w" by (rule only_upd) simp_all
  moreover have "only q ?w w'"
    using run only_on_connect [of env q ?w w'] only_on_close [of q ?w env] only_connect_failed [of q ?w]
    by (cases cb) (auto simp: robot_callback_def Let_def)
  ultimately show ?thesis by (rule only_trans)
qed

lemma only_callbacks: "robot_callbacks env q cbs w = Inr w' \<Longrightarrow> only q w w'"
  by (induction cbs arbitrary: w) (auto intro: only_refl only_trans dest!: only_callback)

lemma parseLoginResult_fields [simp]:
  "rb_acc (parseLoginResult b t ip port r) = rb_acc r"
  "rb_move_state_enable (parseLoginResult b t ip port r) = rb_move_state_enable r"
  by (simp_all add: parseLoginResult_def Let_def)

lemma only_message: "only q w (robot_proc_message env q m w)"
  unfolding robot_proc_message_def
  by (auto intro!: only_upd only_lists only_refl split: option.split robot_in.split)

lemma only_messages: "only q w (robot_messages env q w)"
proof -
  have fold: "only q w (fold (robot_proc_message env q) ms w)" for ms w
    by (induction ms arbitrary: w) (auto intro: only_refl only_trans only_message)
  show ?thesis
    by (auto simp: robot_messages_def Let_def intro!: only_refl only_trans [OF only_upd fold] split: option.split)
qed

lemma only_update:
  assumes "robot_update env q w = Inr w'" shows "only q w w'"
proof -
  let ?w = "upd_robot q (\<lambda>r. r\<lparr>rb_tcp := run_reconnect (rb_tcp r)\<rparr>) w"
  let ?v = "upd_robot q (\<lambda>r. r\<lparr>rb_tcp := (rb_tcp r)\<lparr>cl_cbs := []\<rparr>\<rparr>) ?w"
  have v: "only q w ?v" by (rule only_trans [OF only_upd only_upd]) simp_all
  obtain u where u: "robot_callbacks env q (cl_cbs (rb_tcp (ct_robots ?w q))) ?v = Inr u" "w' = robot_messages env q u"
    using assms by (auto simp: robot_update_def Let_def)
  show ?thesis
    unfolding u(2) by (rule only_trans [OF v only_trans [OF only_callbacks [OF u(1)] only_messages]])
qed

section \<open>A robot enters the game\<close>

text \<open>Two robots for examples: the first is connecting, the second waits.\<close>

definition idle_robot :: robot where
  "idle_robot = \<lparr>rb_tcp = new_client 0, rb_testIndex = 1, rb_state = client_init, rb_transid = 0, rb_ip = ''h'', rb_port = 80,
     rb_acc = ''robot'', rb_ready_connect_gate = False, rb_move_state_enable = False, rb_sent = []\<rparr>"

definition demo_env :: robot_env where
  "demo_env = \<lparr>re_iface = None, re_junk = (\<lambda>_. 0), re_enc = (\<lambda>_. None), re_dec = (\<lambda>_. None), re_resolve = Some\<rparr>"

definition demo_robots :: robot_test where
  "demo_robots = (new_robot_test 0)\<lparr>ct_onceCount := 1, ct_client_init := True, ct_Clients := [1, 2], ct_WaitReconnet := [2],
     ct_Reconns := {1}, ct_robots := (\<lambda>_. idle_robot)\<rparr>"

lemma upd_robot_at [simp]: "ct_robots (upd_robot p f w) p = f (ct_robots w p)"
  by (simp add: upd_robot_def)

lemma on_connect_sends:
  assumes "robot_on_connect env p w = Inr w'"
  shows "rb_state (ct_robots w p) = client_init \<Longrightarrow> rb_state (ct_robots w' p) = client_conn_login
      \<and> rb_sent (ct_robots w' p) = rb_sent (ct_robots w p) @ [Login_Request (rb_acc (ct_robots w p)) ''123456'']"
    and "rb_state (ct_robots w p) = client_wait_gate \<Longrightarrow> rb_state (ct_robots w' p) = client_connet_gate
      \<and> rb_sent (ct_robots w' p) = rb_sent (ct_robots w p) @ [Login_Game (rb_transid (ct_robots w p))]"
    and "rb_acc (ct_robots w' p) = rb_acc (ct_robots w p)" and "p \<notin> ct_Reconns w'"
proof -
  obtain v where v: "v = upd_robot p (\<lambda>r. r\<lparr>rb_tcp := client_run_cb Cb_Connect (rb_tcp r)\<rparr>) (removeFromReconn p w)" by blast
  have vp: "rb_state (ct_robots v p) = rb_state (ct_robots w p)" "rb_sent (ct_robots v p) = rb_sent (ct_robots w p)"
      "rb_acc (ct_robots v p) = rb_acc (ct_robots w p)" "rb_transid (ct_robots v p) = rb_transid (ct_robots w p)" "p \<notin> ct_Reconns v"
    unfolding v by (simp_all add: upd_robot_def removeFromReconn_def)
  note run = assms [unfolded robot_on_connect_def Let_def v [symmetric]]
  show "rb_state (ct_robots w p) = client_init \<Longrightarrow> rb_state (ct_robots w' p) = client_conn_login
      \<and> rb_sent (ct_robots w' p) = rb_sent (ct_robots w p) @ [Login_Request (rb_acc (ct_robots w p)) ''123456'']"
    using run by (auto simp: vp dest!: robot_send_spec)
  show "rb_state (ct_robots w p) = client_wait_gate \<Longrightarrow> rb_state (ct_robots w' p) = client_connet_gate
      \<and> rb_sent (ct_robots w' p) = rb_sent (ct_robots w p) @ [Login_Game (rb_transid (ct_robots w p))]"
    using run by (auto simp: vp dest!: robot_send_spec)
  show "rb_acc (ct_robots w' p) = rb_acc (ct_robots w p)" using only_on_connect [OF assms] by (simp add: only_def)
  show "p \<notin> ct_Reconns w'"
    using run vp(5) by (auto simp: upd_robot_def split: if_splits)
qed

lemma addOfflineClient_keeps [simp]:
  "ct_robots (addOfflineClient p w) = ct_robots w" "ct_robots (addOnlineClient p w) = ct_robots w"
  "ct_WaitReconnet (addOfflineClient p w) = ct_WaitReconnet w" "ct_WaitReconnet (upd_robot q f w) = ct_WaitReconnet w"
  by (simp_all add: addOfflineClient_def addOnlineClient_def ClientListModify_def upd_robot_def Let_def)

lemma addOfflineClient_listed:
  "om_find (ct_offline (addOfflineClient p w)) (rb_acc (ct_robots w p)) \<noteq> None"
  "om_find (ct_online (addOnlineClient p w)) (rb_acc (ct_robots w p)) \<noteq> None"
  "om_find (ct_offline (addOnlineClient p w)) (rb_acc (ct_robots w p)) = None"
  by (simp_all add: addOfflineClient_def addOnlineClient_def ClientListModify_def Let_def)

lemma client_run_cb_jobs: "set (cl_jobs c) \<subseteq> set (cl_jobs (client_run_cb Cb_Close c))"
proof -
  have "set (cl_jobs c) \<subseteq> set (cl_jobs (fold client_effect es c))" for es and c :: tcp_client
  proof (induction es arbitrary: c)
    case (Cons e es)
    have "set (cl_jobs c) \<subseteq> set (cl_jobs (client_effect e c))" by (cases e) auto
    with Cons [of "client_effect e c"] show ?case by auto
  qed simp
  from this [of "c\<lparr>cl_session := x\<rparr>" for x] show ?thesis by (simp add: on_client_def)
qed

lemma on_close_to_gate:
  assumes "rb_state (ct_robots w p) = client_conn_login" and "rb_ready_connect_gate (ct_robots w p)"
    and "re_resolve env (rb_ip (ct_robots w p)) = Some addr" and "w' = robot_on_close env p w"
  shows "rb_state (ct_robots w' p) = client_wait_gate \<and> Job_Connect (addr, rb_port (ct_robots w p)) \<in> set (cl_jobs (rb_tcp (ct_robots w' p)))
    \<and> rb_acc (ct_robots w' p) = rb_acc (ct_robots w p) \<and> rb_sent (ct_robots w' p) = rb_sent (ct_robots w p)
    \<and> rb_transid (ct_robots w' p) = rb_transid (ct_robots w p) \<and> om_find (ct_offline w') (rb_acc (ct_robots w p)) \<noteq> None"
proof -
  let ?w = "addOfflineClient p (upd_robot p (\<lambda>r. r\<lparr>rb_tcp := client_run_cb Cb_Close (rb_tcp r)\<rparr>) w)"
  let ?v = "upd_robot p (\<lambda>r. robot_connect env (r\<lparr>rb_state := client_wait_gate\<rparr>)) ?w"
  have w': "w' = addOfflineClient p ?v"
    using assms(1,2) unfolding assms(4) robot_on_close_def Let_def by (simp del: client_run_cb.simps)
  have "rb_acc (ct_robots ?v p) = rb_acc (ct_robots w p)" by (simp add: robot_connect_def del: client_run_cb.simps)
  with addOfflineClient_listed(1) [of p ?v] have "om_find (ct_offline w') (rb_acc (ct_robots w p)) \<noteq> None" unfolding w' by simp
  then show ?thesis
    using assms(3) unfolding w' by (simp add: robot_connect_def client_connect_def del: client_run_cb.simps)
qed

text \<open>A robot that is connected logs in with its account and the one password; when it is accepted, it closes the
  connection, remembers gate and transaction id, connects to the gate once the connection is closed, presents the id
  there, and is shown online when its hero arrives.
\<close>

theorem robot_journey:
  assumes "rb_state (ct_robots w p) = client_init" and "robot_on_connect env p w = Inr w1"
    and "w2 = upd_robot p (parseLoginResult True t ip port) w1" and "w3 = robot_on_close env p w2"
    and "re_resolve env ip = Some addr" and "robot_on_connect env p w3 = Inr w4"
    and "re_dec env m = Some Msg_Hero_Init" and "w5 = robot_proc_message env p m w4"
  shows "rb_state (ct_robots w1 p) = client_conn_login \<and> p \<notin> ct_Reconns w1
    \<and> Job_Handle_Close \<in> set (cl_jobs (rb_tcp (ct_robots w2 p)))
    \<and> Job_Connect (addr, ucast port) \<in> set (cl_jobs (rb_tcp (ct_robots w3 p))) \<and> rb_acc (ct_robots w p) \<in> dom (om_find (ct_offline w3))
    \<and> rb_sent (ct_robots w4 p) = rb_sent (ct_robots w p) @ [Login_Request (rb_acc (ct_robots w p)) ''123456'', Login_Game t]
    \<and> rb_state (ct_robots w4 p) = client_connet_gate
    \<and> rb_acc (ct_robots w p) \<in> dom (om_find (ct_online w5)) - dom (om_find (ct_offline w5))"
proof -
  note c1 = on_connect_sends [OF assms(2)]
  have r2: "ct_robots w2 p = parseLoginResult True t ip port (ct_robots w1 p)" by (simp add: assms(3))
  have s2: "rb_state (ct_robots w2 p) = client_conn_login" "rb_ready_connect_gate (ct_robots w2 p)" "rb_ip (ct_robots w2 p) = ip"
      "rb_port (ct_robots w2 p) = ucast port" "rb_transid (ct_robots w2 p) = t" "rb_sent (ct_robots w2 p) = rb_sent (ct_robots w1 p)"
      "rb_acc (ct_robots w2 p) = rb_acc (ct_robots w p)" "Job_Handle_Close \<in> set (cl_jobs (rb_tcp (ct_robots w2 p)))"
    using c1(1) [OF assms(1)] c1(3) unfolding r2 by (simp_all add: parseLoginResult_def Let_def on_client_def close_session_def emit_def)
  note c3 = on_close_to_gate [OF s2(1,2) _ assms(4), of addr, unfolded s2(3), OF assms(5), unfolded s2]
  note c4 = on_connect_sends [OF assms(6)]
  have acc: "rb_acc (ct_robots w4 p) = rb_acc (ct_robots w p)" using c3 c4(3) by simp
  have "w5 = addOnlineClient p w4" by (simp add: assms(7,8) robot_proc_message_def)
  with addOfflineClient_listed(2,3) [of p w4] acc
  have "rb_acc (ct_robots w p) \<in> dom (om_find (ct_online w5)) - dom (om_find (ct_offline w5))" by auto
  moreover have "rb_acc (ct_robots w p) \<in> dom (om_find (ct_offline w3))" using c3 by auto
  moreover have "rb_state (ct_robots w1 p) = client_conn_login \<and> p \<notin> ct_Reconns w1" using c1(1) [OF assms(1)] c1(4) by simp
  ultimately show ?thesis using c1(1) [OF assms(1)] c3 c4(2) s2(8) by simp
qed

theorem robot_journey_witness:
  "\<exists>w1 w4. robot_on_connect demo_env 1 demo_robots = Inr w1
     \<and> robot_on_connect demo_env 1 (robot_on_close demo_env 1 (upd_robot 1 (parseLoginResult True 7 ''gate'' 90) w1)) = Inr w4
     \<and> rb_sent (ct_robots w4 1) = [Login_Request ''robot'' ''123456'', Login_Game 7]"
proof -
  let ?env = "demo_env\<lparr>re_dec := \<lambda>_. Some Msg_Hero_Init\<rparr>"
  have conn: "\<exists>w'. robot_on_connect demo_env p w = Inr w'" for p w
    by (simp add: robot_on_connect_def robot_send_def demo_env_def Let_def)
  have same: "robot_on_connect ?env p w = robot_on_connect demo_env p w" "robot_on_close ?env p w = robot_on_close demo_env p w" for p w
    by (simp_all add: robot_on_connect_def robot_send_def robot_on_close_def robot_connect_def[abs_def] Let_def demo_env_def)
  obtain w1 w4 where w1: "robot_on_connect demo_env 1 demo_robots = Inr w1"
    and w4: "robot_on_connect demo_env 1 (robot_on_close demo_env 1 (upd_robot 1 (parseLoginResult True 7 ''gate'' 90) w1)) = Inr w4"
    using conn by blast
  have start: "rb_state (ct_robots demo_robots 1) = client_init" "rb_sent (ct_robots demo_robots 1) = []"
      "rb_acc (ct_robots demo_robots 1) = ''robot''" "re_resolve ?env ''gate'' = Some ''gate''" "re_dec ?env m = Some Msg_Hero_Init" for m
    by (simp_all add: demo_robots_def idle_robot_def demo_env_def)
  from robot_journey [of demo_robots 1 ?env w1 _ 7 "''gate''" 90 _ "''gate''" w4, unfolded same, OF start(1) w1 refl refl start(4) w4 start(5) refl]
  have "rb_sent (ct_robots w4 1) = [Login_Request ''robot'' ''123456'', Login_Game 7]" unfolding start by (simp only: append_Nil)
  with w1 w4 show ?thesis by blast
qed

text \<open>A robot that loses the gate is out: it is not connected again.\<close>

lemma gate_lost_for_good:
  assumes "rb_state (ct_robots w p) = client_connet_gate"
  shows "ct_WaitReconnet (robot_on_close env p w) = ct_WaitReconnet w
    \<and> rb_state (ct_robots (robot_on_close env p w) p) = client_connet_gate
    \<and> rb_tcp (ct_robots (robot_on_close env p w) p) = client_run_cb Cb_Close (rb_tcp (ct_robots w p))"
  using assms by (simp add: robot_on_close_def Let_def del: client_run_cb.simps)

section \<open>Every robot is in one of the two lists\<close>

abbreviation account_of :: "robot_test \<Rightarrow> ptr \<Rightarrow> string" where
  "account_of w p \<equiv> rb_acc (ct_robots w p)"

text \<open>Two maps with the lists that show them; each of \<open>S\<close> is in one of them, under its account.\<close>

definition split_lists :: "ptr set \<Rightarrow> (ptr \<Rightarrow> string) \<Rightarrow> (string, ptr) omap \<Rightarrow> string list \<Rightarrow> (string, ptr) omap \<Rightarrow> string list \<Rightarrow> bool" where
  "split_lists S acc m l n k \<longleftrightarrow> inj_on acc S \<and> dom (om_find m) \<union> dom (om_find n) = acc ` S
     \<and> (\<forall>p\<in>S. om_find m (acc p) = Some p \<and> om_find n (acc p) = None \<or> om_find m (acc p) = None \<and> om_find n (acc p) = Some p)
     \<and> distinct l \<and> set l = dom (om_find m) \<and> distinct k \<and> set k = dom (om_find n)"

lemma split_lists_sym: "split_lists S acc m l n k \<Longrightarrow> split_lists S acc n k m l"
  unfolding split_lists_def by auto

lemma split_lists_move:
  assumes ok: "split_lists S acc m l n k" and p: "p \<in> S \<or> acc p \<notin> acc ` S"
  shows "split_lists (insert p S) acc (if om_find m (acc p) = None then om_set (acc p) p m else m)
    (if om_find m (acc p) = None then l @ [acc p] else l) (om_erase (acc p) n) (remove1 (acc p) k)"
proof -
  note parts = ok [unfolded split_lists_def]
  have other: "acc q \<noteq> acc p" if "q \<in> S" "q \<noteq> p" for q
  proof
    assume e: "acc q = acc p"
    have "acc p \<in> acc ` S" unfolding e [symmetric] using that(1) by (rule imageI)
    then have "p \<in> S" using p by blast
    then show False using inj_onD [OF conjunct1 [OF parts] e that(1)] that(2) by blast
  qed
  obtain m' l' where m': "m' = (if om_find m (acc p) = None then om_set (acc p) p m else m)"
    and l': "l' = (if om_find m (acc p) = None then l @ [acc p] else l)" by blast
  have own: "om_find m (acc p) = Some p" if "om_find m (acc p) \<noteq> None"
  proof -
    have "acc p \<in> acc ` S" using that parts by auto
    then have "p \<in> S" using p by blast
    then have "om_find m (acc p) = Some p \<or> om_find m (acc p) = None" using parts by blast
    with that show ?thesis by (elim disjE) simp_all
  qed
  then have M: "om_find m' = (om_find m)(acc p \<mapsto> p)" unfolding m' by (auto simp: fun_eq_iff)
  have dom: "dom (om_find m) \<union> dom (om_find n) = acc ` S" "set l = dom (om_find m)" "distinct l" "distinct k" "set k = dom (om_find n)"
    using parts by blast+
  have "acc p \<notin> acc ` (S - {p})"
  proof
    assume "acc p \<in> acc ` (S - {p})"
    then obtain q where "acc p = acc q" "q \<in> S" "q \<noteq> p" by blast
    with other [of q] show False by simp
  qed
  with conjunct1 [OF parts] have "inj_on acc (insert p S)" by (simp add: inj_on_insert)
  moreover have "dom (om_find m') \<union> dom (om_find (om_erase (acc p) n)) = acc ` insert p S"
  proof -
    have "dom (om_find m') = insert (acc p) (dom (om_find m))" by (rule set_eqI) (simp add: M domIff)
    moreover have "dom (om_find (om_erase (acc p) n)) = dom (om_find n) - {acc p}" by (rule set_eqI) (simp add: domIff)
    ultimately show ?thesis unfolding image_insert dom(1) [symmetric] by (simp only:) fast
  qed
  moreover have "om_find m' (acc q) = Some q \<and> om_find (om_erase (acc p) n) (acc q) = None
      \<or> om_find m' (acc q) = None \<and> om_find (om_erase (acc p) n) (acc q) = Some q" if "q \<in> insert p S" for q
  proof (cases "q = p")
    case False
    with that have "q \<in> S" "acc q \<noteq> acc p" using other by auto
    with parts show ?thesis by (simp add: M)
  qed (simp add: M)
  moreover have "distinct l'" "set l' = dom (om_find m')"
    using dom(2,3) own by (auto simp: l' M dom_def)
  moreover have "distinct (remove1 (acc p) k)" "set (remove1 (acc p) k) = dom (om_find (om_erase (acc p) n))"
    using dom(4,5) by (simp, intro set_eqI) (simp add: domIff)
  ultimately show ?thesis unfolding split_lists_def m' [symmetric] l' [symmetric] by blast
qed

definition listed :: "ptr set \<Rightarrow> robot_test \<Rightarrow> bool" where
  "listed S w = split_lists S (account_of w) (ct_offline w) (ct_list_offline w) (ct_online w) (ct_list_online w)"

lemma om_erase_absent: "om_find m k = None \<Longrightarrow> om_erase k m = m"
  by (auto simp: om_erase_def map_of_eq_None_iff filter_id_conv)

lemma listed_move:
  assumes "listed S w" and "p \<in> S \<or> account_of w p \<notin> account_of w ` S"
  shows "listed (insert p S) (addOfflineClient p w)" "listed (insert p S) (addOnlineClient p w)"
proof -
  have shown: "remove1 a (ct_list_offline w) = ct_list_offline w" if "om_find (ct_offline w) a = None" for a
    using assms(1) that unfolding listed_def split_lists_def by (intro remove1_idem) auto
  have shown': "remove1 a (ct_list_online w) = ct_list_online w" if "om_find (ct_online w) a = None" for a
    using assms(1) that unfolding listed_def split_lists_def by (intro remove1_idem) auto
  show "listed (insert p S) (addOfflineClient p w)"
    using split_lists_move [OF assms [unfolded listed_def]] shown' [of "account_of w p"] om_erase_absent [of "ct_online w" "account_of w p"]
    by (auto simp: listed_def addOfflineClient_def ClientListModify_def Let_def split: if_splits)
  show "listed (insert p S) (addOnlineClient p w)"
    using split_lists_sym [OF split_lists_move [OF split_lists_sym [OF assms(1) [unfolded listed_def]] assms(2)]]
      shown [of "account_of w p"] om_erase_absent [of "ct_offline w" "account_of w p"]
    by (auto simp: listed_def addOnlineClient_def ClientListModify_def Let_def split: if_splits)
qed

definition same_lists :: "robot_test \<Rightarrow> robot_test \<Rightarrow> bool" where
  "same_lists w w' \<longleftrightarrow> account_of w' = account_of w \<and> ct_offline w' = ct_offline w \<and> ct_online w' = ct_online w
     \<and> ct_list_offline w' = ct_list_offline w \<and> ct_list_online w' = ct_list_online w"

lemma same_listed: "same_lists w w' \<Longrightarrow> listed S w \<Longrightarrow> listed S w'"
  by (simp add: same_lists_def listed_def)

lemma same_lists_upd: "rb_acc (f (ct_robots w p)) = account_of w p \<Longrightarrow> same_lists w (upd_robot p f w)"
  by (auto simp: same_lists_def upd_robot_def fun_eq_iff)

lemma same_lists_trans: "same_lists u v \<Longrightarrow> same_lists v w \<Longrightarrow> same_lists u w"
  by (simp add: same_lists_def)

lemma same_lists_queues: "same_lists w (addToReconn p w)" "same_lists w (removeFromReconn p w)" "same_lists w w"
  by (simp_all add: same_lists_def addToReconn_def removeFromReconn_def)

lemma listed_on_connect:
  assumes "listed S w" and "robot_on_connect env p w = Inr w'" shows "listed S w'"
proof -
  obtain v where v: "v = upd_robot p (\<lambda>r. r\<lparr>rb_tcp := client_run_cb Cb_Connect (rb_tcp r)\<rparr>) (removeFromReconn p w)" by blast
  have w: "same_lists w v" unfolding v by (rule same_lists_trans [OF same_lists_queues(2) same_lists_upd]) simp
  have "w' = v \<or> (\<exists>r msg st. robot_send env msg ((ct_robots v p)\<lparr>rb_state := st\<rparr>) = Inr r \<and> w' = upd_robot p (\<lambda>_. r) v)"
    using assms unfolding robot_on_connect_def Let_def v [symmetric] by (auto split: if_splits)
  then have "same_lists v w'"
    by (auto simp: same_lists_queues intro!: same_lists_upd dest!: robot_send_fields(1))
  with w assms(1) show ?thesis using same_lists_trans same_listed by blast
qed

lemma listed_moves:
  "listed S w \<Longrightarrow> p \<in> S \<Longrightarrow> listed S (addOfflineClient p w)" "listed S w \<Longrightarrow> p \<in> S \<Longrightarrow> listed S (addOnlineClient p w)"
  using listed_move [of S w p] by (simp_all add: insert_absorb)

lemma listed_upd: "listed S w \<Longrightarrow> rb_acc (f (ct_robots w p)) = account_of w p \<Longrightarrow> listed S (upd_robot p f w)"
  using same_lists_upd same_listed by blast

lemma listed_on_close:
  assumes "listed S w" and "p \<in> S" shows "listed S (robot_on_close env p w)"
proof -
  let ?w = "addOfflineClient p (upd_robot p (\<lambda>r. r\<lparr>rb_tcp := client_run_cb Cb_Close (rb_tcp r)\<rparr>) w)"
  have w: "listed S ?w" by (rule listed_moves(1) [OF listed_upd [OF assms(1)] assms(2)]) simp
  moreover have "listed S (upd_robot p (\<lambda>r. robot_connect env (r\<lparr>rb_state := client_wait_gate\<rparr>)) ?w)"
    by (rule listed_upd [OF w]) (simp add: robot_connect_def)
  ultimately show ?thesis
    using listed_moves(1) [OF _ assms(2)] unfolding robot_on_close_def Let_def by (simp del: client_run_cb.simps)
qed

lemma listed_callback:
  assumes "listed S w" and "p \<in> S" and "robot_callback env p cb w = Inr w'" shows "listed S w'"
proof -
  let ?w = "upd_robot p (\<lambda>r. r\<lparr>rb_tcp := (rb_tcp r)\<lparr>cl_called := cl_called (rb_tcp r) @ [cb]\<rparr>\<rparr>) w"
  have w: "listed S ?w" by (rule listed_upd [OF assms(1)]) simp
  show ?thesis
    using assms(3) listed_on_connect [OF w, of env p w'] listed_on_close [OF w assms(2), of env]
      same_listed [OF same_lists_queues(1) w, of p] w
    by (cases cb) (auto simp: robot_callback_def Let_def robot_on_connect_failed_def split: if_splits)
qed

lemma listed_callbacks: "listed S w \<Longrightarrow> p \<in> S \<Longrightarrow> robot_callbacks env p cbs w = Inr w' \<Longrightarrow> listed S w'"
  by (induction cbs arbitrary: w) (auto dest: listed_callback)

lemma listed_message: "listed S w \<Longrightarrow> p \<in> S \<Longrightarrow> listed S (robot_proc_message env p m w)"
  unfolding robot_proc_message_def
  by (auto intro!: listed_upd listed_moves split: option.split robot_in.split)

lemma listed_messages: "listed S w \<Longrightarrow> p \<in> S \<Longrightarrow> listed S (robot_messages env p w)"
proof -
  have fold: "listed S w \<Longrightarrow> p \<in> S \<Longrightarrow> listed S (fold (robot_proc_message env p) ms w)" for ms w
    by (induction ms arbitrary: w) (auto intro: listed_message)
  then show "listed S w \<Longrightarrow> p \<in> S \<Longrightarrow> listed S (robot_messages env p w)"
    by (auto simp: robot_messages_def Let_def intro!: fold listed_upd split: option.split)
qed

lemma listed_update:
  assumes "listed S w" and "p \<in> S" and "robot_update env p w = Inr w'" shows "listed S w'"
proof -
  let ?w = "upd_robot p (\<lambda>r. r\<lparr>rb_tcp := run_reconnect (rb_tcp r)\<rparr>) w"
  let ?v = "upd_robot p (\<lambda>r. r\<lparr>rb_tcp := (rb_tcp r)\<lparr>cl_cbs := []\<rparr>\<rparr>) ?w"
  have v: "listed S ?v" by (intro listed_upd assms(1)) simp_all
  obtain u where u: "robot_callbacks env p (cl_cbs (rb_tcp (ct_robots ?w p))) ?v = Inr u" "w' = robot_messages env p u"
    using assms(3) by (auto simp: robot_update_def Let_def)
  show ?thesis
    unfolding u(2) by (rule listed_messages [OF listed_callbacks [OF v assms(2) u(1)] assms(2)])
qed

lemma listed_robots:
  "listed S w \<Longrightarrow> set ps \<subseteq> S \<Longrightarrow> update_robots env ps w = Inr w' \<Longrightarrow> listed S w' \<and> ct_Clients w' = ct_Clients w"
proof (induction ps arbitrary: w)
  case (Cons p ps)
  show ?case
  proof (cases "p = NULL")
    case False
    then obtain v a b where v: "robot_update env p w = Inr v" "update_robots env ps (v\<lparr>ct_Online := a, ct_TransCount := b\<rparr>) = Inr w'"
      using Cons.prems(3) by auto
    have "listed S v" "ct_Clients v = ct_Clients w"
      using listed_update [OF Cons.prems(1) _ v(1)] Cons.prems(2) only_update [OF v(1)] by (auto simp: only_def)
    with Cons.IH [OF _ _ v(2)] Cons.prems(2) show ?thesis by (simp add: listed_def)
  qed (use Cons in auto)
qed simp

lemma listed_reconnect:
  "listed S w \<Longrightarrow> reconnect_loop env ps w = Inr w' \<Longrightarrow> listed S w' \<and> ct_Clients w' = ct_Clients w"
proof (induction ps arbitrary: w)
  case (Cons p ps)
  show ?case
  proof (cases "card (ct_Reconns w) < unat (ct_onceCount w) \<and> p \<noteq> NULL")
    case True
    have l: "listed S ((upd_robot p (robot_connect env) w)\<lparr>ct_Reconns := insert p (ct_Reconns w)\<rparr>)"
      using listed_upd [OF Cons.prems(1), of "robot_connect env" p] by (simp add: listed_def robot_connect_def)
    from True Cons.prems(2) have "reconnect_loop env ps ((upd_robot p (robot_connect env) w)\<lparr>ct_Reconns := insert p (ct_Reconns w)\<rparr>) = Inr w'"
      by simp
    from Cons.IH [OF l this] show ?thesis by (simp add: upd_robot_def)
  qed (use Cons.prems in \<open>auto simp: listed_def split: if_splits\<close>)
qed (auto simp: listed_def)

lemma listed_exec:
  assumes "listed (set (ct_Clients w)) w" and "robot_exec env e w = Inr w'"
  shows "listed (set (ct_Clients w')) w' \<and> ct_Clients w' = ct_Clients w"
proof (cases e)
  case (Rs_Net p x)
  then show ?thesis
    using assms listed_upd [OF assms(1), of _ p] by (auto simp: upd_robot_def split: if_splits)
next
  case Rs_Run
  have "listed (set (ct_Clients w)) (w\<lparr>ct_Online := 0, ct_TransCount := 0\<rparr>)" using assms(1) by (simp add: listed_def)
  from listed_robots [OF this subset_refl, of env w'] assms Rs_Run this show ?thesis
    by (auto simp: robot_runOnce_def Let_def split: if_splits)
next
  case Rs_Timer
  have "listed (set (ct_Clients w)) (w\<lparr>ct_curCount := ct_curCount w + 1\<rparr>)" using assms(1) by (simp add: listed_def)
  from listed_reconnect [OF this, of env "ct_WaitReconnet w" w'] assms Rs_Timer show ?thesis
    by (auto simp: reConnetClient_def split: if_splits)
next
  case (Rs_Clock now)
  then show ?thesis using assms by (auto simp: listed_def)
qed

lemma listed_exec_all:
  "listed (set (ct_Clients w)) w \<Longrightarrow> robot_exec_all env es w = Inr w' \<Longrightarrow> listed (set (ct_Clients w')) w' \<and> ct_Clients w' = ct_Clients w"
proof (induction es arbitrary: w)
  case (Cons e es)
  then obtain v where v: "robot_exec env e w = Inr v" "robot_exec_all env es v = Inr w'" by auto
  from listed_exec [OF Cons.prems(1) v(1)] Cons.IH [OF _ v(2)] show ?case by metis
qed simp

lemma split_lists_cong: "(\<And>p. p \<in> S \<Longrightarrow> acc p = acc' p) \<Longrightarrow> split_lists S acc m l n k \<Longrightarrow> split_lists S acc' m l n k"
  unfolding split_lists_def by (auto simp: inj_on_def)

text \<open>Different numbers, different accounts.\<close>

abbreviation account_name :: "u32 \<Rightarrow> string" where
  "account_name i \<equiv> ''virtual_count'' @ ''_'' @ show_nat (unat i)"

lemma account_name_inj: "account_name i = account_name j \<Longrightarrow> i = j"
  by simp (metis digits_val_show word_unat_eq_iff)

lemma robot_account_name: "robot_account i = Inr a \<Longrightarrow> a = account_name i"
  by (simp add: robot_account_def sprintf_to_def split: if_splits)

lemma listed_new_robot:
  assumes "listed S w" and "\<forall>p\<in>S. p < ct_next w \<and> account_of w p \<noteq> account_name i" and "new_robot i w = Inr (p, w')"
  shows "listed (insert p S) w' \<and> (\<forall>q\<in>S. account_of w' q = account_of w q) \<and> account_of w' p = account_name i
    \<and> p = ct_next w \<and> ct_next w' = p + 1 \<and> ct_Clients w' = ct_Clients w"
proof -
  obtain r where r: "rb_acc r = account_name i" "p = ct_next w"
      "w' = addOfflineClient p (w\<lparr>ct_robots := (ct_robots w)(p := r), ct_next := p + 1\<rparr>)"
  proof -
    obtain acc where acc: "robot_account i = Inr acc" using assms(3) by (auto simp: new_robot_def)
    have name: "acc = account_name i" by (rule robot_account_name [OF acc])
    let ?r = "\<lparr>rb_tcp = new_client (ct_time w), rb_testIndex = i, rb_state = client_init, rb_transid = 0,
      rb_ip = ct_ip w, rb_port = ct_port w, rb_acc = acc, rb_ready_connect_gate = False, rb_move_state_enable = False, rb_sent = []\<rparr>"
    have w': "p = ct_next w" "w' = addOfflineClient p (w\<lparr>ct_robots := (ct_robots w)(p := ?r), ct_next := p + 1\<rparr>)"
      using assms(3) acc by (auto simp: new_robot_def Let_def)
    show thesis by (rule that [OF _ w']) (simp only: robot.simps name)
  qed
  let ?w = "w\<lparr>ct_robots := (ct_robots w)(p := r), ct_next := p + 1\<rparr>"
  have old: "account_of ?w q = account_of w q" if "q \<in> S" for q using assms(2) that r(2) by auto
  have "listed S ?w"
    using split_lists_cong [of S "account_of w" "account_of ?w"] assms(1) old by (simp add: listed_def)
  moreover have "account_of ?w p \<notin> account_of ?w ` S" using assms(2) old r(1) by (auto simp: image_iff)
  ultimately have "listed (insert p S) w'" unfolding r(3) using listed_move(1) by blast
  then show ?thesis using old r by (simp add: addOfflineClient_def ClientListModify_def Let_def)
qed

lemma listed_add_robots:
  "listed (set (ct_Clients w)) w \<Longrightarrow> \<forall>p\<in>set (ct_Clients w). p < ct_next w \<and> (\<forall>i\<in>set is. account_of w p \<noteq> account_name i) \<Longrightarrow>
   distinct is \<Longrightarrow> add_robots is w = Inr w' \<Longrightarrow> listed (set (ct_Clients w')) w'"
proof (induction "is" arbitrary: w)
  case (Cons i "is")
  obtain p v where v: "new_robot i w = Inr (p, v)" "add_robots is (addToReconn p (v\<lparr>ct_Clients := ct_Clients v @ [p]\<rparr>)) = Inr w'"
    using Cons.prems(4) by auto
  have n: "listed (insert p (set (ct_Clients w))) v" "\<forall>q\<in>set (ct_Clients w). account_of v q = account_of w q"
      "account_of v p = account_name i" "p = ct_next w" "ct_next v = p + 1" "ct_Clients v = ct_Clients w"
    using listed_new_robot [OF Cons.prems(1) _ v(1)] Cons.prems(2) by auto
  let ?v = "addToReconn p (v\<lparr>ct_Clients := ct_Clients v @ [p]\<rparr>)"
  have "listed (set (ct_Clients ?v)) ?v" using n(1,6) by (simp add: addToReconn_def listed_def)
  moreover have "account_name i \<noteq> account_name j" if "j \<in> set is" for j
    using account_name_inj [of i j] Cons.prems(3) that by auto
  then have "\<forall>q\<in>set (ct_Clients ?v). q < ct_next ?v \<and> (\<forall>j\<in>set is. account_of ?v q \<noteq> account_name j)"
    using n(2-6) Cons.prems(2) by (auto simp: addToReconn_def)
  ultimately show ?case using Cons.IH [OF _ _ _ v(2)] Cons.prems(3) by simp
qed simp

lemma robot_indexes_distinct: "distinct (map (\<lambda>i. word_of_nat i + b :: u32) [0..<unat (n :: u32)])"
proof -
  have "i = j" if "i < unat n" "j < unat n" "(word_of_nat i :: u32) = word_of_nat j" for i j
  proof -
    have "unat n < 2 ^ 32" using unsigned_less [of n] by simp
    then have "unat (word_of_nat i :: u32) = i" "unat (word_of_nat j :: u32) = j"
      using that(1,2) by (auto simp: unat_of_nat intro!: mod_less)
    with that(3) show ?thesis by metis
  qed
  then show ?thesis by (simp add: distinct_map inj_on_def)
qed

lemma listed_init:
  assumes "robot_test_init a b conf (new_robot_test now) = Inr (ok, w)"
  shows "listed (set (ct_Clients w)) w"
proof (cases conf)
  case None
  with assms show ?thesis by (auto simp: robot_test_init_def new_robot_test_def listed_def split_lists_def Let_def)
next
  case (Some c)
  obtain n port time ip where c: "c = (n, port, time, ip)" by (cases c)
  let ?u = "(new_robot_test now)\<lparr>ct_accountBegin := word_of_int a, ct_maxCount := word_of_int (max 0 (b - a)), ct_onceCount := n,
    ct_port := ucast port, ct_onceTime := (if time < 10 then 100 else time), ct_ip := ip\<rparr>"
  have u: "ct_Clients ?u = []" "listed (set (ct_Clients ?u)) ?u"
    by (simp_all add: new_robot_test_def listed_def split_lists_def)
  have "robot_test_init a b conf (new_robot_test now) = bind_result (addRobot ?u) (\<lambda>w.
      Inr (True, w\<lparr>ct_events := ct_events w @ [ct_onceTime w], ct_client_init := True\<rparr>))"
    unfolding Some c robot_test_init_def Let_def by (simp add: new_robot_test_def)
  with assms obtain v where v: "addRobot ?u = Inr v" "w = v\<lparr>ct_events := ct_events v @ [ct_onceTime v], ct_client_init := True\<rparr>"
    by (simp only: bind_result_Inr_iff) blast
  from listed_add_robots [OF u(2) _ robot_indexes_distinct v(1) [unfolded addRobot_def]] u(1)
  have "listed (set (ct_Clients v)) v" by simp
  then show ?thesis by (simp add: v(2) listed_def)
qed

text \<open>C40: From the start on, whatever the robots and the network do, every robot is in exactly one of the two maps under its own account, the
  accounts are different, and the two lists the dialog shows have exactly the accounts of the maps, each once.
\<close>

theorem robots_listed:
  assumes "robot_test_init a b conf (new_robot_test now) = Inr (ok, w)" and "robot_exec_all env es w = Inr w'"
  shows "inj_on (account_of w') (set (ct_Clients w'))
    \<and> list_all (\<lambda>p. (om_find (ct_offline w') (account_of w' p) = Some p) \<noteq> (om_find (ct_online w') (account_of w' p) = Some p)) (ct_Clients w')
    \<and> account_of w' ` set (ct_Clients w') = set (ct_list_offline w') \<union> set (ct_list_online w')
    \<and> distinct (ct_list_offline w' @ ct_list_online w')
    \<and> set (ct_list_offline w') = dom (om_find (ct_offline w')) \<and> set (ct_list_online w') = dom (om_find (ct_online w'))"
proof -
  have "listed (set (ct_Clients w')) w'" using listed_exec_all [OF listed_init [OF assms(1)] assms(2)] by blast
  note l = this [unfolded listed_def split_lists_def]
  have once: "om_find (ct_offline w') (account_of w' p) = Some p \<and> om_find (ct_online w') (account_of w' p) = None
      \<or> om_find (ct_offline w') (account_of w' p) = None \<and> om_find (ct_online w') (account_of w' p) = Some p"
    if "p \<in> set (ct_Clients w')" for p using l that by blast
  have "a \<notin> dom (om_find (ct_online w'))" if "a \<in> dom (om_find (ct_offline w'))" for a
  proof -
    have "dom (om_find (ct_offline w')) \<union> dom (om_find (ct_online w')) = account_of w' ` set (ct_Clients w')" using l by blast
    with that have "a \<in> account_of w' ` set (ct_Clients w')" by blast
    then show ?thesis using once that by fastforce
  qed
  then have "distinct (ct_list_offline w' @ ct_list_online w')" using l by auto
  moreover have "(om_find (ct_offline w') (account_of w' p) = Some p) \<noteq> (om_find (ct_online w') (account_of w' p) = Some p)"
    if "p \<in> set (ct_Clients w')" for p using once [OF that] by (elim disjE) simp_all
  then have "list_all (\<lambda>p. (om_find (ct_offline w') (account_of w' p) = Some p) \<noteq> (om_find (ct_online w') (account_of w' p) = Some p)) (ct_Clients w')"
    by (simp add: list_all_iff)
  moreover have "account_of w' ` set (ct_Clients w') = set (ct_list_offline w') \<union> set (ct_list_online w')" using l by metis
  ultimately show ?thesis using l by blast
qed

theorem robots_listed_witness:
  "\<exists>w w'. robot_test_init 5 6 (Some (1, 9000, 1000, ''h'')) (new_robot_test 0) = Inr (True, w)
     \<and> robot_exec_all demo_env [Rs_Timer] w = Inr w'
     \<and> set (ct_list_offline w') = dom (om_find (ct_offline w')) \<and> distinct (ct_list_offline w' @ ct_list_online w')"
proof -
  have "show_nat 5 = [digit_char 5]" by (simp add: show_nat.simps)
  then obtain w where w: "robot_test_init 5 6 (Some (1, 9000, 1000, ''h'')) (new_robot_test 0) = Inr (True, w)"
      "ct_client_init w" "ct_WaitReconnet w = [1]"
    by (simp add: robot_test_init_def new_robot_test_def addRobot_def new_robot_def robot_account_def sprintf_to_def addToReconn_def
        addOfflineClient_def ClientListModify_def Let_def)
  then obtain w' where w': "robot_exec_all demo_env [Rs_Timer] w = Inr w'"
    by (cases "card (ct_Reconns w) < unat (ct_onceCount w)") (auto simp: reConnetClient_def)
  from robots_listed [OF w(1) w'] w(1) w' show ?thesis by blast
qed

end
