(* ===== verification/Robot_Starve.thy ===== *)
theory Robot_Starve
  imports Virtual_Client
begin

text \<open>
  The robots of \<^verbatim>\<open>virtualclient\<close> when the login server cannot be reached: what a failed connection of
  \<^verbatim>\<open>client.cpp\<close> leaves behind in the queues of \<^verbatim>\<open>client_manager.cpp\<close>, from the start of the program on.
\<close>

section \<open>A robot that is not connected\<close>

text \<open>No message is on its way, and at most \<open>n\<close> attempts to connect have been made, failed ones included.\<close>

definition offline_client :: "nat \<Rightarrow> tcp_client \<Rightarrow> bool" where
  "offline_client n c \<longleftrightarrow> \<not> m_isconnected (cl_session c) \<and> \<not> cl_isreconnect c \<and> cl_reads c = 0 \<and> cl_writes c = []
     \<and> slots (cl_queue_recv_msg c) ! current (cl_queue_recv_msg c) = []
     \<and> (\<forall>j\<in>set (cl_jobs c). \<exists>ep. j = Job_Connect ep) \<and> set (cl_cbs c) \<union> set (cl_called c) \<subseteq> {Cb_Connect_Failed}
     \<and> length (cl_jobs c) + cl_connects c + length (cl_cbs c) + length (cl_called c) \<le> n"

definition offline_robot :: "nat \<Rightarrow> robot \<Rightarrow> bool" where
  "offline_robot n r \<longleftrightarrow> rb_state r = client_init \<and> rb_sent r = [] \<and> offline_client n (rb_tcp r)"

lemma new_client_offline: "offline_client 0 (new_client now)"
  by (simp add: offline_client_def new_client_def two_queue_empty_def new_session_def reset_session_def clear_send_msg_def)

lemma offline_connect: "offline_robot 0 r \<Longrightarrow> offline_robot 1 (robot_connect env r)"
  by (auto simp: offline_robot_def offline_client_def robot_connect_def client_connect_def split: option.split)

lemma offline_clock: "offline_robot n (r\<lparr>rb_tcp := (rb_tcp r)\<lparr>cl_time := now\<rparr>\<rparr>) = offline_robot n r"
  by (simp add: offline_robot_def offline_client_def)

text \<open>The network thread: the job that connects, and the answer, if it is not that the connection has been made.\<close>

lemma offline_job:
  assumes "offline_client n c" and "i < length (cl_jobs c)"
  shows "offline_client n (run_client_job (cl_jobs c ! i) (c\<lparr>cl_jobs := take i (cl_jobs c) @ drop (Suc i) (cl_jobs c)\<rparr>))"
proof -
  obtain ep where ep: "cl_jobs c ! i = Job_Connect ep"
    using assms(1) nth_mem [OF assms(2)] unfolding offline_client_def by blast
  have "set (take i (cl_jobs c) @ drop (Suc i) (cl_jobs c)) \<subseteq> set (cl_jobs c)"
    using set_take_subset set_drop_subset by (metis set_append Un_least)
  with assms show ?thesis by (auto simp: offline_client_def ep do_connect_def reconnect_def)
qed

lemma offline_net:
  assumes "offline_client n c" and "net_step e" and "e \<noteq> Cl_Connected False \<or> n = 0"
  shows "\<exists>d. client_exec iface junk e c = Inr d \<and> offline_client n d"
proof (cases e)
  case (Cl_Job i)
  with assms(1) offline_job show ?thesis by auto
next
  case (Cl_Connected err)
  show ?thesis
  proof (cases "0 < cl_connects c")
    case True
    then have "err" using assms Cl_Connected by (auto simp: offline_client_def)
    with assms(1) True Cl_Connected show ?thesis by (auto simp: offline_client_def handle_connect_def Let_def)
  qed (use assms(1) Cl_Connected in auto)
qed (use assms(1,2) in \<open>auto simp: offline_client_def\<close>)

text \<open>The main thread: the callbacks of an attempt that failed do nothing.\<close>

lemma offline_update:
  assumes "offline_robot n (ct_robots w p)" and "robot_update env p w = Inr w'"
  shows "\<exists>f. w' = upd_robot p f w \<and> offline_robot n (f (ct_robots w p))"
proof -
  let ?c = "rb_tcp (ct_robots w p)"
  have calls: "robot_callbacks env p cbs v = Inr (upd_robot p (\<lambda>r. r\<lparr>rb_tcp := (rb_tcp r)\<lparr>cl_called := cl_called (rb_tcp r) @ cbs\<rparr>\<rparr>) v)"
    if "set cbs \<subseteq> {Cb_Connect_Failed}" "rb_state (ct_robots v p) = client_init" for cbs v
    using that
  proof (induction cbs arbitrary: v)
    case (Cons cb cbs)
    then have "robot_callback env p cb v
        = Inr (upd_robot p (\<lambda>r. r\<lparr>rb_tcp := (rb_tcp r)\<lparr>cl_called := cl_called (rb_tcp r) @ [cb]\<rparr>\<rparr>) v)"
      by (simp add: robot_callback_def robot_on_connect_failed_def Let_def)
    with Cons show ?case by (simp add: upd_robot_def)
  qed (simp add: upd_robot_def)
  have c: "rb_state (ct_robots w p) = client_init" "set (cl_cbs ?c) \<subseteq> {Cb_Connect_Failed}" "run_reconnect ?c = ?c"
      "client_turn (cl_queue_recv_msg ?c) = None"
    using assms(1) by (auto simp: offline_robot_def offline_client_def run_reconnect_def client_turn_def turn_def)
  let ?f = "\<lambda>r. r\<lparr>rb_tcp := ?c\<lparr>cl_cbs := [], cl_called := cl_called ?c @ cl_cbs ?c\<rparr>\<rparr>"
  have "w' = upd_robot p ?f w"
    using assms(2) c calls [of "cl_cbs ?c"]
    by (simp add: robot_update_def robot_messages_def upd_robot_def Let_def)
  moreover have "offline_robot n (?f (ct_robots w p))"
    using assms(1) by (auto simp: offline_robot_def offline_client_def)
  ultimately show ?thesis by blast
qed

section \<open>The program\<close>

text \<open>The first \<open>k\<close> of the robots \<open>cs\<close> may be connecting; the others wait and have not been started.\<close>

definition unreached :: "nat \<Rightarrow> ptr list \<Rightarrow> robot_test \<Rightarrow> bool" where
  "unreached k cs w \<longleftrightarrow> ct_Clients w = cs \<and> distinct cs \<and> NULL \<notin> set cs \<and> unat (ct_onceCount w) = k
     \<and> (\<forall>p\<in>set cs. offline_robot (if p \<in> ct_Reconns w then 1 else 0) (ct_robots w p))
     \<and> (ct_Reconns w = {} \<and> ct_WaitReconnet w = cs \<or> ct_Reconns w = set (take k cs) \<and> ct_WaitReconnet w = drop k cs)"

lemma unreached_upd:
  assumes "unreached k cs w" and "offline_robot (if p \<in> ct_Reconns w then 1 else 0) (f (ct_robots w p))"
  shows "unreached k cs (upd_robot p f w)"
  using assms by (simp add: unreached_def upd_robot_def)

lemma unreached_counts: "unreached k cs (w\<lparr>ct_Online := a, ct_TransCount := b\<rparr>) = unreached k cs w"
  by (simp add: unreached_def)

lemma unreached_robots:
  "unreached k cs w \<Longrightarrow> set ps \<subseteq> set cs \<Longrightarrow> update_robots env ps w = Inr w' \<Longrightarrow> unreached k cs w'"
proof (induction ps arbitrary: w)
  case (Cons p ps)
  have "NULL \<notin> set cs" "p \<in> set cs" using Cons.prems(1,2) by (simp_all add: unreached_def)
  then have "p \<noteq> NULL" by metis
  then obtain v a b where v: "robot_update env p w = Inr v" "update_robots env ps (v\<lparr>ct_Online := a, ct_TransCount := b\<rparr>) = Inr w'"
    using Cons.prems(3) by auto
  have "offline_robot (if p \<in> ct_Reconns w then 1 else 0) (ct_robots w p)" using Cons.prems(1,2) by (simp add: unreached_def)
  from offline_update [OF this v(1)] have "unreached k cs v" using unreached_upd [OF Cons.prems(1)] by blast
  with Cons.IH [OF _ _ v(2)] Cons.prems(2) show ?case by (simp add: unreached_counts)
qed simp

text \<open>The timer starts robots until \<open>k\<close> are connecting.\<close>

lemma reconnect_starts:
  "reconnect_loop env (drop i cs) w = Inr w' \<Longrightarrow> i \<le> k \<Longrightarrow> ct_Clients w = cs \<Longrightarrow> distinct cs \<Longrightarrow> NULL \<notin> set cs
   \<Longrightarrow> unat (ct_onceCount w) = k \<Longrightarrow> ct_Reconns w = set (take i cs)
   \<Longrightarrow> \<forall>p\<in>set cs. offline_robot (if p \<in> ct_Reconns w then 1 else 0) (ct_robots w p) \<Longrightarrow> unreached k cs w'"
proof (induction "length cs - i" arbitrary: i w)
  case 0
  then have "drop i cs = []" "take i cs = take k cs" "drop k cs = []" by simp_all
  with 0 show ?case by (auto simp: unreached_def)
next
  case (Suc n)
  then have i: "i < length cs" "drop i cs = cs ! i # drop (Suc i) cs" by (simp_all add: Cons_nth_drop_Suc)
  have card: "card (ct_Reconns w) = i" using Suc.prems(4,7) i(1) by (simp add: distinct_card)
  show ?case
  proof (cases "i < k")
    case False
    with Suc.prems(2) have "i = k" by simp
    with Suc.prems card i(2) show ?thesis by (auto simp: unreached_def)
  next
    case True
    let ?p = "cs ! i"
    have p: "?p \<noteq> NULL" "?p \<notin> set (take i cs)" "?p \<in> set cs"
      using Suc.prems(4,5) i(1) nth_mem [OF i(1)] by (metis, auto simp: in_set_conv_nth nth_eq_iff_index_eq)
    let ?w = "(upd_robot ?p (robot_connect env) w)\<lparr>ct_Reconns := insert ?p (ct_Reconns w)\<rparr>"
    have run: "reconnect_loop env (drop (Suc i) cs) ?w = Inr w'"
      using Suc.prems(1,6) True card p(1) unfolding i(2) by simp
    have "offline_robot 1 (robot_connect env (ct_robots w ?p))"
      using Suc.prems(7,8) p(2,3) offline_connect by fastforce
    then have all: "\<forall>p\<in>set cs. offline_robot (if p \<in> ct_Reconns ?w then 1 else 0) (ct_robots ?w p)"
      using Suc.prems(8) by (simp add: upd_robot_def)
    have taken: "ct_Reconns ?w = set (take (Suc i) cs)" using Suc.prems(7) i(1) by (simp add: take_Suc_conv_app_nth)
    have n: "n = length cs - Suc i" using Suc.hyps(2) by simp
    have same: "ct_Clients ?w = cs" "unat (ct_onceCount ?w) = k" using Suc.prems(3,6) by (simp_all add: upd_robot_def)
    from Suc.hyps(1) [OF n run _ same(1) Suc.prems(4,5) same(2) taken all] True show ?thesis by simp
  qed
qed

lemma unreached_timer:
  assumes "unreached k cs w" and "reConnetClient env w = Inr w'"
  shows "unreached k cs w'"
proof -
  let ?w = "w\<lparr>ct_curCount := ct_curCount w + 1\<rparr>"
  have run: "reconnect_loop env (ct_WaitReconnet w) ?w = Inr w'" using assms(2) by (simp add: reConnetClient_def)
  note u = assms(1) [unfolded unreached_def]
  consider "ct_Reconns w = {}" "ct_WaitReconnet w = cs" | "ct_Reconns w = set (take k cs)" "ct_WaitReconnet w = drop k cs"
    using u by blast
  then show ?thesis
  proof cases
    case 1
    show ?thesis by (rule reconnect_starts [of env 0 cs ?w]) (use run u 1 in simp_all)
  next
    case 2
    show ?thesis by (rule reconnect_starts [of env k cs ?w]) (use run u 2 in simp_all)
  qed
qed

lemma unreached_exec:
  assumes "unreached k cs w" and "robot_exec env e w = Inr w'" and "\<forall>p\<in>set (take k cs). e \<noteq> Rs_Net p (Cl_Connected False)"
  shows "unreached k cs w'"
proof (cases e)
  case (Rs_Net p x)
  show ?thesis
  proof (cases "net_step x \<and> p \<in> set cs")
    case True
    let ?n = "if p \<in> ct_Reconns w then 1 else 0 :: nat"
    have r: "offline_robot ?n (ct_robots w p)" using assms(1) True by (simp add: unreached_def)
    have "x \<noteq> Cl_Connected False \<or> ?n = 0" using assms(1,3) Rs_Net by (auto simp: unreached_def)
    with r True obtain d where d: "client_exec (re_iface env) (re_junk env) x (rb_tcp (ct_robots w p)) = Inr d" "offline_client ?n d"
      using offline_net unfolding offline_robot_def by blast
    then have "w' = upd_robot p (\<lambda>r. r\<lparr>rb_tcp := d\<rparr>) w" using assms(1,2) Rs_Net True by (simp add: unreached_def)
    moreover have "offline_robot ?n ((ct_robots w p)\<lparr>rb_tcp := d\<rparr>)" using r d(2) by (simp add: offline_robot_def)
    ultimately show ?thesis using unreached_upd [OF assms(1)] by simp
  qed (use assms(1,2) Rs_Net in \<open>auto simp: unreached_def\<close>)
next
  case Rs_Run
  with assms(2) have "w' = w\<lparr>ct_Online := 0, ct_TransCount := 0\<rparr>
      \<or> update_robots env (ct_Clients w) (w\<lparr>ct_Online := 0, ct_TransCount := 0\<rparr>) = Inr w'"
    by (auto simp: robot_runOnce_def Let_def split: if_splits)
  moreover have "unreached k cs (w\<lparr>ct_Online := 0, ct_TransCount := 0\<rparr>)" "ct_Clients w = cs"
    using assms(1) by (simp_all add: unreached_counts unreached_def)
  ultimately show ?thesis using unreached_robots by blast
next
  case Rs_Timer
  then show ?thesis using assms(1,2) unreached_timer by (auto split: if_splits)
next
  case (Rs_Clock now)
  then have "w' = w\<lparr>ct_time := now, ct_robots := (\<lambda>p. (ct_robots w p)\<lparr>rb_tcp := (rb_tcp (ct_robots w p))\<lparr>cl_time := now\<rparr>\<rparr>)\<rparr>"
    using assms(2) by simp
  with assms(1) show ?thesis by (simp add: unreached_def offline_clock)
qed

lemma unreached_exec_all:
  "unreached k cs w \<Longrightarrow> robot_exec_all env es w = Inr w' \<Longrightarrow> \<forall>p\<in>set (take k cs). Rs_Net p (Cl_Connected False) \<notin> set es
   \<Longrightarrow> unreached k cs w'"
proof (induction es arbitrary: w)
  case (Cons e es)
  then obtain v where v: "robot_exec env e w = Inr v" "robot_exec_all env es v = Inr w'" by auto
  have "unreached k cs v" using unreached_exec [OF Cons.prems(1) v(1)] Cons.prems(3) by auto
  with Cons.IH [OF _ v(2)] Cons.prems(3) show ?case by simp
qed simp

section \<open>From the start\<close>

lemma addOfflineClient_frame:
  "ct_robots (addOfflineClient p w) = ct_robots w" "ct_next (addOfflineClient p w) = ct_next w"
  "ct_Clients (addOfflineClient p w) = ct_Clients w" "ct_WaitReconnet (addOfflineClient p w) = ct_WaitReconnet w"
  "ct_Reconns (addOfflineClient p w) = ct_Reconns w" "ct_onceCount (addOfflineClient p w) = ct_onceCount w"
  "ct_time (addOfflineClient p w) = ct_time w"
  by (simp_all add: addOfflineClient_def ClientListModify_def Let_def)

lemma new_robot_offline:
  assumes "new_robot i w = Inr (p, v)"
  shows "p = ct_next w \<and> ct_next v = p + 1 \<and> offline_robot 0 (ct_robots v p) \<and> (\<forall>q. q \<noteq> p \<longrightarrow> ct_robots v q = ct_robots w q)
    \<and> ct_Clients v = ct_Clients w \<and> ct_WaitReconnet v = ct_WaitReconnet w \<and> ct_Reconns v = ct_Reconns w \<and> ct_onceCount v = ct_onceCount w"
proof -
  obtain acc where "robot_account i = Inr acc" using assms by (auto simp: new_robot_def)
  with assms new_client_offline show ?thesis
    by (auto simp: new_robot_def Let_def offline_robot_def addOfflineClient_frame)
qed

lemma add_robots_offline:
  "add_robots is w = Inr v \<Longrightarrow> unreached k (ct_Clients w) w \<Longrightarrow> ct_Reconns w = {} \<Longrightarrow> ct_WaitReconnet w = ct_Clients w
   \<Longrightarrow> NULL < ct_next w \<Longrightarrow> \<forall>p\<in>set (ct_Clients w). p < ct_next w \<Longrightarrow> unreached k (ct_Clients v) v"
proof (induction "is" arbitrary: w)
  case (Cons i "is")
  obtain p u where u: "new_robot i w = Inr (p, u)" "add_robots is (addToReconn p (u\<lparr>ct_Clients := ct_Clients u @ [p]\<rparr>)) = Inr v"
    using Cons.prems(1) by auto
  have n: "p = ct_next w" "ct_next u = p + 1" "offline_robot 0 (ct_robots u p)" "\<forall>q. q \<noteq> p \<longrightarrow> ct_robots u q = ct_robots w q"
      "ct_Clients u = ct_Clients w" "ct_WaitReconnet u = ct_WaitReconnet w" "ct_Reconns u = ct_Reconns w"
      "ct_onceCount u = ct_onceCount w"
    using new_robot_offline [OF u(1)] by blast+
  let ?u = "addToReconn p (u\<lparr>ct_Clients := ct_Clients u @ [p]\<rparr>)"
  have fresh: "p \<notin> set (ct_Clients w)" using Cons.prems(6) n by auto
  have pos: "NULL < p" using Cons.prems(5) n(1) by simp
  have old: "\<forall>q\<in>set (ct_Clients w). ct_robots u q = ct_robots w q" using fresh n by metis
  have "unreached k (ct_Clients ?u) ?u"
    using Cons.prems(2-4) n(2-8) fresh old pos by (simp add: unreached_def addToReconn_def)
  moreover have "ct_Reconns ?u = {}" "ct_WaitReconnet ?u = ct_Clients ?u" "NULL < ct_next ?u"
    using Cons.prems(3,4,5) n by (simp_all add: addToReconn_def)
  moreover have "\<forall>q\<in>set (ct_Clients ?u). q < ct_next ?u"
    using Cons.prems(6) n by (auto simp: addToReconn_def)
  ultimately show ?case using Cons.IH [OF u(2)] by blast
qed simp

lemma unreached_init:
  assumes "robot_test_init a b (Some (once_count, port, once_time, ip)) (new_robot_test now) = Inr (True, w)"
  shows "unreached (unat once_count) (ct_Clients w) w"
proof -
  let ?u = "(new_robot_test now)\<lparr>ct_accountBegin := word_of_int a, ct_maxCount := word_of_int (max 0 (b - a)), ct_onceCount := once_count,
    ct_port := ucast port, ct_onceTime := (if once_time < 10 then 100 else once_time), ct_ip := ip\<rparr>"
  have "robot_test_init a b (Some (once_count, port, once_time, ip)) (new_robot_test now) = bind_result (addRobot ?u) (\<lambda>w.
      Inr (True, w\<lparr>ct_events := ct_events w @ [ct_onceTime w], ct_client_init := True\<rparr>))"
    unfolding robot_test_init_def Let_def by (simp add: new_robot_test_def)
  with assms obtain v where v: "addRobot ?u = Inr v" "w = v\<lparr>ct_events := ct_events v @ [ct_onceTime v], ct_client_init := True\<rparr>"
    by (simp only: bind_result_Inr_iff) blast
  have "unreached (unat once_count) (ct_Clients v) v"
    by (rule add_robots_offline [OF v(1) [unfolded addRobot_def]])
      (simp_all add: unreached_def new_robot_test_def)
  then show ?thesis by (simp add: v(2) unreached_def)
qed

text \<open>C39: A connection that fails is never tried again and keeps its place among those that are connecting. From the start of the program
  on: if none of the first \<open>once_count\<close> robots gets a connection to the login server, each attempt having failed or being without
  an answer, then none of the robots ever sends anything, whatever else happens; a robot whose attempt has failed is left
  as it is, without a job or an attempt outstanding; and none of the other robots is ever started, even if the server can be
  reached by then.\<close>

theorem robots_starve:
  assumes "robot_test_init a b (Some (once_count, port, once_time, ip)) (new_robot_test now) = Inr (True, w)"
    and "robot_exec_all env es w = Inr w'"
    and "\<forall>p\<in>set (take (unat once_count) (ct_Clients w)). Rs_Net p (Cl_Connected False) \<notin> set es"
  shows "(\<forall>p\<in>set (ct_Clients w). rb_sent (ct_robots w' p) = [])
    \<and> (\<forall>p\<in>set (take (unat once_count) (ct_Clients w)). Cb_Connect_Failed \<in> set (cl_called (rb_tcp (ct_robots w' p)))
         \<longrightarrow> p \<in> ct_Reconns w' \<and> p \<notin> set (ct_WaitReconnet w')
           \<and> cl_jobs (rb_tcp (ct_robots w' p)) = [] \<and> cl_connects (rb_tcp (ct_robots w' p)) = 0)
    \<and> (\<forall>p\<in>set (drop (unat once_count) (ct_Clients w)). p \<in> set (ct_WaitReconnet w') \<and> p \<notin> ct_Reconns w'
         \<and> cl_jobs (rb_tcp (ct_robots w' p)) = [] \<and> cl_connects (rb_tcp (ct_robots w' p)) = 0)"
proof -
  let ?k = "unat once_count" and ?cs = "ct_Clients w"
  have u: "unreached ?k ?cs w'" by (rule unreached_exec_all [OF unreached_init [OF assms(1)] assms(2,3)])
  then have r: "offline_robot (if p \<in> ct_Reconns w' then 1 else 0) (ct_robots w' p)" if "p \<in> set ?cs" for p
    using that by (simp add: unreached_def)
  have places: "ct_Reconns w' = {} \<and> ct_WaitReconnet w' = ?cs \<or> ct_Reconns w' = set (take ?k ?cs) \<and> ct_WaitReconnet w' = drop ?k ?cs"
    and "distinct ?cs" using u by (simp_all add: unreached_def)
  then have apart: "set (take ?k ?cs) \<inter> set (drop ?k ?cs) = {}" by (simp add: set_take_disj_set_drop_if_distinct)
  have failed: "p \<in> ct_Reconns w' \<and> p \<notin> set (ct_WaitReconnet w')
      \<and> cl_jobs (rb_tcp (ct_robots w' p)) = [] \<and> cl_connects (rb_tcp (ct_robots w' p)) = 0"
    if p: "p \<in> set (take ?k ?cs)" "Cb_Connect_Failed \<in> set (cl_called (rb_tcp (ct_robots w' p)))" for p
  proof -
    have n: "0 < length (cl_called (rb_tcp (ct_robots w' p)))" using p(2) length_pos_if_in_set by fast
    have o: "offline_robot (if p \<in> ct_Reconns w' then 1 else 0) (ct_robots w' p)" using r in_set_takeD [OF p(1)] by blast
    with n have "p \<in> ct_Reconns w'" by (auto simp: offline_robot_def offline_client_def split: if_splits)
    moreover from this o have "length (cl_jobs (rb_tcp (ct_robots w' p))) + cl_connects (rb_tcp (ct_robots w' p))
        + length (cl_cbs (rb_tcp (ct_robots w' p))) + length (cl_called (rb_tcp (ct_robots w' p))) \<le> 1"
      by (simp add: offline_robot_def offline_client_def)
    with n have "length (cl_jobs (rb_tcp (ct_robots w' p))) = 0" "cl_connects (rb_tcp (ct_robots w' p)) = 0" by linarith+
    moreover have "p \<notin> set (ct_WaitReconnet w')" using calculation(1) places apart p(1) by auto
    ultimately show ?thesis by simp
  qed
  have waiting: "p \<in> set (ct_WaitReconnet w') \<and> p \<notin> ct_Reconns w'
      \<and> cl_jobs (rb_tcp (ct_robots w' p)) = [] \<and> cl_connects (rb_tcp (ct_robots w' p)) = 0"
    if p: "p \<in> set (drop ?k ?cs)" for p
  proof -
    have "p \<in> set (ct_WaitReconnet w') \<and> p \<notin> ct_Reconns w'" using places apart p in_set_dropD [OF p] by auto
    with r [OF in_set_dropD [OF p]] show ?thesis by (simp add: offline_robot_def offline_client_def)
  qed
  have "\<forall>p\<in>set ?cs. rb_sent (ct_robots w' p) = []" using r by (simp add: offline_robot_def)
  with failed waiting show ?thesis by blast
qed

text \<open>One of two robots may connect at a time; its attempt fails, and then the server could be reached.\<close>

definition starve_steps :: "robot_step list" where
  "starve_steps = [Rs_Timer, Rs_Net 1 (Cl_Job 0), Rs_Net 1 (Cl_Connected True), Rs_Run, Rs_Timer, Rs_Net 2 (Cl_Job 0),
     Rs_Net 2 (Cl_Connected False), Rs_Run]"

lemma new_client_fields:
  "\<not> m_isconnected (cl_session (new_client now))" "cl_jobs (new_client now) = []" "cl_connects (new_client now) = 0"
  "cl_cbs (new_client now) = []" "\<not> cl_isreconnect (new_client now)" "\<not> cl_isconnecting (new_client now)"
  "cl_called (new_client now) = []" "slots (cl_queue_recv_msg (new_client now)) ! current (cl_queue_recv_msg (new_client now)) = []"
  by (simp_all add: new_client_def new_session_def reset_session_def clear_send_msg_def two_queue_empty_def)

lemma starve_runs:
  assumes "ct_client_init w" and "ct_Clients w = [1, 2]" and "ct_WaitReconnet w = [1, 2]" and "ct_Reconns w = {}"
    and "unat (ct_onceCount w) = 1" and "\<forall>p\<in>{1, 2}. rb_tcp (ct_robots w p) = new_client 0 \<and> rb_state (ct_robots w p) = client_init"
  shows "\<exists>w'. robot_exec_all demo_env starve_steps w = Inr w' \<and> cl_called (rb_tcp (ct_robots w' 1)) = [Cb_Connect_Failed]"
  using assms
  by (simp add: starve_steps_def demo_env_def reConnetClient_def robot_runOnce_def robot_update_def robot_callback_def
      robot_messages_def robot_on_connect_failed_def upd_robot_def robot_connect_def client_connect_def do_connect_def reconnect_def
      handle_connect_def run_reconnect_def client_turn_def turn_def new_client_fields Let_def)

lemma starve_init:
  "\<exists>w. robot_test_init 5 7 (Some (1, 9000, 1000, ''h'')) (new_robot_test 0) = Inr (True, w)
    \<and> ct_client_init w \<and> ct_Clients w = [1, 2] \<and> ct_WaitReconnet w = [1, 2] \<and> ct_Reconns w = {} \<and> unat (ct_onceCount w) = 1
    \<and> (\<forall>p\<in>{1, 2}. rb_tcp (ct_robots w p) = new_client 0 \<and> rb_state (ct_robots w p) = client_init)"
proof -
  have shown: "show_nat 5 = [digit_char 5]" "show_nat 6 = [digit_char 6]" by (simp_all add: show_nat.simps)
  have two: "[0..<2] = [0, 1]" by (simp add: upt_rec)
  show ?thesis
    by (simp add: robot_test_init_def new_robot_test_def addRobot_def new_robot_def robot_account_def sprintf_to_def addToReconn_def
        addOfflineClient_frame shown two Let_def)
qed

theorem robots_starve_witness:
  "\<exists>w w'. robot_test_init 5 7 (Some (1, 9000, 1000, ''h'')) (new_robot_test 0) = Inr (True, w)
    \<and> robot_exec_all demo_env starve_steps w = Inr w'
    \<and> cl_called (rb_tcp (ct_robots w' 1)) = [Cb_Connect_Failed] \<and> 1 \<in> ct_Reconns w' \<and> 1 \<notin> set (ct_WaitReconnet w')
    \<and> 2 \<in> set (ct_WaitReconnet w') \<and> rb_sent (ct_robots w' 2) = []"
proof -
  obtain w where w: "robot_test_init 5 7 (Some (1, 9000, 1000, ''h'')) (new_robot_test 0) = Inr (True, w)" "ct_Clients w = [1, 2]"
      "ct_client_init w" "ct_WaitReconnet w = [1, 2]" "ct_Reconns w = {}" "unat (ct_onceCount w) = 1"
      "\<forall>p\<in>{1, 2}. rb_tcp (ct_robots w p) = new_client 0 \<and> rb_state (ct_robots w p) = client_init"
    using starve_init by blast
  obtain w' where w': "robot_exec_all demo_env starve_steps w = Inr w'" "cl_called (rb_tcp (ct_robots w' 1)) = [Cb_Connect_Failed]"
    using starve_runs [OF w(3,2,4-7)] by blast
  have first: "set (take (unat (1 :: u32)) (ct_Clients w)) = {1}" "set (drop (unat (1 :: u32)) (ct_Clients w)) = {2}"
    using w(2) by simp_all
  have "\<forall>p\<in>{1 :: ptr}. Rs_Net p (Cl_Connected False) \<notin> set starve_steps" by (simp add: starve_steps_def)
  from robots_starve [OF w(1) w'(1), unfolded first, OF this] w(1,2) w' show ?thesis by auto
qed

end
