(* ===== verification/Event_Callback.thy ===== *)
theory Event_Callback
  imports Event
begin

text \<open>
  The callbacks behind the numbers of \<^verbatim>\<open>Event\<close>: the templates of \<^verbatim>\<open>common/event_call_back.h\<close>, which keep an object, one of its
  member functions and up to ten arguments, and the overloads of \<open>EventMgr::addEvent\<close>, one for each of them.
  Member functions are of a type of their own, \<open>'f\<close>; arguments of all types are values of one type \<open>'v\<close>.
\<close>

section \<open>The templates\<close>

text \<open>Object, function and arguments as the constructor stores them.\<close>

datatype ('f, 'v) callback = Callback ptr "'f option" "'v list"

definition CallbackP0 :: "ptr \<Rightarrow> 'f option \<Rightarrow> ('f, 'v) callback" where
  "CallbackP0 obj f = Callback obj f []"

definition CallbackP1 :: "ptr \<Rightarrow> 'f option \<Rightarrow> 'v \<Rightarrow> ('f, 'v) callback" where
  "CallbackP1 obj f a = Callback obj f [a]"

definition CallbackP2 :: "ptr \<Rightarrow> 'f option \<Rightarrow> 'v \<Rightarrow> 'v \<Rightarrow> ('f, 'v) callback" where
  "CallbackP2 obj f a b = Callback obj f [a, b]"

definition CallbackP3 :: "ptr \<Rightarrow> 'f option \<Rightarrow> 'v \<Rightarrow> 'v \<Rightarrow> 'v \<Rightarrow> ('f, 'v) callback" where
  "CallbackP3 obj f a b c = Callback obj f [a, b, c]"

definition CallbackP4 :: "ptr \<Rightarrow> 'f option \<Rightarrow> 'v \<Rightarrow> 'v \<Rightarrow> 'v \<Rightarrow> 'v \<Rightarrow> ('f, 'v) callback" where
  "CallbackP4 obj me a b c d = Callback obj me [a, b, c, d]"

definition CallbackP5 :: "ptr \<Rightarrow> 'f option \<Rightarrow> 'v \<Rightarrow> 'v \<Rightarrow> 'v \<Rightarrow> 'v \<Rightarrow> 'v \<Rightarrow> ('f, 'v) callback" where
  "CallbackP5 obj me a b c d e = Callback obj me [a, b, c, d, e]"

definition CallbackP6 :: "ptr \<Rightarrow> 'f option \<Rightarrow> 'v \<Rightarrow> 'v \<Rightarrow> 'v \<Rightarrow> 'v \<Rightarrow> 'v \<Rightarrow> 'v \<Rightarrow> ('f, 'v) callback" where
  "CallbackP6 obj me a b c d e f = Callback obj me [a, b, c, d, e, f]"

definition CallbackP7 :: "ptr \<Rightarrow> 'f option \<Rightarrow> 'v \<Rightarrow> 'v \<Rightarrow> 'v \<Rightarrow> 'v \<Rightarrow> 'v \<Rightarrow> 'v \<Rightarrow> 'v \<Rightarrow> ('f, 'v) callback" where
  "CallbackP7 obj me a b c d e f g = Callback obj me [a, b, c, d, e, f, g]"

definition CallbackP8 ::
  "ptr \<Rightarrow> 'f option \<Rightarrow> 'v \<Rightarrow> 'v \<Rightarrow> 'v \<Rightarrow> 'v \<Rightarrow> 'v \<Rightarrow> 'v \<Rightarrow> 'v \<Rightarrow> 'v \<Rightarrow> ('f, 'v) callback" where
  "CallbackP8 obj me a b c d e f g h = Callback obj me [a, b, c, d, e, f, g, h]"

definition CallbackP9 ::
  "ptr \<Rightarrow> 'f option \<Rightarrow> 'v \<Rightarrow> 'v \<Rightarrow> 'v \<Rightarrow> 'v \<Rightarrow> 'v \<Rightarrow> 'v \<Rightarrow> 'v \<Rightarrow> 'v \<Rightarrow> 'v \<Rightarrow> ('f, 'v) callback" where
  "CallbackP9 obj me a b c d e f g h i = Callback obj me [a, b, c, d, e, f, g, h, i]"

text \<open>The last template does not store its tenth argument, but the number ten.\<close>

definition CallbackP10 ::
  "'v \<Rightarrow> ptr \<Rightarrow> 'f option \<Rightarrow> 'v \<Rightarrow> 'v \<Rightarrow> 'v \<Rightarrow> 'v \<Rightarrow> 'v \<Rightarrow> 'v \<Rightarrow> 'v \<Rightarrow> 'v \<Rightarrow> 'v \<Rightarrow> 'v \<Rightarrow> ('f, 'v) callback" where
  "CallbackP10 ten obj me a b c d e f g h i j = Callback obj me [a, b, c, d, e, f, g, h, i, ten]"

text \<open>\<open>execute\<close>: the call that is made.\<close>

fun callback_execute :: "('f, 'v) callback \<Rightarrow> (ptr \<times> 'f \<times> 'v list) option" where
  "callback_execute (Callback self fun args) =
     (case fun of None \<Rightarrow> None | Some f \<Rightarrow> if self = NULL then None else Some (self, f, args))"

section \<open>Adding an event\<close>

text \<open>
  The overload is chosen by the number of arguments. The one for eight calls \<^verbatim>\<open>Event_AddEvent\<close>, which no class has, so
  like more than ten arguments this does not compile.
\<close>

fun callback_for :: "'v \<Rightarrow> ptr \<Rightarrow> 'f option \<Rightarrow> 'v list \<Rightarrow> ('f, 'v) callback option" where
  "callback_for ten obj m [] = Some (CallbackP0 obj m)"
| "callback_for ten obj m [a] = Some (CallbackP1 obj m a)"
| "callback_for ten obj m [a, b] = Some (CallbackP2 obj m a b)"
| "callback_for ten obj m [a, b, c] = Some (CallbackP3 obj m a b c)"
| "callback_for ten obj m [a, b, c, d] = Some (CallbackP4 obj m a b c d)"
| "callback_for ten obj m [a, b, c, d, e] = Some (CallbackP5 obj m a b c d e)"
| "callback_for ten obj m [a, b, c, d, e, f] = Some (CallbackP6 obj m a b c d e f)"
| "callback_for ten obj m [a, b, c, d, e, f, g] = Some (CallbackP7 obj m a b c d e f g)"
| "callback_for ten obj m [a, b, c, d, e, f, g, h, i] = Some (CallbackP9 obj m a b c d e f g h i)"
| "callback_for ten obj m [a, b, c, d, e, f, g, h, i, j] = Some (CallbackP10 ten obj m a b c d e f g h i j)"
| "callback_for ten obj m args = None"

text \<open>\<open>None\<close>: no such program. The callbacks allocated so far are a list, and an event has its position in it.\<close>

definition addEvent_args ::
  "'v \<Rightarrow> ptr \<Rightarrow> 'f option \<Rightarrow> 'v list \<Rightarrow> u32 \<Rightarrow> u32 \<Rightarrow> u32 \<Rightarrow> u32 \<Rightarrow> ('f, 'v) callback list \<times> ev_state
   \<Rightarrow> (('f, 'v) callback list \<times> ev_state) result option" where
  "addEvent_args ten obj m args type time repeats flags st =
     (case (callback_for ten obj m args, st) of
        (None, _) \<Rightarrow> None
      | (Some cb, cbs, s) \<Rightarrow>
          Some (bind_result (addEvent obj (Some (length cbs)) type time repeats flags s) (\<lambda>s. Inr (cbs @ [cb], s))))"

text \<open>What the member functions do makes the behaviour of the events.\<close>

definition callback_behaviour :: "('f, 'v) callback list \<Rightarrow> (ptr \<times> 'f \<times> 'v list \<Rightarrow> ev_state \<Rightarrow> ev_op list) \<Rightarrow> behaviour" where
  "callback_behaviour cbs run = (\<lambda>i s. case callback_execute (cbs ! i) of None \<Rightarrow> [] | Some c \<Rightarrow> run c s)"

section \<open>Lemmas\<close>

lemmas callback_defs = CallbackP0_def CallbackP1_def CallbackP2_def CallbackP3_def CallbackP4_def CallbackP5_def
  CallbackP6_def CallbackP7_def CallbackP8_def CallbackP9_def CallbackP10_def

text \<open>What is passed on of the arguments.\<close>

definition passed :: "'v \<Rightarrow> 'v list \<Rightarrow> 'v list" where
  "passed ten args = (if length args = 10 then take 9 args @ [ten] else args)"

lemma callback_for_args:
  "callback_for ten obj m args = Some cb \<Longrightarrow> cb = Callback obj m (passed ten args) \<and> length args \<le> 10 \<and> length args \<noteq> 8"
  by (cases "(ten, obj, m, args)" rule: callback_for.cases) (auto simp: callback_defs passed_def)

lemma callback_for_exists:
  assumes "length args \<le> 10" and "length args \<noteq> 8" shows "callback_for ten obj m args \<noteq> None"
  using assms by (cases "(ten, obj, m, args)" rule: callback_for.cases) auto

text \<open>The parts of an event that only its owner changes.\<close>

definition settings :: "timed_event \<Rightarrow> ptr \<times> nat option \<times> u32 \<times> u16 \<times> u32 \<times> u32 \<times> u32 \<times> bool" where
  "settings x = (te_obj x, te_cb x, te_type x, te_flag x, te_ms x, te_curr x, te_repeats x, te_deleted x)"

definition all_settings :: "ev_state \<Rightarrow> ptr \<Rightarrow> (ptr \<times> nat option \<times> u32 \<times> u16 \<times> u32 \<times> u32 \<times> u32 \<times> bool) option" where
  "all_settings s = (\<lambda>e. map_option settings (ev_heap s e))"

lemma settings_incRef: "incRef e s = Inr t \<Longrightarrow> all_settings t = all_settings s"
  by (auto simp: incRef_def with_event_def put_event_def all_settings_def settings_def fun_eq_iff split: option.splits)

lemma settings_frames [simp]:
  "all_settings (put_obj ob x s) = all_settings s" "all_settings (choose_holder ob s) = all_settings s"
  "push_event h e s = Inr t \<Longrightarrow> all_settings t = all_settings s"
  by (auto simp: all_settings_def put_obj_def choose_holder_def push_event_def split: option.splits)

lemma settings_link:
  assumes "link_event ob e x s = Inr t" and "ev_heap s e = Some x" shows "all_settings t = all_settings s"
proof -
  let ?s3 = "put_event e (x\<lparr>te_inst := eo_inst (get_obj ob s)\<rparr>) s"
  let ?s4 = "put_obj ob ((get_obj ob ?s3)\<lparr>eo_events := mm_insert (te_type x) e (eo_events (get_obj ob ?s3))\<rparr>) ?s3"
  let ?s5 = "if eo_holder (get_obj ob ?s4) = NULL then choose_holder ob ?s4 else ?s4"
  have "all_settings ?s3 = all_settings s" using assms(2) by (auto simp: all_settings_def put_event_def settings_def fun_eq_iff)
  then have "all_settings ?s5 = all_settings s" by simp
  moreover have "holder_addEvent (eo_holder (get_obj ob ?s5)) e ?s5 = Inr t"
    using assms(1) unfolding link_event_def Let_def by (simp split: if_splits)
  then have "all_settings t = all_settings ?s5" by (auto simp: holder_addEvent_def dest!: settings_incRef)
  ultimately show ?thesis by simp
qed

lemma addEvent_settings:
  assumes "addEvent ob cb type time repeats flags s = Inr t"
  shows "all_settings t = (all_settings s)(ev_next s \<mapsto> (ob, cb, type, ucast flags, time, time, repeats, False))"
proof -
  let ?e = "ev_next s" and ?x = "new_event ob cb type time repeats flags"
  let ?s0 = "put_event ?e ?x (s\<lparr>ev_next := ?e + 1\<rparr>)"
  let ?s1 = "if eo_holder (get_obj ob ?s0) = NULL then choose_holder ob ?s0 else ?s0"
  obtain s2 where a: "incRef ?e ?s1 = Inr s2" "(case ev_heap s2 ?e of None \<Rightarrow> Inl Use_After_Free | Some x \<Rightarrow> link_event ob ?e x s2) = Inr t"
    using assms unfolding addEvent_def eventAddEvent_def Let_def with_event_def by (simp only: bind_result_Inr_iff) blast
  then obtain x where s2: "incRef ?e ?s1 = Inr s2" "ev_heap s2 ?e = Some x" "link_event ob ?e x s2 = Inr t"
    by (cases "ev_heap s2 ?e") simp_all
  have "all_settings t = all_settings ?s1" using settings_link [OF s2(3,2)] settings_incRef [OF s2(1)] by simp
  also have "\<dots> = all_settings ?s0" by simp
  finally show ?thesis by (simp add: all_settings_def put_event_def new_event_def settings_def fun_eq_iff)
qed

text \<open>An event added with up to nine arguments (other than eight, where the template does not compile) is in the list with the time,
  repetitions and flags given, and when it fires, the member function is called on the object with exactly these
  arguments; with ten arguments the last one is replaced by the number ten. The events there before keep their callbacks.
\<close>

theorem event_call_arguments:
  assumes "ev_ok s" and "obj \<noteq> NULL" and "length args \<le> 10" and "length args \<noteq> 8"
  shows "\<exists>cbs' s'. addEvent_args ten obj (Some f) args type time repeats flags (cbs, s) = Some (Inr (cbs', s')) \<and> ev_ok s'
    \<and> all_settings s' = (all_settings s)(ev_next s \<mapsto> (obj, Some (length cbs), type, ucast flags, time, time, repeats, False))
    \<and> execute (callback_behaviour cbs' run) (length cbs) u
        = fold_result run_op (run (obj, f, if length args = 10 then take 9 args @ [ten] else args) u) u
    \<and> (\<forall>i. i < length cbs \<longrightarrow> callback_behaviour cbs' run i = callback_behaviour cbs run i)"
proof -
  obtain cb where cb: "callback_for ten obj (Some f) args = Some cb" using callback_for_exists [OF assms(3,4)] by blast
  obtain s' where s': "addEvent obj (Some (length cbs)) type time repeats flags s = Inr s'" "ev_ok s'"
    using safeD [OF safe_add assms(1)] by blast
  have "addEvent_args ten obj (Some f) args type time repeats flags (cbs, s) = Some (Inr (cbs @ [cb], s'))"
    using cb s'(1) by (simp add: addEvent_args_def)
  moreover have "callback_execute cb = Some (obj, f, if length args = 10 then take 9 args @ [ten] else args)"
    using callback_for_args [OF cb] assms(2) by (simp add: passed_def)
  then have "execute (callback_behaviour (cbs @ [cb]) run) (length cbs) u
      = fold_result run_op (run (obj, f, if length args = 10 then take 9 args @ [ten] else args) u) u"
    by (simp add: execute_def callback_behaviour_def)
  moreover have "\<forall>i. i < length cbs \<longrightarrow> callback_behaviour (cbs @ [cb]) run i = callback_behaviour cbs run i"
    by (simp add: callback_behaviour_def nth_append)
  ultimately show ?thesis using addEvent_settings [OF s'(1)] s'(2) by blast
qed

theorem event_call_arguments_witness:
  "\<exists>cbs' s'. addEvent_args (10 :: int) 5 (Some ''tick'') [1, 2, 3, 4, 5, 6, 7, 8, 9, 77] 7 100 1 0 ([], one_timer) = Some (Inr (cbs', s'))
    \<and> execute (callback_behaviour cbs' (\<lambda>(obj, f, args) _. if args = [1, 2, 3, 4, 5, 6, 7, 8, 9, 10] then [Op_Remove obj 7] else [])) 0 s'
        = run_op (Op_Remove 5 7) s'"
proof -
  let ?run = "\<lambda>(obj, f :: string, args :: int list) (_ :: ev_state). if args = [1, 2, 3, 4, 5, 6, 7, 8, 9, 10] then [Op_Remove obj 7] else []"
  obtain cbs' s' where s': "addEvent_args (10 :: int) 5 (Some ''tick'') [1, 2, 3, 4, 5, 6, 7, 8, 9, 77] 7 100 1 0 ([], one_timer) = Some (Inr (cbs', s'))"
    using event_call_arguments [OF one_timer_ok(1), of 5 "[1, 2, 3, 4, 5, 6, 7, 8, 9, 77 :: int]" 10 "''tick''" 7 100 1 0 "[]" ?run one_timer]
    by auto
  from event_call_arguments [OF one_timer_ok(1), of 5 "[1, 2, 3, 4, 5, 6, 7, 8, 9, 77]" 10 "''tick''" 7 100 1 0 "[]" ?run s'] s'
  have "execute (callback_behaviour cbs' ?run) 0 s' = fold_result run_op [Op_Remove 5 7] s'" by simp
  moreover have "bind_result r Inr = r" for r :: "ev_state result" by (cases r) simp_all
  moreover have "fold_result run_op [] = Inr" by (simp add: fun_eq_iff)
  ultimately have "execute (callback_behaviour cbs' ?run) 0 s' = run_op (Op_Remove 5 7) s'" by simp
  with s' show ?thesis by blast
qed

end
