(* ===== verification/Log.thy ===== *)
theory Log
  imports Prelude Utilities
begin

text \<open>
  The log of the servers (\<^verbatim>\<open>common/my_log.cpp\<close>, \<^verbatim>\<open>common/MyLog.cpp\<close>): every function formats its message into one static buffer of
  4096 bytes, under one mutex, and hands it to the logger of its priority. The text of a message, format and
  arguments put together, is an argument here; the loggers of the third-party library are the list of lines they have
  been given. The last section runs the functions in several threads.
\<close>

section \<open>State\<close>

datatype log_level = Log_Fatal | Log_Error | Log_Warning | Log_Info | Log_Debug

datatype log_file =
    server_log | exception_log | memory_log | database_log | player_log | gm_log | bill_log | mail_log | chat_log
  | monster_log | robot_log | room_log | vp_log | store_log

fun log_index :: "log_file \<Rightarrow> u32" where
  "log_index server_log = 0" | "log_index exception_log = 1" | "log_index memory_log = 2" | "log_index database_log = 3"
| "log_index player_log = 4" | "log_index gm_log = 5" | "log_index bill_log = 6" | "log_index mail_log = 7"
| "log_index chat_log = 8" | "log_index monster_log = 9" | "log_index robot_log = 10" | "log_index room_log = 11"
| "log_index vp_log = 12" | "log_index store_log = 13"

definition max_log_ptr :: u32 where
  "max_log_ptr = 14"

record log_state =
  s_log_buff :: string
  log_lines :: "(log_level \<times> string) list"

section \<open>Operations\<close>

definition LOG_CRITICAL :: int where "LOG_CRITICAL = 0"
definition LOG_ERROR :: int where "LOG_ERROR = 1"
definition LOG_WARNING :: int where "LOG_WARNING = 2"
definition LOG_INFO :: int where "LOG_INFO = 3"
definition LOG_DEBUG :: int where "LOG_DEBUG = 4"

text \<open>The switch of \<open>log_print\<close>.\<close>

definition level_of :: "int \<Rightarrow> log_level" where
  "level_of priority =
     (if priority = LOG_CRITICAL then Log_Fatal
      else if priority = LOG_ERROR then Log_Error
      else if priority = LOG_WARNING then Log_Warning
      else if priority = LOG_INFO then Log_Info
      else if priority = LOG_DEBUG then Log_Debug
      else Log_Info)"

definition log_print :: "u32 \<Rightarrow> int \<Rightarrow> string \<Rightarrow> log_state \<Rightarrow> log_state" where
  "log_print index priority str s =
     (if index < max_log_ptr then s\<lparr>log_lines := log_lines s @ [(level_of priority, str)]\<rparr> else s)"

text \<open>\<open>vsprintf\<close> into the buffer.\<close>

definition log_format :: "string \<Rightarrow> log_state \<Rightarrow> log_state result" where
  "log_format text s = bind_result (sprintf_to 4096 text) (\<lambda>t. Inr (s\<lparr>s_log_buff := t\<rparr>))"

definition Mylog_log :: "int \<Rightarrow> u32 \<Rightarrow> string \<Rightarrow> log_state \<Rightarrow> log_state result" where
  "Mylog_log priority index text s = bind_result (log_format text s) (\<lambda>s. Inr (log_print index priority (s_log_buff s) s))"

definition log_error :: "u32 \<Rightarrow> string \<Rightarrow> log_state \<Rightarrow> log_state result" where
  "log_error index text s = bind_result (log_format text s) (\<lambda>s. Inr (log_print index LOG_ERROR (s_log_buff s) s))"

definition log_debug :: "u32 \<Rightarrow> string \<Rightarrow> log_state \<Rightarrow> log_state result" where
  "log_debug index text s = bind_result (log_format text s) (\<lambda>s. Inr (log_print index LOG_DEBUG (s_log_buff s) s))"

definition log_warning :: "u32 \<Rightarrow> string \<Rightarrow> log_state \<Rightarrow> log_state result" where
  "log_warning index text s = bind_result (log_format text s) (\<lambda>s. Inr (log_print index LOG_WARNING (s_log_buff s) s))"

definition log_info :: "u32 \<Rightarrow> string \<Rightarrow> log_state \<Rightarrow> log_state result" where
  "log_info index text s = bind_result (log_format text s) (\<lambda>s. Inr (log_print index LOG_INFO (s_log_buff s) s))"

definition log_critical :: "u32 \<Rightarrow> string \<Rightarrow> log_state \<Rightarrow> log_state result" where
  "log_critical index text s = bind_result (log_format text s) (\<lambda>s. Inr (log_print index LOG_CRITICAL (s_log_buff s) s))"

text \<open>The functions named after a file, \<^verbatim>\<open>log_server\<close> to \<^verbatim>\<open>log_vplayer\<close>; they differ in the index they pass.\<close>

definition log_to :: "log_file \<Rightarrow> int \<Rightarrow> string \<Rightarrow> log_state \<Rightarrow> log_state result" where
  "log_to fl priority text s =
     bind_result (log_format text s) (\<lambda>s. Inr (log_print (log_index fl) priority (s_log_buff s) s))"

section \<open>Lemmas\<close>

lemma log_index_known [simp]: "log_index fl < max_log_ptr"
  by (cases fl) (simp_all add: max_log_ptr_def)

lemma log_to_spec:
  "log_to fl priority text s =
     (if length text < 4096 then Inr (s\<lparr>s_log_buff := text, log_lines := log_lines s @ [(level_of priority, text)]\<rparr>)
      else Inl (Buff_Exception ''sprintf''))"
  by (simp add: log_to_def log_format_def sprintf_to_def log_print_def)

text \<open>The file does not matter: all messages of a priority go to the same logger.\<close>

lemma log_file_ignored: "log_to fl priority text s = log_to server_log priority text s"
  by (simp add: log_to_spec)

section \<open>Threads\<close>

text \<open>
  A thread makes a list of calls of the named functions, each in four steps: it takes the lock, formats, prints, and
  returns, which releases the lock. \<^verbatim>\<open>log_vplayer\<close> takes no lock. The lines carry the thread that printed them.
\<close>

type_synonym log_call = "log_file \<times> int \<times> string"

datatype log_phase = Idle | Entered | Formatted | Printed

record log_system =
  ls_state :: log_state
  ls_lock :: "nat option"
  ls_phase :: "nat \<Rightarrow> log_phase"
  ls_calls :: "nat \<Rightarrow> log_call list"
  ls_lines :: "(nat \<times> log_level \<times> string) list"

definition locks :: "log_call \<Rightarrow> bool" where
  "locks c \<longleftrightarrow> fst c \<noteq> vp_log"

definition log_start :: "(nat \<Rightarrow> log_call list) \<Rightarrow> log_system" where
  "log_start calls = \<lparr>ls_state = \<lparr>s_log_buff = [], log_lines = []\<rparr>, ls_lock = None, ls_phase = (\<lambda>_. Idle), ls_calls = calls, ls_lines = []\<rparr>"

definition log_step :: "nat \<Rightarrow> log_system \<Rightarrow> log_system result" where
  "log_step t s =
     (case ls_calls s t of
        [] \<Rightarrow> Inr s
      | (fl, priority, text) # cs \<Rightarrow>
          (case ls_phase s t of
             Idle \<Rightarrow>
               if locks (fl, priority, text)
               then (if ls_lock s = None then Inr (s\<lparr>ls_lock := Some t, ls_phase := (ls_phase s)(t := Entered)\<rparr>) else Inr s)
               else Inr (s\<lparr>ls_phase := (ls_phase s)(t := Entered)\<rparr>)
           | Entered \<Rightarrow>
               bind_result (log_format text (ls_state s)) (\<lambda>x. Inr (s\<lparr>ls_state := x, ls_phase := (ls_phase s)(t := Formatted)\<rparr>))
           | Formatted \<Rightarrow>
               Inr (s\<lparr>ls_state := log_print (log_index fl) priority (s_log_buff (ls_state s)) (ls_state s),
                      ls_lines := ls_lines s @ [(t, level_of priority, s_log_buff (ls_state s))],
                      ls_phase := (ls_phase s)(t := Printed)\<rparr>)
           | Printed \<Rightarrow>
               Inr (s\<lparr>ls_lock := (if locks (fl, priority, text) then None else ls_lock s),
                      ls_phase := (ls_phase s)(t := Idle), ls_calls := (ls_calls s)(t := cs)\<rparr>)))"

fun log_run :: "nat list \<Rightarrow> log_system \<Rightarrow> log_system result" where
  "log_run [] s = Inr s"
| "log_run (t # ts) s = bind_result (log_step t s) (log_run ts)"

definition lines_of :: "nat \<Rightarrow> log_system \<Rightarrow> (log_level \<times> string) list" where
  "lines_of t s = map snd (filter (\<lambda>l. fst l = t) (ls_lines s))"

definition call_line :: "log_call \<Rightarrow> log_level \<times> string" where
  "call_line c = (level_of (fst (snd c)), snd (snd c))"

text \<open>The calls whose line has not been printed.\<close>

definition unprinted :: "nat \<Rightarrow> log_system \<Rightarrow> log_call list" where
  "unprinted t s = (if ls_phase s t = Printed then tl (ls_calls s t) else ls_calls s t)"

definition thread_ok :: "(nat \<Rightarrow> log_call list) \<Rightarrow> log_system \<Rightarrow> nat \<Rightarrow> bool" where
  "thread_ok calls s t \<longleftrightarrow> lines_of t s @ map call_line (unprinted t s) = map call_line (calls t)
     \<and> (\<forall>c \<in> set (ls_calls s t). locks c \<and> length (snd (snd c)) < 4096)
     \<and> (ls_phase s t \<noteq> Idle \<longrightarrow> ls_lock s = Some t \<and> ls_calls s t \<noteq> [])
     \<and> (ls_phase s t = Formatted \<longrightarrow> s_log_buff (ls_state s) = snd (snd (hd (ls_calls s t))))"

definition log_ok :: "(nat \<Rightarrow> log_call list) \<Rightarrow> log_system \<Rightarrow> bool" where
  "log_ok calls s \<longleftrightarrow> log_lines (ls_state s) = map snd (ls_lines s) \<and> (\<forall>t. thread_ok calls s t)"

text \<open>A thread outside is not affected by what another does.\<close>

lemma idle_thread_ok:
  "thread_ok calls s u \<Longrightarrow> ls_phase s u = Idle \<Longrightarrow> lines_of u s' = lines_of u s \<Longrightarrow> ls_calls s' u = ls_calls s u \<Longrightarrow>
   ls_phase s' u = Idle \<Longrightarrow> thread_ok calls s' u"
  by (simp add: thread_ok_def unprinted_def)

lemma log_okI:
  assumes "log_ok calls s" and "\<And>u. u \<noteq> t \<Longrightarrow> ls_phase s u = Idle"
    and "\<And>u. u \<noteq> t \<Longrightarrow> lines_of u s' = lines_of u s \<and> ls_calls s' u = ls_calls s u \<and> ls_phase s' u = ls_phase s u"
    and "thread_ok calls s' t" and "log_lines (ls_state s') = map snd (ls_lines s')"
  shows "log_ok calls s'"
  unfolding log_ok_def
proof (intro conjI allI assms(5))
  fix u
  show "thread_ok calls s' u"
  proof (cases "u = t")
    case False
    then show ?thesis
      using idle_thread_ok [of calls s u s'] assms(1) assms(2,3) [OF False] by (simp add: log_ok_def)
  qed (use assms(4) in simp)
qed

lemma log_step_ok [invs]:
  assumes ok: "log_ok calls s"
  shows "\<exists>s'. log_step t s = Inr s' \<and> log_ok calls s'"
proof (cases "ls_calls s t")
  case Nil
  then show ?thesis using ok by (simp add: log_step_def)
next
  case (Cons c cs)
  obtain fl priority str where c: "c = (fl, priority, str)" by (cases c)
  have own: "thread_ok calls s t" and lines: "log_lines (ls_state s) = map snd (ls_lines s)" using ok by (simp_all add: log_ok_def)
  then have t: "locks c" "length str < 4096" using Cons c by (simp_all add: thread_ok_def)
  have alone: "ls_phase s u = Idle" if "ls_lock s = None \<or> ls_lock s = Some t" "u \<noteq> t" for u
    using ok that by (cases "ls_phase s u = Idle") (auto simp: log_ok_def thread_ok_def)
  show ?thesis
  proof (cases "ls_phase s t")
    case Idle
    show ?thesis
    proof (cases "ls_lock s = None")
      case True
      let ?s = "s\<lparr>ls_lock := Some t, ls_phase := (ls_phase s)(t := Entered)\<rparr>"
      have "log_ok calls ?s"
        by (rule log_okI [OF ok alone]) (use own lines Idle True Cons in \<open>auto simp: thread_ok_def unprinted_def lines_of_def\<close>)
      then show ?thesis using Idle True Cons c t by (simp add: log_step_def)
    qed (use ok Idle Cons c t in \<open>auto simp: log_step_def\<close>)
  next
    case Entered
    then have lock: "ls_lock s = Some t" using own by (simp add: thread_ok_def)
    let ?s = "s\<lparr>ls_state := (ls_state s)\<lparr>s_log_buff := str\<rparr>, ls_phase := (ls_phase s)(t := Formatted)\<rparr>"
    have "log_ok calls ?s"
      by (rule log_okI [OF ok alone]) (use own lines lock Entered Cons c in \<open>auto simp: thread_ok_def unprinted_def lines_of_def\<close>)
    then show ?thesis using Entered Cons c t by (simp add: log_step_def log_format_def sprintf_to_def)
  next
    case Formatted
    then have lock: "ls_lock s = Some t" and buff: "s_log_buff (ls_state s) = str"
      using own Cons c by (simp_all add: thread_ok_def)
    let ?s = "s\<lparr>ls_state := log_print (log_index fl) priority str (ls_state s),
                ls_lines := ls_lines s @ [(t, level_of priority, str)], ls_phase := (ls_phase s)(t := Printed)\<rparr>"
    have "log_ok calls ?s"
      by (rule log_okI [OF ok alone])
         (use own lines lock Formatted Cons c in \<open>auto simp: thread_ok_def unprinted_def lines_of_def log_print_def call_line_def\<close>)
    then show ?thesis using Formatted Cons c buff by (simp add: log_step_def)
  next
    case Printed
    then have lock: "ls_lock s = Some t" using own by (simp add: thread_ok_def)
    let ?s = "s\<lparr>ls_lock := None, ls_phase := (ls_phase s)(t := Idle), ls_calls := (ls_calls s)(t := cs)\<rparr>"
    have "log_ok calls ?s"
      by (rule log_okI [OF ok alone]) (use own lines lock Printed Cons in \<open>auto simp: thread_ok_def unprinted_def lines_of_def\<close>)
    then show ?thesis using Printed Cons c t by (simp add: log_step_def)
  qed
qed

lemma log_run_ok: "log_ok calls s \<Longrightarrow> \<exists>s'. log_run ts s = Inr s' \<and> log_ok calls s'"
proof (induction ts arbitrary: s)
  case (Cons t ts)
  obtain u where "log_step t s = Inr u" "log_ok calls u" using log_step_ok [OF Cons.prems] by blast
  with Cons.IH [of u] show ?case by auto
qed simp

lemma log_start_ok:
  "(\<And>t c. c \<in> set (calls t) \<Longrightarrow> locks c \<and> length (snd (snd c)) < 4096) \<Longrightarrow> log_ok calls (log_start calls)"
  by (simp add: log_ok_def thread_ok_def log_start_def lines_of_def unprinted_def)

text \<open>C19: In whatever order threads are scheduled, messages shorter than the buffer come out whole: what the loggers have got is one line
  per message, with its own text and level, and each thread's messages in the order it logged them. This is for the
  functions that take the lock, all but \<open>log_vplayer\<close>.
\<close>

theorem log_lines_whole:
  assumes "\<forall>t. list_all (\<lambda>(fl, priority, text). fl \<noteq> vp_log \<and> length text < 4096) (calls t)"
  shows "\<exists>s. log_run ts (log_start calls) = Inr s \<and> log_lines (ls_state s) = map snd (ls_lines s)
    \<and> (\<forall>t. lines_of t s @ map call_line (unprinted t s) = map call_line (calls t))"
proof -
  have "locks c \<and> length (snd (snd c)) < 4096" if "c \<in> set (calls t)" for t c
  proof -
    have "case c of (fl, priority, text) \<Rightarrow> fl \<noteq> vp_log \<and> length text < 4096" using assms that by (simp add: list_all_iff)
    then show ?thesis by (simp add: locks_def case_prod_unfold)
  qed
  then have "log_ok calls (log_start calls)" by (rule log_start_ok)
  from log_run_ok [OF this, where ts = ts] show ?thesis unfolding log_ok_def thread_ok_def by blast
qed

theorem log_lines_whole_witness:
  "\<exists>s. log_run [0, 1, 0, 1, 0, 1, 0, 1, 1, 1, 1] (log_start ((\<lambda>_. [])(0 := [(server_log, 3, ''a'')], 1 := [(player_log, 1, ''b'')]))) = Inr s
    \<and> lines_of 1 s @ map call_line (unprinted 1 s) = [(Log_Error, ''b'')]"
proof -
  let ?calls = "(\<lambda>_. [])(0 := [(server_log, 3, ''a'')], 1 := [(player_log, 1, ''b'')])"
  have line: "map call_line (?calls 1) = [(Log_Error, ''b'')]" by (simp add: call_line_def level_of_def LOG_CRITICAL_def LOG_ERROR_def)
  have "\<forall>t. list_all (\<lambda>(fl, priority, text). fl \<noteq> vp_log \<and> length text < 4096) (?calls t)" by simp
  from log_lines_whole [OF this, of "[0, 1, 0, 1, 0, 1, 0, 1, 1, 1, 1]"] line show ?thesis by metis
qed

text \<open>With \<open>log_vplayer\<close> in another thread a message is lost and another one comes out twice.\<close>

lemma log_vplayer_mixes:
  "\<exists>s. log_run [0, 0, 1, 1, 0, 1] (log_start ((\<lambda>_. [])(0 := [(server_log, 3, ''a'')], 1 := [(vp_log, 3, ''b'')]))) = Inr s
    \<and> log_lines (ls_state s) = [(Log_Info, ''b''), (Log_Info, ''b'')]"
  by (simp add: log_step_def log_start_def locks_def log_format_def sprintf_to_def log_print_def level_of_def
      LOG_CRITICAL_def LOG_ERROR_def LOG_WARNING_def LOG_INFO_def LOG_DEBUG_def max_log_ptr_def)

end
