(* ===== verification/Memory_Pool.thy ===== *)
theory Memory_Pool
  imports Prelude
begin

text \<open>
  The memory pool of a class (\<^verbatim>\<open>common/memory.h\<close>, \<^verbatim>\<open>common/object_pool.h\<close>), from which accounts, bans and sessions are made, and the
  shared buffers of \<^verbatim>\<open>common/mt_buffer.h\<close>. The pool of boost is a parameter: what its \<^verbatim>\<open>malloc\<close> returns, which is
  documented to be an address not in use, and so is whether a constructor throws.
\<close>

section \<open>The pool of a class\<close>

text \<open>\<open>op_live\<close> are the chunks the boost pool has given out.\<close>

record object_pool =
  op_next_size :: u32
  op_max_size :: u32
  op_obj_count :: u32
  op_live :: "ptr set"

text \<open>The static pointer to the pool, and the objects made by \<^verbatim>\<open>::new\<close>.\<close>

record class_memory =
  cm_pool :: "object_pool option"
  cm_heap :: "ptr set"

definition new_class_memory :: class_memory where
  "new_class_memory = \<lparr>cm_pool = None, cm_heap = {}\<rparr>"

definition new_object_pool :: "u32 \<Rightarrow> u32 \<Rightarrow> object_pool" where
  "new_object_pool next maxs = \<lparr>op_next_size = next, op_max_size = maxs, op_obj_count = 0, op_live = {}\<rparr>"

definition pool_newObject :: "ptr option \<Rightarrow> object_pool \<Rightarrow> ptr \<times> object_pool" where
  "pool_newObject alloc p =
     (case alloc of
        None \<Rightarrow> (NULL, p)
      | Some a \<Rightarrow> (a, p\<lparr>op_live := insert a (op_live p), op_obj_count := op_obj_count p + 1\<rparr>))"

text \<open>Destroying what is not in use is undefined.\<close>

definition pool_deleteObject :: "ptr \<Rightarrow> object_pool \<Rightarrow> object_pool result" where
  "pool_deleteObject a p =
     (if a = NULL then Inr p
      else if a \<notin> op_live p then Inl Use_After_Free
      else if op_obj_count p = 0 then Inl Assert_Failed
      else Inr (p\<lparr>op_live := op_live p - {a}, op_obj_count := op_obj_count p - 1\<rparr>))"

definition getObjectPool :: "u32 \<Rightarrow> u32 \<Rightarrow> class_memory \<Rightarrow> (object_pool \<times> class_memory) result" where
  "getObjectPool next maxs m =
     (case cm_pool m of
        Some p \<Rightarrow> Inr (p, m)
      | None \<Rightarrow> if next = 0 then Inl Assert_Failed
                else let p = new_object_pool next maxs in Inr (p, m\<lparr>cm_pool := Some p\<rparr>))"

text \<open>
  \<open>createObject\<close>, whatever the number of arguments of the constructor. When the constructor throws, the exception is logged and
  an object is made by \<^verbatim>\<open>::new\<close> instead, at \<open>fallback\<close>, whose constructor may throw again.
\<close>

definition createObject :: "u32 \<Rightarrow> u32 \<Rightarrow> ptr option \<Rightarrow> bool \<Rightarrow> bool \<Rightarrow> ptr \<Rightarrow> class_memory \<Rightarrow> (ptr \<times> class_memory) result" where
  "createObject next maxs alloc throws again fallback m =
     bind_result (getObjectPool next maxs m) (\<lambda>(p, m).
       let (a, p) = pool_newObject alloc p;
           m = m\<lparr>cm_pool := Some p\<rparr>
       in if a = NULL then Inr (NULL, m)
          else if \<not> throws then Inr (a, m)
          else if again then Inl (Runtime_Error ''constructor'')
          else Inr (fallback, m\<lparr>cm_heap := insert fallback (cm_heap m)\<rparr>))"

definition releaseObject :: "u32 \<Rightarrow> u32 \<Rightarrow> ptr \<Rightarrow> class_memory \<Rightarrow> class_memory result" where
  "releaseObject next maxs a m =
     bind_result (getObjectPool next maxs m) (\<lambda>(p, m).
     bind_result (pool_deleteObject a p) (\<lambda>p. Inr (m\<lparr>cm_pool := Some p\<rparr>)))"

section \<open>What a program does with it\<close>

text \<open>Objects are made and released; what is released is one of the objects in hand, which the last component lists.\<close>

datatype memory_op = Create "ptr option" | Create_Throws "ptr option" ptr | Release nat

fun memory_exec :: "u32 \<Rightarrow> u32 \<Rightarrow> memory_op \<Rightarrow> class_memory \<times> ptr list \<Rightarrow> (class_memory \<times> ptr list) result" where
  "memory_exec next maxs (Create alloc) (m, held) =
     bind_result (createObject next maxs alloc False False NULL m) (\<lambda>(a, m). Inr (m, if a = NULL then held else held @ [a]))"
| "memory_exec next maxs (Create_Throws alloc fallback) (m, held) =
     bind_result (createObject next maxs alloc True False fallback m) (\<lambda>(a, m). Inr (m, if a = NULL then held else held @ [a]))"
| "memory_exec next maxs (Release i) (m, held) =
     (if i < length held
      then bind_result (releaseObject next maxs (held ! i) m) (\<lambda>m. Inr (m, take i held @ drop (Suc i) held))
      else Inr (m, held))"

fun memory_run :: "u32 \<Rightarrow> u32 \<Rightarrow> memory_op list \<Rightarrow> class_memory \<times> ptr list \<Rightarrow> (class_memory \<times> ptr list) result" where
  "memory_run next maxs [] st = Inr st"
| "memory_run next maxs (x # xs) st = bind_result (memory_exec next maxs x st) (memory_run next maxs xs)"

definition pool_live :: "class_memory \<Rightarrow> ptr set" where
  "pool_live m = (case cm_pool m of None \<Rightarrow> {} | Some p \<Rightarrow> op_live p)"

definition pool_count :: "class_memory \<Rightarrow> u32" where
  "pool_count m = (case cm_pool m of None \<Rightarrow> 0 | Some p \<Rightarrow> op_obj_count p)"

text \<open>The contract of the boost pool along a run without exceptions: an address it returns is not null and not in use.\<close>

fun fresh_allocs :: "u32 \<Rightarrow> u32 \<Rightarrow> memory_op list \<Rightarrow> class_memory \<times> ptr list \<Rightarrow> bool" where
  "fresh_allocs next maxs [] st = True"
| "fresh_allocs next maxs (x # xs) st =
     ((case x of Create (Some a) \<Rightarrow> a \<noteq> NULL \<and> a \<notin> pool_live (fst st) | Create_Throws _ _ \<Rightarrow> False | _ \<Rightarrow> True)
      \<and> (case memory_exec next maxs x st of Inr st \<Rightarrow> fresh_allocs next maxs xs st | Inl _ \<Rightarrow> True))"

section \<open>Lemmas\<close>

definition memory_ok :: "class_memory \<times> ptr list \<Rightarrow> bool" where
  "memory_ok st \<longleftrightarrow> distinct (snd st) \<and> set (snd st) = pool_live (fst st) \<and> NULL \<notin> set (snd st)
     \<and> pool_count (fst st) = word_of_nat (length (snd st))"

lemma pool_simps [simp]:
  "pool_live (m\<lparr>cm_pool := Some p\<rparr>) = op_live p" "pool_count (m\<lparr>cm_pool := Some p\<rparr>) = op_obj_count p"
  by (simp_all add: pool_live_def pool_count_def)

lemma getObjectPool_ok:
  assumes "next \<noteq> 0"
  shows "\<exists>p m'. getObjectPool next maxs m = Inr (p, m') \<and> cm_pool m' = Some p \<and> op_live p = pool_live m \<and> op_obj_count p = pool_count m"
  using assms by (auto simp: getObjectPool_def new_object_pool_def pool_live_def pool_count_def Let_def split: option.split)

lemma drop_nth:
  assumes "distinct xs" and "i < length xs"
  shows "distinct (take i xs @ drop (Suc i) xs)" "set (take i xs @ drop (Suc i) xs) = set xs - {xs ! i}"
    "length (take i xs @ drop (Suc i) xs) = length xs - 1"
proof -
  have split: "xs = take i xs @ xs ! i # drop (Suc i) xs" using assms(2) by (rule id_take_nth_drop)
  then have d: "distinct (take i xs @ xs ! i # drop (Suc i) xs)" using assms(1) by metis
  then show "distinct (take i xs @ drop (Suc i) xs)" by auto
  have "set xs = set (take i xs @ xs ! i # drop (Suc i) xs)" using split by metis
  with d show "set (take i xs @ drop (Suc i) xs) = set xs - {xs ! i}" by auto
qed (use assms(2) in simp)

lemma memory_step_ok:
  assumes ok: "memory_ok (m, held)" and "next \<noteq> 0" and few: "length held < 2 ^ 32"
    and fresh: "case x of Create (Some a) \<Rightarrow> a \<noteq> NULL \<and> a \<notin> pool_live m | Create_Throws _ _ \<Rightarrow> False | _ \<Rightarrow> True"
  shows "\<exists>st. memory_exec next maxs x (m, held) = Inr st \<and> memory_ok st"
proof -
  obtain p m' where p: "getObjectPool next maxs m = Inr (p, m')" "op_live p = pool_live m" "op_obj_count p = pool_count m"
    "cm_pool m' = Some p"
    using getObjectPool_ok [OF assms(2)] by metis
  note o = ok [unfolded memory_ok_def fst_conv snd_conv]
  show ?thesis
  proof (cases x)
    case (Create alloc)
    show ?thesis
    proof (cases alloc)
      case None
      have "m'\<lparr>cm_pool := Some p\<rparr> = m'" using p(4) by simp
      moreover have "NULL \<notin> pool_live m" using o by metis
      ultimately show ?thesis using None Create p o by (simp add: createObject_def pool_newObject_def memory_ok_def Let_def)
    next
      case (Some a)
      then have "a \<noteq> NULL" "a \<notin> set held" using Create fresh o by simp_all
      moreover have "NULL \<notin> pool_live m" using o by metis
      ultimately show ?thesis using Some Create p(1-3) o
        by (simp add: createObject_def pool_newObject_def memory_ok_def Let_def)
    qed
  next
    case (Release i)
    show ?thesis
    proof (cases "i < length held")
      case True
      then have h: "held ! i \<in> op_live p" "held ! i \<noteq> NULL" using o p(2) nth_mem [of i held] by metis+
      have "unat (word_of_nat (length held) :: u32) = length held" using few by (simp add: unat_of_nat)
      then have "op_obj_count p \<noteq> 0" using True o p(3) by (metis unat_0 not_less_zero)
      moreover have "op_obj_count p - 1 = word_of_nat (length held - 1)" using True o p(3) by (simp add: of_nat_diff)
      moreover have "NULL \<notin> pool_live m" using o by metis
      ultimately show ?thesis
        using True Release p(1,2) h o drop_nth [OF conjunct1 [OF o] True]
        by (simp add: releaseObject_def pool_deleteObject_def memory_ok_def del: set_append length_append distinct_append)
    qed (use Release ok in simp)
  qed (use fresh in simp)
qed

text \<open>A program that makes objects and releases each at most once never fails, as long as no constructor throws: all objects in hand are different,
  they are the chunks the pool has given out, and the count the pool keeps is their number.
\<close>

theorem pool_accounts:
  assumes "next \<noteq> 0" and "length xs < 2 ^ 32" and "fresh_allocs next maxs xs (new_class_memory, [])"
  shows "\<exists>m held. memory_run next maxs xs (new_class_memory, []) = Inr (m, held) \<and> distinct held \<and> set held = pool_live m
    \<and> pool_count m = word_of_nat (length held)"
proof -
  have "\<exists>st. memory_run next maxs xs st0 = Inr st \<and> memory_ok st"
    if "memory_ok st0" "length (snd st0) + length xs < 2 ^ 32" "fresh_allocs next maxs xs st0" for st0 xs
    using that
  proof (induction xs arbitrary: st0)
    case (Cons x xs)
    obtain m held where st0: "st0 = (m, held)" by (cases st0)
    have "case x of Create (Some a) \<Rightarrow> a \<noteq> NULL \<and> a \<notin> pool_live m | Create_Throws _ _ \<Rightarrow> False | _ \<Rightarrow> True"
      using Cons.prems(3) unfolding st0 fresh_allocs.simps fst_conv by (rule conjunct1)
    with memory_step_ok [of m held] Cons.prems(1,2) st0 assms(1)
    obtain st where st: "memory_exec next maxs x st0 = Inr st" "memory_ok st" by fastforce
    have "length (snd st) \<le> Suc (length held)"
      using st(1) unfolding st0 by (cases x) (auto split: if_splits)
    then have "length (snd st) + length xs < 2 ^ 32" using Cons.prems(2) st0 by simp
    from Cons.IH [OF st(2) this] Cons.prems(3) st(1) show ?case by simp
  qed auto
  moreover have "memory_ok (new_class_memory, [])"
    by (simp add: memory_ok_def new_class_memory_def pool_live_def pool_count_def)
  ultimately show ?thesis using assms(2,3) unfolding memory_ok_def by fastforce
qed

theorem pool_accounts_witness:
  "\<exists>m held. memory_run 32 0 [Create (Some 8), Create (Some 16), Release 0, Create None] (new_class_memory, []) = Inr (m, held)
     \<and> pool_count m = word_of_nat (length held)"
proof -
  have "fresh_allocs 32 0 [Create (Some 8), Create (Some 16), Release 0, Create None] (new_class_memory, [])"
    by (simp add: new_class_memory_def createObject_def releaseObject_def pool_deleteObject_def pool_newObject_def getObjectPool_def
        new_object_pool_def pool_live_def Let_def)
  from pool_accounts [OF _ _ this] show ?thesis by (simp del: memory_run.simps) blast
qed

text \<open>
  When a constructor throws, the chunk is lost and stays counted, and the object made instead is not from the pool: releasing it
  is undefined.
\<close>

lemma throwing_constructor:
  assumes "next \<noteq> 0" and "a \<noteq> NULL" and "a \<notin> pool_live m" and "b \<noteq> NULL" and "b \<notin> insert a (pool_live m)"
  shows "\<exists>m'. createObject next maxs (Some a) True False b m = Inr (b, m') \<and> pool_count m' = pool_count m + 1
    \<and> a \<in> pool_live m' \<and> releaseObject next maxs b m' = Inl Use_After_Free"
proof -
  obtain p m' where p: "getObjectPool next maxs m = Inr (p, m')" "op_live p = pool_live m" "op_obj_count p = pool_count m"
    using getObjectPool_ok [OF assms(1)] by metis
  then show ?thesis
    using assms
    by (simp add: createObject_def pool_newObject_def Let_def releaseObject_def getObjectPool_def pool_deleteObject_def
        pool_live_def pool_count_def)
qed

section \<open>Shared buffers\<close>

text \<open>A buffer: whether it is in use, and whether \<^verbatim>\<open>m_mutex\<close> has been set.\<close>

record mt_buffer =
  mb_using :: bool
  mb_has_mutex :: bool

definition new_mt_buffer :: mt_buffer where
  "new_mt_buffer = \<lparr>mb_using = False, mb_has_mutex = False\<rparr>"

definition mt_acquire :: "mt_buffer \<Rightarrow> bool \<times> mt_buffer" where
  "mt_acquire b =
     (let b = b\<lparr>mb_has_mutex := True\<rparr> in if \<not> mb_using b then (True, b\<lparr>mb_using := True\<rparr>) else (False, b))"

definition mt_release :: "mt_buffer \<Rightarrow> mt_buffer" where
  "mt_release b = (if mb_has_mutex b then b\<lparr>mb_using := False\<rparr> else b)"

text \<open>One turn of the loop of \<open>get_free_buffer\<close>, all under the mutex: the buffer found, if any. Without one the caller waits
  and tries again.\<close>

fun get_free_buffer :: "mt_buffer list \<Rightarrow> nat option \<times> mt_buffer list" where
  "get_free_buffer [] = (None, [])"
| "get_free_buffer (b # bs) =
     (case mt_acquire b of
        (True, b) \<Rightarrow> (Some 0, b # bs)
      | (False, b) \<Rightarrow> (let (i, bs) = get_free_buffer bs in (map_option Suc i, b # bs)))"

lemma get_free_buffer_Cons:
  "get_free_buffer (b # bs) =
     (if mb_using b then (let (i, bs) = get_free_buffer bs in (map_option Suc i, b\<lparr>mb_has_mutex := True\<rparr> # bs))
      else (Some 0, b\<lparr>mb_has_mutex := True, mb_using := True\<rparr> # bs))"
  by (simp add: mt_acquire_def)

lemma get_free_buffer_found:
  "get_free_buffer bs = (Some i, bs') \<Longrightarrow>
   i < length bs \<and> \<not> mb_using (bs ! i) \<and> length bs' = length bs
   \<and> (\<forall>j < length bs. mb_using (bs' ! j) = (mb_using (bs ! j) \<or> j = i)) \<and> mb_has_mutex (bs' ! i)"
proof (induction bs arbitrary: i bs')
  case (Cons b bs)
  show ?case
  proof (cases "mb_using b")
    case True
    then obtain k cs where k: "get_free_buffer bs = (Some k, cs)" "i = Suc k" "bs' = b\<lparr>mb_has_mutex := True\<rparr> # cs"
      using Cons.prems by (auto simp: get_free_buffer_Cons simp del: get_free_buffer.simps split: prod.splits)
    from Cons.IH [OF k(1)] True k(2,3) show ?thesis by (auto simp: nth_Cons split: nat.split)
  next
    case False
    then have "i = 0" "bs' = b\<lparr>mb_has_mutex := True, mb_using := True\<rparr> # bs"
      using Cons.prems by (simp_all add: get_free_buffer_Cons del: get_free_buffer.simps)
    with False show ?thesis by (auto simp: nth_Cons split: nat.split)
  qed
qed simp

lemma get_free_buffer_none:
  "fst (get_free_buffer bs) = None \<longleftrightarrow> list_all mb_using bs"
  by (induction bs) (simp_all add: get_free_buffer_Cons case_prod_beta Let_def del: get_free_buffer.simps(2))

text \<open>A buffer is given to nobody else until it has been released.\<close>

lemma buffers_exclusive:
  assumes "get_free_buffer bs = (Some i, bs')" and "get_free_buffer bs' = (Some j, bs'')" shows "i \<noteq> j"
  using get_free_buffer_found [OF assms(1)] get_free_buffer_found [OF assms(2)] by auto

end
