(* ===== verification/Update_Fields.thy ===== *)
theory Update_Fields
  imports Prelude
begin

text \<open>
  The update fields of an object (\<^verbatim>\<open>common/update_object.h\<close>) and the flag helpers of \<^verbatim>\<open>common/common_helper.h\<close>: an array of 32-bit cells,
  read and written as numbers of several widths, and a mask of the cells that have changed. The class of the mask is not in the
  repository (\<^verbatim>\<open>mask_update.h\<close>): its \<^verbatim>\<open>setBit\<close> is a parameter.
\<close>

section \<open>Flags\<close>

text \<open>\<^verbatim>\<open>1 << f\<close>, which is undefined from 32 on.\<close>

definition flag_bit :: "u32 \<Rightarrow> u32 result" where
  "flag_bit f = (if f < 32 then Inr (push_bit (unat f) 1) else Inl Out_Of_Range)"

definition addFlag :: "u32 \<Rightarrow> u32 \<Rightarrow> u32 result" where
  "addFlag v f = bind_result (flag_bit f) (\<lambda>b. Inr (v OR b))"

definition removeFlag :: "u32 \<Rightarrow> u32 \<Rightarrow> u32 result" where
  "removeFlag v f = bind_result (flag_bit f) (\<lambda>b. Inr (v AND NOT b))"

definition addFlags :: "u32 \<Rightarrow> u32 \<Rightarrow> u32" where
  "addFlags v flag = v OR flag"

definition removeFlags :: "u32 \<Rightarrow> u32 \<Rightarrow> u32" where
  "removeFlags v flag = v AND NOT flag"

definition hasFlag :: "u32 \<Rightarrow> u32 \<Rightarrow> bool result" where
  "hasFlag v f = bind_result (flag_bit f) (\<lambda>b. Inr (v AND b > 0))"

section \<open>The object\<close>

text \<open>\<open>_UVCount\<close> is the number of cells.\<close>

record 'm update_object =
  uo_values :: "u32 list"
  uo_mask :: 'm

definition new_update_object :: "(u32 \<Rightarrow> 'm) \<Rightarrow> u32 \<Rightarrow> 'm update_object" where
  "new_update_object new_mask n = \<lparr>uo_values = replicate (unat n) 0, uo_mask = new_mask n\<rparr>"

definition getUVCount :: "'m update_object \<Rightarrow> u32" where
  "getUVCount u = word_of_nat (length (uo_values u))"

text \<open>The assertion at the head of each operation, and the cell it protects.\<close>

definition uo_cell :: "u32 \<Rightarrow> 'm update_object \<Rightarrow> u32 result" where
  "uo_cell i u = (if i < getUVCount u then Inr (uo_values u ! unat i) else Inl Assert_Failed)"

definition uo_store :: "u32 \<Rightarrow> u32 \<Rightarrow> 'm update_object \<Rightarrow> 'm update_object" where
  "uo_store i v u = u\<lparr>uo_values := (uo_values u)[unat i := v]\<rparr>"

definition uo_mark :: "(u32 \<Rightarrow> 'm \<Rightarrow> 'm) \<Rightarrow> u32 \<Rightarrow> 'm update_object \<Rightarrow> 'm update_object" where
  "uo_mark setBit i u = u\<lparr>uo_mask := setBit i (uo_mask u)\<rparr>"

definition setU32Value :: "(u32 \<Rightarrow> 'm \<Rightarrow> 'm) \<Rightarrow> u32 \<Rightarrow> u32 \<Rightarrow> 'm update_object \<Rightarrow> 'm update_object result" where
  "setU32Value setBit i v u =
     bind_result (uo_cell i u) (\<lambda>old. if old = v then Inr u else Inr (uo_mark setBit i (uo_store i v u)))"

definition getU32Value :: "u32 \<Rightarrow> 'm update_object \<Rightarrow> u32 result" where
  "getU32Value i u = uo_cell i u"

text \<open>Signed numbers are kept as their words; \<open>sint\<close> reads them.\<close>

definition setS32Value :: "(u32 \<Rightarrow> 'm \<Rightarrow> 'm) \<Rightarrow> u32 \<Rightarrow> u32 \<Rightarrow> 'm update_object \<Rightarrow> 'm update_object result" where
  "setS32Value setBit i v u =
     bind_result (uo_cell i u) (\<lambda>old. if sint old = sint v then Inr u else Inr (uo_mark setBit i (uo_store i v u)))"

definition getS32Value :: "u32 \<Rightarrow> 'm update_object \<Rightarrow> int result" where
  "getS32Value i u = bind_result (uo_cell i u) (\<lambda>old. Inr (sint old))"

datatype u16_index = FILED_UINT16_0 | FILED_UINT16_1

text \<open>
  The low half is changed in a copy of the cell only, which is never stored. For the other half the code adds 2 to a pointer to 32-bit
  cells, so that it writes eight bytes past the copy.
\<close>

definition setU16Value :: "(u32 \<Rightarrow> 'm \<Rightarrow> 'm) \<Rightarrow> u32 \<Rightarrow> u16 \<Rightarrow> u16_index \<Rightarrow> 'm update_object \<Rightarrow> 'm update_object result" where
  "setU16Value setBit i v field u =
     bind_result (uo_cell i u) (\<lambda>old.
       case field of
         FILED_UINT16_0 \<Rightarrow>
           (let new = (old AND 0xFFFF0000) OR ucast v
            in Inr (if new \<noteq> uo_values u ! unat i then uo_mark setBit i u else u))
       | FILED_UINT16_1 \<Rightarrow> Inl Out_Of_Range)"

definition getU16Value :: "u32 \<Rightarrow> u16_index \<Rightarrow> 'm update_object \<Rightarrow> u16 result" where
  "getU16Value i field u =
     bind_result (uo_cell i u) (\<lambda>n.
       case field of
         FILED_UINT16_1 \<Rightarrow> Inr (ucast (n AND 0xFFFF))
       | FILED_UINT16_0 \<Rightarrow> Inr (ucast (drop_bit 16 n AND 0xFFFF)))"

datatype u8_index = FILED_UINT8_0 | FILED_UINT8_1 | FILED_UINT8_2 | FILED_UINT8_3

definition setU8Value :: "(u32 \<Rightarrow> 'm \<Rightarrow> 'm) \<Rightarrow> u32 \<Rightarrow> u8 \<Rightarrow> u8_index \<Rightarrow> 'm update_object \<Rightarrow> 'm update_object result" where
  "setU8Value setBit i v field u =
     bind_result (uo_cell i u) (\<lambda>old.
       let w = ucast v :: u32;
           new = (case field of
               FILED_UINT8_0 \<Rightarrow> push_bit 24 w + (old AND 0x0FFF)
             | FILED_UINT8_1 \<Rightarrow> push_bit 16 w + (old AND 0xF0FF)
             | FILED_UINT8_2 \<Rightarrow> push_bit 8 w + (old AND 0xFF0F)
             | FILED_UINT8_3 \<Rightarrow> w + (old AND 0xFFF0));
           u' = uo_store i new u
       in Inr (if old \<noteq> uo_values u' ! unat i then uo_mark setBit i u' else u'))"

definition getU8Value :: "u32 \<Rightarrow> u8_index \<Rightarrow> 'm update_object \<Rightarrow> u8 result" where
  "getU8Value i field u =
     bind_result (uo_cell i u) (\<lambda>n.
       case field of
         FILED_UINT8_0 \<Rightarrow> Inr (ucast (drop_bit 24 (n AND 0xF000) AND 0xFF))
       | FILED_UINT8_1 \<Rightarrow> Inr (ucast (drop_bit 16 (n AND 0x0F00) AND 0xFF))
       | FILED_UINT8_2 \<Rightarrow> Inr (ucast (drop_bit 8 (n AND 0x00F0) AND 0xFF))
       | FILED_UINT8_3 \<Rightarrow> Inr (ucast ((n AND 0x000F) AND 0xFF)))"

text \<open>The assertion of the 64-bit operations is about the second cell: \<^verbatim>\<open>index + 1\<close> wraps, so that the first may be far outside.\<close>

definition getU64Value :: "u32 \<Rightarrow> 'm update_object \<Rightarrow> u64 result" where
  "getU64Value i u =
     (if \<not> i + 1 < getUVCount u then Inl Assert_Failed
      else if \<not> i < getUVCount u then Inl Out_Of_Range
      else Inr (ucast (uo_values u ! unat i) + push_bit 32 (ucast (uo_values u ! unat (i + 1)))))"

definition setU64Value :: "(u32 \<Rightarrow> 'm \<Rightarrow> 'm) \<Rightarrow> u32 \<Rightarrow> u64 \<Rightarrow> 'm update_object \<Rightarrow> 'm update_object result" where
  "setU64Value setBit i v u =
     bind_result (getU64Value i u) (\<lambda>old.
       if old = v then Inr u
       else Inr (uo_mark setBit (i + 1) (uo_mark setBit i
              (uo_store (i + 1) (ucast (drop_bit 32 v AND 0xffffffff)) (uo_store i (ucast (v AND 0xffffffff)) u)))))"

definition setU32Flag :: "(u32 \<Rightarrow> 'm \<Rightarrow> 'm) \<Rightarrow> u32 \<Rightarrow> u32 \<Rightarrow> 'm update_object \<Rightarrow> 'm update_object result" where
  "setU32Flag setBit i flag u =
     bind_result (uo_cell i u) (\<lambda>old. bind_result (addFlag old flag) (\<lambda>v. Inr (uo_mark setBit i (uo_store i v u))))"

definition setU32Flags :: "(u32 \<Rightarrow> 'm \<Rightarrow> 'm) \<Rightarrow> u32 \<Rightarrow> u32 \<Rightarrow> 'm update_object \<Rightarrow> 'm update_object result" where
  "setU32Flags setBit i flag u =
     bind_result (uo_cell i u) (\<lambda>old. Inr (uo_mark setBit i (uo_store i (addFlags old flag) u)))"

definition hasU32Flag :: "u32 \<Rightarrow> u32 \<Rightarrow> 'm update_object \<Rightarrow> bool result" where
  "hasU32Flag i flag u = bind_result (uo_cell i u) (\<lambda>v. hasFlag v flag)"

definition removeU32Flags :: "(u32 \<Rightarrow> 'm \<Rightarrow> 'm) \<Rightarrow> u32 \<Rightarrow> u32 \<Rightarrow> 'm update_object \<Rightarrow> 'm update_object result" where
  "removeU32Flags setBit i flag u =
     bind_result (uo_cell i u) (\<lambda>old. Inr (uo_mark setBit i (uo_store i (removeFlags old flag) u)))"

definition removeU32Flag :: "(u32 \<Rightarrow> 'm \<Rightarrow> 'm) \<Rightarrow> u32 \<Rightarrow> u32 \<Rightarrow> 'm update_object \<Rightarrow> 'm update_object result" where
  "removeU32Flag setBit i flag u =
     bind_result (uo_cell i u) (\<lambda>old. bind_result (removeFlag old flag) (\<lambda>v. Inr (uo_mark setBit i (uo_store i v u))))"

definition setUpdateMaskAll :: "('m \<Rightarrow> 'm) \<Rightarrow> 'm update_object \<Rightarrow> 'm update_object" where
  "setUpdateMaskAll setAll u = u\<lparr>uo_mask := setAll (uo_mask u)\<rparr>"

section \<open>Sequences of operations\<close>

datatype update_op =
    Set_U32 u32 u32
  | Set_S32 u32 u32
  | Set_U16 u32 u16 u16_index
  | Set_U8 u32 u8 u8_index
  | Set_U64 u32 u64
  | Set_Flag u32 u32
  | Set_Flags u32 u32
  | Remove_Flags u32 u32
  | Remove_Flag u32 u32

fun update_exec :: "(u32 \<Rightarrow> 'm \<Rightarrow> 'm) \<Rightarrow> update_op \<Rightarrow> 'm update_object \<Rightarrow> 'm update_object result" where
  "update_exec setBit (Set_U32 i v) u = setU32Value setBit i v u"
| "update_exec setBit (Set_S32 i v) u = setS32Value setBit i v u"
| "update_exec setBit (Set_U16 i v field) u = setU16Value setBit i v field u"
| "update_exec setBit (Set_U8 i v field) u = setU8Value setBit i v field u"
| "update_exec setBit (Set_U64 i v) u = setU64Value setBit i v u"
| "update_exec setBit (Set_Flag i f) u = setU32Flag setBit i f u"
| "update_exec setBit (Set_Flags i f) u = setU32Flags setBit i f u"
| "update_exec setBit (Remove_Flags i f) u = removeU32Flags setBit i f u"
| "update_exec setBit (Remove_Flag i f) u = removeU32Flag setBit i f u"

fun update_run :: "(u32 \<Rightarrow> 'm \<Rightarrow> 'm) \<Rightarrow> update_op list \<Rightarrow> 'm update_object \<Rightarrow> 'm update_object result" where
  "update_run setBit [] u = Inr u"
| "update_run setBit (x # xs) u = bind_result (update_exec setBit x u) (update_run setBit xs)"

text \<open>What a copy of the cells becomes when the marked ones are sent to it.\<close>

definition send_marked :: "(u32 \<Rightarrow> 'm \<Rightarrow> bool) \<Rightarrow> 'm update_object \<Rightarrow> u32 list \<Rightarrow> u32 list" where
  "send_marked marked u copy =
     map (\<lambda>i. if marked (word_of_nat i) (uo_mask u) then uo_values u ! i else copy ! i) [0..<length (uo_values u)]"

section \<open>Cells\<close>

lemma count_less [simp]:
  "length (uo_values u) < 2 ^ 32 \<Longrightarrow> i < getUVCount u \<longleftrightarrow> unat i < length (uo_values u)"
  by (simp add: getUVCount_def word_less_nat_alt unat_of_nat)

lemma store_simps [simp]:
  "length (uo_values (uo_store i v u)) = length (uo_values u)" "uo_mask (uo_store i v u) = uo_mask u"
  "uo_values (uo_mark setBit i u) = uo_values u" "uo_mask (uo_mark setBit i u) = setBit i (uo_mask u)"
  by (simp_all add: uo_store_def uo_mark_def)

lemma store_nth:
  "unat i < length (uo_values u) \<Longrightarrow> uo_values (uo_store i v u) ! k = (if k = unat i then v else uo_values u ! k)"
  by (simp add: uo_store_def nth_list_update)

lemma mark_store_commute: "uo_mark setBit i (uo_store j v u) = uo_store j v (uo_mark setBit i u)"
  by (simp add: uo_mark_def uo_store_def)

lemma unat_Suc_below:
  fixes i :: u32
  assumes "unat i < 2 ^ 32 - 1" shows "unat (i + 1) = Suc (unat i)"
  using assms by (simp add: unat_word_ariths)

section \<open>The mask covers the changes\<close>

definition covered :: "(u32 \<Rightarrow> 'm \<Rightarrow> bool) \<Rightarrow> u32 list \<Rightarrow> 'm update_object \<Rightarrow> bool" where
  "covered marked copy u \<longleftrightarrow> length copy = length (uo_values u) \<and> length copy < 2 ^ 32
     \<and> (\<forall>k < length copy. marked (word_of_nat k) (uo_mask u) \<or> copy ! k = uo_values u ! k)"

lemma covered_store:
  assumes bits: "\<And>i j m. marked i (setBit j m) = (i = j \<or> marked i m)"
    and "covered marked copy u" and "unat i < length (uo_values u)"
  shows "covered marked copy (uo_mark setBit i (uo_store i v u))"
  unfolding covered_def
proof (intro conjI allI impI)
  fix k assume k: "k < length copy"
  show "marked (word_of_nat k) (uo_mask (uo_mark setBit i (uo_store i v u)))
        \<or> copy ! k = uo_values (uo_mark setBit i (uo_store i v u)) ! k"
    using assms(2) k by (cases "k = unat i") (auto simp: bits store_nth [OF assms(3)] covered_def)
qed (use assms(2) in \<open>auto simp: covered_def\<close>)

lemma covered_same:
  assumes "covered marked copy u" and "unat i < length (uo_values u)" and "uo_values u ! unat i = v"
  shows "covered marked copy (uo_store i v u)"
proof -
  have "uo_store i v u = u" unfolding assms(3) [symmetric] by (simp add: uo_store_def)
  then show ?thesis using assms(1) by simp
qed

lemma covered_mark:
  assumes "\<And>i j m. marked i (setBit j m) = (i = j \<or> marked i m)" and "covered marked copy u"
  shows "covered marked copy (uo_mark setBit i u)"
  using assms(2) by (auto simp: covered_def assms(1))

lemma cell_Inr:
  "length (uo_values u) < 2 ^ 32 \<Longrightarrow>
   uo_cell i u = Inr v \<longleftrightarrow> unat i < length (uo_values u) \<and> v = uo_values u ! unat i"
  by (auto simp: uo_cell_def)

lemma covered_setU64Value:
  assumes bits: "\<And>i j m. marked i (setBit j m) = (i = j \<or> marked i m)"
    and c: "covered marked copy u" and "setU64Value setBit i v u = Inr u'"
  shows "covered marked copy u'"
proof -
  have n: "length (uo_values u) < 2 ^ 32" using c by (simp add: covered_def)
  have i: "unat i < length (uo_values u)" "unat (i + 1) < length (uo_values u)"
    using assms(3) n by (auto simp: setU64Value_def getU64Value_def split: if_splits)
  show ?thesis
  proof (cases "u' = u")
    case False
    then obtain a b where "u' = uo_mark setBit (i + 1) (uo_mark setBit i (uo_store (i + 1) b (uo_store i a u)))"
      using assms(3) by (auto simp: setU64Value_def split: if_splits)
    then have "u' = uo_mark setBit (i + 1) (uo_store (i + 1) b (uo_mark setBit i (uo_store i a u)))"
      by (simp only: mark_store_commute)
    then show ?thesis using covered_store [OF bits covered_store [OF bits c i(1)]] i(2) by simp
  qed (use c in simp)
qed

lemma covered_exec:
  assumes bits: "\<And>i j m. marked i (setBit j m) = (i = j \<or> marked i m)"
    and c: "covered marked copy u" and r: "update_exec setBit x u = Inr u'"
  shows "covered marked copy u'"
proof -
  have n: "length (uo_values u) < 2 ^ 32" using c by (simp add: covered_def)
  note s = covered_store [OF bits c] and m = covered_mark [OF bits c] and e = covered_same [OF c]
  show ?thesis
  proof (cases x)
    case (Set_U32 i v)
    then show ?thesis using r c s by (auto simp: setU32Value_def cell_Inr [OF n] split: if_splits)
  next
    case (Set_S32 i v)
    then show ?thesis using r c s by (auto simp: setS32Value_def cell_Inr [OF n] split: if_splits)
  next
    case (Set_U16 i v field)
    then show ?thesis using r c m
      by (cases field) (auto simp: setU16Value_def cell_Inr [OF n] Let_def split: if_splits)
  next
    case (Set_U8 i v field)
    then obtain w where i: "unat i < length (uo_values u)"
      and u': "u' = (if uo_values u ! unat i \<noteq> w then uo_mark setBit i (uo_store i w u) else uo_store i w u)"
      using r by (auto simp: setU8Value_def cell_Inr [OF n] Let_def store_nth)
    show ?thesis unfolding u' using s [OF i] e [OF i] by (cases "uo_values u ! unat i = w") auto
  next
    case (Set_U64 i v)
    then show ?thesis using covered_setU64Value [OF bits c] r by simp
  next
    case (Set_Flag i f)
    then show ?thesis using r s by (auto simp: setU32Flag_def cell_Inr [OF n])
  next
    case (Set_Flags i f)
    then show ?thesis using r s by (auto simp: setU32Flags_def cell_Inr [OF n])
  next
    case (Remove_Flags i f)
    then show ?thesis using r s by (auto simp: removeU32Flags_def cell_Inr [OF n])
  next
    case (Remove_Flag i f)
    then show ?thesis using r s by (auto simp: removeU32Flag_def cell_Inr [OF n])
  qed
qed

text \<open>C35: The marked cells are enough to bring a copy up to date: when a copy of the cells differs from the object in marked cells only, then
  after any operations that do not fail, sending the cells marked by then makes the copy equal to the object.
\<close>

theorem marked_cells_suffice:
  assumes "\<And>i j m. marked i (setBit j m) = (i = j \<or> marked i m)"
    and "length (uo_values u) < 2 ^ 32" and "length copy = length (uo_values u)"
    and "\<forall>k < length copy. marked (word_of_nat k) (uo_mask u) \<or> copy ! k = uo_values u ! k"
    and "update_run setBit xs u = Inr u'"
  shows "send_marked marked u' copy = uo_values u'"
proof -
  have "covered marked copy u'" if "covered marked copy u" "update_run setBit xs u = Inr u'" for u
    using that by (induction xs arbitrary: u) (auto dest: covered_exec [OF assms(1)])
  moreover have "covered marked copy u" using assms(2-4) by (simp add: covered_def)
  ultimately have "covered marked copy u'" using assms(5) by blast
  then show ?thesis by (auto simp: covered_def send_marked_def intro!: nth_equalityI)
qed

theorem marked_cells_suffice_witness:
  "\<exists>u'. update_run (#) [Set_U32 0 7, Set_U64 1 0x500000003, Set_Flag 0 3, Set_U8 2 9 FILED_UINT8_3]
      (new_update_object (\<lambda>_. []) 4) = Inr u' \<and> send_marked (\<lambda>i m. i \<in> set m) u' [0, 0, 0, 0] = uo_values u'"
proof -
  let ?xs = "[Set_U32 0 7, Set_U64 1 0x500000003, Set_Flag 0 3, Set_U8 2 9 FILED_UINT8_3]"
  let ?u = "new_update_object (\<lambda>_. []) 4 :: u32 list update_object"
  have u: "?u = \<lparr>uo_values = [0, 0, 0, 0], uo_mask = []\<rparr>"
    by (simp add: new_update_object_def) (simp add: numeral_eq_Suc)
  note defs = uo_cell_def getUVCount_def uo_store_def uo_mark_def Let_def
  have "update_exec (#) (Set_U32 0 7) ?u = Inr \<lparr>uo_values = [7, 0, 0, 0], uo_mask = [0]\<rparr>"
    unfolding u by (simp add: setU32Value_def defs)
  moreover have "update_exec (#) (Set_U64 1 0x500000003) \<lparr>uo_values = [7, 0, 0, 0], uo_mask = [0]\<rparr>
      = Inr \<lparr>uo_values = [7, 3, 5, 0], uo_mask = [2, 1, 0]\<rparr>"
    by (simp add: setU64Value_def getU64Value_def defs)
  moreover have "update_exec (#) (Set_Flag 0 3) \<lparr>uo_values = [7, 3, 5, 0], uo_mask = [2, 1, 0]\<rparr>
      = Inr \<lparr>uo_values = [15, 3, 5, 0], uo_mask = [0, 2, 1, 0]\<rparr>"
    by (simp add: setU32Flag_def addFlag_def flag_bit_def defs)
  moreover have "\<exists>u'. update_exec (#) (Set_U8 2 9 FILED_UINT8_3) \<lparr>uo_values = [15, 3, 5, 0], uo_mask = [0, 2, 1, 0]\<rparr> = Inr u'"
    by (simp add: setU8Value_def defs)
  ultimately obtain u' where "update_run (#) ?xs ?u = Inr u'" by auto
  moreover from this have "send_marked (\<lambda>i m. i \<in> set m) u' [0, 0, 0, 0] = uo_values u'"
    by (intro marked_cells_suffice [where setBit = "(#)" and u = ?u and xs = ?xs]) (auto simp: u nth_Cons split: nat.split)
  ultimately show ?thesis by blast
qed

section \<open>Reading what was written\<close>

lemma u32_reads_back:
  assumes "length (uo_values u) < 2 ^ 32" and "unat i < length (uo_values u)"
  shows "\<exists>u'. setU32Value setBit i v u = Inr u' \<and> getU32Value i u' = Inr v"
  using assms by (auto simp: setU32Value_def getU32Value_def uo_cell_def store_nth)

lemma s32_reads_back:
  assumes "length (uo_values u) < 2 ^ 32" and "unat i < length (uo_values u)"
  shows "\<exists>u'. setS32Value setBit i v u = Inr u' \<and> getS32Value i u' = Inr (sint v)"
  using assms by (auto simp: setS32Value_def getS32Value_def uo_cell_def store_nth)

lemma halves:
  fixes v :: u64
  shows "ucast (ucast (v AND 0xffffffff) :: u32) + push_bit 32 (ucast (ucast (drop_bit 32 v AND 0xffffffff) :: u32)) = v"
proof -
  let ?lo = "ucast (ucast (v AND 0xffffffff) :: u32) :: u64"
  let ?hi = "push_bit 32 (ucast (ucast (drop_bit 32 v AND 0xffffffff) :: u32)) :: u64"
  have mask: "(0xffffffff :: u64) = mask 32" by (simp add: mask_eq_exp_minus_1)
  have "?lo AND ?hi = 0"
    unfolding mask by (rule bit_eqI) (auto simp: bit_simps)
  then have "?lo + ?hi = ?lo OR ?hi" by (rule disjunctive_add_eq_or)
  also have "\<dots> = v"
    unfolding mask by (rule bit_eqI) (auto simp: bit_simps)
  finally show ?thesis .
qed

text \<open>The 64-bit operations keep their promise inside the bounds: a value that is set is read again, and only its two cells change. The
  assertion is about the second cell alone, which lets the index \<open>2\<^sup>3\<^sup>2 - 1\<close> pass and reach far outside.
\<close>

theorem u64_reads_back:
  assumes "length (uo_values u) < 2 ^ 32"
  shows "(Suc (unat i) < length (uo_values u) \<longrightarrow>
      (\<exists>u'. setU64Value setBit i v u = Inr u' \<and> getU64Value i u' = Inr v
        \<and> (\<forall>k. k \<noteq> unat i \<and> k \<noteq> Suc (unat i) \<longrightarrow> uo_values u' ! k = uo_values u ! k)))
    \<and> (uo_values u \<noteq> [] \<longrightarrow> setU64Value setBit (- 1) v u = Inl Out_Of_Range)"
proof (intro conjI impI)
  assume i: "Suc (unat i) < length (uo_values u)"
  then have "unat i < 2 ^ 32 - 1" using assms by simp
  then have Suc: "unat (i + 1) = Suc (unat i)" by (intro unat_Suc_below)
  have get: "getU64Value i w = Inr (ucast (uo_values w ! unat i) + push_bit 32 (ucast (uo_values w ! Suc (unat i))))"
    if "length (uo_values w) = length (uo_values u)" for w :: "'a update_object"
    using i assms that by (simp add: getU64Value_def Suc)
  show "\<exists>u'. setU64Value setBit i v u = Inr u' \<and> getU64Value i u' = Inr v
        \<and> (\<forall>k. k \<noteq> unat i \<and> k \<noteq> Suc (unat i) \<longrightarrow> uo_values u' ! k = uo_values u ! k)"
  proof (cases "getU64Value i u = Inr v")
    case True
    then show ?thesis by (intro exI [of _ u]) (simp add: setU64Value_def)
  next
    case False
    let ?w = "uo_store (i + 1) (ucast (drop_bit 32 v AND 0xffffffff)) (uo_store i (ucast (v AND 0xffffffff)) u)"
    have cell: "uo_values ?w ! k = (if k = Suc (unat i) then ucast (drop_bit 32 v AND 0xffffffff)
        else if k = unat i then ucast (v AND 0xffffffff) else uo_values u ! k)" for k
      using i by (simp add: store_nth Suc)
    have "getU64Value i (uo_mark setBit (i + 1) (uo_mark setBit i ?w)) = Inr v"
      by (subst get) (simp_all add: cell halves)
    with False get [OF refl] show ?thesis
      by (intro exI [of _ "uo_mark setBit (i + 1) (uo_mark setBit i ?w)"]) (auto simp: setU64Value_def cell)
  qed
next
  assume "uo_values u \<noteq> []"
  then have "(0::u32) < getUVCount u" "\<not> (- 1 :: u32) < getUVCount u" using assms by simp_all
  then show "setU64Value setBit (- 1) v u = Inl Out_Of_Range" by (simp add: setU64Value_def getU64Value_def)
qed

text \<open>The narrow operations do not work: no 16-bit value is ever stored, and all bytes but the last are read as 0.\<close>

lemma u16_never_stored: "setU16Value setBit i v field u = Inr u' \<Longrightarrow> uo_values u' = uo_values u"
  by (cases field) (auto simp: setU16Value_def Let_def split: if_splits)

lemma getU8Value_zero:
  assumes "getU8Value i field u = Inr b" and "field \<noteq> FILED_UINT8_3" shows "b = 0"
proof -
  have "drop_bit 24 (n AND 0xF000) = 0" "drop_bit 16 (n AND 0x0F00) = 0" "drop_bit 8 (n AND 0x00F0) = 0" for n :: u32
    by (rule bit_eqI, auto simp: bit_simps bit_numeral_rec)+
  then show ?thesis using assms by (cases field) (auto simp: getU8Value_def)
qed

end
