(* ===== verification/Number_Text.thy ===== *)
theory Number_Text
  imports Prelude
begin

text \<open>
  Numbers as text (\<^verbatim>\<open>common/utilities.cpp\<close>, the part for systems other than Windows): \<open>itoa\<close> writes the digits backwards and reverses
  them in place with \<open>strreverse\<close>.
\<close>

section \<open>The code\<close>

text \<open>The pointers are positions in the buffer.\<close>

function strreverse :: "nat \<Rightarrow> nat \<Rightarrow> string \<Rightarrow> string" where
  "strreverse first last_pos buf =
     (if last_pos > first
      then strreverse (first + 1) (last_pos - 1) (buf[last_pos := buf ! first, first := buf ! last_pos])
      else buf)"
  by auto
termination by (relation "measure (\<lambda>(first, last_pos, _). last_pos - first)") auto

declare strreverse.simps [simp del]

definition num :: string where
  "num = ''0123456789abcdefghijklmnopqrstuvwxyz''"

text \<open>The loop that writes the digits, for a value that is not negative.\<close>

function itoa_digits :: "nat \<Rightarrow> nat \<Rightarrow> string" where
  "itoa_digits base v =
     num ! (v mod base) # (if v div base = 0 \<or> base < 2 then [] else itoa_digits base (v div base))"
  by auto
termination by (relation "measure snd") (auto intro!: div_less_dividend dest: gr0_conv_Suc [THEN iffD1] simp: div_greater_zero_iff)

declare itoa_digits.simps [simp del]

text \<open>Changing the sign of the least number overflows.\<close>

definition itoa :: "int \<Rightarrow> int \<Rightarrow> string result" where
  "itoa n base =
     (if base < 2 \<or> base > 35 then Inr []
      else if n = - (2 ^ 31) then Inl Out_Of_Range
      else let v = (if n < 0 then - n else n);
               str = itoa_digits (nat base) (nat v) @ (if n < 0 then ''-'' else [])
           in Inr (strreverse 0 (length str - 1) str))"

section \<open>Reading a number\<close>

text \<open>The value of a text, by the usual rule.\<close>

definition digit_value :: "char \<Rightarrow> nat" where
  "digit_value c = length (takeWhile (\<lambda>d. d \<noteq> c) num)"

definition digits_value :: "nat \<Rightarrow> string \<Rightarrow> nat" where
  "digits_value base s = foldl (\<lambda>v c. v * base + digit_value c) 0 s"

definition text_value :: "nat \<Rightarrow> string \<Rightarrow> int" where
  "text_value base s =
     (case s of c # cs \<Rightarrow> if c = CHR ''-'' then - int (digits_value base cs) else int (digits_value base s) | [] \<Rightarrow> 0)"

section \<open>Lemmas\<close>

lemma swap_ends:
  "(pre @ (x # m @ [y]) @ post)[length pre + Suc (length m) := x, length pre := y] = (pre @ [y]) @ m @ (x # post)"
  by (simp add: list_update_append)

lemma strreverse_rev:
  "mid \<noteq> [] \<Longrightarrow> strreverse (length pre) (length pre + length mid - 1) (pre @ mid @ post) = pre @ rev mid @ post"
proof (induction "length mid" arbitrary: pre mid post rule: less_induct)
  case less
  show ?case
  proof (cases mid rule: rev_cases)
    case (snoc ys y)
    show ?thesis
    proof (cases ys)
      case Nil
      then show ?thesis using snoc by (simp add: strreverse.simps)
    next
      case (Cons x m)
      let ?buf = "pre @ (x # m @ [y]) @ post"
      have mid: "mid = x # m @ [y]" using snoc Cons by simp
      have ends: "?buf ! length pre = x" "?buf ! (length pre + Suc (length m)) = y"
        by (simp_all add: nth_append)
      have "strreverse (length pre) (length pre + length mid - 1) (pre @ mid @ post)
          = strreverse (length (pre @ [y])) (length pre + length m) ((pre @ [y]) @ m @ (x # post))"
        unfolding mid by (subst strreverse.simps) (use ends swap_ends [of pre x m y post] in simp)
      also have "\<dots> = pre @ rev mid @ post"
      proof (cases "m = []")
        case True
        then show ?thesis using mid by (simp add: strreverse.simps)
      next
        case False
        have "length (pre @ [y]) + length m - 1 = length pre + length m" by simp
        with less.hyps [of m "pre @ [y]" "x # post"] False mid show ?thesis by simp
      qed
      finally show ?thesis .
    qed
  qed (use less.prems in simp)
qed

lemma strreverse_all: "s \<noteq> [] \<Longrightarrow> strreverse 0 (length s - 1) s = rev s"
  using strreverse_rev [of s "[]" "[]"] by simp

lemma digit_value_num:
  assumes "d < 36" shows "digit_value (num ! d) = d" and "num ! d \<noteq> CHR ''-''"
proof -
  have "\<forall>d \<in> {..<36}. digit_value (num ! d) = d \<and> num ! d \<noteq> CHR ''-''" by code_simp
  then show "digit_value (num ! d) = d" "num ! d \<noteq> CHR ''-''" using assms by simp_all
qed

lemma digits_value_snoc: "digits_value base (s @ [c]) = digits_value base s * base + digit_value c"
  by (simp add: digits_value_def)

lemma itoa_digits_value:
  assumes "2 \<le> base" and "base \<le> 36"
  shows "digits_value base (rev (itoa_digits base v)) = v"
proof (induction v rule: less_induct)
  case (less v)
  have d: "v mod base < 36" using assms by (meson less_le_trans mod_less_divisor zero_less_numeral order_less_le_trans)
  show ?case
  proof (cases "v div base = 0")
    case True
    then show ?thesis using digit_value_num(1) [OF d] by (subst itoa_digits.simps) (use True assms(1) in \<open>simp add: digits_value_def div_eq_0_iff\<close>)
  next
    case False
    then have "v div base < v" using assms(1) by (intro div_less_dividend) (auto intro: Nat.gr0I)
    then have "digits_value base (rev (itoa_digits base (v div base))) = v div base" by (rule less)
    then show ?thesis using False assms(1) digit_value_num(1) [OF d]
      by (subst itoa_digits.simps) (simp add: digits_value_snoc)
  qed
qed

lemma itoa_digits_chars:
  assumes "2 \<le> base" and "base \<le> 36"
  shows "itoa_digits base v \<noteq> []" and "CHR ''-'' \<notin> set (itoa_digits base v)"
proof -
  show "CHR ''-'' \<notin> set (itoa_digits base v)"
  proof (induction v rule: less_induct)
    case (less v)
    have d: "v mod base < 36" using assms by (meson less_le_trans mod_less_divisor zero_less_numeral order_less_le_trans)
    show ?case
    proof (cases "v div base = 0")
      case True
      then show ?thesis using digit_value_num(2) [OF d] by (subst itoa_digits.simps) auto
    next
      case False
      then have "v div base < v" using assms(1) by (intro div_less_dividend) (auto intro: Nat.gr0I)
      from less [OF this] show ?thesis using digit_value_num(2) [OF d] by (subst itoa_digits.simps) auto
    qed
  qed
qed (subst itoa_digits.simps, simp)

lemma itoa_digits_length:
  assumes "2 \<le> base" shows "0 < n \<Longrightarrow> v < 2 ^ n \<Longrightarrow> length (itoa_digits base v) \<le> n"
proof (induction n arbitrary: v)
  case (Suc n)
  have "v div base \<le> v div 2" using assms by (intro div_le_mono2) auto
  then have half: "v div base < 2 ^ n" using Suc.prems(2) by simp
  show ?case
  proof (cases "v div base = 0")
    case True
    then show ?thesis by (subst itoa_digits.simps) simp
  next
    case False
    then have "0 < n" using half by (cases n) auto
    from Suc.IH [OF this half] show ?thesis by (subst itoa_digits.simps) simp
  qed
qed simp

text \<open>Every 32-bit number but the least one is written, in every base from 2 to 35, as a text of at most 32 characters that has its value by
  the usual rule; for the least one the change of sign overflows, and any other base gives the empty text.
\<close>

theorem itoa_reads_back:
  "(- (2 ^ 31) < n \<and> n < 2 ^ 31 \<and> 2 \<le> base \<and> base \<le> 35 \<longrightarrow>
     (\<exists>s. itoa n base = Inr s \<and> text_value (nat base) s = n \<and> length s \<le> 32))
   \<and> (2 \<le> base \<and> base \<le> 35 \<longrightarrow> itoa (- (2 ^ 31)) base = Inl Out_Of_Range)
   \<and> (base < 2 \<or> 35 < base \<longrightarrow> itoa n base = Inr [])"
proof (intro conjI impI)
  assume a: "- (2 ^ 31) < n \<and> n < 2 ^ 31 \<and> 2 \<le> base \<and> base \<le> 35"
  let ?v = "nat (if n < 0 then - n else n)"
  let ?ds = "itoa_digits (nat base) ?v"
  have b: "2 \<le> nat base" "nat base \<le> 36" using a by linarith+
  note ds = itoa_digits_chars [OF b, of ?v]
  have s: "itoa n base = Inr ((if n < 0 then ''-'' else []) @ rev ?ds)"
  proof -
    have "strreverse 0 (length (?ds @ t) - 1) (?ds @ t) = rev (?ds @ t)" for t
      by (rule strreverse_all) (simp add: ds(1))
    from this [of "''-''"] this [of "[]"] a show ?thesis
      by (cases "n < 0") (simp_all add: itoa_def Let_def)
  qed
  have val: "digits_value (nat base) (rev ?ds) = ?v" by (rule itoa_digits_value [OF b])
  have "text_value (nat base) ((if n < 0 then ''-'' else []) @ rev ?ds) = n"
  proof (cases "n < 0")
    case True
    with val show ?thesis by (simp add: text_value_def)
  next
    case False
    obtain c cs where c: "rev ?ds = c # cs" using ds(1) by (cases "rev ?ds") auto
    then have "c \<in> set ?ds" by (metis list.set_intros(1) set_rev)
    then have "c \<noteq> CHR ''-''" using ds(2) by metis
    with False val c show ?thesis by (simp add: text_value_def)
  qed
  moreover have "?v < 2 ^ 31" using a by auto
  then have "length ?ds \<le> 31" by (rule itoa_digits_length [OF b(1), rotated]) simp
  ultimately show "\<exists>s. itoa n base = Inr s \<and> text_value (nat base) s = n \<and> length s \<le> 32" using s by auto
qed (auto simp: itoa_def)

section \<open>The tick counter\<close>

text \<open>Milliseconds since 1970, cut to 32 bits, and what \<open>function_spend_time_monitor\<close> prints at its end: \<open>m_end - m_begin\<close>.\<close>

definition get_tick_count :: "int \<Rightarrow> int \<Rightarrow> u32" where
  "get_tick_count tv_sec tv_usec = word_of_int (tv_sec * 1000 + tv_usec div 1000)"

definition spend_time :: "u32 \<Rightarrow> u32 \<Rightarrow> u32" where
  "spend_time m_begin m_end = m_end - m_begin"

text \<open>The counter starts again every 49 days, which does not harm the difference.\<close>

lemma spend_time_exact:
  assumes "t0 = s0 * 1000 + u0 div 1000" and "t1 = s1 * 1000 + u1 div 1000" and "t0 \<le> t1" and "t1 - t0 < 2 ^ 32"
  shows "uint (spend_time (get_tick_count s0 u0) (get_tick_count s1 u1)) = t1 - t0"
proof -
  have "spend_time (get_tick_count s0 u0) (get_tick_count s1 u1) = word_of_int (t1 - t0)"
    using assms(1,2) by (simp add: spend_time_def get_tick_count_def)
  then show ?thesis using assms(3,4) by (simp only: unsigned_of_int take_bit_eq_mod) simp
qed

end
