(* ===== verification/Start_Up.thy ===== *)
theory Start_Up
  imports Server_Frame
begin

text \<open>
  How the four programs start: the JSON files (\<^verbatim>\<open>common/json_help.cpp\<close>), the configuration loaders of
  \<^verbatim>\<open>common/server_frame.cpp\<close>, what each \<^verbatim>\<open>server.cpp\<close> reads from the central database and opens, and the \<^verbatim>\<open>main.cpp\<close> of
  each program. The JSON library, the name service, the sockets and the database are parameters.
\<close>

section \<open>JSON files\<close>

text \<open>What the code uses of the JSON library. Reading a number that does not fit throws: None. A text that is no JSON is None, too.\<close>

datatype json_scalar = JInt int | JUInt nat | JString string

record 'v json_lib =
  jl_member :: "'v \<Rightarrow> string \<Rightarrow> 'v"
  jl_isIntegral :: "'v \<Rightarrow> bool"
  jl_asInt :: "'v \<Rightarrow> int option"
  jl_asUInt :: "'v \<Rightarrow> u32 option"
  jl_isString :: "'v \<Rightarrow> bool"
  jl_asString :: "'v \<Rightarrow> string"
  jl_set :: "string \<Rightarrow> json_scalar \<Rightarrow> 'v \<Rightarrow> 'v"
  jl_parse :: "string \<Rightarrow> 'v option"
  jl_write :: "'v \<Rightarrow> string"

text \<open>The parser is given a C string, which ends at the first zero.\<close>

definition loadJson :: "'v json_lib \<Rightarrow> string option \<Rightarrow> 'v option" where
  "loadJson J content =
     (case content of None \<Rightarrow> None | Some text \<Rightarrow> jl_parse J (takeWhile (\<lambda>c. c \<noteq> CHR 0x00) text))"

text \<open>The content of the file afterwards; \<open>opens\<close> says whether it can be opened for writing.\<close>

definition saveJson :: "'v json_lib \<Rightarrow> bool \<Rightarrow> 'v \<Rightarrow> string option \<Rightarrow> bool \<times> string option" where
  "saveJson J opens root content = (if opens then (True, Some (jl_write J root)) else (False, content))"

definition json_number :: "'a option \<Rightarrow> 'a result" where
  "json_number x = (case x of None \<Rightarrow> Inl (Runtime_Error ''json'') | Some n \<Rightarrow> Inr n)"

definition getInt_Value :: "'v json_lib \<Rightarrow> string \<Rightarrow> 'v \<Rightarrow> int result" where
  "getInt_Value J key root =
     (let v = jl_member J root key in if jl_isIntegral J v then json_number (jl_asInt J v) else Inr 0)"

definition getUInt_Value :: "'v json_lib \<Rightarrow> string \<Rightarrow> 'v \<Rightarrow> u32 result" where
  "getUInt_Value J key root =
     (let v = jl_member J root key in if jl_isIntegral J v then json_number (jl_asUInt J v) else Inr 0)"

definition getString_Value :: "'v json_lib \<Rightarrow> string \<Rightarrow> 'v \<Rightarrow> string" where
  "getString_Value J key root = (let v = jl_member J root key in if jl_isString J v then jl_asString J v else [])"

text \<open>All of the array: the text up to its first zero, cut, and zeros. A length of 0 makes \<^verbatim>\<open>strncpy\<close> write without an end.\<close>

definition getCString_Value :: "'v json_lib \<Rightarrow> string \<Rightarrow> nat \<Rightarrow> 'v \<Rightarrow> string result" where
  "getCString_Value J key n root =
     (let v = jl_member J root key
      in if \<not> jl_isString J v then Inr (replicate n (CHR 0x00))
         else if n = 0 then Inl Out_Of_Range
         else let s = take (n - 1) (takeWhile (\<lambda>c. c \<noteq> CHR 0x00) (jl_asString J v))
              in Inr (s @ replicate (n - length s) (CHR 0x00)))"

definition setInt_Value :: "'v json_lib \<Rightarrow> string \<Rightarrow> int \<Rightarrow> 'v \<Rightarrow> 'v" where
  "setInt_Value J key n root = jl_set J key (JInt n) root"

definition setUInt_Value :: "'v json_lib \<Rightarrow> string \<Rightarrow> u32 \<Rightarrow> 'v \<Rightarrow> 'v" where
  "setUInt_Value J key n root = jl_set J key (JUInt (unat n)) root"

definition setString_Value :: "'v json_lib \<Rightarrow> string \<Rightarrow> string \<Rightarrow> 'v \<Rightarrow> 'v" where
  "setString_Value J key s root = jl_set J key (JString s) root"

definition setCString_Value :: "'v json_lib \<Rightarrow> string \<Rightarrow> string \<Rightarrow> 'v \<Rightarrow> 'v" where
  "setCString_Value J key s root = jl_set J key (JString (takeWhile (\<lambda>c. c \<noteq> CHR 0x00) s)) root"

section \<open>Configuration\<close>

record service_config =
  sc_id :: u8
  sc_limit_player :: u32
  sc_thread_count :: u16
  sc_proc_interval :: u16
  sc_speed :: bool
  sc_msg_pool_size :: u32

definition new_service_config :: service_config where
  "new_service_config =
     \<lparr>sc_id = 0, sc_limit_player = 0, sc_thread_count = 0, sc_proc_interval = 0, sc_speed = True, sc_msg_pool_size = 0\<rparr>"

record DataBaseConfig =
  dc_id :: u8
  dc_db :: string
  dc_adrs :: string
  dc_user :: string
  dc_pwd :: string
  dc_port :: u32
  dc_thread :: u32

definition new_DataBaseConfig :: DataBaseConfig where
  "new_DataBaseConfig =
     \<lparr>dc_id = 0, dc_db = ''db'', dc_adrs = ''127.0.0.1'', dc_user = [], dc_pwd = [], dc_port = 0, dc_thread = 0\<rparr>"

definition new_net_info :: net_info where
  "new_net_info = \<lparr>ni_id = 0, ni_ip = ''10.1.1.115'', ni_port = 10104, ni_time_out = 0, ni_max_connect = 2000, ni_thread_count = 0\<rparr>"

definition loadServiceConfig :: "'v json_lib \<Rightarrow> string option \<Rightarrow> service_config \<Rightarrow> (bool \<times> service_config) result" where
  "loadServiceConfig J content conf =
     (case loadJson J content of
        None \<Rightarrow> Inr (False, conf)
      | Some root \<Rightarrow>
          bind_result (getUInt_Value J ''serviceid'' root) (\<lambda>ident.
          bind_result (getUInt_Value J ''limit'' root) (\<lambda>limit.
          bind_result (getUInt_Value J ''thread_count'' root) (\<lambda>threads.
          bind_result (getUInt_Value J ''proc_interval'' root) (\<lambda>interval.
          bind_result (getUInt_Value J ''max_speed'' root) (\<lambda>speed.
          bind_result (getUInt_Value J ''msg_pool_size'' root) (\<lambda>pool.
            Inr (True, conf\<lparr>sc_id := ucast ident, sc_limit_player := limit, sc_thread_count := ucast threads,
                            sc_proc_interval := ucast interval, sc_speed := speed \<noteq> 0, sc_msg_pool_size := pool\<rparr>))))))))"

text \<open>The defaults are assigned first and the values read afterwards, whether the file has them or not.\<close>

definition loadNetConfig :: "'v json_lib \<Rightarrow> (string \<Rightarrow> string option) \<Rightarrow> string option \<Rightarrow> net_info \<Rightarrow> (bool \<times> net_info) result" where
  "loadNetConfig J resolve content conf =
     (let conf = conf\<lparr>ni_ip := ''127.0.0.1'', ni_port := 22000, ni_time_out := 3000, ni_max_connect := 2000, ni_thread_count := 1\<rparr>
      in case loadJson J content of
        None \<Rightarrow> Inr (False, conf)
      | Some root \<Rightarrow>
          let ip = getString_Value J ''ip'' root
          in bind_result (getUInt_Value J ''port'' root) (\<lambda>port.
             bind_result (getUInt_Value J ''time_out'' root) (\<lambda>time_out.
             bind_result (getUInt_Value J ''max_connect'' root) (\<lambda>max_connect.
             bind_result (getUInt_Value J ''thread_count'' root) (\<lambda>threads.
               Inr (True, conf\<lparr>ni_ip := snd (getIpByname resolve ip ip), ni_port := ucast port, ni_time_out := time_out,
                               ni_max_connect := max_connect, ni_thread_count := ucast threads\<rparr>))))))"

definition loadDBConfig ::
  "'v json_lib \<Rightarrow> (string \<Rightarrow> string option) \<Rightarrow> string option \<Rightarrow> DataBaseConfig \<Rightarrow> (bool \<times> DataBaseConfig) result" where
  "loadDBConfig J resolve content conf =
     (case loadJson J content of
        None \<Rightarrow> Inr (False, conf)
      | Some root \<Rightarrow>
          let adrs = getString_Value J ''ip'' root
          in bind_result (getUInt_Value J ''port'' root) (\<lambda>port.
             bind_result (getUInt_Value J ''thread_count'' root) (\<lambda>threads.
               let (ok, ip) = getIpByname resolve adrs adrs
               in Inr (ok, conf\<lparr>dc_db := getString_Value J ''db'' root, dc_adrs := ip, dc_user := getString_Value J ''user'' root,
                                dc_pwd := getString_Value J ''password'' root, dc_port := port, dc_thread := threads\<rparr>))))"

definition getDatabaseConfig :: "DataBaseConfig list \<Rightarrow> DataBaseConfig \<Rightarrow> bool \<times> DataBaseConfig" where
  "getDatabaseConfig rows conf = (case rows of [] \<Rightarrow> (False, conf) | row # _ \<Rightarrow> (True, row))"

section \<open>What the servers open\<close>

text \<open>The categories of the rows of \<^verbatim>\<open>net_config\<close> and \<^verbatim>\<open>database_config\<close>.\<close>

datatype net_category = LOGIN_LISTEN_USER | LOGIN_LISTEN_GATE | GATE_LISTEN_USER | GAME_LISTEN_GATE | DB_LISNEN_GAME
datatype database_category = FU_CHARACTER_DATABASE | FU_WORLD_DATABASE

record center_database =
  cd_net :: "(net_category \<times> net_info) list"
  cd_database :: "(database_category \<times> DataBaseConfig) list"

definition net_rows :: "net_category \<Rightarrow> center_database \<Rightarrow> net_info list" where
  "net_rows cat c = map snd (filter (\<lambda>r. fst r = cat) (cd_net c))"

definition net_rows_of :: "net_category \<Rightarrow> u8 \<Rightarrow> center_database \<Rightarrow> net_info list" where
  "net_rows_of cat s c = filter (\<lambda>r. ni_id r = s) (net_rows cat c)"

definition database_rows :: "database_category \<Rightarrow> center_database \<Rightarrow> DataBaseConfig list" where
  "database_rows cat c = map snd (filter (\<lambda>r. fst r = cat) (cd_database c))"

text \<open>
  The world around a starting server: the name service, which ports can be listened on, and which databases can be reached and give no
  error. Starting the threads of a database never fails, and what \<open>connect\<close> returns is looked at nowhere.
\<close>

record start_env =
  se_resolve :: "string \<Rightarrow> string option"
  se_listens :: "u16 \<Rightarrow> bool"
  se_reaches :: "DataBaseConfig \<Rightarrow> bool"

datatype peer = Login_Peer | Game_Peer | Db_Peer
datatype server_database = Center_Database | World_Database | Character_Database

datatype start_step =
    Listen net_category u16 u32 u16
  | Connect peer string u16
  | Read_From server_database
  | Start_Threads server_database u32

type_synonym start_result = "bool \<times> start_step list"

definition listen_step :: "net_category \<Rightarrow> net_info \<Rightarrow> start_step" where
  "listen_step cat n = Listen cat (ni_port n) (ni_max_connect n) (ni_thread_count n)"

text \<open>One step after the other, until one fails.\<close>

definition and_then :: "start_result \<Rightarrow> start_result \<Rightarrow> start_result" where
  "and_then r s = (if fst r then (fst s, snd r @ snd s) else r)"

definition listen_on :: "start_env \<Rightarrow> net_category \<Rightarrow> net_info list \<Rightarrow> start_result" where
  "listen_on env cat rows =
     (let (ok, n) = getNetConfig (se_resolve env) rows new_net_info
      in if \<not> ok then (False, []) else if \<not> se_listens env (ni_port n) then (False, []) else (True, [listen_step cat n]))"

definition connect_to :: "start_env \<Rightarrow> peer \<Rightarrow> net_info list \<Rightarrow> start_result" where
  "connect_to env p rows =
     (let (ok, n) = getNetConfig (se_resolve env) rows new_net_info
      in if ok then (True, [Connect p (ni_ip n) (ni_port n)]) else (False, []))"

text \<open>
  A task that is done at once: it fails when the database cannot be reached. Exceptions of the task are caught and make it fail, too; they
  count as not reached, as what the task had done before is not looked at.
\<close>

definition addBlockTask :: "start_env \<Rightarrow> DataBaseConfig \<Rightarrow> start_result \<Rightarrow> start_result" where
  "addBlockTask env conf task = (if se_reaches env conf then task else (False, []))"

text \<open>A database: its row, a first connection to read from it, and the threads that serve it.\<close>

definition open_database :: "start_env \<Rightarrow> bool \<Rightarrow> server_database \<Rightarrow> DataBaseConfig list \<Rightarrow> start_result" where
  "open_database env threads_first d rows =
     (let (ok, conf) = getDatabaseConfig rows new_DataBaseConfig;
          reading = addBlockTask env conf (True, [Read_From d]);
          starting = (True, [Start_Threads d (dc_thread conf)])
      in if \<not> ok then (False, []) else if threads_first then and_then starting reading else and_then reading starting)"

definition login_initDataFromDatabase :: "start_env \<Rightarrow> center_database \<Rightarrow> start_result" where
  "login_initDataFromDatabase env c =
     and_then (listen_on env LOGIN_LISTEN_USER (net_rows LOGIN_LISTEN_USER c))
              (listen_on env LOGIN_LISTEN_GATE (net_rows LOGIN_LISTEN_GATE c))"

text \<open>The gate connects to the address of each game server as it stands in the row.\<close>

definition gate_initDataFromDatabase :: "start_env \<Rightarrow> u8 \<Rightarrow> center_database \<Rightarrow> start_result" where
  "gate_initDataFromDatabase env s c =
     and_then (connect_to env Login_Peer (net_rows LOGIN_LISTEN_GATE c))
     (and_then (listen_on env GATE_LISTEN_USER (net_rows_of GATE_LISTEN_USER s c))
        (True, map (\<lambda>n. Connect Game_Peer (ni_ip n) (ni_port n)) (net_rows GAME_LISTEN_GATE c)))"

definition game_initDataFromDatabase :: "start_env \<Rightarrow> u8 \<Rightarrow> center_database \<Rightarrow> start_result" where
  "game_initDataFromDatabase env s c =
     and_then (listen_on env GAME_LISTEN_GATE (net_rows_of GAME_LISTEN_GATE s c))
     (and_then (connect_to env Db_Peer (net_rows DB_LISNEN_GAME c))
     (and_then (open_database env True World_Database (database_rows FU_WORLD_DATABASE c))
               (open_database env False Character_Database (database_rows FU_CHARACTER_DATABASE c))))"

definition db_initDataFromDatabase :: "start_env \<Rightarrow> center_database \<Rightarrow> start_result" where
  "db_initDataFromDatabase env c =
     and_then (listen_on env DB_LISNEN_GAME (net_rows DB_LISNEN_GAME c))
     (and_then (open_database env False Character_Database (database_rows FU_CHARACTER_DATABASE c))
               (open_database env False World_Database (database_rows FU_WORLD_DATABASE c)))"

text \<open>
  \<open>init\<close> of a server: the file of the central database, what is read from it, and the threads for it, which the login and the
  game server start.
\<close>

definition server_init ::
  "'v json_lib \<Rightarrow> start_env \<Rightarrow> bool \<Rightarrow> (center_database \<Rightarrow> start_result) \<Rightarrow> string option \<Rightarrow> center_database \<Rightarrow> start_result result" where
  "server_init J env keeps init_data content c =
     bind_result (loadDBConfig J (se_resolve env) content new_DataBaseConfig) (\<lambda>(ok, conf).
       Inr (if \<not> ok then (False, [])
            else and_then (addBlockTask env conf (init_data c))
                   (True, if keeps then [Start_Threads Center_Database (dc_thread conf)] else [])))"

definition login_init :: "'v json_lib \<Rightarrow> start_env \<Rightarrow> string option \<Rightarrow> center_database \<Rightarrow> start_result result" where
  "login_init J env = server_init J env True (login_initDataFromDatabase env)"

definition gate_init :: "'v json_lib \<Rightarrow> start_env \<Rightarrow> u8 \<Rightarrow> string option \<Rightarrow> center_database \<Rightarrow> start_result result" where
  "gate_init J env s = server_init J env False (gate_initDataFromDatabase env s)"

definition game_init :: "'v json_lib \<Rightarrow> start_env \<Rightarrow> u8 \<Rightarrow> string option \<Rightarrow> center_database \<Rightarrow> start_result result" where
  "game_init J env s = server_init J env True (game_initDataFromDatabase env s)"

definition db_init :: "'v json_lib \<Rightarrow> start_env \<Rightarrow> string option \<Rightarrow> center_database \<Rightarrow> start_result result" where
  "db_init J env = server_init J env False (db_initDataFromDatabase env)"

section \<open>The programs\<close>

datatype program_step = Net_Start u16 u16 | Open start_step | Run | Shut_Down | Net_Stop

text \<open>
  \<open>main\<close>: the service file, the network threads, \<open>init\<close> of the server, and after its loop the way back. When \<open>init\<close> fails the
  program ends at once with what has been opened; the exit code is 1 in any case. Of the service file only the number of threads and the
  interval reach \<open>init_net_service\<close>; it is given two more values, which it does not look at.
\<close>

definition program ::
  "(bool \<times> service_config) result \<Rightarrow> (service_config \<Rightarrow> start_result result) \<Rightarrow> (nat \<times> program_step list) result" where
  "program service init =
     bind_result service (\<lambda>(ok, conf).
       if \<not> ok then Inr (1, [])
       else bind_result (init conf) (\<lambda>(ok, steps).
         Inr (1, Net_Start (sc_thread_count conf) (sc_proc_interval conf) # map Open steps
                 @ (if ok then [Run, Shut_Down, Net_Stop] else []))))"

definition login_main where
  "login_main J env service center c =
     program (loadServiceConfig J service new_service_config) (\<lambda>_. login_init J env center c)"

definition gate_main where
  "gate_main J env service center c =
     program (loadServiceConfig J service new_service_config) (\<lambda>conf. gate_init J env (sc_id conf) center c)"

definition game_main where
  "game_main J env service center c =
     program (loadServiceConfig J service new_service_config) (\<lambda>conf. game_init J env (sc_id conf) center c)"

definition db_main where
  "db_main J env service center c =
     program (loadServiceConfig J service new_service_config) (\<lambda>_. db_init J env center c)"

section \<open>JSON files\<close>

lemma json_file_roundtrip:
  assumes "jl_parse J (jl_write J root) = Some root" and "CHR 0x00 \<notin> set (jl_write J root)"
  shows "saveJson J True root old = (True, Some (jl_write J root))" and "loadJson J (Some (jl_write J root)) = Some root"
proof -
  have "takeWhile (\<lambda>c. c \<noteq> CHR 0x00) (jl_write J root) = jl_write J root"
    using assms(2) by (auto simp: takeWhile_eq_all_conv)
  then show "loadJson J (Some (jl_write J root)) = Some root" unfolding loadJson_def option.case by (rule ssubst) (rule assms(1))
qed (simp add: saveJson_def)

text \<open>The array is filled exactly, and its last byte is 0.\<close>

lemma getCString_Value_terminated:
  assumes "getCString_Value J key n root = Inr s" shows "length s = n" and "0 < n \<Longrightarrow> last s = CHR 0x00"
proof -
  have cut: "length (take (n - 1) xs) \<le> n - 1" for xs :: string by simp
  show "length s = n" using assms by (auto simp: getCString_Value_def Let_def split: if_splits)
  show "last s = CHR 0x00" if "0 < n"
    using assms that cut by (auto simp: getCString_Value_def Let_def last_append last_replicate split: if_splits)
qed

text \<open>The defaults of \<open>loadNetConfig\<close> never survive a file: what the file does not have becomes 0.\<close>

lemma net_config_defaults_lost:
  assumes "loadJson J content = Some root" and "\<not> jl_isIntegral J (jl_member J root ''port'')"
    and "loadNetConfig J resolve content conf = Inr (ok, conf')"
  shows "ok \<and> ni_port conf' = 0"
  using assms by (auto simp: loadNetConfig_def getUInt_Value_def Let_def)

section \<open>Starting\<close>

lemma and_then_True [simp]:
  "and_then r s = (True, xs) \<longleftrightarrow> (\<exists>ys zs. r = (True, ys) \<and> s = (True, zs) \<and> xs = ys @ zs)"
  by (cases r; cases s) (auto simp: and_then_def)

lemma getNetConfig_fields:
  "getNetConfig resolve rows conf = (True, n) \<Longrightarrow>
   rows \<noteq> [] \<and> ni_port n = ni_port (hd rows) \<and> ni_max_connect n = ni_max_connect (hd rows)
   \<and> ni_thread_count n = ni_thread_count (hd rows) \<and> resolve (ni_ip (hd rows)) = Some (ni_ip n)"
  by (auto simp: getNetConfig_def getIpByname_def split: list.splits option.splits)

lemma listen_on_True:
  assumes "listen_on env cat rows = (True, xs)"
  shows "rows \<noteq> [] \<and> xs = [listen_step cat (hd rows)]"
  using assms by (auto simp: listen_on_def listen_step_def split: prod.splits if_splits dest: getNetConfig_fields)

lemma connect_to_True:
  assumes "connect_to env p rows = (True, xs)"
  shows "rows \<noteq> [] \<and> (\<exists>ip. se_resolve env (ni_ip (hd rows)) = Some ip \<and> xs = [Connect p ip (ni_port (hd rows))])"
  using assms by (auto simp: connect_to_def split: prod.splits if_splits dest: getNetConfig_fields)

lemma server_init_True:
  assumes "server_init J env keeps init_data content c = Inr (True, xs)"
  shows "\<exists>ys. init_data c = (True, ys) \<and> set ys \<subseteq> set xs \<and> (\<not> keeps \<longrightarrow> xs = ys)"
  using assms by (auto simp: server_init_def addBlockTask_def split: if_splits prod.splits)

lemma open_database_no_net:
  assumes "open_database env first d rows = (True, xs)"
  shows "Listen cat p m t \<notin> set xs" and "Connect q ip p \<notin> set xs"
  using assms by (auto simp: open_database_def and_then_def addBlockTask_def Let_def split: if_splits prod.splits)

lemma net_rows_of_distinct:
  assumes "distinct (map ni_id (net_rows cat c))" and "n \<in> set (net_rows cat c)"
  shows "net_rows_of cat (ni_id n) c = [n]"
proof -
  have "filter (\<lambda>r. ni_id r = ni_id n) rows = [n]" if "distinct (map ni_id rows)" "n \<in> set rows" for rows
    using that
  proof (induction rows)
    case (Cons r rows)
    show ?case
    proof (cases "n = r")
      case True
      then have "filter (\<lambda>r. ni_id r = ni_id n) rows = []"
        using Cons.prems(1) by (auto simp: filter_empty_conv image_iff)
      with True show ?thesis by simp
    next
      case False
      with Cons show ?thesis by (auto simp: image_iff)
    qed
  qed simp
  with assms show ?thesis by (simp add: net_rows_of_def)
qed

lemma login_init_True:
  assumes "login_init J env content c = Inr (True, xs)"
  shows "net_rows LOGIN_LISTEN_GATE c \<noteq> []" and "listen_step LOGIN_LISTEN_GATE (hd (net_rows LOGIN_LISTEN_GATE c)) \<in> set xs"
proof -
  obtain ys where "login_initDataFromDatabase env c = (True, ys)" "set ys \<subseteq> set xs"
    using server_init_True [OF assms [unfolded login_init_def]] by blast
  then show "net_rows LOGIN_LISTEN_GATE c \<noteq> []" "listen_step LOGIN_LISTEN_GATE (hd (net_rows LOGIN_LISTEN_GATE c)) \<in> set xs"
    by (auto simp: login_initDataFromDatabase_def dest!: listen_on_True)
qed

lemma db_init_True:
  assumes "db_init J env content c = Inr (True, xs)"
  shows "listen_step DB_LISNEN_GAME (hd (net_rows DB_LISNEN_GAME c)) \<in> set xs"
proof -
  obtain ys where "db_initDataFromDatabase env c = (True, ys)" "set ys \<subseteq> set xs"
    using server_init_True [OF assms [unfolded db_init_def]] by blast
  then show ?thesis by (auto simp: db_initDataFromDatabase_def dest!: listen_on_True)
qed

lemma gate_init_True:
  assumes "gate_init J env s content c = Inr (True, xs)"
  shows "\<exists>ip n. xs = Connect Login_Peer ip (ni_port (hd (net_rows LOGIN_LISTEN_GATE c))) # listen_step GATE_LISTEN_USER n
                  # map (\<lambda>n. Connect Game_Peer (ni_ip n) (ni_port n)) (net_rows GAME_LISTEN_GATE c)"
proof -
  obtain ys where "gate_initDataFromDatabase env s c = (True, ys)" "xs = ys"
    using server_init_True [OF assms [unfolded gate_init_def]] by blast
  then show ?thesis by (auto simp: gate_initDataFromDatabase_def dest!: listen_on_True connect_to_True)
qed

lemma game_init_True:
  assumes "game_init J env s content c = Inr (True, xs)"
  shows "listen_step GAME_LISTEN_GATE (hd (net_rows_of GAME_LISTEN_GATE s c)) \<in> set xs
    \<and> (\<exists>ip. Connect Db_Peer ip (ni_port (hd (net_rows DB_LISNEN_GAME c))) \<in> set xs)"
proof -
  obtain ys where "game_initDataFromDatabase env s c = (True, ys)" "set ys \<subseteq> set xs"
    using server_init_True [OF assms [unfolded game_init_def]] by blast
  then show ?thesis by (fastforce simp: game_initDataFromDatabase_def dest!: listen_on_True connect_to_True)
qed

text \<open>C25: Servers that start from one central database find each other: the gate connects to the port the login server listens on for gates, every
  game server to the port of the database server, and the gate to the address and the port of each game server, and to no others, when no
  two rows are for the same server.
\<close>

theorem servers_find_each_other:
  assumes "login_init J envL fileL c = Inr (True, login)" and "db_init J envD fileD c = Inr (True, db)"
    and "gate_init J envG g fileG c = Inr (True, gate)"
    and "\<forall>n \<in> set (net_rows GAME_LISTEN_GATE c). game_init J (envA n) (ni_id n) (fileA n) c = Inr (True, game n)"
    and "distinct (map ni_id (net_rows GAME_LISTEN_GATE c))"
  shows "(\<exists>ip p m t. Connect Login_Peer ip p \<in> set gate \<and> Listen LOGIN_LISTEN_GATE p m t \<in> set login)
    \<and> (\<forall>n \<in> set (net_rows GAME_LISTEN_GATE c).
         (\<exists>ip p m t. Connect Db_Peer ip p \<in> set (game n) \<and> Listen DB_LISNEN_GAME p m t \<in> set db)
         \<and> Connect Game_Peer (ni_ip n) (ni_port n) \<in> set gate
         \<and> Listen GAME_LISTEN_GATE (ni_port n) (ni_max_connect n) (ni_thread_count n) \<in> set (game n))
    \<and> (\<forall>ip p. Connect Game_Peer ip p \<in> set gate \<longrightarrow> (\<exists>n \<in> set (net_rows GAME_LISTEN_GATE c). ip = ni_ip n \<and> p = ni_port n))"
proof (intro conjI ballI)
  note gate = gate_init_True [OF assms(3)]
  show "\<exists>ip p m t. Connect Login_Peer ip p \<in> set gate \<and> Listen LOGIN_LISTEN_GATE p m t \<in> set login"
    using gate login_init_True(2) [OF assms(1)] unfolding listen_step_def by fastforce
  show "\<forall>ip p. Connect Game_Peer ip p \<in> set gate \<longrightarrow> (\<exists>n \<in> set (net_rows GAME_LISTEN_GATE c). ip = ni_ip n \<and> p = ni_port n)"
    using gate by (auto simp: listen_step_def)
  fix n assume n: "n \<in> set (net_rows GAME_LISTEN_GATE c)"
  note game = game_init_True [OF mp [OF spec [OF assms(4) [unfolded Ball_def]] n]]
  show "\<exists>ip p m t. Connect Db_Peer ip p \<in> set (game n) \<and> Listen DB_LISNEN_GAME p m t \<in> set db"
    using game db_init_True [OF assms(2)] unfolding listen_step_def by blast
  show "Connect Game_Peer (ni_ip n) (ni_port n) \<in> set gate" using gate n by auto
  show "Listen GAME_LISTEN_GATE (ni_port n) (ni_max_connect n) (ni_thread_count n) \<in> set (game n)"
    using game net_rows_of_distinct [OF assms(5) n] by (simp add: listen_step_def)
qed

text \<open>An instance: a JSON text is the value of ''ip'', names are addresses, every port is free, and there are two game servers.\<close>

definition demo_json :: "(string \<times> json_scalar) list json_lib" where
  "demo_json =
     \<lparr>jl_member = (\<lambda>v key. filter (\<lambda>e. fst e = key) v),
      jl_isIntegral = (\<lambda>v. case v of (_, JInt _) # _ \<Rightarrow> True | (_, JUInt _) # _ \<Rightarrow> True | _ \<Rightarrow> False),
      jl_asInt = (\<lambda>v. case v of (_, JInt n) # _ \<Rightarrow> Some n | _ \<Rightarrow> None),
      jl_asUInt = (\<lambda>v. case v of (_, JUInt n) # _ \<Rightarrow> Some (word_of_nat n) | _ \<Rightarrow> None),
      jl_isString = (\<lambda>v. case v of (_, JString _) # _ \<Rightarrow> True | _ \<Rightarrow> False),
      jl_asString = (\<lambda>v. case v of (_, JString t) # _ \<Rightarrow> t | _ \<Rightarrow> []),
      jl_set = (\<lambda>key x v. (key, x) # filter (\<lambda>e. fst e \<noteq> key) v),
      jl_parse = (\<lambda>text. Some [(''ip'', JString text)]),
      jl_write = (\<lambda>v. case v of (_, JString t) # _ \<Rightarrow> t | _ \<Rightarrow> [])\<rparr>"

definition demo_start_env :: start_env where
  "demo_start_env = \<lparr>se_resolve = Some, se_listens = (\<lambda>_. True), se_reaches = (\<lambda>_. True)\<rparr>"

definition demo_net :: "u8 \<Rightarrow> u16 \<Rightarrow> net_info" where
  "demo_net s p = \<lparr>ni_id = s, ni_ip = ''10.0.0.2'', ni_port = p, ni_time_out = 0, ni_max_connect = 100, ni_thread_count = 2\<rparr>"

definition demo_center :: center_database where
  "demo_center =
     \<lparr>cd_net = [(LOGIN_LISTEN_USER, demo_net 1 20001), (LOGIN_LISTEN_GATE, demo_net 1 20002), (GATE_LISTEN_USER, demo_net 2 20003),
                (GAME_LISTEN_GATE, demo_net 3 20004), (GAME_LISTEN_GATE, demo_net 4 20005), (DB_LISNEN_GAME, demo_net 5 20006)],
      cd_database = [(FU_CHARACTER_DATABASE, new_DataBaseConfig), (FU_WORLD_DATABASE, new_DataBaseConfig)]\<rparr>"

definition demo_game_steps :: "net_info \<Rightarrow> start_step list" where
  "demo_game_steps n =
     [listen_step GAME_LISTEN_GATE n, Connect Db_Peer ''10.0.0.2'' 20006, Start_Threads World_Database 0, Read_From World_Database,
      Read_From Character_Database, Start_Threads Character_Database 0, Start_Threads Center_Database 0]"

lemmas demo_start_defs = server_init_def addBlockTask_def loadDBConfig_def loadJson_def getUInt_Value_def getString_Value_def getIpByname_def
  demo_json_def demo_start_env_def demo_center_def demo_net_def demo_game_steps_def and_then_def listen_on_def connect_to_def
  open_database_def getNetConfig_def getDatabaseConfig_def net_rows_def net_rows_of_def database_rows_def listen_step_def
  new_net_info_def new_DataBaseConfig_def Let_def

theorem servers_find_each_other_witness:
  "\<exists>login gate db.
     login_init demo_json demo_start_env (Some ''10.0.0.9'') demo_center = Inr (True, login)
     \<and> gate_init demo_json demo_start_env 2 (Some ''10.0.0.9'') demo_center = Inr (True, gate)
     \<and> db_init demo_json demo_start_env (Some ''10.0.0.9'') demo_center = Inr (True, db)
     \<and> (\<exists>ip p m t. Connect Login_Peer ip p \<in> set gate \<and> Listen LOGIN_LISTEN_GATE p m t \<in> set login)
     \<and> Connect Game_Peer ''10.0.0.2'' 20005 \<in> set gate"
proof -
  have rows: "net_rows GAME_LISTEN_GATE demo_center = [demo_net 3 20004, demo_net 4 20005]"
    by (simp add: net_rows_def demo_center_def)
  obtain login where l: "login_init demo_json demo_start_env (Some ''10.0.0.9'') demo_center = Inr (True, login)"
    by (simp add: login_init_def login_initDataFromDatabase_def demo_start_defs)
  obtain gate where g: "gate_init demo_json demo_start_env 2 (Some ''10.0.0.9'') demo_center = Inr (True, gate)"
    by (simp add: gate_init_def gate_initDataFromDatabase_def demo_start_defs)
  obtain db where d: "db_init demo_json demo_start_env (Some ''10.0.0.9'') demo_center = Inr (True, db)"
    by (simp add: db_init_def db_initDataFromDatabase_def demo_start_defs)
  have game: "\<forall>n \<in> set (net_rows GAME_LISTEN_GATE demo_center).
      game_init demo_json demo_start_env (ni_id n) (Some ''10.0.0.9'') demo_center = Inr (True, demo_game_steps n)"
    unfolding rows by (simp add: game_init_def game_initDataFromDatabase_def demo_start_defs)
  have "distinct (map ni_id (net_rows GAME_LISTEN_GATE demo_center))" unfolding rows by (simp add: demo_net_def)
  from servers_find_each_other [OF l d g game this] l g d rows show ?thesis by (auto simp: demo_net_def)
qed

text \<open>A program whose server does not start ends with its sockets open and its network threads running; nothing is shut down.\<close>

lemma failed_start_ends_open:
  assumes "service = Inr (True, conf)" and "init conf = Inr (False, steps)"
  shows "program service init = Inr (1, Net_Start (sc_thread_count conf) (sc_proc_interval conf) # map Open steps)"
  using assms by (simp add: program_def)

end
