(* ===== verification/Spec2Isabelle.thy ===== *)
theory Spec2Isabelle
  imports Prelude Containers Call_Back Crypt Message Tcp_Session Utilities Game_Config Dream_Hero
    Slot_Table Game_Manager Gate Login Database Db_Quest Hero_Reload Event Timer_Frame Md5 Net_Pool Tcp_Server Packet Thread_Buffer Protoc_Common Tcp_Client Server_Frame Delivery Virtual_Client Robot_Starve
    Event_Callback Log Memory_Pool Update_Fields Number_Text Start_Up
begin

text \<open>
  This development models the C++ server library of HardwareServer
  (\<^verbatim>\<open>src/server/server/dreamheroes_server-master\<close>; all paths below are relative to it) and states what makes it
  correct, or shows where it is not. Every definition is translated from the source it names and computes.

  \<^bold>\<open>The program.\<close> Four servers share the library under \<^verbatim>\<open>common\<close>. A client sends its name and password to the login
  server (\<^verbatim>\<open>login\<close>), which checks them in the database, picks a gate and tells it to expect the player. The client
  connects to the gate server (\<^verbatim>\<open>gateserver\<close>) with the transaction id it was given; the gate announces the player to a
  game server and from then on passes messages between the two. The game server (\<^verbatim>\<open>gameserver\<close>) keeps the heroes in
  memory and lets the database server (\<^verbatim>\<open>databaseserver\<close>) load and save them. Each server is one main loop
  (\<^verbatim>\<open>common/server_frame.cpp\<close>) that runs callbacks, messages and timers; network threads, worker threads and database
  threads hand their results to it through queues.

  \<^bold>\<open>Theories.\<close> In the order of their dependence; each opens with a text of its own.

  \<^item> \<^verbatim>\<open>Prelude\<close>: words, pointers, faults (assertions, exceptions and undefined behaviour are values of
    \<^typ>\<open>'a result\<close>), little-endian images, ordered maps for \<^verbatim>\<open>std::map\<close>.
  \<^item> \<^verbatim>\<open>Containers\<close> (\<^verbatim>\<open>common/common_template.h\<close>): the map templates, under the contract \<open>keyed_store\<close>.
  \<^item> \<^verbatim>\<open>Call_Back\<close> (\<^verbatim>\<open>common/call_back.cpp\<close>): the double-buffered queue under all interleavings of its threads, as
    the contract \<open>double_buffer\<close>; \<^verbatim>\<open>Net_Pool\<close> (\<^verbatim>\<open>task_thread_pool.cpp\<close>, \<^verbatim>\<open>io_service_pool.cpp\<close>) and \<^verbatim>\<open>Tcp_Client\<close> interpret it again.
  \<^item> \<^verbatim>\<open>Crypt_Tables\<close>, \<^verbatim>\<open>Crypt\<close> (\<^verbatim>\<open>crypt.cpp\<close>): CRC-32 against bitwise polynomial division, burst errors, the stream
    cipher and its inverse; \<^verbatim>\<open>Encrypt_Tables\<close>, \<^verbatim>\<open>Utilities\<close> (\<^verbatim>\<open>utilities.cpp\<close>): text, numbers, dates, the string cipher. Both ciphers
    interpret the contract \<open>subst_table\<close>. \<^verbatim>\<open>Md5\<close> (\<^verbatim>\<open>md5.cpp\<close>): the digest against one over the whole message.
  \<^item> \<^verbatim>\<open>Message\<close> (\<^verbatim>\<open>message_interface.cpp\<close>) and \<^verbatim>\<open>Tcp_Session\<close> (\<^verbatim>\<open>tcpsession.cpp\<close>): frames, and one connection: reassembly from chunks
    refines a parser of the whole stream, sending keeps the order with one write at a time. \<^verbatim>\<open>Tcp_Server\<close>
    (\<^verbatim>\<open>tcpserver.cpp\<close>) and \<^verbatim>\<open>Tcp_Client\<close> (\<^verbatim>\<open>tcpclient.cpp\<close>) carry out what connections ask for, with completed
    operations and threads in any order.
  \<^item> \<^verbatim>\<open>Packet\<close> (\<^verbatim>\<open>packet_interface.h\<close>, \<^verbatim>\<open>thread_buffer.h\<close>), \<^verbatim>\<open>Thread_Buffer\<close> (\<^verbatim>\<open>thread_buffer.h\<close>) and \<^verbatim>\<open>Protoc_Common\<close>
    (\<^verbatim>\<open>protoc_common.h\<close>): values and protobuf messages in the buffers of a thread. \<^verbatim>\<open>Delivery\<close> puts them on a connection: from
    the message at one end to the callback at the other.
  \<^item> \<^verbatim>\<open>Event\<close> (\<^verbatim>\<open>event_table_object.cpp\<close>, \<^verbatim>\<open>event_manager.h\<close>): timers; \<^verbatim>\<open>Timer_Frame\<close>: when one
    fires while the others are used; \<^verbatim>\<open>Event_Callback\<close> (\<^verbatim>\<open>event_call_back.h\<close>): what they call. \<^verbatim>\<open>Database\<close> (\<^verbatim>\<open>database.cpp\<close>): task queues and threads.
  \<^item> \<^verbatim>\<open>Log\<close> (\<^verbatim>\<open>my_log.cpp\<close>, \<^verbatim>\<open>MyLog.cpp\<close>): the log functions in several threads. \<^verbatim>\<open>Memory_Pool\<close> (\<^verbatim>\<open>memory.h\<close>, \<^verbatim>\<open>object_pool.h\<close>,
    \<^verbatim>\<open>mt_buffer.h\<close>), \<^verbatim>\<open>Update_Fields\<close> (\<^verbatim>\<open>update_object.h\<close>, \<^verbatim>\<open>common_helper.h\<close>), \<^verbatim>\<open>Number_Text\<close> (\<open>itoa\<close> and the tick counter of
    \<^verbatim>\<open>utilities.cpp\<close>): helpers on their own.
  \<^item> \<^verbatim>\<open>Slot_Table\<close>: the tables of peers, as the contract \<open>peer_table\<close> that \<^verbatim>\<open>Game_Manager\<close>, \<^verbatim>\<open>Login\<close> and \<^verbatim>\<open>Db_Quest\<close> interpret.
    \<^verbatim>\<open>Game_Config\<close>, \<^verbatim>\<open>Dream_Hero\<close>, \<^verbatim>\<open>Game_Manager\<close> (\<^verbatim>\<open>gameserver\<close>), \<^verbatim>\<open>Gate\<close> (\<^verbatim>\<open>gateserver\<close>), \<^verbatim>\<open>Login\<close> (\<^verbatim>\<open>login\<close>) and
    \<^verbatim>\<open>Db_Quest\<close> (\<^verbatim>\<open>databaseserver\<close>): the four servers, one definition per handler. \<^verbatim>\<open>Hero_Reload\<close>:
    a hero saved and loaded again, over a database that stores what a REPLACE statement says.
  \<^item> \<^verbatim>\<open>Server_Frame\<close> (\<^verbatim>\<open>server_frame.cpp\<close> and the four \<^verbatim>\<open>server.cpp\<close>): the main loop, signals, and how a stop goes through
    game server and database server. \<^verbatim>\<open>Start_Up\<close> (\<^verbatim>\<open>json_help.cpp\<close>, the four \<^verbatim>\<open>server.cpp\<close> and \<^verbatim>\<open>main.cpp\<close>): configuration and start.
  \<^item> \<^verbatim>\<open>Virtual_Client\<close> (\<^verbatim>\<open>virtualclient\<close>): the robots that log in for a test; \<^verbatim>\<open>Robot_Starve\<close>: what they do when no server answers. This theory follows a player, and a failed query, through all servers.

  \<^bold>\<open>What is shown.\<close> Round trips: frames, both ciphers, packets, a hero saved and loaded again, numbers as text, and protobuf messages
  all the way from the sender to the callback of the receiver.
  Equivalence with a reference: CRC-32, MD5 in pieces, statements sent in batches. Refinement: stream reassembly. Invariants of reachable states: the
  game server, the hero, connection objects, timer counts, queues of callbacks and tasks, the lines of the log, marked update fields, the lists of
  robots. Servers that start from one database find each other. Types: what is read from any bytes is well-typed. Termination:
  an update of the timers. Liveness: timers fire on time, a lost client reconnects, a login reaches the
  game server, an orderly stop ends both servers. Where the code fails, a theorem gives the conditions: a failed write silences a client for ever, a bad
  frame length loses a connection object, all threads share the buffers of the first, a long name length stops
  the receiver, robots that fail to connect keep all others waiting, the second game server never stops, and others listed with the properties.

  \<^bold>\<open>Conventions.\<close> Integers have their width as words; lengths and positions that cannot wrap are natural numbers. A
  state is a record, an operation returns the new one and what it sends. Loops are structural or have a
  measure. The timers' update takes as many rounds as there are timers plus one, which is enough for a
  pass when the callbacks leave the list alone (\<open>update_pass\<close>); the digest's loop takes one round per block of 64 bytes and one more.
  Concurrent parts are sequences of steps, each what happens while a lock is held or between two; the
  database threads' take of a task is one step, joining stopped threads is not modelled, and the receive and callback
  queues inside \<^verbatim>\<open>Tcp_Server\<close> and the callback queue of \<^verbatim>\<open>Tcp_Client\<close> are the plain queues that \<^verbatim>\<open>Call_Back\<close> shows them to be.

  \<^bold>\<open>Parameters.\<close> Third-party code is an argument: the compression strategy of a connection, contents of
  fresh memory, rows and outcomes of database queries, \<^verbatim>\<open>gethostbyname\<close>, the JSON library, the pool of boost, protobuf's serialisation and parsing, the order of the elements of sets, and the random numbers and times of the environment.

  \<^bold>\<open>Not modelled.\<close> The generated protobuf classes; the crash dumps of the Windows build; \<^verbatim>\<open>gameserver/LocationVector.h\<close>
  (floating point, unused) and the floating-point values of JSON files, which nothing reads; the Windows dialog of
  \<^verbatim>\<open>virtualclient\<close> apart from its two lists; the class of the update mask, whose file is missing; and of \<^verbatim>\<open>utilities.cpp\<close> and its header the
  operating system calls (directories, process ids, sleeping, atomic numbers) and the pointer templates, which nothing uses.
\<close>

section \<open>Properties that span the servers\<close>

text \<open>C24: The whole way into the game. When the database has accepted a client at the login server and a
  gate is there, the login server announces the player to the gate; the gate expects him and says so; the
  login server sends the client the gate's address and the transaction id; the client presents it at the gate,
  which makes the connection the player's and announces him to its least loaded game server; and the game server
  asks the database for the hero of this account. Messages of the game server for the transaction id then reach
  this client.\<close>

theorem login_journey:
  assumes login: "ca_owner k = p" "p \<noteq> NULL" "ls_valid (lt_users l p)" "ca_acct k \<noteq> 0"
      "getIdleGate l = c" "c \<noteq> NULL" "om_find (lt_wait l) t = None"
      "makeTransId (ca_str k @ ca_pwd k @ ls_addr (lt_users l p)) now = Inr t" "ucast (ca_acct k) = a"
    and gate: "gate_ok g" "getUserSession t g = NULL" "om_find (gt_wait g) t = None"
      "us_state (gt_users g q) = Wait_Account" "q \<noteq> NULL" "getIdleGameClient g = s" "s \<noteq> NULL"
    and game: "game_ok w" "getUser t w = NULL" "GetHero a w = None" "r \<noteq> NULL" "gs_sessions w r = None"
  shows "\<exists>kick l1 g1 l2 g2 w1.
      checkAccountCall now k True l = Inr (kick @ [User_Login_LN2GT c a t], l1)
    \<and> gl_parseLoginUser t a g = ([Prepar_GT2LN (ucast t)], g1)
    \<and> parseGateUserPrepar (ucast t) c l1
        = ([Login_Success p (lg_ip (lt_gate l c)) (ucast (lg_port (lt_gate l c))) t], l2)
    \<and> us_parseLoginGame t q g1 = ([Add_User_GT2GS s t a :: 'm gate_out], g2)
    \<and> parseAddUser r gc t a w = Inr ([Db_Msg t (ReqHeroDataGS2DB a)], w1)
    \<and> getUser t w1 = r \<and> gg_parseGameMsg m t g2 = [To_User_Client q t m]"
proof -
  obtain kick l1 where l1: "checkAccountCall now k True l = Inr (kick @ [User_Login_LN2GT c a t], l1)"
      "om_find (lt_wait l1) t = Some p" "lg_ip (lt_gate l1 c) = lg_ip (lt_gate l c)"
      "lg_port (lt_gate l1 c) = lg_port (lt_gate l c)"
    using login_check_accepted [of k p l c now t] login by (auto simp del: neq0_conv)
  obtain l2 where l2: "parseGateUserPrepar (ucast t) c l1
      = ([Login_Success p (lg_ip (lt_gate l c)) (ucast (lg_port (lt_gate l c))) t], l2)"
    using prepar_answers [OF l1(2) login(2), of c] l1(3,4) by auto
  let ?g1 = "g\<lparr>gt_wait := om_set t a (gt_wait g), gt_timers := gt_timers g @ [Remove_Wait_Connect t]\<rparr>"
  have none: "om_find (gt_onlines g) t = None"
    using gate(1,2) gate_okD [OF gate(1), of t]
    by (cases "om_find (gt_onlines g) t") (auto simp: getUserSession_def ptr_map_getData_def)
  obtain g2 where g2: "us_parseLoginGame t q ?g1 = ([Add_User_GT2GS s t a :: 'm gate_out], g2)"
      "getUserSession t g2 = q"
    using parseLoginGame_waiting [of ?g1 q t a s] none gate by (auto simp: getIdleGameClient_def)
  show ?thesis
    using l1(1) l2 g2 gate(5) addToWait_fresh [OF gate(2,3), of a] addUser_new [OF game]
    by (auto simp: gl_parseLoginUser_def parseAddUser_def getUser_def ptr_map_getData_def gg_parseGameMsg_def)
qed

text \<open>A player who loses the connection and is back in time is playing again, but the gate does not tell
  the game server: there the hero is set offline when the connection is lost, and stays so.\<close>

theorem reconnected_hero_offline:
  assumes "getUserSession t g = p" and "p \<noteq> NULL" and "us_tranid (gt_users g p) = t"
    and "us_state (gt_users g p) = Connected" and "us_gs_id (gt_users g p) = gs"
    and "getGameClient g gs = c" and "c \<noteq> NULL"
    and "om_find (gt_wait g) t = None" and "om_find (gt_recon g) t = None"
    and "q \<noteq> p" and "us_state (gt_users g q) = Wait_Account"
    and "getUser t w = r" and "r \<noteq> NULL" and "gs_sessions w r = Some x"
    and "ss_hero x = Some a" and "GetHero a w = Some h"
  shows "\<exists>g1 w1 g2. us_on_close win32 p g = Inr ([Offline_User_GT2GS c t] :: 'm gate_out list, g1)
    \<and> offlineUser t w = Inr w1 \<and> GetHero a w1 = Some (set_online False h)
    \<and> us_parseLoginGame t q g1 = ([] :: 'm gate_out list, g2)
    \<and> getUserSession t g2 = q \<and> us_state (gt_users g2 q) = Connected"
proof -
  obtain g1 where g1: "us_on_close win32 p g = Inr ([Offline_User_GT2GS c t] :: 'm gate_out list, g1)"
      "om_find (gt_recon g1) t = Some gs" "om_find (gt_onlines g1) t = None"
      "om_find (gt_wait g1) t = None" "gt_users g1 q = gt_users g q"
    using on_close_connected [of g p t gs c win32] assms by metis
  obtain g2 where g2: "us_parseLoginGame t q g1 = ([] :: 'm gate_out list, g2)"
      "getUserSession t g2 = q" "us_state (gt_users g2 q) = Connected"
    using parseLoginGame_recon [of g1 q t gs] g1 assms(11) by metis
  have "offlineUser t w = Inr (put_hero a (set_online False h) (set_ss r (x\<lparr>ss_online := False\<rparr>) w))"
    using assms by (simp add: offlineUser_def setWaitReconnet_def)
  then show ?thesis using g1(1) g2 by auto
qed

text \<open>C29: When the query for a hero fails, the database server answers as for an account without a hero, and
  the game server makes a new hero for the account from the configuration; as soon as this hero is saved,
  its first statement replaces the row of the old one.\<close>

theorem failed_query_resets_hero:
  assumes "slot_get (qs_games d) gs = p" and "p \<noteq> NULL"
    and "getUser t w = r" and "r \<noteq> NULL"
    and "gs_sessions w r = Some \<lparr>ss_tranid = t, ss_account = a, ss_gate = gate, ss_online = True, ss_hero = None\<rparr>"
    and "GetHero a w = None" and "slot_get (gs_gates w) gate = q" and "q \<noteq> NULL"
  shows "dbDoQueryHeroInfo None (new_hero_query a t gs) d = [To_Game p t NeedCreateHeroDB2GS]
    \<and> (\<exists>h w2. parseNeedCreateHero t w = Inr (map (Gate_Msg q t) (init_messages h), w2) \<and> GetHero a w2 = Some h
        \<and> hd_account (h_info h) = a \<and> hd_gold (h_info h) = hc_gold (gc_hero_config (gs_config w))
        \<and> hd_level (h_info h) = hc_level (gc_hero_config (gs_config w))
        \<and> (\<forall>time out. SaveHero time h = Inr out \<longrightarrow>
              (\<exists>suits rest. out = To_Db r (SaveDataGS2DB (character_sql (h_info h) suits)) # rest)))"
proof -
  have "dbDoQueryHeroInfo None (new_hero_query a t gs) d = [To_Game p t NeedCreateHeroDB2GS]"
    using assms(1,2) by (simp add: dbDoQueryHeroInfo_def quest_sendMessage_def new_hero_query_def)
  moreover obtain h w2 where h: "parseNeedCreateHero t w = Inr (map (Gate_Msg q t) (init_messages h), w2)"
      "GetHero a w2 = Some h"
      "h = (set_account a (set_session r (fst (LoadFromConfig (gs_config w) new_hero))))\<lparr>h_save_event := True, h_online := True\<rparr>"
    using need_create_new_hero [OF assms(3-5) refl assms(6-8)] by blast
  moreover have "h_session h = r" "hd_account (h_info h) = a"
      "hd_gold (h_info h) = hc_gold (gc_hero_config (gs_config w))"
      "hd_level (h_info h) = hc_level (gc_hero_config (gs_config w))"
    by (simp_all add: h(3) set_account_def set_session_def LoadFromConfig_def Let_def case_prod_unfold)
  moreover have "\<exists>suits rest. out = To_Db (h_session h) (SaveDataGS2DB (character_sql (h_info h) suits)) # rest"
    if "SaveHero time h = Inr out" for time out
    using that by (auto simp: SaveHero_def send_db_def sprintf_to_def Let_def split: if_splits)
  ultimately show ?thesis by metis
qed

section \<open>Concrete instances\<close>

theorem login_journey_witness:
  "\<exists>t kick l1 l2. checkAccountCall 1000 demo_check True demo_login = Inr (kick @ [User_Login_LN2GT 4 11 t], l1)
     \<and> parseGateUserPrepar (ucast t) 4 l1 = ([Login_Success 1 ''127.0.0.1'' 9000 t], l2)"
proof -
  let ?g = "us_on_accept 6 (gg_parseGameRegister 1 9 (new_gate 100))"
  obtain t where t: "makeTransId (ca_str demo_check @ ca_pwd demo_check @ ''10.0.0.1'') 1000 = Inr t"
    using makeTransId_total by blast
  have "gate_ok ?g" "getUserSession t ?g = NULL" "om_find (gt_wait ?g) t = None"
      "us_state (gt_users ?g 6) = Wait_Account"
    by (simp_all add: us_on_accept_def gate_ok_def set_user_def gg_parseGameRegister_def addActiveGameClient_def
        new_gate_def getUserSession_def ptr_map_getData_def setState_def Let_def)
  moreover have "getIdleGameClient ?g = 9" by code_simp
  moreover have "getUser t (new_game empty_config) = NULL" "GetHero 11 (new_game empty_config) = None"
      "gs_sessions (new_game empty_config) 3 = None"
    by (simp_all add: new_game_def getUser_def ptr_map_getData_def GetHero_def)
  moreover have "lg_ip (lt_gate demo_login 4) = ''127.0.0.1''" "lg_port (lt_gate demo_login 4) = 9000"
    by (simp_all add: demo_login_def put_gate_def login_addGate_def ls_on_accept_def put_session_def new_login_gate_def)
  ultimately show ?thesis
    using login_journey [of demo_check 1 demo_login 4 t 1000 11 ?g 6 9 "new_game empty_config" 3 0 "()"]
      demo_login_facts t game_ok_new by (auto simp del: append_assoc)
qed

theorem reconnected_hero_offline_witness:
  "\<exists>w1. offlineUser 1 (put_hero 11 new_hero (set_ss 3 \<lparr>ss_tranid = 1, ss_account = 11, ss_gate = 1, ss_online = True,
      ss_hero = Some 11\<rparr> (new_game empty_config\<lparr>gs_onlines := [(1, 3)]\<rparr>))) = Inr w1
    \<and> GetHero 11 w1 = Some (set_online False new_hero)"
proof -
  let ?w = "put_hero 11 new_hero (set_ss 3 \<lparr>ss_tranid = 1, ss_account = 11, ss_gate = 1, ss_online = True,
      ss_hero = Some 11\<rparr> (new_game empty_config\<lparr>gs_onlines := [(1, 3)]\<rparr>))"
  have "getUser 1 ?w = 3" "GetHero 11 ?w = Some new_hero"
      "gs_sessions ?w 3 = Some \<lparr>ss_tranid = 1, ss_account = 11, ss_gate = 1, ss_online = True, ss_hero = Some 11\<rparr>"
    by (simp_all add: getUser_def ptr_map_getData_def set_ss_def put_hero_def GetHero_def)
  with reconnected_hero_offline [of 1 demo_gate 5 1 9 6 ?w 3 _ 11 new_hero True, where 'm = unit] demo_facts
  show ?thesis by auto
qed

theorem failed_query_resets_hero_witness:
  "\<exists>h w2. parseNeedCreateHero 7 (set_ss 3 \<lparr>ss_tranid = 7, ss_account = 9, ss_gate = 5, ss_online = True, ss_hero = None\<rparr>
      (new_game empty_config\<lparr>gs_gates := no_slots[5 := 2], gs_onlines := [(7, 3)]\<rparr>)) = Inr (map (Gate_Msg 2 7) (init_messages h), w2)
    \<and> hd_account (h_info h) = 9"
proof -
  let ?w = "set_ss 3 \<lparr>ss_tranid = 7, ss_account = 9, ss_gate = 5, ss_online = True, ss_hero = None\<rparr>
      (new_game empty_config\<lparr>gs_gates := no_slots[5 := 2], gs_onlines := [(7, 3)]\<rparr>)"
  let ?d = "new_quest\<lparr>qs_games := no_slots[1 := 4]\<rparr>"
  have "slot_get (qs_games ?d) 1 = 4" "slot_get (gs_gates ?w) 5 = 2"
    by (simp_all add: slot_get_def valid_slot_def MAX_GATE_ID_def no_slots_def)
  moreover have "getUser 7 ?w = 3" "GetHero 9 ?w = None"
      "gs_sessions ?w 3 = Some \<lparr>ss_tranid = 7, ss_account = 9, ss_gate = 5, ss_online = True, ss_hero = None\<rparr>"
    by (simp_all add: getUser_def ptr_map_getData_def GetHero_def new_game_def set_ss_def)
  ultimately show ?thesis
    using failed_query_resets_hero [of ?d 1 4 7 ?w 3 9 5 2] by auto
qed

end
